(* ===== verification/Prelude.thy ===== *)
theory Prelude
  imports Main "HOL-Library.Word"
begin

text \<open>
  What every component of the model shares: the ways an execution can go wrong, the
  result type of an operation that may fail, the collections of rewrite rules that
  carry the component proofs, and generic facts on lists and machine words.

  An operation of the library that may stop the protection domain returns
  \<open>fault + 'a\<close>: \<open>Inl\<close> is an execution that never returns to its caller, \<open>Inr\<close> the
  normal result. The library's own error codes (\<open>internal_co_fatal_errors_t\<close> of
  \<open>libmicrokitco.c\<close>) are one kind of fault; the others are what the C language or
  the hardware leaves the code to run into.
\<close>

named_theorems queue_simps \<open>rewriting of the hosted queue operations\<close>
named_theorems result_simps \<open>rewriting of results that may be a fault\<close>
named_theorems ctl_simps \<open>rewriting of the accessors of the controller\<close>

type_synonym addr = "64 word"

subsection \<open>Fatal error codes and faults\<close>

text \<open>
  The enumeration of fatal error codes. \<open>reserved\<close> is 0, so that no error code is the
  null address.
\<close>

datatype internal_co_fatal_errors_t =
    reserved
  | cannot_destroy_self_after_return
  | co_err_sem_sig_once_cannot_schedule_caller
  | destroy_cannot_destroy_root
  | destroy_cannot_release_handle
  | destroy_already_not_initialised
  | generic_invalid_handle
  | init_already_initialised
  | init_co_stack_null
  | init_co_stack_overlap
  | init_free_handles_init_fail
  | init_free_handles_populate_fail
  | init_num_costacks_not_equal_defined
  | init_sched_init_fail
  | init_stack_too_small
  | internal_pop_from_queue_cannot_pop
  | internal_pop_from_queue_found_non_ready_cothread_in_schedule_queue
  | my_arg_called_from_root
  | recv_ntfn_called_from_non_root_cothread
  | recv_ntfn_invalid_channel
  | spawn_cannot_schedule_new
  | spawn_client_entry_is_null
  | wait_on_channel_invalid_channel
  | yield_cannot_schedule_caller

text \<open>
  \<open>Panic\<close> is \<open>microkit_cothread_panic\<close>: a store to the error code taken as an address,
  then an endless loop. \<open>VMFault\<close> is an access to an unmapped byte, \<open>IllegalInstruction\<close> a
  code word that is no instruction. The other three are undefined behaviour in C that a
  faithful model must not paper over: an index outside an array, a null controller, a
  remainder by zero or a signed overflow.
\<close>

datatype fault =
    Panic internal_co_fatal_errors_t
  | VMFault addr
  | IllegalInstruction
  | OutOfBounds
  | NullController
  | ArithFault

definition microkit_cothread_panic :: "internal_co_fatal_errors_t \<Rightarrow> fault + 'a" where
  "microkit_cothread_panic err = Inl (Panic err)"

subsection \<open>Sequencing\<close>

text \<open>
  \<open>bindR m f\<close> runs \<open>m\<close> and hands its result to \<open>f\<close>; a fault of \<open>m\<close> ends the whole.
\<close>

fun bindR :: "'e + 'a \<Rightarrow> ('a \<Rightarrow> 'e + 'b) \<Rightarrow> 'e + 'b" where
  "bindR (Inl e) f = Inl e"
| "bindR (Inr x) f = f x"

lemma bindR_Inr_iff [result_simps]: "bindR m f = Inr y \<longleftrightarrow> (\<exists>x. m = Inr x \<and> f x = Inr y)"
  by (cases m) auto

lemma bindR_InrE:
  assumes "bindR m f = Inr y"
  obtains x where "m = Inr x" and "f x = Inr y"
  using assms by (cases m) auto

lemma bindR_Inl_iff: "bindR m f = Inl e \<longleftrightarrow> m = Inl e \<or> (\<exists>x. m = Inr x \<and> f x = Inl e)"
  by (cases m) auto

lemma bindR_if: "bindR (if b then x else y) f = (if b then bindR x f else bindR y f)"
  by simp

lemma bindR_assoc: "bindR (bindR m f) g = bindR m (\<lambda>x. bindR (f x) g)"
  by (cases m) auto

text \<open>
  The same for code that may run forever: \<open>None\<close> is a run that does not return.
\<close>

fun bindP :: "('e + 'a) option \<Rightarrow> ('a \<Rightarrow> ('e + 'b) option) \<Rightarrow> ('e + 'b) option" where
  "bindP None f = None"
| "bindP (Some (Inl e)) f = Some (Inl e)"
| "bindP (Some (Inr x)) f = f x"

lemma panic_not_Inr [simp]: "microkit_cothread_panic err \<noteq> Inr x"
  by (simp add: microkit_cothread_panic_def)

lemma bindR_panic [simp]: "bindR (microkit_cothread_panic err) f = microkit_cothread_panic err"
  by (simp add: microkit_cothread_panic_def)

subsection \<open>Lists\<close>

lemma distinct_subset_length:
  "distinct xs \<Longrightarrow> set xs \<subseteq> A \<Longrightarrow> finite A \<Longrightarrow> length xs \<le> card A"
  by (metis card_mono distinct_card)

lemma nth_list_update_if:
  "i < length xs \<Longrightarrow> xs[i := x] ! j = (if i = j then x else xs ! j)"
  by (auto simp: nth_list_update)

lemma hd_append_if: "hd (xs @ ys) = (if xs = [] then hd ys else hd xs)"
  by simp

lemma add_mod_cancel_small:
  fixes h i j n :: nat
  assumes "(h + i) mod n = (h + j) mod n" and "i < n" and "j < n"
  shows "i = j"
proof -
  have "int n dvd int (h + i) - int (h + j)"
    using assms(1) by (metis mod_eq_dvd_iff of_nat_mod)
  then have "int n dvd int i - int j" by simp
  moreover have "\<bar>int i - int j\<bar> < int n" using assms(2,3) by linarith
  ultimately have "int i - int j = 0"
    by (metis abs_of_nat dvd_imp_le_int not_le)
  then show ?thesis by simp
qed

subsection \<open>Machine words\<close>

lemma unat_add_one:
  fixes w :: "'a::len word"
  assumes "unat w + 1 < 2 ^ LENGTH('a)"
  shows "unat (w + 1) = unat w + 1"
  using assms by (simp add: unat_word_ariths)

lemma unat_add_one_lt:
  fixes w v :: "'a::len word"
  assumes "w < v"
  shows "unat (w + 1) = unat w + 1"
proof -
  have "unat w < unat v" using assms by (simp add: word_less_nat_alt)
  moreover have "unat v < 2 ^ LENGTH('a)" by simp
  ultimately show ?thesis by (intro unat_add_one) linarith
qed

lemma unat_sub_one:
  fixes w :: "'a::len word"
  assumes "w \<noteq> 0"
  shows "unat (w - 1) = unat w - 1"
  using assms by (rule unat_minus_one)

lemma unat_uminus:
  fixes d :: "'a::len word"
  assumes "d \<noteq> 0"
  shows "unat (- d) = 2 ^ LENGTH('a) - unat d"
proof -
  have "unat (d + - d) = 0" by simp
  moreover have "unat d \<noteq> 0" using assms by (simp add: unat_eq_zero)
  ultimately show ?thesis using unat_plus_if' [of d "- d"] by (auto split: if_splits)
qed

lemma unat_align_down:
  fixes w :: "'a::len word"
  shows "unat (and w (not (mask n))) = 2 ^ n * (unat w div 2 ^ n)"
proof -
  have *: "and w (not (mask n)) = push_bit n (drop_bit n w)"
    by (rule bit_word_eqI)
      (auto simp: bit_and_iff bit_not_iff bit_mask_iff bit_push_bit_iff bit_drop_bit_eq)
  have "2 ^ n * (unat w div 2 ^ n) \<le> unat w" by simp
  also have "unat w < 2 ^ LENGTH('a)" by simp
  finally have "take_bit LENGTH('a) (2 ^ n * (unat w div 2 ^ n)) = 2 ^ n * (unat w div 2 ^ n)"
    by (simp add: take_bit_nat_eq_self)
  then show ?thesis
    unfolding * unsigned_push_bit_eq unat_drop_bit_eq
    by (simp add: push_bit_eq_mult drop_bit_eq_div mult.commute)
qed

end
