(* ===== verification/HostedQueue.thy ===== *)
theory HostedQueue
  imports Prelude
begin

text \<open>
  \<open>libhostedqueue/libhostedqueue.h\<close>: a circular queue of fixed capacity whose storage
  the caller provides. The control block keeps its four \<open>unsigned\<close> fields at their
  width of 32 bits; the storage is a list that the operations index with bounds checks,
  so that an index outside it is the fault \<open>OutOfBounds\<close>.

  The theory gives the operations, the invariant of a queue in use and the list of
  items it stands for, and the contract \<open>bounded_fifo\<close> that the scheduler relies on,
  interpreted on these operations.
\<close>

subsection \<open>The control block and the operations\<close>

abbreviation (input) LIBHOSTEDQUEUE_NOERR :: int where "LIBHOSTEDQUEUE_NOERR \<equiv> 0"
abbreviation (input) LIBHOSTEDQUEUE_ERR_INVALID_ARGS :: int where "LIBHOSTEDQUEUE_ERR_INVALID_ARGS \<equiv> 1"
abbreviation (input) LIBHOSTEDQUEUE_ERR_FULL :: int where "LIBHOSTEDQUEUE_ERR_FULL \<equiv> 2"
abbreviation (input) LIBHOSTEDQUEUE_ERR_EMPTY :: int where "LIBHOSTEDQUEUE_ERR_EMPTY \<equiv> 3"

record hosted_queue_t =
  hq_capacity :: "32 word"
  hq_items :: "32 word"
  hq_head :: "32 word"
  hq_tail :: "32 word"

definition hostedqueue_init :: "hosted_queue_t \<Rightarrow> 32 word \<Rightarrow> int \<times> hosted_queue_t" where
  "hostedqueue_init q capacity =
     (if capacity < 1 then (LIBHOSTEDQUEUE_ERR_INVALID_ARGS, q)
      else (LIBHOSTEDQUEUE_NOERR,
            q\<lparr>hq_capacity := capacity, hq_items := 0, hq_head := 0, hq_tail := 0\<rparr>))"

definition queue_read :: "'a list \<Rightarrow> 32 word \<Rightarrow> fault + 'a" where
  "queue_read mem i = (if unat i < length mem then Inr (mem ! unat i) else Inl OutOfBounds)"

definition queue_write :: "'a list \<Rightarrow> 32 word \<Rightarrow> 'a \<Rightarrow> fault + 'a list" where
  "queue_write mem i x = (if unat i < length mem then Inr (mem[unat i := x]) else Inl OutOfBounds)"

definition word_rem :: "32 word \<Rightarrow> 32 word \<Rightarrow> fault + 32 word" where
  "word_rem a b = (if b = 0 then Inl ArithFault else Inr (a mod b))"

text \<open>
  The \<open>ret\<close> argument is the caller's variable: the result is its new value, unchanged
  when the queue is empty.
\<close>

definition hostedqueue_peek ::
    "hosted_queue_t \<Rightarrow> 'a list \<Rightarrow> 'a \<Rightarrow> fault + (int \<times> 'a)" where
  "hostedqueue_peek q mem ret =
     (if hq_items q = 0 then Inr (LIBHOSTEDQUEUE_ERR_EMPTY, ret)
      else bindR (queue_read mem (hq_head q)) (\<lambda>x. Inr (LIBHOSTEDQUEUE_NOERR, x)))"

definition hostedqueue_pop ::
    "hosted_queue_t \<Rightarrow> 'a list \<Rightarrow> 'a \<Rightarrow> fault + (int \<times> hosted_queue_t \<times> 'a)" where
  "hostedqueue_pop q mem ret =
     bindR (hostedqueue_peek q mem ret) (\<lambda>(err, ret').
       if err = LIBHOSTEDQUEUE_NOERR then
         bindR (word_rem (hq_head q + 1) (hq_capacity q)) (\<lambda>h.
           Inr (err, q\<lparr>hq_head := h, hq_items := hq_items q - 1\<rparr>, ret'))
       else Inr (err, q, ret'))"

definition hostedqueue_push ::
    "hosted_queue_t \<Rightarrow> 'a list \<Rightarrow> 'a \<Rightarrow> fault + (int \<times> hosted_queue_t \<times> 'a list)" where
  "hostedqueue_push q mem item =
     (if hq_items q = hq_capacity q then Inr (LIBHOSTEDQUEUE_ERR_FULL, q, mem)
      else bindR (queue_write mem (hq_tail q) item) (\<lambda>mem'.
             bindR (word_rem (hq_tail q + 1) (hq_capacity q)) (\<lambda>t.
               Inr (LIBHOSTEDQUEUE_NOERR,
                    q\<lparr>hq_items := hq_items q + 1, hq_tail := t\<rparr>, mem'))))"

subsection \<open>The invariant and the list a queue stands for\<close>

text \<open>
  The storage is as long as the capacity says, both indices are inside it, and the
  distance from the head to the tail, around the end of the storage, is the count.
\<close>

definition hq_inv :: "hosted_queue_t \<Rightarrow> 'a list \<Rightarrow> bool" where
  "hq_inv q mem \<longleftrightarrow>
     0 < unat (hq_capacity q) \<and> length mem = unat (hq_capacity q) \<and>
     unat (hq_items q) \<le> unat (hq_capacity q) \<and>
     unat (hq_head q) < unat (hq_capacity q) \<and>
     unat (hq_tail q) = (unat (hq_head q) + unat (hq_items q)) mod unat (hq_capacity q)"

definition hq_cap :: "hosted_queue_t \<Rightarrow> nat" where
  "hq_cap q = unat (hq_capacity q)"

definition ring :: "'a list \<Rightarrow> nat \<Rightarrow> nat \<Rightarrow> 'a list" where
  "ring mem h n = map (\<lambda>i. mem ! ((h + i) mod length mem)) [0..<n]"

definition hq_list :: "hosted_queue_t \<Rightarrow> 'a list \<Rightarrow> 'a list" where
  "hq_list q mem = ring mem (unat (hq_head q)) (unat (hq_items q))"

lemma length_ring [simp]: "length (ring mem h n) = n"
  by (simp add: ring_def)

lemma ring_0 [simp]: "ring mem h 0 = []"
  by (simp add: ring_def)

lemma ring_mod: "ring mem (h mod length mem) n = ring mem h n"
  by (simp add: ring_def mod_simps)

lemma ring_Suc_front: "ring mem h (Suc n) = mem ! (h mod length mem) # ring mem (Suc h) n"
  unfolding ring_def by (subst upt_conv_Cons) (auto simp del: upt_Suc simp flip: map_Suc_upt)

lemma ring_Suc_back:
  assumes "n < length mem"
  shows "ring (mem[(h + n) mod length mem := x]) h (Suc n) = ring mem h n @ [x]"
proof -
  have other: "(h + n) mod length mem \<noteq> (h + i) mod length mem" if "i < n" for i
    using that assms by (metis add_mod_cancel_small less_trans nat_less_le)
  have "0 < length mem" using assms by (cases mem) auto
  then show ?thesis using other by (auto simp: ring_def)
qed

lemma length_hq_list [queue_simps]: "length (hq_list q mem) = unat (hq_items q)"
  by (simp add: hq_list_def)

lemma hq_list_Nil_iff: "hq_list q mem = [] \<longleftrightarrow> hq_items q = 0"
  by (metis length_hq_list length_0_conv unat_eq_zero)

lemma hq_inv_bounds:
  assumes "hq_inv q mem"
  shows "length (hq_list q mem) \<le> hq_cap q" and "0 < hq_cap q"
    and "unat (hq_head q) < length mem" and "unat (hq_tail q) < length mem"
  using assms by (auto simp: hq_inv_def hq_list_def hq_cap_def)

text \<open>Stepping an index around the end of the storage never wraps the 32-bit word.\<close>

lemma unat_step_mod:
  assumes "unat i < unat (c :: 32 word)"
  shows "unat ((i + 1) mod c) = Suc (unat i) mod unat c"
  using assms unat_add_one_lt [of i c] by (simp add: word_less_nat_alt unat_mod_distrib)

lemma hostedqueue_init_ok:
  assumes "0 < unat c"
  shows "hostedqueue_init q c =
           (LIBHOSTEDQUEUE_NOERR, \<lparr>hq_capacity = c, hq_items = 0, hq_head = 0, hq_tail = 0\<rparr>)"
  using assms by (cases q) (auto simp: hostedqueue_init_def word_less_nat_alt)

lemma hq_inv_init:
  assumes "0 < unat c" and "length mem = unat c"
  shows "hq_inv (snd (hostedqueue_init q c)) mem"
    and "hq_list (snd (hostedqueue_init q c)) mem = []"
    and "hq_cap (snd (hostedqueue_init q c)) = unat c"
  using assms by (auto simp: hostedqueue_init_ok hq_inv_def hq_list_def hq_cap_def)

lemma hostedqueue_push_full:
  assumes "length (hq_list q mem) = hq_cap q"
  shows "hostedqueue_push q mem x = Inr (LIBHOSTEDQUEUE_ERR_FULL, q, mem)"
  using assms by (simp add: hostedqueue_push_def hq_list_def hq_cap_def word_unat_eq_iff)

lemma hostedqueue_push_room:
  assumes inv: "hq_inv q mem" and room: "length (hq_list q mem) < hq_cap q"
  shows "\<exists>q' mem'. hostedqueue_push q mem x = Inr (LIBHOSTEDQUEUE_NOERR, q', mem') \<and>
           hq_inv q' mem' \<and> hq_list q' mem' = hq_list q mem @ [x] \<and>
           hq_cap q' = hq_cap q"
proof -
  let ?q = "q\<lparr>hq_items := hq_items q + 1, hq_tail := (hq_tail q + 1) mod hq_capacity q\<rparr>"
  let ?m = "mem[unat (hq_tail q) := x]"
  have items: "unat (hq_items q) < unat (hq_capacity q)"
    using room by (simp add: hq_list_def hq_cap_def)
  then have items': "unat (hq_items q + 1) = Suc (unat (hq_items q))"
    using unat_add_one_lt [of "hq_items q" "hq_capacity q"] by (simp add: word_less_nat_alt)
  have tail: "unat (hq_tail q) < unat (hq_capacity q)" and cap: "hq_capacity q \<noteq> 0"
    and len: "length mem = unat (hq_capacity q)"
    using inv by (auto simp: hq_inv_def)
  have push: "hostedqueue_push q mem x = Inr (LIBHOSTEDQUEUE_NOERR, ?q, ?m)"
    using items tail cap len
    by (auto simp: hostedqueue_push_def queue_write_def word_rem_def)
  have "hq_inv ?q ?m"
    using inv items items' unat_step_mod [OF tail] by (auto simp: hq_inv_def mod_simps)
  moreover have "hq_list ?q ?m = hq_list q mem @ [x]"
    using inv items items' ring_Suc_back [of "unat (hq_items q)" mem "unat (hq_head q)" x]
    by (simp add: hq_list_def hq_inv_def)
  ultimately show ?thesis using push by (auto simp: hq_cap_def)
qed

lemma hostedqueue_pop_empty:
  assumes "hq_list q mem = []"
  shows "hostedqueue_pop q mem r = Inr (LIBHOSTEDQUEUE_ERR_EMPTY, q, r)"
  using assms by (simp add: hq_list_Nil_iff hostedqueue_pop_def hostedqueue_peek_def)

lemma hostedqueue_peek_front:
  assumes "hq_inv q mem" and "hq_list q mem = x # xs"
  shows "hostedqueue_peek q mem r = Inr (LIBHOSTEDQUEUE_NOERR, x)"
proof -
  obtain n where n: "unat (hq_items q) = Suc n"
    using assms(2) by (metis length_hq_list length_Cons)
  then have "mem ! unat (hq_head q) = x"
    using assms by (simp add: hq_list_def ring_Suc_front hq_inv_def)
  moreover have "hq_items q \<noteq> 0" using n by auto
  ultimately show ?thesis
    using assms(1) by (simp add: hostedqueue_peek_def queue_read_def hq_inv_def)
qed

lemma hostedqueue_pop_front:
  assumes inv: "hq_inv q mem" and list: "hq_list q mem = x # xs"
  shows "\<exists>q'. hostedqueue_pop q mem r = Inr (LIBHOSTEDQUEUE_NOERR, q', x) \<and>
           hq_inv q' mem \<and> hq_list q' mem = xs \<and> hq_cap q' = hq_cap q"
proof -
  let ?q = "q\<lparr>hq_head := (hq_head q + 1) mod hq_capacity q, hq_items := hq_items q - 1\<rparr>"
  obtain n where n: "unat (hq_items q) = Suc n"
    using list by (metis length_hq_list length_Cons)
  then have n': "unat (hq_items q - 1) = n"
    by (metis diff_Suc_1 nat.distinct(1) unat_0 unat_sub_one)
  have head: "unat (hq_head q) < unat (hq_capacity q)" and cap: "hq_capacity q \<noteq> 0"
    and len: "length mem = unat (hq_capacity q)"
    using inv by (auto simp: hq_inv_def)
  have pop: "hostedqueue_pop q mem r = Inr (LIBHOSTEDQUEUE_NOERR, ?q, x)"
    using hostedqueue_peek_front [OF inv list] cap
    by (simp add: hostedqueue_pop_def word_rem_def)
  have "hq_inv ?q mem"
    using inv n n' unat_step_mod [OF head] by (auto simp: hq_inv_def mod_simps)
  moreover have "hq_list ?q mem = xs"
    using list n n' len unat_step_mod [OF head] ring_mod [of mem "Suc (unat (hq_head q))" n]
    by (simp add: hq_list_def ring_Suc_front)
  ultimately show ?thesis using pop by (auto simp: hq_cap_def)
qed

subsection \<open>The contract of a bounded queue\<close>

text \<open>
  What the scheduler needs of its queues: a state of two parts (control block and
  storage), the list it stands for, a capacity, and what \<open>push\<close> and \<open>pop\<close> do on every
  branch. \<open>push_all\<close> is the loop that fills the queue of free handles.
\<close>

fun push_all ::
    "('q \<Rightarrow> 'm \<Rightarrow> 'a \<Rightarrow> fault + (int \<times> 'q \<times> 'm)) \<Rightarrow> 'q \<Rightarrow> 'm \<Rightarrow> 'a list \<Rightarrow> fault + (int \<times> 'q \<times> 'm)" where
  "push_all push q m [] = Inr (LIBHOSTEDQUEUE_NOERR, q, m)"
| "push_all push q m (x # xs) =
     bindR (push q m x) (\<lambda>(err, q', m').
       if err = LIBHOSTEDQUEUE_NOERR then push_all push q' m' xs else Inr (err, q', m'))"

fun pop_all ::
    "('q \<Rightarrow> 'm \<Rightarrow> 'a \<Rightarrow> fault + (int \<times> 'q \<times> 'a)) \<Rightarrow> 'q \<Rightarrow> 'm \<Rightarrow> 'a \<Rightarrow> nat \<Rightarrow> fault + ('q \<times> 'a list)" where
  "pop_all pop q m r 0 = Inr (q, [])"
| "pop_all pop q m r (Suc n) =
     bindR (pop q m r) (\<lambda>(err, q', x).
       if err = LIBHOSTEDQUEUE_NOERR
       then bindR (pop_all pop q' m r n) (\<lambda>(q'', xs). Inr (q'', x # xs))
       else Inr (q', []))"

locale bounded_fifo =
  fixes inv :: "'q \<Rightarrow> 'm \<Rightarrow> bool"
    and items :: "'q \<Rightarrow> 'm \<Rightarrow> 'a list"
    and cap :: "'q \<Rightarrow> nat"
    and push :: "'q \<Rightarrow> 'm \<Rightarrow> 'a \<Rightarrow> fault + (int \<times> 'q \<times> 'm)"
    and pop :: "'q \<Rightarrow> 'm \<Rightarrow> 'a \<Rightarrow> fault + (int \<times> 'q \<times> 'a)"
  assumes bounded: "inv q m \<Longrightarrow> length (items q m) \<le> cap q"
    and push_full: "inv q m \<Longrightarrow> length (items q m) = cap q \<Longrightarrow>
      push q m x = Inr (LIBHOSTEDQUEUE_ERR_FULL, q, m)"
    and push_room: "inv q m \<Longrightarrow> length (items q m) < cap q \<Longrightarrow>
      \<exists>q' m'. push q m x = Inr (LIBHOSTEDQUEUE_NOERR, q', m') \<and> inv q' m' \<and>
        items q' m' = items q m @ [x] \<and> cap q' = cap q"
    and pop_empty: "inv q m \<Longrightarrow> items q m = [] \<Longrightarrow>
      pop q m r = Inr (LIBHOSTEDQUEUE_ERR_EMPTY, q, r)"
    and pop_front: "inv q m \<Longrightarrow> items q m = x # xs \<Longrightarrow>
      \<exists>q'. pop q m r = Inr (LIBHOSTEDQUEUE_NOERR, q', x) \<and> inv q' m \<and>
        items q' m = xs \<and> cap q' = cap q"
begin

lemma push_total:
  assumes "inv q m"
  shows "\<exists>err q' m'. push q m x = Inr (err, q', m') \<and> inv q' m' \<and> cap q' = cap q \<and>
    (if length (items q m) < cap q
     then err = LIBHOSTEDQUEUE_NOERR \<and> items q' m' = items q m @ [x]
     else err = LIBHOSTEDQUEUE_ERR_FULL \<and> items q' m' = items q m)"
  using assms push_room [OF assms, of x] push_full [OF assms, of x] bounded [OF assms]
  by (cases "length (items q m) < cap q") auto

lemma push_all_room:
  assumes "inv q m" and "length (items q m) + length xs \<le> cap q"
  shows "\<exists>q' m'. push_all push q m xs = Inr (LIBHOSTEDQUEUE_NOERR, q', m') \<and> inv q' m' \<and>
    items q' m' = items q m @ xs \<and> cap q' = cap q"
  using assms
proof (induction xs arbitrary: q m)
  case Nil
  then show ?case by simp
next
  case (Cons x xs)
  then obtain q1 m1 where "push q m x = Inr (LIBHOSTEDQUEUE_NOERR, q1, m1)" "inv q1 m1"
    "items q1 m1 = items q m @ [x]" "cap q1 = cap q"
    using push_room [of q m x] by auto
  with Cons.IH [of q1 m1] Cons.prems(2) show ?case by auto
qed

lemma pop_all_items:
  assumes "inv q m" and "n \<le> length (items q m)"
  shows "\<exists>q'. pop_all pop q m r n = Inr (q', take n (items q m)) \<and> inv q' m \<and>
    items q' m = drop n (items q m) \<and> cap q' = cap q"
  using assms
proof (induction n arbitrary: q)
  case 0
  then show ?case by simp
next
  case (Suc n)
  then obtain x xs where xs: "items q m = x # xs" by (cases "items q m") auto
  with pop_front [OF Suc.prems(1) this] obtain q1
    where "pop q m r = Inr (LIBHOSTEDQUEUE_NOERR, q1, x)" "inv q1 m" "items q1 m = xs"
      "cap q1 = cap q" by blast
  with Suc.IH [of q1] Suc.prems(2) xs show ?case by fastforce
qed

text \<open>First in, first out: what was pushed onto an empty queue comes out in order.\<close>

lemma fifo:
  assumes "inv q m" and "items q m = []" and "length xs \<le> cap q"
  shows "\<exists>q' m' q''. push_all push q m xs = Inr (LIBHOSTEDQUEUE_NOERR, q', m') \<and>
    pop_all pop q' m' r (length xs) = Inr (q'', xs) \<and> inv q'' m' \<and> items q'' m' = []"
proof -
  obtain q' m' where p: "push_all push q m xs = Inr (LIBHOSTEDQUEUE_NOERR, q', m')"
    and i: "inv q' m'" "items q' m' = xs"
    using push_all_room [of q m xs] assms by auto
  with pop_all_items [of q' m' "length xs" r] show ?thesis by auto
qed

end

interpretation hq: bounded_fifo hq_inv hq_list hq_cap hostedqueue_push hostedqueue_pop
  by unfold_locales
    (simp_all add: hq_inv_bounds(1) hostedqueue_push_full hostedqueue_push_room
      hostedqueue_pop_empty hostedqueue_pop_front)

subsection \<open>Properties\<close>

text \<open>
  A queue is first in, first out over its whole capacity: on a queue just initialised
  any items that fit are accepted, come out in the order in which they went in, and leave
  it empty.
\<close>

theorem queue_fifo:
  assumes "0 < unat capacity" and "length mem = unat capacity" and "length xs \<le> unat capacity"
  shows "\<exists>q m q'. push_all hostedqueue_push (snd (hostedqueue_init q0 capacity)) mem xs
      = Inr (LIBHOSTEDQUEUE_NOERR, q, m) \<and>
    pop_all hostedqueue_pop q m r (length xs) = Inr (q', xs) \<and> hq_items q' = 0"
  using hq.fifo [of "snd (hostedqueue_init q0 capacity)" mem xs r] hq_inv_init [OF assms(1,2), of q0]
    assms(3) by (auto simp: hq_list_Nil_iff)

theorem queue_fifo_example:
  "\<exists>q m q'. push_all hostedqueue_push (snd (hostedqueue_init \<lparr>hq_capacity = 0, hq_items = 0,
      hq_head = 0, hq_tail = 0\<rparr> 3)) [0, 0, 0 :: int] [7, 8, 9] = Inr (LIBHOSTEDQUEUE_NOERR, q, m) \<and>
    pop_all hostedqueue_pop q m 0 (length [7, 8, 9 :: int]) = Inr (q', [7, 8, 9]) \<and> hq_items q' = 0"
  by (rule queue_fifo) simp_all

text \<open>
  C27: In every state of a queue in use both operations return, never index outside the
  storage, and refine a bounded list: \<open>push\<close> appends, or reports a full queue and changes
  nothing; \<open>pop\<close> takes the front, or reports an empty queue, changes nothing and leaves the
  caller's variable alone.
\<close>

theorem queue_refines_list:
  assumes "hq_inv q m"
  shows "(if length (hq_list q m) < hq_cap q
      then \<exists>q' m'. hostedqueue_push q m x = Inr (LIBHOSTEDQUEUE_NOERR, q', m') \<and> hq_inv q' m' \<and>
        hq_list q' m' = hq_list q m @ [x] \<and> hq_cap q' = hq_cap q
      else hostedqueue_push q m x = Inr (LIBHOSTEDQUEUE_ERR_FULL, q, m)) \<and>
    (case hq_list q m of
       [] \<Rightarrow> hostedqueue_pop q m r = Inr (LIBHOSTEDQUEUE_ERR_EMPTY, q, r)
     | y # ys \<Rightarrow> \<exists>q'. hostedqueue_pop q m r = Inr (LIBHOSTEDQUEUE_NOERR, q', y) \<and> hq_inv q' m \<and>
        hq_list q' m = ys \<and> hq_cap q' = hq_cap q)"
  using hq.push_room [OF assms, of x] hq.push_full [OF assms, of x] hq.bounded [OF assms]
    hq.pop_empty [OF assms, of r] hq.pop_front [OF assms]
  by (auto split: list.split)

theorem queue_refines_list_witness:
  "hostedqueue_push \<lparr>hq_capacity = 2, hq_items = 2, hq_head = 1, hq_tail = 1\<rparr> [5, 6 :: int] 7
    = Inr (LIBHOSTEDQUEUE_ERR_FULL, \<lparr>hq_capacity = 2, hq_items = 2, hq_head = 1, hq_tail = 1\<rparr>, [5, 6])"
  using queue_refines_list [of "\<lparr>hq_capacity = 2, hq_items = 2, hq_head = 1, hq_tail = 1\<rparr>" "[5, 6 :: int]" 7 0]
  by (simp add: hq_inv_def hq_list_def hq_cap_def)

end
