(* ===== verification/PdMemory.thy ===== *)
theory PdMemory
  imports Prelude
begin

unbundle bit_operations_syntax

text \<open>
  The memory of a protection domain: a partial map from byte addresses to bytes, \<open>None\<close>
  where no page is mapped. Words are stored least significant byte first, as on every
  architecture the coroutine primitives support. The address width is a type variable,
  64 for AArch64, RISC-V and x86-64, 32 for the 32-bit ARM variant.

  The theory gives loads and stores of an address-sized word, the byte-wise clearing
  loop \<open>memzero\<close> of \<open>libmicrokitco.c\<close>, and the algebra of these operations: what a
  load after a store returns, what stays unchanged, and what clearing a range does.
\<close>

type_synonym 'w memory = "'w word \<Rightarrow> 8 word option"

subsection \<open>Ranges\<close>

definition mapped :: "'w::len memory \<Rightarrow> 'w word \<Rightarrow> nat \<Rightarrow> bool" where
  "mapped m a n \<longleftrightarrow> (\<forall>i<n. m (a + of_nat i) \<noteq> None)"

definition inside :: "'w::len word \<Rightarrow> 'w word \<Rightarrow> nat \<Rightarrow> bool" where
  "inside b a n \<longleftrightarrow> unat (b - a) < n"

definition apart :: "'w::len word \<Rightarrow> nat \<Rightarrow> 'w word \<Rightarrow> nat \<Rightarrow> bool" where
  "apart a n b k \<longleftrightarrow> n \<le> unat (b - a) \<and> k \<le> unat (a - b)"

lemma unat_offset:
  fixes a :: "'w::len word"
  assumes "i < 2 ^ LENGTH('w)"
  shows "unat (a + of_nat i - a) = i"
  using assms by (simp add: unat_of_nat)

lemma inside_iff:
  fixes a b :: "'w::len word"
  assumes "n \<le> 2 ^ LENGTH('w)"
  shows "inside b a n \<longleftrightarrow> (\<exists>i<n. b = a + of_nat i)"
proof
  assume "inside b a n"
  then have "unat (b - a) < n \<and> b = a + of_nat (unat (b - a))" by (simp add: inside_def)
  then show "\<exists>i<n. b = a + of_nat i" by blast
next
  assume "\<exists>i<n. b = a + of_nat i"
  then show "inside b a n" using assms unat_offset [of _ a] by (auto simp: inside_def)
qed

lemma mapped_iff_inside:
  fixes a :: "'w::len word"
  assumes "n \<le> 2 ^ LENGTH('w)"
  shows "mapped m a n \<longleftrightarrow> (\<forall>b. inside b a n \<longrightarrow> m b \<noteq> None)"
  using inside_iff [OF assms] by (auto simp: mapped_def)

lemma mapped_dom: "dom m' = dom m \<Longrightarrow> mapped m' a n = mapped m a n"
  by (auto simp: mapped_def dom_def)

lemma mapped_mono: "mapped m a n \<Longrightarrow> k \<le> n \<Longrightarrow> mapped m a k"
  by (auto simp: mapped_def)

lemma mapped_sub:
  assumes "mapped m a n" and "i + k \<le> n"
  shows "mapped m (a + of_nat i) k"
  unfolding mapped_def
proof (intro allI impI)
  fix j assume "j < k"
  with assms(2) have "i + j < n" by simp
  with assms(1) have "m (a + of_nat (i + j)) \<noteq> None" unfolding mapped_def by blast
  moreover have "a + of_nat (i + j) = a + of_nat i + of_nat j" by (simp add: add.assoc)
  ultimately show "m (a + of_nat i + of_nat j) \<noteq> None" by metis
qed

lemma apart_sym: "apart a n b k = apart b k a n"
  by (auto simp: apart_def)

lemma apart_not_inside:
  fixes a b :: "'w::len word"
  assumes "apart a n b k" and "inside c a n"
  shows "\<not> inside c b k"
proof
  assume "inside c b k"
  have 1: "unat (a - b) + unat (b - a) \<in> {0, 2 ^ LENGTH('w)}"
    using unat_plus_if' [of "a - b" "b - a"] by (auto split: if_splits)
  have 2: "unat (c - a) = (if unat (b - a) + unat (c - b) < 2 ^ LENGTH('w)
      then unat (b - a) + unat (c - b) else unat (b - a) + unat (c - b) - 2 ^ LENGTH('w))"
    using unat_plus_if' [of "b - a" "c - b"] by simp
  show False
    using 1 2 assms \<open>inside c b k\<close> unfolding apart_def inside_def
    by (auto split: if_splits)
qed

subsection \<open>Loads and stores of a word\<close>

abbreviation word_bytes :: "'w::len itself \<Rightarrow> nat" where
  "word_bytes TYPE('w) \<equiv> LENGTH('w) div 8"

definition byte_of :: "nat \<Rightarrow> 'w::len word \<Rightarrow> 8 word" where
  "byte_of i v = ucast (drop_bit (8 * i) v)"

definition load_word :: "'w::len memory \<Rightarrow> 'w word \<Rightarrow> 'w word option" where
  "load_word m a =
     (if mapped m a (word_bytes TYPE('w))
      then Some (word_rcat (rev (map (\<lambda>i. the (m (a + of_nat i))) [0..<word_bytes TYPE('w)])))
      else None)"

definition store_word :: "'w::len memory \<Rightarrow> 'w word \<Rightarrow> 'w word \<Rightarrow> 'w memory option" where
  "store_word m a v =
     (if mapped m a (word_bytes TYPE('w))
      then Some (\<lambda>b. if inside b a (word_bytes TYPE('w)) then Some (byte_of (unat (b - a)) v) else m b)
      else None)"

definition read_word :: "'w::len memory \<Rightarrow> 'w word \<Rightarrow> fault + 'w word" where
  "read_word m a = (case load_word m a of None \<Rightarrow> Inl (VMFault (ucast a)) | Some v \<Rightarrow> Inr v)"

lemma bytes_lt: "word_bytes TYPE('w::len) < 2 ^ LENGTH('w)"
  by (meson div_le_dividend le_less_trans less_exp)

lemma load_word_eq_iff:
  "(\<And>i. i < word_bytes TYPE('w) \<Longrightarrow> m (a + of_nat i) = m' (a + of_nat i)) \<Longrightarrow>
    load_word m a = load_word m' (a :: 'w::len word)"
  by (auto simp: load_word_def mapped_def intro!: arg_cong [where f = word_rcat])

lemma bit_horner_bytes:
  fixes ws :: "8 word list"
  shows "bit (horner_sum uint 256 ws) n \<longleftrightarrow> n div 8 < length ws \<and> bit (ws ! (n div 8)) (n mod 8)"
  using bit_horner_sum_uint_exp_iff [of ws n] by simp

lemma load_store_same:
  fixes a v :: "'w::len word"
  assumes "store_word m a v = Some m'" and "8 dvd LENGTH('w)"
  shows "load_word m' a = Some v"
proof -
  have off: "unat (a + of_nat i - a) = i" if "i < word_bytes TYPE('w)" for i
    using unat_offset [of i a] that bytes_lt [where ?'w = 'w] by linarith
  have bytes: "m' (a + of_nat i) = Some (byte_of i v)" if "i < word_bytes TYPE('w)" for i
    using assms(1) off [OF that] that by (auto simp: store_word_def inside_def split: if_splits)
  then have "mapped m' a (word_bytes TYPE('w))" by (simp add: mapped_def)
  moreover have "map (\<lambda>i. the (m' (a + of_nat i))) [0..<word_bytes TYPE('w)] =
      map (\<lambda>i. byte_of i v) [0..<word_bytes TYPE('w)]"
    using bytes by simp
  moreover have "word_rcat (rev (map (\<lambda>i. byte_of i v) [0..<word_bytes TYPE('w)])) = v"
    using assms(2)
    by (auto intro!: bit_word_eqI simp: word_rcat_def bit_word_of_int_iff
        bit_horner_bytes byte_of_def bit_ucast_iff bit_drop_bit_eq elim!: dvdE)
  ultimately show ?thesis unfolding load_word_def by metis
qed

lemma store_word_other:
  assumes "store_word m a v = Some m'" and "\<not> inside b a (word_bytes TYPE('w))"
  shows "m' b = m (b :: 'w::len word)"
  using assms by (auto simp: store_word_def split: if_splits)

lemma store_word_dom: "store_word m a v = Some m' \<Longrightarrow> dom m' = dom m"
proof -
  assume s: "store_word m a v = Some m'"
  then have "mapped m a (LENGTH('a) div 8)" by (auto simp: store_word_def split: if_splits)
  then have "\<forall>b. inside b a (LENGTH('a) div 8) \<longrightarrow> m b \<noteq> None"
    using mapped_iff_inside [of "LENGTH('a) div 8" m a] bytes_lt [where ?'w = 'a] by simp
  with s show "dom m' = dom m" by (auto simp: store_word_def split: if_splits)
qed

lemma load_store_other:
  fixes a b v :: "'w::len word"
  assumes "store_word m a v = Some m'"
    and "apart b (word_bytes TYPE('w)) a (word_bytes TYPE('w))"
  shows "load_word m' b = load_word m b"
proof (rule load_word_eq_iff)
  fix i assume i: "i < word_bytes TYPE('w)"
  then have "inside (b + of_nat i) b (word_bytes TYPE('w))"
    using unat_offset [of i b] bytes_lt [where ?'w = 'w] by (simp add: inside_def)
  with assms(2) have "\<not> inside (b + of_nat i) a (word_bytes TYPE('w))"
    by (rule apart_not_inside)
  with assms(1) show "m' (b + of_nat i) = m (b + of_nat i)" by (rule store_word_other)
qed

lemma store_word_Some_iff:
  "(\<exists>m'. store_word m a v = Some m') \<longleftrightarrow> mapped m (a :: 'w::len word) (word_bytes TYPE('w))"
  by (simp add: store_word_def)

lemma load_word_Some_iff:
  "(\<exists>v. load_word m a = Some v) \<longleftrightarrow> mapped m (a :: 'w::len word) (word_bytes TYPE('w))"
  by (simp add: load_word_def)

subsection \<open>\<open>memzero\<close>\<close>

text \<open>
  \<open>for (int i = 0; i < n; i++) dst[i] = 0\<close> with \<open>n\<close> a \<open>size_t\<close>: the counter is a signed
  32-bit integer, so that for \<open>n\<close> above \<open>INT_MAX\<close> the increment overflows, which is
  undefined in C. The loop stops with a fault at the first unmapped byte.
\<close>

abbreviation (input) INT_MAX :: nat where "INT_MAX \<equiv> 2 ^ 31 - 1"

function memzero_loop :: "'w::len memory \<Rightarrow> 'w word \<Rightarrow> nat \<Rightarrow> nat \<Rightarrow> fault + 'w memory" where
  "memzero_loop m dst i n =
     (if i < n then
        (if m (dst + of_nat i) = None then Inl (VMFault (ucast (dst + of_nat i)))
         else if i = INT_MAX then Inl ArithFault
         else memzero_loop (m(dst + of_nat i \<mapsto> 0)) dst (Suc i) n)
      else Inr m)"
  by pat_completeness auto
termination
  by (relation "measure (\<lambda>(m, dst, i, n). n - i)") auto

declare memzero_loop.simps [simp del]

definition memzero :: "'w::len memory \<Rightarrow> 'w word \<Rightarrow> 'w word \<Rightarrow> fault + 'w memory" where
  "memzero m dst n = memzero_loop m dst 0 (unat n)"

definition zeroed :: "'w::len memory \<Rightarrow> 'w word \<Rightarrow> nat \<Rightarrow> 'w memory" where
  "zeroed m a n = (\<lambda>b. if inside b a n then Some 0 else m b)"

lemma memzero_loop_mapped:
  fixes dst :: "'w::len word"
  assumes "\<forall>j. i \<le> j \<and> j < n \<longrightarrow> m (dst + of_nat j) \<noteq> None"
    and "n \<le> INT_MAX" and "n \<le> 2 ^ LENGTH('w)" and "i \<le> n"
  shows "memzero_loop m dst i n =
    Inr (\<lambda>b. if i \<le> unat (b - dst) \<and> unat (b - dst) < n then Some 0 else m b)"
  using assms
proof (induction m dst i n rule: memzero_loop.induct)
  case (1 m dst i n)
  show ?case
  proof (cases "i < n")
    case True
    let ?m = "m(dst + of_nat i \<mapsto> 0)"
    have at_i: "unat (dst + of_nat i - dst) = i"
      using unat_offset [of i dst] True "1.prems"(3) by linarith
    have "memzero_loop m dst i n = memzero_loop ?m dst (Suc i) n"
      using True "1.prems" by (subst memzero_loop.simps) auto
    also have "\<dots> = Inr (\<lambda>b. if Suc i \<le> unat (b - dst) \<and> unat (b - dst) < n then Some 0 else ?m b)"
      using True "1.prems" by (intro "1.IH") auto
    also have "\<dots> = Inr (\<lambda>b. if i \<le> unat (b - dst) \<and> unat (b - dst) < n then Some 0 else m b)"
    proof -
      have "b = dst + of_nat i" if "unat (b - dst) = i" for b
        using that [symmetric] by simp
      then show ?thesis using at_i True by (fastforce simp: le_less)
    qed
    finally show ?thesis .
  next
    case False
    with "1.prems"(4) show ?thesis by (subst memzero_loop.simps) (auto simp: fun_eq_iff)
  qed
qed

lemma memzero_mapped:
  fixes dst :: "'w::len word"
  assumes "mapped m dst (unat n)" and "unat n \<le> INT_MAX"
  shows "memzero m dst n = Inr (zeroed m dst (unat n))"
proof -
  have "unat n \<le> 2 ^ LENGTH('w)" by (simp add: less_imp_le)
  with assms show ?thesis
    using memzero_loop_mapped [of 0 "unat n" m dst]
    by (simp add: memzero_def zeroed_def inside_def mapped_def)
qed

lemma memzero_loop_fault:
  assumes "i \<le> j" and "j < n" and "m (dst + of_nat j) = None"
  shows "\<exists>f. memzero_loop m dst i n = Inl f"
  using assms
proof (induction m dst i n rule: memzero_loop.induct)
  case (1 m dst i n)
  show ?case
  proof (cases "m (dst + of_nat i) = None \<or> i = INT_MAX")
    case True
    with "1.prems" show ?thesis by (subst memzero_loop.simps) auto
  next
    case False
    then have "i \<noteq> j" and ne: "dst + of_nat j \<noteq> dst + of_nat i" using "1.prems"(3) by auto
    with False "1.prems" have "\<exists>f. memzero_loop (m(dst + of_nat i \<mapsto> 0)) dst (Suc i) n = Inl f"
      by (intro "1.IH") auto
    with False "1.prems" show ?thesis by (subst memzero_loop.simps) auto
  qed
qed

text \<open>\<open>memzero\<close> returns exactly when the whole range is mapped and its length fits an \<open>int\<close>.\<close>

lemma memzero_unmapped:
  assumes "\<not> mapped m dst (unat n)"
  shows "\<exists>f. memzero m dst n = Inl f"
  using assms memzero_loop_fault [of 0 _ "unat n" m dst] by (auto simp: memzero_def mapped_def)

lemma zeroed_dom: "mapped m a n \<Longrightarrow> n \<le> 2 ^ LENGTH('w) \<Longrightarrow> dom (zeroed m (a :: 'w::len word) n) = dom m"
  by (auto simp: zeroed_def mapped_iff_inside split: if_splits)

subsection \<open>Sequences of stores\<close>

definition write_word :: "'w::len memory \<Rightarrow> 'w word \<Rightarrow> 'w word \<Rightarrow> fault + 'w memory" where
  "write_word m a v =
     (case store_word m a v of None \<Rightarrow> Inl (VMFault (ucast a)) | Some m' \<Rightarrow> Inr m')"

fun write_words :: "'w::len memory \<Rightarrow> ('w word \<times> 'w word) list \<Rightarrow> fault + 'w memory" where
  "write_words m [] = Inr m"
| "write_words m ((a, v) # ws) = bindR (write_word m a v) (\<lambda>m'. write_words m' ws)"

lemma write_word_Inr: "write_word m a v = Inr m' \<longleftrightarrow> store_word m a v = Some m'"
  by (auto simp: write_word_def split: option.splits)

lemma write_words_mapped:
  fixes m :: "'w::len memory"
  assumes "\<forall>(a, v) \<in> set ws. mapped m a (word_bytes TYPE('w))"
  shows "\<exists>m'. write_words m ws = Inr m'"
  using assms
proof (induction ws arbitrary: m)
  case Nil
  then show ?case by simp
next
  case (Cons w ws)
  obtain a v where w: "w = (a, v)" by (cases w)
  with Cons.prems obtain m1 where m1: "store_word m a v = Some m1"
    using store_word_Some_iff [of m a v] by auto
  with Cons.prems have "\<forall>(a, v) \<in> set ws. mapped m1 a (word_bytes TYPE('w))"
    using mapped_dom [OF store_word_dom [OF m1]] by auto
  from Cons.IH [OF this] show ?case using w m1 by (auto simp: write_word_def)
qed

lemma write_words_dom: "write_words m ws = Inr m' \<Longrightarrow> dom m' = dom m"
proof (induction m ws rule: write_words.induct)
  case (1 m)
  then show ?case by simp
next
  case (2 m a v ws)
  then obtain m1 where "store_word m a v = Some m1" and "write_words m1 ws = Inr m'"
    by (auto simp: bindR_Inr_iff write_word_Inr)
  with "2.IH" show ?case using store_word_dom by metis
qed

lemma write_words_other:
  fixes m :: "'w::len memory"
  assumes "write_words m ws = Inr m'" and "\<forall>(a, v) \<in> set ws. \<not> inside b a (word_bytes TYPE('w))"
  shows "m' b = m b"
  using assms
  by (induction m ws rule: write_words.induct)
    (auto simp: bindR_Inr_iff write_word_Inr dest: store_word_other)

lemma write_words_load_other:
  fixes m :: "'w::len memory"
  assumes "write_words m ws = Inr m'"
    and "\<forall>(a, v) \<in> set ws. apart b (word_bytes TYPE('w)) a (word_bytes TYPE('w))"
  shows "load_word m' b = load_word m b"
  using assms
  by (induction m ws rule: write_words.induct)
    (auto simp: bindR_Inr_iff write_word_Inr dest: load_store_other)

text \<open>Pairwise disjoint stores: every one of them can be read back.\<close>

fun all_apart :: "'w::len word list \<Rightarrow> bool" where
  "all_apart [] \<longleftrightarrow> True"
| "all_apart (a # as) \<longleftrightarrow>
     (\<forall>b \<in> set as. apart a (word_bytes TYPE('w)) b (word_bytes TYPE('w))) \<and> all_apart as"

lemma write_words_load:
  fixes m :: "'w::len memory"
  assumes "write_words m ws = Inr m'" and "all_apart (map fst ws)" and "8 dvd LENGTH('w)"
  shows "\<forall>(a, v) \<in> set ws. load_word m' a = Some v"
  using assms
proof (induction m ws rule: write_words.induct)
  case (1 m)
  then show ?case by simp
next
  case (2 m a v ws)
  then obtain m1 where m1: "store_word m a v = Some m1" and ws: "write_words m1 ws = Inr m'"
    by (auto simp: bindR_Inr_iff write_word_Inr)
  have "load_word m' a = load_word m1 a"
    by (rule write_words_load_other [OF ws]) (use "2.prems"(2) in force)
  also have "\<dots> = Some v" using m1 "2.prems"(3) by (rule load_store_same)
  finally show ?case using "2.IH" [OF ws] "2.prems" by auto
qed

lemma apart_offset:
  fixes a :: "'w::len word"
  assumes "n \<le> d" and "d + k \<le> 2 ^ LENGTH('w)" and "0 < d" and "0 < k"
  shows "apart a n (a + of_nat d) k"
proof -
  have d: "unat (of_nat d :: 'w word) = d" using assms by (simp add: unat_of_nat)
  then have "of_nat d \<noteq> (0 :: 'w word)" using assms(3) by (metis less_irrefl unat_0)
  then have "unat (- of_nat d :: 'w word) = 2 ^ LENGTH('w) - d" using unat_uminus d by metis
  then show ?thesis using assms d by (simp add: apart_def)
qed

text \<open>Slots counted down from the top of a context, in words of eight bytes.\<close>

lemma slots_apart:
  fixes t :: "64 word"
  assumes "i \<noteq> j" and "i < 2 ^ 32" and "j < 2 ^ 32"
  shows "apart (t - 8 * of_nat i) 8 (t - 8 * of_nat j) 8"
proof -
  have *: "apart (t - 8 * of_nat k) 8 (t - 8 * of_nat l) 8" if "l < k" "k < 2 ^ 32" for k l :: nat
  proof -
    have "t - 8 * of_nat l = t - 8 * of_nat k + of_nat (8 * (k - l))"
      using that(1) by (simp add: of_nat_diff algebra_simps)
    then show ?thesis using that by (simp only:) (rule apart_offset; simp)
  qed
  from assms(1) consider "i < j" | "j < i" by linarith
  then show ?thesis by cases (use * assms(2,3) apart_sym in metis)+
qed

lemma unat_word32: "unat (w :: 32 word) < 2 ^ 32"
  using unsigned_less [where ?'a = nat, of w] by simp

lemma unat_ucast32: "unat (ucast (sz :: 32 word) :: 64 word) = unat sz"
  using unat_word32 [of sz] by (simp add: unsigned_ucast_eq take_bit_nat_eq_self)

lemma ucast32_of_nat: "(ucast (sz :: 32 word) :: 64 word) = of_nat (unat sz)"
  using unat_ucast32 [of sz] by (metis of_nat_unat ucast_id)

lemma ucast_div8:
  "(ucast (sz :: 32 word) :: 64 word) div 8 = of_nat (unat sz div 8)"
proof -
  have "unat ((ucast sz :: 64 word) div 8) = unat sz div 8"
    by (simp add: unat_div_distrib unat_ucast32)
  then show ?thesis by (metis of_nat_unat ucast_id)
qed

lemma top_slot:
  fixes sz :: "32 word" and a :: addr
  assumes "i < unat sz div 8"
  shows "a + 8 * (ucast sz div 8 - 1) - 8 * of_nat i = a + of_nat (8 * (unat sz div 8 - 1 - i))"
proof -
  have "(of_nat (8 * (unat sz div 8 - 1 - i)) :: addr) = 8 * (of_nat (unat sz div 8) - 1 - of_nat i)"
    using assms by (simp add: of_nat_diff)
  then show ?thesis by (simp add: ucast_div8 algebra_simps)
qed

text \<open>
  A word at the slot \<open>i\<close> below the top of a block lies inside the block.
\<close>

lemma mapped_top_slot:
  fixes a :: addr
  assumes "mapped m a (unat (sz :: 32 word))" and "i < unat sz div 8"
  shows "mapped m (a + 8 * (ucast sz div 8 - 1) - 8 * of_nat i) 8"
  unfolding top_slot [OF assms(2)]
  by (rule mapped_sub [OF assms(1)]) (use assms(2) in linarith)

lemma inside_sub:
  fixes a b :: "'w::len word"
  assumes "inside b (a + of_nat i) k" and "i + k \<le> n" and "n < 2 ^ LENGTH('w)"
  shows "inside b a n"
proof -
  have "k \<le> 2 ^ LENGTH('w)" using assms by linarith
  with assms(1) obtain j where "j < k" and "b = a + of_nat i + of_nat j"
    using inside_iff by blast
  then have "b = a + of_nat (i + j)" and "i + j < n" using assms(2) by (simp_all add: add.assoc)
  with assms(3) show ?thesis using inside_iff [of n b a] by auto
qed

lemma inside_top_slot:
  fixes sz :: "32 word" and a b :: addr
  assumes "inside b (a + 8 * (ucast sz div 8 - 1) - 8 * of_nat i) 8" and "i < unat sz div 8"
  shows "inside b a (unat sz)"
proof (rule inside_sub)
  show "inside b (a + of_nat (8 * (unat sz div 8 - 1 - i))) 8"
    using assms by (simp only: top_slot)
  show "8 * (unat sz div 8 - 1 - i) + 8 \<le> unat sz" using assms(2) by linarith
  have "unat sz < 2 ^ 32" by (rule unat_word32)
  then show "unat sz < 2 ^ LENGTH(64)" by simp
qed

text \<open>
  Stores to disjoint words of one mapped block: they succeed, keep the mapping, touch the
  block only, and each can be read back. This is what deriving a context does.
\<close>

definition in_block :: "'w::len word \<Rightarrow> nat \<Rightarrow> 'w word \<Rightarrow> bool" where
  "in_block base n a \<longleftrightarrow> (\<exists>i. a = base + of_nat i \<and> i + word_bytes TYPE('w) \<le> n)"

definition block_writes ::
    "'w::len memory \<Rightarrow> 'w word \<Rightarrow> nat \<Rightarrow> ('w word \<times> 'w word) list \<Rightarrow> 'w memory \<Rightarrow> bool" where
  "block_writes m base n ws m' \<longleftrightarrow>
     dom m' = dom m \<and> (\<forall>b. \<not> inside b base n \<longrightarrow> m' b = m b) \<and>
     (\<forall>(a, v) \<in> set ws. load_word m' a = Some v)"

lemma write_words_in_block:
  fixes m :: "'w::len memory"
  assumes "mapped m base n" and "n < 2 ^ LENGTH('w)" and "8 dvd LENGTH('w)"
    and blk: "\<forall>a \<in> set (map fst ws). in_block base n a" and "all_apart (map fst ws)"
  shows "\<exists>m'. write_words m ws = Inr m' \<and> block_writes m base n ws m'"
proof -
  have "\<forall>(a, v) \<in> set ws. mapped m a (word_bytes TYPE('w))"
    using blk assms(1) by (fastforce simp: in_block_def intro: mapped_sub)
  then obtain m' where m': "write_words m ws = Inr m'" using write_words_mapped by blast
  have "\<forall>(a, v) \<in> set ws. \<not> inside b a (word_bytes TYPE('w))" if "\<not> inside b base n" for b
    using blk that assms(2) by (fastforce simp: in_block_def dest: inside_sub)
  with m' have "block_writes m base n ws m'"
    using write_words_dom [OF m'] write_words_other [OF m'] write_words_load [OF m' assms(5,3)]
    by (auto simp: block_writes_def)
  with m' show ?thesis by blast
qed

lemma in_block_top_slot:
  fixes a :: addr
  assumes "i < unat (sz :: 32 word) div 8"
  shows "in_block a (unat sz) (a + 8 * (ucast sz div 8 - 1) - 8 * of_nat i)"
  unfolding in_block_def top_slot [OF assms] using assms
  by (intro exI [of _ "8 * (unat sz div 8 - 1 - i)"]) auto

subsection \<open>Property\<close>

text \<open>
  \<open>memzero\<close> returns exactly when the whole range is mapped, for every length its \<open>int\<close>
  counter can count to, and then it has zeroed the range and nothing else.
\<close>

lemma memzero_exact:
  fixes dst :: "'w::len word"
  assumes "unat n \<le> INT_MAX"
  shows "if mapped m dst (unat n)
    then memzero m dst n = Inr (\<lambda>b. if inside b dst (unat n) then Some 0 else m b)
    else \<exists>f. memzero m dst n = Inl f"
  using memzero_mapped [OF _ assms, of m dst] memzero_unmapped [of m dst n] by (simp add: zeroed_def)

end
