(* ===== verification/LibcoAmd64.thy ===== *)
theory LibcoAmd64
  imports PdMemory
begin

text \<open>
  \<open>libco/amd64.c\<close>: the context lies at the bottom of the stack memory, which is the
  handle itself; the stack starts near the top. The first word of the context is the
  stack pointer, the second (\<open>rbp\<close> once the cothread has run) first holds the entry point.
\<close>

definition amd64_offset :: "32 word \<Rightarrow> 32 word" where
  "amd64_offset sz = (sz AND NOT 15) - 32"

definition amd64_co_derive ::
    "addr \<Rightarrow> 64 memory \<Rightarrow> addr \<Rightarrow> 32 word \<Rightarrow> addr \<Rightarrow> fault + (64 memory \<times> addr)" where
  "amd64_co_derive co_entrypoint m memory sz entrypoint =
     (if memory = 0 then Inr (m, memory)
      else
        let p = memory + ucast (amd64_offset sz) in
        bindR (write_words m
                [(p - 8, 0),
                 (p - 16, co_entrypoint),
                 (memory, p - 16),
                 (memory + 8, entrypoint)])
          (\<lambda>m'. Inr (m', memory)))"

lemma unat_amd64_offset:
  assumes "48 \<le> unat sz"
  shows "unat (amd64_offset sz) = 16 * (unat sz div 16) - 32"
proof -
  have "unat (sz AND NOT 15) = 16 * (unat sz div 16)"
    using unat_align_down [of sz 4] by (simp add: mask_eq_exp_minus_1)
  moreover have "48 \<le> 16 * (unat sz div 16)" using assms by presburger
  ultimately show ?thesis
    by (simp add: amd64_offset_def unat_sub_if_size word_size word_le_nat_alt)
qed

definition amd64_initial :: "addr \<Rightarrow> addr \<Rightarrow> 32 word \<Rightarrow> addr \<Rightarrow> (addr \<times> addr) list" where
  "amd64_initial ce memory sz entry =
     (let p = memory + ucast (amd64_offset sz) in
      [(p - 8, 0), (p - 16, ce), (memory, p - 16), (memory + 8, entry)])"

lemma amd64_co_derive_ok:
  assumes "mapped m memory (unat sz)" and "64 \<le> unat sz" and "memory \<noteq> 0"
  shows "\<exists>m'. amd64_co_derive ce m memory sz entry = Inr (m', memory) \<and>
    block_writes m memory (unat sz) (amd64_initial ce memory sz entry) m'"
proof -
  let ?ws = "amd64_initial ce memory sz entry"
  define k where "k = 16 * (unat sz div 16) - 32"
  have "4 \<le> unat sz div 16" "16 * (unat sz div 16) \<le> unat sz" using assms(2) by simp_all
  then have k: "32 \<le> k" "k + 32 \<le> unat sz" unfolding k_def by linarith+
  have lt: "unat sz < 2 ^ LENGTH(64)" using unat_word32 [of sz] by simp
  have off: "ucast (amd64_offset sz) = (of_nat k :: addr)"
    using unat_amd64_offset [of sz] assms(2) unfolding k_def ucast32_of_nat by simp
  have p: "memory + of_nat k - 8 = memory + of_nat (k - 8)"
    "memory + of_nat k - 16 = memory + of_nat (k - 16)"
    using k(1) by (simp_all add: of_nat_diff)
  have blk: "in_block memory (unat sz) (memory + of_nat i)" if "i + 8 \<le> unat sz" for i
    using that by (auto simp: in_block_def)
  have "apart (memory + of_nat i) 8 (memory + of_nat j) 8"
    if "i + 8 \<le> j" "j + 8 \<le> unat sz" for i j
  proof -
    have "memory + of_nat j = memory + of_nat i + of_nat (j - i)"
      using that(1) by (simp add: of_nat_diff)
    then show ?thesis using that lt by (simp only:) (rule apart_offset; simp)
  qed
  then have ap: "apart (memory + of_nat i) 8 (memory + of_nat j) 8"
    if "i + 8 \<le> j \<or> j + 8 \<le> i" "j + 8 \<le> unat sz" "i + 8 \<le> unat sz" for i j
    using that apart_sym by blast
  have "\<forall>a \<in> set (map fst ?ws). in_block memory (unat sz) a"
    using blk [of "k - 8"] blk [of "k - 16"] blk [of 0] blk [of 8] k
    by (simp add: amd64_initial_def Let_def off p)
  moreover have "all_apart (map fst ?ws)"
  proof -
    have "apart (memory + of_nat (k - 8)) 8 (memory + of_nat (k - 16)) 8"
      "apart (memory + of_nat (k - 8)) 8 (memory + of_nat 0) 8"
      "apart (memory + of_nat (k - 8)) 8 (memory + of_nat 8) 8"
      "apart (memory + of_nat (k - 16)) 8 (memory + of_nat 0) 8"
      "apart (memory + of_nat (k - 16)) 8 (memory + of_nat 8) 8"
      "apart (memory + of_nat 0) 8 (memory + of_nat 8) 8"
      by (rule ap; use k in linarith)+
    then show ?thesis by (simp add: amd64_initial_def Let_def off p del: of_nat_diff)
  qed
  ultimately obtain m' where "write_words m ?ws = Inr m'" "block_writes m memory (unat sz) ?ws m'"
    using write_words_in_block [OF assms(1) lt, of ?ws] by auto
  then show ?thesis using assms(3) by (simp add: amd64_co_derive_def amd64_initial_def Let_def)
qed

end
