(* ===== verification/LibcoAarch64.thy ===== *)
theory LibcoAarch64
  imports PdMemory
begin

text \<open>
  \<open>libco/aarch64.c\<close>: the context of a cothread lies at the top of its stack memory, one
  word per register, counted downwards from the handle.
\<close>

subsection \<open>The context layout\<close>

datatype a64_slot =
    A64_lr | A64_sp | A64_fp
  | A64_x19 | A64_x20 | A64_x21 | A64_x22 | A64_x23 | A64_x24 | A64_x25 | A64_x26 | A64_x27 | A64_x28
  | A64_d8 | A64_d9 | A64_d10 | A64_d11 | A64_d12 | A64_d13 | A64_d14 | A64_d15

primrec a64_index :: "a64_slot \<Rightarrow> nat" where
  "a64_index A64_lr = 0" | "a64_index A64_sp = 1" | "a64_index A64_fp = 2"
| "a64_index A64_x19 = 3" | "a64_index A64_x20 = 4" | "a64_index A64_x21 = 5"
| "a64_index A64_x22 = 6" | "a64_index A64_x23 = 7" | "a64_index A64_x24 = 8"
| "a64_index A64_x25 = 9" | "a64_index A64_x26 = 10" | "a64_index A64_x27 = 11"
| "a64_index A64_x28 = 12" | "a64_index A64_d8 = 13" | "a64_index A64_d9 = 14"
| "a64_index A64_d10 = 15" | "a64_index A64_d11 = 16" | "a64_index A64_d12 = 17"
| "a64_index A64_d13 = 18" | "a64_index A64_d14 = 19" | "a64_index A64_d15 = 20"

abbreviation (input) a64_regs_count :: nat where "a64_regs_count \<equiv> 21"

text \<open>\<open>top[-r]\<close> for an array of words ending at \<open>top\<close>.\<close>

definition a64_slot_addr :: "addr \<Rightarrow> a64_slot \<Rightarrow> addr" where
  "a64_slot_addr t r = t - 8 * of_nat (a64_index r)"

subsection \<open>Deriving a context\<close>

text \<open>
  \<open>size / sizeof(uintptr_t)\<close> is computed in \<open>size_t\<close>; the addresses are those of array
  elements, so multiples of eight above \<open>memory\<close>.
\<close>

definition a64_top :: "addr \<Rightarrow> 32 word \<Rightarrow> addr" where
  "a64_top memory sz = memory + 8 * (ucast sz div 8 - 1)"

definition a64_initial_sp :: "addr \<Rightarrow> 32 word \<Rightarrow> addr" where
  "a64_initial_sp memory sz =
     (memory + 8 * (ucast sz div 8 - of_nat a64_regs_count - 1)) AND NOT 0xF"

definition a64_co_derive ::
    "addr \<Rightarrow> 64 memory \<Rightarrow> addr \<Rightarrow> 32 word \<Rightarrow> addr \<Rightarrow> fault + (64 memory \<times> addr)" where
  "a64_co_derive co_entrypoint m memory sz entrypoint =
     (let t = a64_top memory sz; aligned_sp = a64_initial_sp memory sz in
      bindR (write_words m
              [(a64_slot_addr t A64_sp, aligned_sp),
               (a64_slot_addr t A64_lr, co_entrypoint),
               (a64_slot_addr t A64_x19, entrypoint),
               (a64_slot_addr t A64_fp, aligned_sp)])
        (\<lambda>m'. Inr (m', t)))"

lemma a64_index_lt: "a64_index r < a64_regs_count"
  by (cases r) auto

lemma a64_index_inject: "a64_index r = a64_index r' \<longleftrightarrow> r = r'"
  by (cases r; cases r') auto

lemma a64_slots_apart:
  "r \<noteq> r' \<Longrightarrow> apart (a64_slot_addr t r) 8 (a64_slot_addr t r') 8"
  unfolding a64_slot_addr_def
  by (rule slots_apart) (use a64_index_lt [of r] a64_index_lt [of r'] a64_index_inject in auto)

lemma a64_slot_in_block:
  assumes "a64_regs_count \<le> unat sz div 8"
  shows "in_block memory (unat sz) (a64_slot_addr (a64_top memory sz) r)"
  unfolding a64_slot_addr_def a64_top_def
  by (rule in_block_top_slot) (use assms a64_index_lt [of r] in linarith)

lemma a64_co_derive_ok:
  assumes "mapped m memory (unat sz)" and "a64_regs_count \<le> unat sz div 8"
  shows "\<exists>m'. a64_co_derive ce m memory sz entry = Inr (m', a64_top memory sz) \<and>
    block_writes m memory (unat sz)
      [(a64_slot_addr (a64_top memory sz) A64_sp, a64_initial_sp memory sz),
       (a64_slot_addr (a64_top memory sz) A64_lr, ce),
       (a64_slot_addr (a64_top memory sz) A64_x19, entry),
       (a64_slot_addr (a64_top memory sz) A64_fp, a64_initial_sp memory sz)] m'"
proof -
  let ?ws = "[(a64_slot_addr (a64_top memory sz) A64_sp, a64_initial_sp memory sz),
             (a64_slot_addr (a64_top memory sz) A64_lr, ce),
             (a64_slot_addr (a64_top memory sz) A64_x19, entry),
             (a64_slot_addr (a64_top memory sz) A64_fp, a64_initial_sp memory sz)]"
  have lt: "unat sz < 2 ^ LENGTH(64)" using unat_word32 [of sz] by simp
  have "\<forall>a \<in> set (map fst ?ws). in_block memory (unat sz) a"
    using a64_slot_in_block [OF assms(2)] by simp
  moreover have "all_apart (map fst ?ws)"
    by (simp add: a64_slots_apart)
  ultimately obtain m' where "write_words m ?ws = Inr m'" "block_writes m memory (unat sz) ?ws m'"
    using write_words_in_block [OF assms(1) lt, of ?ws] by auto
  then show ?thesis by (simp add: a64_co_derive_def Let_def)
qed

end
