(* ===== verification/LibcoRiscv64.thy ===== *)
theory LibcoRiscv64
  imports PdMemory
begin

text \<open>
  \<open>libco/riscv64.c\<close>: as on AArch64 the context lies at the top of the stack memory. The
  soft-float and the hard-float build differ in the number of saved registers, which is
  the parameter \<open>fl\<close> (\<open>__riscv_flen\<close> defined).
\<close>

subsection \<open>The context layout\<close>

datatype rv_slot =
    RV_client_entry | RV_pc
  | RV_f nat  \<comment> \<open>the callee-saved floating-point registers f8, f9, f18 to f27\<close>
  | RV_s nat  \<comment> \<open>s1 to s11\<close>
  | RV_fp | RV_sp | RV_ra

text \<open>
  The position of each enumerator: \<open>client_entry\<close> and \<open>pc\<close> first, with floating point
  then \<open>f27\<close> down to \<open>f18\<close>, \<open>f9\<close>, \<open>f8\<close>, then \<open>s11\<close> down to \<open>s1\<close>, \<open>fp\<close>, \<open>sp\<close>, \<open>ra\<close>.
\<close>

definition rv_slots :: "bool \<Rightarrow> rv_slot list" where
  "rv_slots fl = [RV_client_entry, RV_pc]
     @ (if fl then map RV_f [27, 26, 25, 24, 23, 22, 21, 20, 19, 18, 9, 8] else [])
     @ map RV_s [11, 10, 9, 8, 7, 6, 5, 4, 3, 2, 1]
     @ [RV_fp, RV_sp, RV_ra]"

fun position :: "'a list \<Rightarrow> 'a \<Rightarrow> nat" where
  "position [] x = 0"
| "position (y # ys) x = (if x = y then 0 else Suc (position ys x))"

definition rv_index :: "bool \<Rightarrow> rv_slot \<Rightarrow> nat" where
  "rv_index fl r = position (rv_slots fl) r"

definition rv_num_saved :: "bool \<Rightarrow> nat" where
  "rv_num_saved fl = length (rv_slots fl)"

definition rv_slot_addr :: "bool \<Rightarrow> addr \<Rightarrow> rv_slot \<Rightarrow> addr" where
  "rv_slot_addr fl t r = t - 8 * of_nat (rv_index fl r)"

lemma rv_num_saved_values: "rv_num_saved False = 16" "rv_num_saved True = 28"
  by (simp_all add: rv_num_saved_def rv_slots_def)

subsection \<open>Deriving a context\<close>

definition rv_top :: "addr \<Rightarrow> 32 word \<Rightarrow> addr" where
  "rv_top memory sz = memory + 8 * (ucast sz div 8 - 1)"

definition rv_initial_sp :: "bool \<Rightarrow> addr \<Rightarrow> 32 word \<Rightarrow> addr" where
  "rv_initial_sp fl memory sz =
     (memory + 8 * (ucast sz div 8 - of_nat (rv_num_saved fl) - 1)) AND NOT 0xF"

definition rv_co_derive ::
    "bool \<Rightarrow> addr \<Rightarrow> 64 memory \<Rightarrow> addr \<Rightarrow> 32 word \<Rightarrow> addr \<Rightarrow> fault + (64 memory \<times> addr)" where
  "rv_co_derive fl co_entrypoint m memory sz entrypoint =
     (let t = rv_top memory sz; aligned_sp = rv_initial_sp fl memory sz in
      bindR (write_words m
              [(rv_slot_addr fl t RV_ra, 0),
               (rv_slot_addr fl t RV_sp, aligned_sp),
               (rv_slot_addr fl t RV_fp, aligned_sp),
               (rv_slot_addr fl t RV_pc, co_entrypoint),
               (rv_slot_addr fl t RV_client_entry, entrypoint)])
        (\<lambda>m'. Inr (m', t)))"

lemma position_lt: "x \<in> set xs \<Longrightarrow> position xs x < length xs"
  by (induction xs) auto

lemma position_inject: "x \<in> set xs \<Longrightarrow> position xs x = position xs y \<Longrightarrow> x = y"
  by (induction xs) (auto split: if_splits)

lemma rv_index_lt: "r \<in> set (rv_slots fl) \<Longrightarrow> rv_index fl r < rv_num_saved fl"
  by (simp add: rv_index_def rv_num_saved_def position_lt)

lemma rv_num_saved_le: "rv_num_saved fl \<le> 28"
  by (cases fl) (simp_all add: rv_num_saved_values)

lemma rv_slots_apart:
  assumes "r \<noteq> r'" and "r \<in> set (rv_slots fl)" and "r' \<in> set (rv_slots fl)"
  shows "apart (rv_slot_addr fl t r) 8 (rv_slot_addr fl t r') 8"
  unfolding rv_slot_addr_def
proof (rule slots_apart)
  show "rv_index fl r \<noteq> rv_index fl r'"
    using assms position_inject unfolding rv_index_def by metis
qed (use rv_index_lt [OF assms(2)] rv_index_lt [OF assms(3)] rv_num_saved_le [of fl] in simp_all)

lemma rv_slot_in_block:
  assumes "rv_num_saved fl \<le> unat sz div 8" and "r \<in> set (rv_slots fl)"
  shows "in_block memory (unat sz) (rv_slot_addr fl (rv_top memory sz) r)"
  unfolding rv_slot_addr_def rv_top_def
  by (rule in_block_top_slot) (use assms rv_index_lt [of r fl] in linarith)

lemma rv_special_slots [simp]:
  "RV_ra \<in> set (rv_slots fl)" "RV_sp \<in> set (rv_slots fl)" "RV_fp \<in> set (rv_slots fl)"
  "RV_pc \<in> set (rv_slots fl)" "RV_client_entry \<in> set (rv_slots fl)"
  by (simp_all add: rv_slots_def)

lemma rv_co_derive_ok:
  assumes "mapped m memory (unat sz)" and "rv_num_saved fl \<le> unat sz div 8"
  shows "\<exists>m'. rv_co_derive fl ce m memory sz entry = Inr (m', rv_top memory sz) \<and>
    block_writes m memory (unat sz)
      [(rv_slot_addr fl (rv_top memory sz) RV_ra, 0),
       (rv_slot_addr fl (rv_top memory sz) RV_sp, rv_initial_sp fl memory sz),
       (rv_slot_addr fl (rv_top memory sz) RV_fp, rv_initial_sp fl memory sz),
       (rv_slot_addr fl (rv_top memory sz) RV_pc, ce),
       (rv_slot_addr fl (rv_top memory sz) RV_client_entry, entry)] m'"
proof -
  let ?ws = "[(rv_slot_addr fl (rv_top memory sz) RV_ra, 0),
             (rv_slot_addr fl (rv_top memory sz) RV_sp, rv_initial_sp fl memory sz),
             (rv_slot_addr fl (rv_top memory sz) RV_fp, rv_initial_sp fl memory sz),
             (rv_slot_addr fl (rv_top memory sz) RV_pc, ce),
             (rv_slot_addr fl (rv_top memory sz) RV_client_entry, entry)]"
  have lt: "unat sz < 2 ^ LENGTH(64)" using unat_word32 [of sz] by simp
  have "\<forall>a \<in> set (map fst ?ws). in_block memory (unat sz) a"
    using rv_slot_in_block [OF assms(2)] by simp
  moreover have "all_apart (map fst ?ws)"
    by (simp add: rv_slots_apart)
  ultimately obtain m' where "write_words m ?ws = Inr m'" "block_writes m memory (unat sz) ?ws m'"
    using write_words_in_block [OF assms(1) lt, of ?ws] by auto
  then show ?thesis by (simp add: rv_co_derive_def Let_def)
qed

end
