(* ===== verification/Libco.thy ===== *)
theory Libco
  imports LibcoAmd64 LibcoAarch64 LibcoRiscv64
begin

text \<open>
  The interface of the coroutine primitives (\<open>libco/libco.h\<close>) as the scheduler sees it:
  \<open>libco.c\<close> includes the implementation of the architecture the library is built for,
  here the parameter \<open>arch\<close>. Only the 64-bit architectures the library supports are
  dispatched to; the 32-bit ARM variant is modelled on its own.
\<close>

type_synonym cothread_t = addr

datatype arch = Amd64 | AArch64 | RiscV64_soft | RiscV64_hard

definition co_derive ::
    "arch \<Rightarrow> addr \<Rightarrow> 64 memory \<Rightarrow> addr \<Rightarrow> 32 word \<Rightarrow> addr \<Rightarrow> fault + (64 memory \<times> cothread_t)" where
  "co_derive ar = (case ar of
      Amd64 \<Rightarrow> amd64_co_derive
    | AArch64 \<Rightarrow> a64_co_derive
    | RiscV64_soft \<Rightarrow> rv_co_derive False
    | RiscV64_hard \<Rightarrow> rv_co_derive True)"

definition derived_handle :: "arch \<Rightarrow> addr \<Rightarrow> 32 word \<Rightarrow> cothread_t" where
  "derived_handle ar memory sz = (case ar of
      Amd64 \<Rightarrow> memory
    | AArch64 \<Rightarrow> a64_top memory sz
    | RiscV64_soft \<Rightarrow> rv_top memory sz
    | RiscV64_hard \<Rightarrow> rv_top memory sz)"

text \<open>
  Whatever the architecture, deriving a context in a mapped block of at least the minimum
  stack size succeeds, writes inside the block only, and returns a handle inside it.
\<close>

lemma block_writes_frame:
  "block_writes m base n ws m' \<Longrightarrow> dom m' = dom m \<and> (\<forall>b. \<not> inside b base n \<longrightarrow> m' b = m b)"
  by (simp add: block_writes_def)

lemma co_derive_ok:
  assumes "mapped m memory (unat sz)" and "0x1000 \<le> unat sz" and "memory \<noteq> 0"
  shows "\<exists>m'. co_derive ar ce m memory sz entry = Inr (m', derived_handle ar memory sz) \<and>
    dom m' = dom m \<and> (\<forall>b. \<not> inside b memory (unat sz) \<longrightarrow> m' b = m b)"
proof -
  have size: "64 \<le> unat sz" "a64_regs_count \<le> unat sz div 8" "rv_num_saved fl \<le> unat sz div 8" for fl
    using assms(2) rv_num_saved_le [of fl] by linarith+
  show ?thesis
    using amd64_co_derive_ok [OF assms(1) size(1) assms(3), of ce entry]
      a64_co_derive_ok [OF assms(1) size(2), of ce entry]
      rv_co_derive_ok [OF assms(1) size(3) [of False], of ce entry]
      rv_co_derive_ok [OF assms(1) size(3) [of True], of ce entry]
    by (cases ar) (auto simp: co_derive_def derived_handle_def dest!: block_writes_frame)
qed

lemma derived_handle_inside:
  assumes "0x1000 \<le> unat sz"
  shows "inside (derived_handle ar memory sz) memory (unat sz)"
proof -
  have "inside (memory + of_nat i) memory (unat sz)" if "i < unat sz" for i
    using that unat_word32 [of sz] unat_offset [of i memory] by (simp add: inside_def)
  from this [of 0] this [of "8 * (unat sz div 8 - 1)"] show ?thesis
    using assms top_slot [of 0 sz memory]
    by (cases ar) (auto simp: derived_handle_def a64_top_def rv_top_def)
qed

end
