(* ===== verification/CoTypes.thy ===== *)
theory CoTypes
  imports HostedQueue Libco
begin

text \<open>
  The data of \<open>libmicrokitco.h\<close>: cothread control blocks, semaphores and the controller,
  field by field, and the state of a protection domain that uses the library: the
  controller (absent before \<open>microkit_cothread_init\<close>), the client's own semaphores by
  their address, the handle of the context that executes (\<open>co_active_handle\<close> of \<open>libco\<close>)
  and the memory that holds the cothread stacks.

  In the program the controller and the client's semaphores are bytes of the same memory.
  Here they are fields of their own, so that \<open>pd_mem\<close> is the memory outside them, as the
  checks, \<open>memzero\<close> and \<open>co_derive\<close> read and write it. It leaves out, too, what \<open>co_swap\<close> saves in
  the context of the caller: the \<open>Switch\<close> theories execute \<open>co_swap\<close> on a machine with memory.

  What is fixed when the library is compiled and linked is the record \<open>config\<close>.
\<close>

subsection \<open>Types of the header\<close>

type_synonym microkit_cothread_ref_t = int
type_synonym client_entry_t = addr
type_synonym microkit_channel = "32 word"

abbreviation (input) LIBMICROKITCO_NULL_HANDLE :: microkit_cothread_ref_t where
  "LIBMICROKITCO_NULL_HANDLE \<equiv> - 1"

datatype co_state_t =
    cothread_not_active
  | cothread_blocked
  | cothread_ready
  | cothread_running

record co_tcb_t =
  local_storage :: addr
  co_handle :: cothread_t
  client_entry :: client_entry_t
  private_arg :: addr
  tcb_state :: co_state_t
  next_blocked_on_same_event :: microkit_cothread_ref_t

record microkit_cothread_sem_t =
  sem_set :: bool
  sem_head :: microkit_cothread_ref_t
  sem_tail :: microkit_cothread_ref_t

record co_control_t =
  co_stack_size :: "32 word"
  running :: microkit_cothread_ref_t
  tcbs :: "co_tcb_t list"
  free_handle_queue :: hosted_queue_t
  scheduling_queue :: hosted_queue_t
  free_handle_queue_mem :: "microkit_cothread_ref_t list"
  scheduling_queue_mem :: "microkit_cothread_ref_t list"
  blocked_channel_map :: "microkit_cothread_sem_t list"

subsection \<open>Configuration and the state of the protection domain\<close>

text \<open>
  \<open>LIBMICROKITCO_MAX_COTHREADS\<close> comes from the client's \<open>libmicrokitco_opts.h\<close>,
  \<open>MICROKIT_MAX_CHANNELS\<close> from the Microkit SDK; the addresses are the linker's.
\<close>

record config =
  max_cothreads :: nat
  max_channels :: nat
  cfg_arch :: arch
  addr_co_entrypoint :: addr
  addr_entry_wrapper :: addr
  root_handle :: cothread_t

definition valid_config :: "config \<Rightarrow> bool" where
  "valid_config cfg \<longleftrightarrow> 2 \<le> max_cothreads cfg \<and> max_cothreads cfg \<le> INT_MAX \<and>
     max_channels cfg < 2 ^ 32"

record pd =
  co_controller :: "co_control_t option"
  client_sems :: "addr \<Rightarrow> microkit_cothread_sem_t"
  co_active_handle :: cothread_t
  pd_mem :: "64 memory"

text \<open>
  A semaphore lives either in the controller's table of channels or in client memory.
\<close>

datatype sem_ptr = ChannelSem nat | ClientSem addr

subsection \<open>Access to the controller\<close>

definition get_ctl :: "pd \<Rightarrow> fault + co_control_t" where
  "get_ctl s = (case co_controller s of None \<Rightarrow> Inl NullController | Some c \<Rightarrow> Inr c)"

definition put_ctl :: "co_control_t \<Rightarrow> pd \<Rightarrow> pd" where
  "put_ctl c s = s\<lparr>co_controller := Some c\<rparr>"

text \<open>\<open>tcbs[i]\<close> with a signed index: outside the array the access is undefined.\<close>

definition tcb_at :: "co_control_t \<Rightarrow> microkit_cothread_ref_t \<Rightarrow> fault + co_tcb_t" where
  "tcb_at c i =
     (if 0 \<le> i \<and> i < int (length (tcbs c)) then Inr (tcbs c ! nat i) else Inl OutOfBounds)"

definition mod_tcb ::
    "microkit_cothread_ref_t \<Rightarrow> (co_tcb_t \<Rightarrow> co_tcb_t) \<Rightarrow> co_control_t \<Rightarrow> fault + co_control_t" where
  "mod_tcb i f c = bindR (tcb_at c i) (\<lambda>t. Inr (c\<lparr>tcbs := (tcbs c)[nat i := f t]\<rparr>))"

definition set_state ::
    "microkit_cothread_ref_t \<Rightarrow> co_state_t \<Rightarrow> co_control_t \<Rightarrow> fault + co_control_t" where
  "set_state i st = mod_tcb i (\<lambda>t. t\<lparr>tcb_state := st\<rparr>)"

definition set_next ::
    "microkit_cothread_ref_t \<Rightarrow> microkit_cothread_ref_t \<Rightarrow> co_control_t \<Rightarrow> fault + co_control_t" where
  "set_next i n = mod_tcb i (\<lambda>t. t\<lparr>next_blocked_on_same_event := n\<rparr>)"

fun sem_read :: "pd \<Rightarrow> sem_ptr \<Rightarrow> fault + microkit_cothread_sem_t" where
  "sem_read s (ClientSem a) = Inr (client_sems s a)"
| "sem_read s (ChannelSem ch) = bindR (get_ctl s) (\<lambda>c.
     if ch < length (blocked_channel_map c) then Inr (blocked_channel_map c ! ch)
     else Inl OutOfBounds)"

fun sem_write :: "sem_ptr \<Rightarrow> microkit_cothread_sem_t \<Rightarrow> pd \<Rightarrow> fault + pd" where
  "sem_write (ClientSem a) v s = Inr (s\<lparr>client_sems := (client_sems s)(a := v)\<rparr>)"
| "sem_write (ChannelSem ch) v s = bindR (get_ctl s) (\<lambda>c.
     if ch < length (blocked_channel_map c)
     then Inr (put_ctl (c\<lparr>blocked_channel_map := (blocked_channel_map c)[ch := v]\<rparr>) s)
     else Inl OutOfBounds)"

subsection \<open>Queue operations on the controller\<close>

definition sched_push :: "microkit_cothread_ref_t \<Rightarrow> co_control_t \<Rightarrow> fault + (int \<times> co_control_t)" where
  "sched_push i c =
     bindR (hostedqueue_push (scheduling_queue c) (scheduling_queue_mem c) i) (\<lambda>(err, q, m).
       Inr (err, c\<lparr>scheduling_queue := q, scheduling_queue_mem := m\<rparr>))"

definition sched_pop ::
    "microkit_cothread_ref_t \<Rightarrow> co_control_t \<Rightarrow> fault + (int \<times> co_control_t \<times> microkit_cothread_ref_t)" where
  "sched_pop ret c =
     bindR (hostedqueue_pop (scheduling_queue c) (scheduling_queue_mem c) ret) (\<lambda>(err, q, x).
       Inr (err, c\<lparr>scheduling_queue := q\<rparr>, x))"

definition free_push :: "microkit_cothread_ref_t \<Rightarrow> co_control_t \<Rightarrow> fault + (int \<times> co_control_t)" where
  "free_push i c =
     bindR (hostedqueue_push (free_handle_queue c) (free_handle_queue_mem c) i) (\<lambda>(err, q, m).
       Inr (err, c\<lparr>free_handle_queue := q, free_handle_queue_mem := m\<rparr>))"

definition free_pop ::
    "microkit_cothread_ref_t \<Rightarrow> co_control_t \<Rightarrow> fault + (int \<times> co_control_t \<times> microkit_cothread_ref_t)" where
  "free_pop ret c =
     bindR (hostedqueue_pop (free_handle_queue c) (free_handle_queue_mem c) ret) (\<lambda>(err, q, x).
       Inr (err, c\<lparr>free_handle_queue := q\<rparr>, x))"

end
