(* ===== verification/CoScheduler.thy ===== *)
theory CoScheduler
  imports CoTypes
begin

text \<open>
  The scheduler of \<open>libmicrokitco.c\<close>: \<open>internal_schedule\<close> pops the scheduling queue until
  it finds the root thread or a ready cothread, \<open>internal_go_next\<close> makes the choice run
  and ends in \<open>co_switch\<close>.

  Every \<open>co_switch\<close> of the library is the last thing its caller does, so an operation
  of the model ends with the handle it switches to. Of \<open>co_switch\<close> only the assignment
  \<open>co_active_handle = handle\<close> is translated here. The call of \<open>co_swap\<close> that follows it exchanges
  the registers and writes the context of the caller in memory; the complete function is
  \<open>a64_co_switch\<close>, \<open>rv_co_switch\<close>, \<open>amd64_co_switch\<close> and \<open>arm_co_switch\<close> of the \<open>Switch\<close> theories, and
  \<open>ContextTurns\<close> shows that the cothreads do not see those writes.
\<close>

abbreviation (input) LIBMICROKITCO_ROOT_THREAD :: microkit_cothread_ref_t where
  "LIBMICROKITCO_ROOT_THREAD \<equiv> 0"

abbreviation (input) SCHEDULER_NULL_CHOICE :: microkit_cothread_ref_t where
  "SCHEDULER_NULL_CHOICE \<equiv> LIBMICROKITCO_NULL_HANDLE"

lemma sched_pop_decreases:
  assumes "sched_pop r c = Inr (LIBHOSTEDQUEUE_NOERR, c', x)"
  shows "unat (hq_items (scheduling_queue c')) < unat (hq_items (scheduling_queue c))"
proof -
  have "hq_items (scheduling_queue c) \<noteq> 0"
    and "hq_items (scheduling_queue c') = hq_items (scheduling_queue c) - 1"
    using assms
    by (auto simp: sched_pop_def hostedqueue_pop_def hostedqueue_peek_def bindR_Inr_iff split: if_splits)
  then show ?thesis using unat_sub_one by (metis diff_less less_one unat_gt_0 zero_less_one)
qed

text \<open>
  The loop of \<open>internal_schedule\<close>; \<open>next_choice\<close> is the variable the pop writes to. It
  ends because each turn that does not return takes one item off the queue.
\<close>

function internal_schedule_loop ::
    "microkit_cothread_ref_t \<Rightarrow> co_control_t \<Rightarrow> fault + (co_control_t \<times> microkit_cothread_ref_t)" where
  "internal_schedule_loop next_choice c =
     (case sched_pop next_choice c of
        Inl f \<Rightarrow> Inl f
      | Inr (peek_err, c', choice) \<Rightarrow>
          if peek_err = LIBHOSTEDQUEUE_ERR_EMPTY then Inr (c', SCHEDULER_NULL_CHOICE)
          else if peek_err = LIBHOSTEDQUEUE_NOERR then
            if choice = LIBMICROKITCO_ROOT_THREAD then Inr (c', choice)
            else
              (case tcb_at c' choice of
                 Inl f \<Rightarrow> Inl f
               | Inr t \<Rightarrow>
                   if tcb_state t = cothread_ready then Inr (c', choice)
                   else internal_schedule_loop choice c')
          else microkit_cothread_panic internal_pop_from_queue_cannot_pop)"
  by pat_completeness auto
termination
  by (relation "measure (\<lambda>(_, c). unat (hq_items (scheduling_queue c)))")
    (auto dest: sched_pop_decreases)

declare internal_schedule_loop.simps [simp del]

definition internal_schedule :: "co_control_t \<Rightarrow> fault + (co_control_t \<times> microkit_cothread_ref_t)" where
  "internal_schedule c = internal_schedule_loop 0 c"

definition internal_go_next :: "co_control_t \<Rightarrow> fault + (co_control_t \<times> cothread_t)" where
  "internal_go_next c =
     bindR (internal_schedule c) (\<lambda>(c, choice).
       let next = (if choice = SCHEDULER_NULL_CHOICE then 0 else choice) in
       bindR (set_state next cothread_running c) (\<lambda>c.
         let c = c\<lparr>running := next\<rparr> in
         bindR (tcb_at c next) (\<lambda>t. Inr (c, co_handle t))))"

definition co_switch :: "cothread_t \<Rightarrow> pd \<Rightarrow> pd" where
  "co_switch handle s = s\<lparr>co_active_handle := handle\<rparr>"

end
