(* ===== verification/CoSemaphore.thy ===== *)
theory CoSemaphore
  imports CoScheduler
begin

text \<open>
  The semaphores of \<open>libmicrokitco.c\<close>: a flag and a queue of waiting cothreads, linked
  through the field \<open>next_blocked_on_same_event\<close> of their control blocks.

  Each operation takes the semaphore and the controller and returns both; the last
  component is the handle it switches to at its end, \<open>None\<close> when it returns to its
  caller. The semaphore and the control blocks are disjoint memory, so passing the
  semaphore by value is what the pointer does.
\<close>

definition microkit_cothread_semaphore_init ::
    "microkit_cothread_sem_t \<Rightarrow> microkit_cothread_sem_t" where
  "microkit_cothread_semaphore_init sem =
     sem\<lparr>sem_head := LIBMICROKITCO_NULL_HANDLE, sem_tail := LIBMICROKITCO_NULL_HANDLE,
         sem_set := False\<rparr>"

definition microkit_cothread_semaphore_is_queue_empty :: "microkit_cothread_sem_t \<Rightarrow> bool" where
  "microkit_cothread_semaphore_is_queue_empty sem \<longleftrightarrow> sem_head sem = LIBMICROKITCO_NULL_HANDLE"

definition microkit_cothread_semaphore_is_set :: "microkit_cothread_sem_t \<Rightarrow> bool" where
  "microkit_cothread_semaphore_is_set sem \<longleftrightarrow> sem_set sem"

definition microkit_cothread_semaphore_wait ::
    "microkit_cothread_sem_t \<Rightarrow> co_control_t \<Rightarrow>
      fault + (microkit_cothread_sem_t \<times> co_control_t \<times> cothread_t option)" where
  "microkit_cothread_semaphore_wait sem c =
     (if sem_set sem then Inr (sem\<lparr>sem_set := False\<rparr>, c, None)
      else
        bindR (set_state (running c) cothread_blocked c) (\<lambda>c.
        bindR
          (if sem_head sem = LIBMICROKITCO_NULL_HANDLE
           then Inr (sem\<lparr>sem_head := running c, sem_tail := running c\<rparr>, c)
           else bindR (set_next (sem_tail sem) (running c) c) (\<lambda>c.
                  Inr (sem\<lparr>sem_tail := running c\<rparr>, c)))
          (\<lambda>(sem, c).
        bindR (internal_go_next c) (\<lambda>(c, handle). Inr (sem, c, Some handle)))))"

definition microkit_cothread_semaphore_signal ::
    "microkit_cothread_sem_t \<Rightarrow> co_control_t \<Rightarrow>
      fault + (microkit_cothread_sem_t \<times> co_control_t \<times> cothread_t option)" where
  "microkit_cothread_semaphore_signal sem c =
     (if microkit_cothread_semaphore_is_set sem then Inr (sem, c, None)
      else if microkit_cothread_semaphore_is_queue_empty sem
      then Inr (sem\<lparr>sem_set := True\<rparr>, c, None)
      else
        let head = sem_head sem in
        bindR (tcb_at c head) (\<lambda>t.
        let next = next_blocked_on_same_event t in
        bindR (sched_push (running c) c) (\<lambda>(sched_err, c).
        if sched_err \<noteq> LIBHOSTEDQUEUE_NOERR
        then microkit_cothread_panic co_err_sem_sig_once_cannot_schedule_caller
        else
          bindR (set_state (running c) cothread_ready c) (\<lambda>c.
          let sem = sem\<lparr>sem_head := next\<rparr> in
          bindR (set_next head LIBMICROKITCO_NULL_HANDLE c) (\<lambda>c.
          let sem = (if next = LIBMICROKITCO_NULL_HANDLE
                     then microkit_cothread_semaphore_init sem else sem);
              c = c\<lparr>running := head\<rparr> in
          bindR (set_state (running c) cothread_running c) (\<lambda>c.
          bindR (tcb_at c (running c)) (\<lambda>t. Inr (sem, c, Some (co_handle t)))))))))"

end
