(* ===== verification/CoInit.thy ===== *)
theory CoInit
  imports CoSemaphore
begin

text \<open>
  \<open>microkit_cothread_init\<close>: the checks of its arguments, the two loops over the stacks
  and the initial controller. The controller's own memory is cleared through the byte
  memory (which faults when it is too small, as the source notes) and from then on
  represented by the record; the model takes it to be disjoint from the stacks.
\<close>

abbreviation (input) MINIMUM_STACK_SIZE :: addr where "MINIMUM_STACK_SIZE \<equiv> 0x1000"

subsection \<open>The size of the controller\<close>

text \<open>
  \<open>sizeof(co_control_t)\<close> under the 64-bit ABIs: 40 bytes for a control block, 16 for a
  queue, 12 for a semaphore (a \<open>bool\<close> padded to four bytes), the whole rounded up to the
  alignment of a pointer.
\<close>

definition LIBMICROKITCO_CONTROLLER_SIZE :: "config \<Rightarrow> nat" where
  "LIBMICROKITCO_CONTROLLER_SIZE cfg =
     (let n = 8 + 40 * max_cothreads cfg + 16 + 16 + 4 * max_cothreads cfg + 4 * max_cothreads cfg
              + 12 * max_channels cfg
      in 8 * ((n + 7) div 8))"

text \<open>A controller whose bytes are all zero.\<close>

definition zero_tcb :: co_tcb_t where
  "zero_tcb = \<lparr>local_storage = 0, co_handle = 0, client_entry = 0, private_arg = 0,
     tcb_state = cothread_not_active, next_blocked_on_same_event = 0\<rparr>"

definition zero_queue :: hosted_queue_t where
  "zero_queue = \<lparr>hq_capacity = 0, hq_items = 0, hq_head = 0, hq_tail = 0\<rparr>"

definition zero_sem :: microkit_cothread_sem_t where
  "zero_sem = \<lparr>sem_set = False, sem_head = 0, sem_tail = 0\<rparr>"

definition zero_controller :: "config \<Rightarrow> co_control_t" where
  "zero_controller cfg =
     \<lparr>co_stack_size = 0, running = 0, tcbs = replicate (max_cothreads cfg) zero_tcb,
      free_handle_queue = zero_queue, scheduling_queue = zero_queue,
      free_handle_queue_mem = replicate (max_cothreads cfg) 0,
      scheduling_queue_mem = replicate (max_cothreads cfg) 0,
      blocked_channel_map = replicate (max_channels cfg) zero_sem\<rparr>"

subsection \<open>The loops over the stacks\<close>

definition write_byte :: "64 memory \<Rightarrow> addr \<Rightarrow> 8 word \<Rightarrow> fault + 64 memory" where
  "write_byte m a v = (if m a = None then Inl (VMFault a) else Inr (m(a \<mapsto> v)))"

text \<open>
  First loop: record the stack of cothread \<open>i\<close>, reject null, and probe the first and the
  last byte with the size as passed (a \<open>size_t\<close>).
\<close>

fun init_stacks ::
    "addr \<Rightarrow> addr list \<Rightarrow> nat list \<Rightarrow> co_control_t \<Rightarrow> 64 memory \<Rightarrow> fault + (co_control_t \<times> 64 memory)" where
  "init_stacks co_stack_sz co_stacks [] c m = Inr (c, m)"
| "init_stacks co_stack_sz co_stacks (i # is) c m =
     (if length co_stacks \<le> i - 1 then Inl OutOfBounds
      else
        let stack = co_stacks ! (i - 1) in
        bindR (mod_tcb (int i) (\<lambda>t. t\<lparr>local_storage := stack\<rparr>) c) (\<lambda>c.
        if stack = 0 then microkit_cothread_panic init_co_stack_null
        else
          bindR (write_byte m stack 0) (\<lambda>m.
          bindR (write_byte m (stack + (co_stack_sz - 1)) 0) (\<lambda>m.
          init_stacks co_stack_sz co_stacks is c m))))"

text \<open>
  Second loop: the test of two stacks, with the end of a stack computed in \<open>uintptr_t\<close>,
  and its use on every pair of different cothreads. The loop has no effect but the
  panic, so its result is whether some pair meets the test.
\<close>

definition stacks_overlap :: "addr \<Rightarrow> addr \<Rightarrow> addr \<Rightarrow> bool" where
  "stacks_overlap co_stack_sz this_stack_start other_stack_start \<longleftrightarrow>
     (let this_stack_end = this_stack_start + co_stack_sz - 1;
          other_stack_end = other_stack_start + co_stack_sz - 1
      in this_stack_start \<le> other_stack_end \<and> other_stack_start \<le> this_stack_end)"

definition some_stacks_overlap :: "config \<Rightarrow> addr \<Rightarrow> co_control_t \<Rightarrow> bool" where
  "some_stacks_overlap cfg co_stack_sz c \<longleftrightarrow>
     list_ex (\<lambda>i. list_ex (\<lambda>j. j \<noteq> i \<and>
         stacks_overlap co_stack_sz (local_storage (tcbs c ! i)) (local_storage (tcbs c ! j)))
       [1..<max_cothreads cfg]) [1..<max_cothreads cfg]"

subsection \<open>\<open>co_active\<close>\<close>

text \<open>
  The handle of the executing context. On x86-64 the variable starts null and is set to
  the static buffer of the root thread on first use; elsewhere it is initialised to it.
\<close>

definition co_active :: "config \<Rightarrow> pd \<Rightarrow> pd \<times> cothread_t" where
  "co_active cfg s =
     (let s' = (if cfg_arch cfg = Amd64 \<and> co_active_handle s = 0
                then s\<lparr>co_active_handle := root_handle cfg\<rparr> else s)
      in (s', co_active_handle s'))"

subsection \<open>\<open>microkit_cothread_init\<close>\<close>

definition init_root :: "cothread_t \<Rightarrow> co_control_t \<Rightarrow> fault + co_control_t" where
  "init_root handle c =
     bindR (mod_tcb 0 (\<lambda>t. t\<lparr>local_storage := 0, co_handle := handle,
              tcb_state := cothread_running,
              next_blocked_on_same_event := LIBMICROKITCO_NULL_HANDLE\<rparr>) c)
       (\<lambda>c. Inr (c\<lparr>running := LIBMICROKITCO_ROOT_THREAD\<rparr>))"

definition init_queues :: "config \<Rightarrow> co_control_t \<Rightarrow> fault + co_control_t" where
  "init_queues cfg c =
     (let (err_hq, fq) = hostedqueue_init (free_handle_queue c) (of_nat (max_cothreads cfg));
          (err_sq, sq) = hostedqueue_init (scheduling_queue c) (of_nat (max_cothreads cfg));
          c = c\<lparr>free_handle_queue := fq, scheduling_queue := sq\<rparr>
      in if err_hq \<noteq> LIBHOSTEDQUEUE_NOERR then microkit_cothread_panic init_free_handles_init_fail
         else if err_sq \<noteq> LIBHOSTEDQUEUE_NOERR then microkit_cothread_panic init_sched_init_fail
         else
           bindR (push_all hostedqueue_push (free_handle_queue c) (free_handle_queue_mem c)
                    (map int [1..<max_cothreads cfg])) (\<lambda>(err, fq, fm).
           if err \<noteq> LIBHOSTEDQUEUE_NOERR
           then microkit_cothread_panic init_free_handles_populate_fail
           else Inr (c\<lparr>free_handle_queue := fq, free_handle_queue_mem := fm\<rparr>)))"

definition microkit_cothread_init ::
    "config \<Rightarrow> addr \<Rightarrow> addr \<Rightarrow> addr list \<Rightarrow> pd \<Rightarrow> fault + pd" where
  "microkit_cothread_init cfg controller_memory_addr co_stack_sz co_stacks s =
     (if co_controller s \<noteq> None then microkit_cothread_panic init_already_initialised
      else if co_stack_sz < MINIMUM_STACK_SIZE then microkit_cothread_panic init_stack_too_small
      else
        bindR (memzero (pd_mem s) controller_memory_addr (of_nat (LIBMICROKITCO_CONTROLLER_SIZE cfg)))
          (\<lambda>m.
        bindR (init_stacks co_stack_sz co_stacks [1..<max_cothreads cfg]
                 ((zero_controller cfg)\<lparr>co_stack_size := ucast co_stack_sz\<rparr>) m) (\<lambda>(c, m).
        if some_stacks_overlap cfg co_stack_sz c
        then microkit_cothread_panic init_co_stack_overlap
        else
          let (s, handle) = co_active cfg (s\<lparr>pd_mem := m\<rparr>) in
          bindR (init_root handle c) (\<lambda>c.
          bindR (init_queues cfg c) (\<lambda>c.
          Inr (put_ctl (c\<lparr>blocked_channel_map :=
                 map microkit_cothread_semaphore_init (blocked_channel_map c)\<rparr>) s))))))"

end
