(* ===== verification/CoApi.thy ===== *)
theory CoApi
  imports CoInit
begin

text \<open>
  The public operations of \<open>libmicrokitco.c\<close> on the state of the protection domain. The
  caller is the cothread recorded as \<open>running\<close>; an operation that switches ends with the
  new handle in \<open>co_active_handle\<close>, and one that returns leaves it as it was.
\<close>

subsection \<open>Semaphores in the state\<close>

definition switch_to :: "cothread_t option \<Rightarrow> pd \<Rightarrow> pd" where
  "switch_to sw s = (case sw of None \<Rightarrow> s | Some handle \<Rightarrow> co_switch handle s)"

definition on_sem ::
    "(microkit_cothread_sem_t \<Rightarrow> co_control_t \<Rightarrow>
       fault + (microkit_cothread_sem_t \<times> co_control_t \<times> cothread_t option)) \<Rightarrow>
     sem_ptr \<Rightarrow> pd \<Rightarrow> fault + pd" where
  "on_sem f p s =
     bindR (get_ctl s) (\<lambda>c.
     bindR (sem_read s p) (\<lambda>sem.
     bindR (f sem c) (\<lambda>(sem', c', sw).
     bindR (sem_write p sem' (put_ctl c' s)) (\<lambda>s'.
     Inr (switch_to sw s')))))"

definition pd_semaphore_wait :: "sem_ptr \<Rightarrow> pd \<Rightarrow> fault + pd" where
  "pd_semaphore_wait = on_sem microkit_cothread_semaphore_wait"

definition pd_semaphore_signal :: "sem_ptr \<Rightarrow> pd \<Rightarrow> fault + pd" where
  "pd_semaphore_signal = on_sem microkit_cothread_semaphore_signal"

definition pd_semaphore_init :: "sem_ptr \<Rightarrow> pd \<Rightarrow> fault + pd" where
  "pd_semaphore_init p s =
     bindR (sem_read s p) (\<lambda>sem. sem_write p (microkit_cothread_semaphore_init sem) s)"

definition microkit_cothread_wait_on_channel ::
    "config \<Rightarrow> microkit_channel \<Rightarrow> pd \<Rightarrow> fault + pd" where
  "microkit_cothread_wait_on_channel cfg wake_on s =
     (if max_channels cfg \<le> unat wake_on
      then microkit_cothread_panic wait_on_channel_invalid_channel
      else pd_semaphore_wait (ChannelSem (unat wake_on)) s)"

definition microkit_cothread_recv_ntfn ::
    "config \<Rightarrow> microkit_channel \<Rightarrow> pd \<Rightarrow> fault + pd" where
  "microkit_cothread_recv_ntfn cfg ch s =
     bindR (get_ctl s) (\<lambda>c.
     if running c \<noteq> LIBMICROKITCO_ROOT_THREAD
     then microkit_cothread_panic recv_ntfn_called_from_non_root_cothread
     else if max_channels cfg \<le> unat ch
     then microkit_cothread_panic recv_ntfn_invalid_channel
     else pd_semaphore_signal (ChannelSem (unat ch)) s)"

subsection \<open>Handles, arguments and states\<close>

text \<open>
  \<open>ret_handle\<close> is the caller's variable; the result is the flag and its new value.
\<close>

definition microkit_cothread_free_handle_available ::
    "microkit_cothread_ref_t \<Rightarrow> pd \<Rightarrow> fault + (bool \<times> microkit_cothread_ref_t)" where
  "microkit_cothread_free_handle_available ret_handle s =
     bindR (get_ctl s) (\<lambda>c.
     bindR (hostedqueue_peek (free_handle_queue c) (free_handle_queue_mem c) ret_handle)
       (\<lambda>(err, ret). Inr (err = LIBHOSTEDQUEUE_NOERR, ret)))"

definition microkit_cothread_set_arg ::
    "config \<Rightarrow> microkit_cothread_ref_t \<Rightarrow> addr \<Rightarrow> pd \<Rightarrow> fault + pd" where
  "microkit_cothread_set_arg cfg cothread arg s =
     (if int (max_cothreads cfg) \<le> cothread \<or> cothread < 0
      then microkit_cothread_panic generic_invalid_handle
      else
        bindR (get_ctl s) (\<lambda>c.
        bindR (tcb_at c cothread) (\<lambda>t.
        if tcb_state t = cothread_not_active
        then microkit_cothread_panic generic_invalid_handle
        else bindR (mod_tcb cothread (\<lambda>t. t\<lparr>private_arg := arg\<rparr>) c) (\<lambda>c.
               Inr (put_ctl c s)))))"

definition microkit_cothread_query_state ::
    "config \<Rightarrow> microkit_cothread_ref_t \<Rightarrow> pd \<Rightarrow> fault + co_state_t" where
  "microkit_cothread_query_state cfg cothread s =
     (if int (max_cothreads cfg) \<le> cothread \<or> cothread < 0
      then microkit_cothread_panic generic_invalid_handle
      else bindR (get_ctl s) (\<lambda>c. bindR (tcb_at c cothread) (\<lambda>t. Inr (tcb_state t))))"

definition microkit_cothread_my_handle :: "pd \<Rightarrow> fault + microkit_cothread_ref_t" where
  "microkit_cothread_my_handle s = bindR (get_ctl s) (\<lambda>c. Inr (running c))"

definition microkit_cothread_my_arg :: "pd \<Rightarrow> fault + addr" where
  "microkit_cothread_my_arg s =
     bindR (get_ctl s) (\<lambda>c.
     if running c = 0 then microkit_cothread_panic my_arg_called_from_root
     else bindR (tcb_at c (running c)) (\<lambda>t. Inr (private_arg t)))"

subsection \<open>Spawn, yield, destroy\<close>

text \<open>
  \<open>co_stack_size\<close> is an \<open>int\<close>: \<open>memzero\<close> receives it sign-extended to \<open>size_t\<close>,
  \<open>co_derive\<close> as an \<open>unsigned int\<close>.
\<close>

definition microkit_cothread_spawn ::
    "config \<Rightarrow> client_entry_t \<Rightarrow> addr \<Rightarrow> pd \<Rightarrow> fault + (pd \<times> microkit_cothread_ref_t)" where
  "microkit_cothread_spawn cfg entry arg s =
     (if entry = 0 then microkit_cothread_panic spawn_client_entry_is_null
      else
        bindR (get_ctl s) (\<lambda>c.
        bindR (free_pop 0 c) (\<lambda>(pop_err, c, new).
        if pop_err \<noteq> LIBHOSTEDQUEUE_NOERR then Inr (put_ctl c s, LIBMICROKITCO_NULL_HANDLE)
        else
          bindR (tcb_at c new) (\<lambda>t.
          let costack = local_storage t in
          bindR (memzero (pd_mem s) costack (scast (co_stack_size c))) (\<lambda>m.
          let s = fst (co_active cfg s) in
          bindR (co_derive (cfg_arch cfg) (addr_co_entrypoint cfg) m costack (co_stack_size c)
                   (addr_entry_wrapper cfg)) (\<lambda>(m, handle).
          bindR (mod_tcb new (\<lambda>t. t\<lparr>client_entry := entry, private_arg := arg,
                   co_handle := handle, tcb_state := cothread_ready,
                   next_blocked_on_same_event := LIBMICROKITCO_NULL_HANDLE\<rparr>) c) (\<lambda>c.
          bindR (sched_push new c) (\<lambda>(schedule_err, c).
          if schedule_err \<noteq> LIBHOSTEDQUEUE_NOERR
          then microkit_cothread_panic spawn_cannot_schedule_new
          else Inr (put_ctl c (s\<lparr>pd_mem := m\<rparr>), new)))))))))"

definition microkit_cothread_yield :: "pd \<Rightarrow> fault + pd" where
  "microkit_cothread_yield s =
     bindR (get_ctl s) (\<lambda>c.
     bindR (sched_push (running c) c) (\<lambda>(sched_err, c).
     if sched_err \<noteq> LIBHOSTEDQUEUE_NOERR
     then microkit_cothread_panic yield_cannot_schedule_caller
     else
       bindR (set_state (running c) cothread_ready c) (\<lambda>c.
       bindR (internal_go_next c) (\<lambda>(c, handle).
       Inr (co_switch handle (put_ctl c s))))))"

definition microkit_cothread_destroy ::
    "config \<Rightarrow> microkit_cothread_ref_t \<Rightarrow> pd \<Rightarrow> fault + pd" where
  "microkit_cothread_destroy cfg cothread s =
     (if int (max_cothreads cfg) \<le> cothread \<or> cothread < 0
      then microkit_cothread_panic generic_invalid_handle
      else
        bindR (get_ctl s) (\<lambda>c.
        bindR (tcb_at c cothread) (\<lambda>t.
        if tcb_state t = cothread_not_active
        then microkit_cothread_panic destroy_already_not_initialised
        else if running c = 0 then microkit_cothread_panic destroy_cannot_destroy_root
        else
          bindR (free_push cothread c) (\<lambda>(err, c).
          if err \<noteq> LIBHOSTEDQUEUE_NOERR
          then microkit_cothread_panic destroy_cannot_release_handle
          else
            bindR (set_state cothread cothread_not_active c) (\<lambda>c.
            if cothread = running c then
              bindR (internal_go_next c) (\<lambda>(c, handle).
              Inr (co_switch handle (put_ctl c s)))
            else Inr (put_ctl c s))))))"

text \<open>
  What \<open>cothread_entry_wrapper\<close> does once the client's entry point has returned: destroy
  the running cothread. If that came back with the same context still executing, the
  wrapper panics.
\<close>

definition cothread_entry_wrapper_return :: "config \<Rightarrow> pd \<Rightarrow> fault + pd" where
  "cothread_entry_wrapper_return cfg s =
     bindR (get_ctl s) (\<lambda>c.
     bindR (microkit_cothread_destroy cfg (running c) s) (\<lambda>s'.
     if co_active_handle s' = co_active_handle s
     then microkit_cothread_panic cannot_destroy_self_after_return
     else Inr s'))"

end
