(* ===== verification/CoView.thy ===== *)
theory CoView
  imports CoApi
begin

text \<open>
  How the proofs look at a controller: control blocks by handle, the two queues as lists
  of handles, and one rewrite rule per accessor and update. The rules are in
  \<open>ctl_simps\<close>; what the scheduler loop chooses is stated once here, for any contents of
  the queue.
\<close>

subsection \<open>Control blocks by handle\<close>

definition tcb :: "co_control_t \<Rightarrow> microkit_cothread_ref_t \<Rightarrow> co_tcb_t" where
  "tcb c h = tcbs c ! nat h"

definition valid_ref :: "co_control_t \<Rightarrow> microkit_cothread_ref_t \<Rightarrow> bool" where
  "valid_ref c h \<longleftrightarrow> 0 \<le> h \<and> h < int (length (tcbs c))"

definition upd_tcb ::
    "microkit_cothread_ref_t \<Rightarrow> (co_tcb_t \<Rightarrow> co_tcb_t) \<Rightarrow> co_control_t \<Rightarrow> co_control_t" where
  "upd_tcb h f c = c\<lparr>tcbs := (tcbs c)[nat h := f (tcb c h)]\<rparr>"

lemma tcb_at_valid [ctl_simps]: "valid_ref c h \<Longrightarrow> tcb_at c h = Inr (tcb c h)"
  by (simp add: tcb_at_def valid_ref_def tcb_def)

lemma mod_tcb_valid [ctl_simps]: "valid_ref c h \<Longrightarrow> mod_tcb h f c = Inr (upd_tcb h f c)"
  by (simp add: mod_tcb_def tcb_at_valid upd_tcb_def)

lemma tcb_at_invalid: "\<not> valid_ref c h \<Longrightarrow> tcb_at c h = Inl OutOfBounds"
  by (auto simp: tcb_at_def valid_ref_def)

lemma upd_tcb_select [ctl_simps]:
  "running (upd_tcb h f c) = running c"
  "co_stack_size (upd_tcb h f c) = co_stack_size c"
  "free_handle_queue (upd_tcb h f c) = free_handle_queue c"
  "scheduling_queue (upd_tcb h f c) = scheduling_queue c"
  "free_handle_queue_mem (upd_tcb h f c) = free_handle_queue_mem c"
  "scheduling_queue_mem (upd_tcb h f c) = scheduling_queue_mem c"
  "blocked_channel_map (upd_tcb h f c) = blocked_channel_map c"
  "length (tcbs (upd_tcb h f c)) = length (tcbs c)"
  by (simp_all add: upd_tcb_def)

lemma tcb_upd_tcb [ctl_simps]:
  "valid_ref c h \<Longrightarrow> 0 \<le> k \<Longrightarrow> tcb (upd_tcb h f c) k = (if k = h then f (tcb c h) else tcb c k)"
  by (auto simp: tcb_def upd_tcb_def valid_ref_def nth_list_update eq_nat_nat_iff)

lemma valid_ref_upd_tcb [ctl_simps]: "valid_ref (upd_tcb h f c) k = valid_ref c k"
  by (simp add: valid_ref_def upd_tcb_select)

lemma running_update_views [ctl_simps]:
  "tcb (c\<lparr>running := r\<rparr>) k = tcb c k"
  "valid_ref (c\<lparr>running := r\<rparr>) k = valid_ref c k"
  by (simp_all add: tcb_def valid_ref_def)

lemma valid_ref_nonneg: "valid_ref c h \<Longrightarrow> 0 \<le> h"
  by (simp add: valid_ref_def)

subsection \<open>The queues as lists\<close>

definition ready_list :: "co_control_t \<Rightarrow> microkit_cothread_ref_t list" where
  "ready_list c = hq_list (scheduling_queue c) (scheduling_queue_mem c)"

definition free_list :: "co_control_t \<Rightarrow> microkit_cothread_ref_t list" where
  "free_list c = hq_list (free_handle_queue c) (free_handle_queue_mem c)"

definition queues_ok :: "nat \<Rightarrow> co_control_t \<Rightarrow> bool" where
  "queues_ok n c \<longleftrightarrow>
     hq_inv (scheduling_queue c) (scheduling_queue_mem c) \<and> hq_cap (scheduling_queue c) = n \<and>
     hq_inv (free_handle_queue c) (free_handle_queue_mem c) \<and> hq_cap (free_handle_queue c) = n"

definition same_but_queues :: "co_control_t \<Rightarrow> co_control_t \<Rightarrow> bool" where
  "same_but_queues c c' \<longleftrightarrow> running c' = running c \<and> tcbs c' = tcbs c \<and>
     blocked_channel_map c' = blocked_channel_map c \<and> co_stack_size c' = co_stack_size c"

lemma queue_views [ctl_simps]:
  "ready_list (upd_tcb h f c) = ready_list c" "free_list (upd_tcb h f c) = free_list c"
  "queues_ok n (upd_tcb h f c) = queues_ok n c"
  "ready_list (c\<lparr>running := r\<rparr>) = ready_list c" "free_list (c\<lparr>running := r\<rparr>) = free_list c"
  "queues_ok n (c\<lparr>running := r\<rparr>) = queues_ok n c"
  by (simp_all add: ready_list_def free_list_def queues_ok_def upd_tcb_select)

lemma same_but_queues_views:
  assumes "same_but_queues c c'"
  shows "tcb c' h = tcb c h" "valid_ref c' h = valid_ref c h" "running c' = running c"
    "length (tcbs c') = length (tcbs c)" "blocked_channel_map c' = blocked_channel_map c"
    "co_stack_size c' = co_stack_size c"
  using assms by (simp_all add: same_but_queues_def tcb_def valid_ref_def)

lemma same_but_queues_refl [simp]: "same_but_queues c c"
  by (simp add: same_but_queues_def)

lemma same_but_queues_trans:
  "same_but_queues a b \<Longrightarrow> same_but_queues b c \<Longrightarrow> same_but_queues a c"
  by (simp add: same_but_queues_def)

lemma ready_list_bound: "queues_ok n c \<Longrightarrow> length (ready_list c) \<le> n"
  unfolding queues_ok_def ready_list_def by (metis hq.bounded)

lemma free_list_bound: "queues_ok n c \<Longrightarrow> length (free_list c) \<le> n"
  unfolding queues_ok_def free_list_def by (metis hq.bounded)

lemma sched_push_room:
  assumes "queues_ok n c" and "length (ready_list c) < n"
  shows "\<exists>c'. sched_push x c = Inr (LIBHOSTEDQUEUE_NOERR, c') \<and> queues_ok n c' \<and>
    same_but_queues c c' \<and> ready_list c' = ready_list c @ [x] \<and> free_list c' = free_list c"
proof -
  obtain q m where "hostedqueue_push (scheduling_queue c) (scheduling_queue_mem c) x
      = Inr (LIBHOSTEDQUEUE_NOERR, q, m)" "hq_inv q m" "hq_list q m = ready_list c @ [x]" "hq_cap q = n"
    using hq.push_room [of "scheduling_queue c" "scheduling_queue_mem c" x] assms
    by (auto simp: queues_ok_def ready_list_def)
  then show ?thesis using assms(1)
    by (simp add: sched_push_def queues_ok_def same_but_queues_def ready_list_def free_list_def)
qed

lemma sched_push_full:
  assumes "queues_ok n c" and "length (ready_list c) = n"
  shows "\<exists>c'. sched_push x c = Inr (LIBHOSTEDQUEUE_ERR_FULL, c')"
  using assms hq.push_full [of "scheduling_queue c" "scheduling_queue_mem c" x]
  by (auto simp: queues_ok_def ready_list_def sched_push_def)

lemma free_push_room:
  assumes "queues_ok n c" and "length (free_list c) < n"
  shows "\<exists>c'. free_push x c = Inr (LIBHOSTEDQUEUE_NOERR, c') \<and> queues_ok n c' \<and>
    same_but_queues c c' \<and> free_list c' = free_list c @ [x] \<and> ready_list c' = ready_list c"
proof -
  obtain q m where "hostedqueue_push (free_handle_queue c) (free_handle_queue_mem c) x
      = Inr (LIBHOSTEDQUEUE_NOERR, q, m)" "hq_inv q m" "hq_list q m = free_list c @ [x]" "hq_cap q = n"
    using hq.push_room [of "free_handle_queue c" "free_handle_queue_mem c" x] assms
    by (auto simp: queues_ok_def free_list_def)
  then show ?thesis using assms(1)
    by (simp add: free_push_def queues_ok_def same_but_queues_def ready_list_def free_list_def)
qed

lemma free_push_full:
  assumes "queues_ok n c" and "length (free_list c) = n"
  shows "\<exists>c'. free_push x c = Inr (LIBHOSTEDQUEUE_ERR_FULL, c')"
  using assms hq.push_full [of "free_handle_queue c" "free_handle_queue_mem c" x]
  by (auto simp: queues_ok_def free_list_def free_push_def)

lemma free_pop_empty:
  assumes "queues_ok n c" and "free_list c = []"
  shows "free_pop r c = Inr (LIBHOSTEDQUEUE_ERR_EMPTY, c, r)"
  using assms hq.pop_empty [of "free_handle_queue c" "free_handle_queue_mem c" r]
  by (auto simp: queues_ok_def free_list_def free_pop_def)

lemma free_pop_front:
  assumes "queues_ok n c" and "free_list c = x # xs"
  shows "\<exists>c'. free_pop r c = Inr (LIBHOSTEDQUEUE_NOERR, c', x) \<and> queues_ok n c' \<and>
    same_but_queues c c' \<and> free_list c' = xs \<and> ready_list c' = ready_list c"
proof -
  obtain q where "hostedqueue_pop (free_handle_queue c) (free_handle_queue_mem c) r
      = Inr (LIBHOSTEDQUEUE_NOERR, q, x)" "hq_inv q (free_handle_queue_mem c)"
      "hq_list q (free_handle_queue_mem c) = xs" "hq_cap q = n"
    using hq.pop_front [of "free_handle_queue c" "free_handle_queue_mem c" x xs r] assms
    by (auto simp: queues_ok_def free_list_def)
  then show ?thesis using assms(1)
    by (simp add: free_pop_def queues_ok_def same_but_queues_def ready_list_def free_list_def)
qed

lemma sched_pop_empty:
  assumes "queues_ok n c" and "ready_list c = []"
  shows "sched_pop r c = Inr (LIBHOSTEDQUEUE_ERR_EMPTY, c, r)"
  using assms hq.pop_empty [of "scheduling_queue c" "scheduling_queue_mem c" r]
  by (auto simp: queues_ok_def ready_list_def sched_pop_def)

lemma sched_pop_front:
  assumes "queues_ok n c" and "ready_list c = x # xs"
  shows "\<exists>c'. sched_pop r c = Inr (LIBHOSTEDQUEUE_NOERR, c', x) \<and> queues_ok n c' \<and>
    same_but_queues c c' \<and> ready_list c' = xs \<and> free_list c' = free_list c"
proof -
  obtain q where "hostedqueue_pop (scheduling_queue c) (scheduling_queue_mem c) r
      = Inr (LIBHOSTEDQUEUE_NOERR, q, x)" "hq_inv q (scheduling_queue_mem c)"
      "hq_list q (scheduling_queue_mem c) = xs" "hq_cap q = n"
    using hq.pop_front [of "scheduling_queue c" "scheduling_queue_mem c" x xs r] assms
    by (auto simp: queues_ok_def ready_list_def)
  then show ?thesis using assms(1)
    by (simp add: sched_pop_def queues_ok_def same_but_queues_def ready_list_def free_list_def)
qed

subsection \<open>What the scheduler chooses\<close>

text \<open>
  An entry of the scheduling queue is stale when it is neither the root thread nor
  marked ready: a cothread destroyed while it was waiting for its turn.
\<close>

definition stale :: "co_control_t \<Rightarrow> microkit_cothread_ref_t \<Rightarrow> bool" where
  "stale c h \<longleftrightarrow> h \<noteq> LIBMICROKITCO_ROOT_THREAD \<and> tcb_state (tcb c h) \<noteq> cothread_ready"

definition first_choice :: "co_control_t \<Rightarrow> microkit_cothread_ref_t" where
  "first_choice c = (case dropWhile (stale c) (ready_list c) of
     [] \<Rightarrow> SCHEDULER_NULL_CHOICE | h # _ \<Rightarrow> h)"

lemma stale_cong: "same_but_queues c c' \<Longrightarrow> stale c' = stale c"
  by (auto simp: stale_def same_but_queues_views fun_eq_iff)

lemma internal_schedule_loop_spec:
  assumes "queues_ok n c" and "\<forall>h \<in> set (ready_list c). valid_ref c h"
  shows "\<exists>c'. internal_schedule_loop r c = Inr (c', first_choice c) \<and> queues_ok n c' \<and>
    same_but_queues c c' \<and> ready_list c' = tl (dropWhile (stale c) (ready_list c)) \<and>
    free_list c' = free_list c"
  using assms
proof (induction "ready_list c" arbitrary: c r)
  case Nil
  from Nil.hyps have "ready_list c = []" by simp
  with Nil.prems show ?case
    by (subst internal_schedule_loop.simps) (simp add: sched_pop_empty first_choice_def)
next
  case (Cons h hs)
  obtain c1 where pop: "sched_pop r c = Inr (LIBHOSTEDQUEUE_NOERR, c1, h)" and c1: "queues_ok n c1"
    "same_but_queues c c1" "ready_list c1 = hs" "free_list c1 = free_list c"
    using sched_pop_front [OF Cons.prems(1), of h hs r] Cons.hyps(2) by auto
  have valid: "valid_ref c h" "valid_ref c1 h"
    using Cons.prems(2) Cons.hyps(2) [symmetric] same_but_queues_views [OF c1(2)] by auto
  show ?case
  proof (cases "stale c h")
    case False
    then show ?thesis
      using pop c1 valid same_but_queues_views [OF c1(2)] Cons.hyps(2) [symmetric]
      by (subst internal_schedule_loop.simps)
        (auto simp: tcb_at_valid first_choice_def stale_def)
  next
    case True
    have "\<forall>h \<in> set (ready_list c1). valid_ref c1 h"
      using Cons.prems(2) c1(3) Cons.hyps(2) [symmetric] same_but_queues_views [OF c1(2)] by auto
    from Cons.hyps(1) [OF c1(3) [symmetric] c1(1) this, of h] obtain c' where
      c': "internal_schedule_loop h c1 = Inr (c', first_choice c1)" "queues_ok n c'"
      "same_but_queues c1 c'" "ready_list c' = tl (dropWhile (stale c1) (ready_list c1))"
      "free_list c' = free_list c1" by blast
    have "internal_schedule_loop r c = internal_schedule_loop h c1"
      using pop True valid same_but_queues_views [OF c1(2)]
      by (subst internal_schedule_loop.simps) (auto simp: tcb_at_valid stale_def)
    with c' c1 True show ?thesis
      using same_but_queues_trans [OF c1(2) c'(3)] Cons.hyps(2) [symmetric]
      by (simp add: first_choice_def stale_cong [OF c1(2)])
  qed
qed

lemma internal_schedule_spec:
  assumes "queues_ok n c" and "\<forall>h \<in> set (ready_list c). valid_ref c h"
  shows "\<exists>c'. internal_schedule c = Inr (c', first_choice c) \<and> queues_ok n c' \<and>
    same_but_queues c c' \<and> ready_list c' = tl (dropWhile (stale c) (ready_list c)) \<and>
    free_list c' = free_list c"
  unfolding internal_schedule_def by (rule internal_schedule_loop_spec [OF assms])

text \<open>The cothread \<open>internal_go_next\<close> makes run: the choice, or the root thread.\<close>

definition next_running :: "co_control_t \<Rightarrow> microkit_cothread_ref_t" where
  "next_running c = (if first_choice c = SCHEDULER_NULL_CHOICE then 0 else first_choice c)"

lemma first_choice_valid:
  assumes "\<forall>h \<in> set (ready_list c). valid_ref c h" and "first_choice c \<noteq> SCHEDULER_NULL_CHOICE"
  shows "first_choice c \<in> set (ready_list c)" "valid_ref c (first_choice c)"
proof -
  obtain h hs where h: "dropWhile (stale c) (ready_list c) = h # hs"
    using assms(2) by (auto simp: first_choice_def split: list.splits)
  then have "h \<in> set (ready_list c)" by (metis list.set_intros(1) set_dropWhileD)
  with h assms(1) show "first_choice c \<in> set (ready_list c)" "valid_ref c (first_choice c)"
    by (auto simp: first_choice_def)
qed

lemma internal_go_next_spec:
  assumes "queues_ok n c" and "\<forall>h \<in> set (ready_list c). valid_ref c h" and "valid_ref c 0"
  shows "\<exists>c'. internal_go_next c = Inr (c', co_handle (tcb c (next_running c))) \<and>
    valid_ref c (next_running c) \<and> queues_ok n c' \<and> running c' = next_running c \<and>
    ready_list c' = tl (dropWhile (stale c) (ready_list c)) \<and> free_list c' = free_list c \<and>
    (\<forall>h. valid_ref c' h = valid_ref c h) \<and>
    (\<forall>h \<ge> 0. tcb c' h = (if h = next_running c then (tcb c h)\<lparr>tcb_state := cothread_running\<rparr> else tcb c h)) \<and>
    blocked_channel_map c' = blocked_channel_map c \<and> co_stack_size c' = co_stack_size c \<and>
    length (tcbs c') = length (tcbs c)"
proof -
  obtain c1 where c1: "internal_schedule c = Inr (c1, first_choice c)" "queues_ok n c1"
    "same_but_queues c c1" "ready_list c1 = tl (dropWhile (stale c) (ready_list c))"
    "free_list c1 = free_list c"
    using internal_schedule_spec [OF assms(1,2)] by blast
  have valid: "valid_ref c (next_running c)"
    using first_choice_valid [OF assms(2)] assms(3) by (auto simp: next_running_def)
  note views = same_but_queues_views [OF c1(3)]
  let ?r = "next_running c"
  let ?c = "upd_tcb ?r (\<lambda>t. t\<lparr>tcb_state := cothread_running\<rparr>) c1"
  have "internal_go_next c = Inr (?c\<lparr>running := ?r\<rparr>, co_handle (tcb c ?r))"
    using c1(1) valid valid_ref_nonneg [OF valid] views
    by (simp add: internal_go_next_def set_state_def next_running_def ctl_simps Let_def)
  then show ?thesis
    using c1 valid views valid_ref_nonneg [OF valid] by (simp add: ctl_simps)
qed

end
