(* ===== verification/CoSpec.thy ===== *)
theory CoSpec
  imports CoTypes
begin

text \<open>
  What the library promises, without queues, links or control blocks: the running
  cothread, the ready cothreads in the order in which they will run, the free handles in
  the order in which they will be handed out, and for every initialised semaphore its
  flag and the cothreads that wait on it, first come first.

  The operations follow the wording of the API section of the README. \<open>spec_ok\<close> says
  that every handle is in exactly one place and that the root thread is running or
  ready; each operation keeps it under the conditions the README puts on its caller.
\<close>

subsection \<open>State and operations\<close>

record sched =
  sp_running :: microkit_cothread_ref_t
  sp_ready :: "microkit_cothread_ref_t list"
  sp_free :: "microkit_cothread_ref_t list"
  sp_sems :: "sem_ptr \<Rightarrow> (bool \<times> microkit_cothread_ref_t list) option"

definition waiters :: "sched \<Rightarrow> sem_ptr \<Rightarrow> microkit_cothread_ref_t list" where
  "waiters a p = (case sp_sems a p of None \<Rightarrow> [] | Some (f, ws) \<Rightarrow> ws)"

text \<open>The first ready cothread runs next, the root thread when there is none.\<close>

definition spec_dispatch :: "sched \<Rightarrow> sched" where
  "spec_dispatch a = (case sp_ready a of
     [] \<Rightarrow> a\<lparr>sp_running := 0\<rparr>
   | h # hs \<Rightarrow> a\<lparr>sp_running := h, sp_ready := hs\<rparr>)"

definition spec_yield :: "sched \<Rightarrow> sched" where
  "spec_yield a = spec_dispatch (a\<lparr>sp_ready := sp_ready a @ [sp_running a]\<rparr>)"

definition spec_wait :: "sem_ptr \<Rightarrow> sched \<Rightarrow> sched" where
  "spec_wait p a = (case sp_sems a p of
     None \<Rightarrow> a
   | Some (True, ws) \<Rightarrow> a\<lparr>sp_sems := (sp_sems a)(p \<mapsto> (False, ws))\<rparr>
   | Some (False, ws) \<Rightarrow>
       spec_dispatch (a\<lparr>sp_sems := (sp_sems a)(p \<mapsto> (False, ws @ [sp_running a]))\<rparr>))"

definition spec_signal :: "sem_ptr \<Rightarrow> sched \<Rightarrow> sched" where
  "spec_signal p a = (case sp_sems a p of
     None \<Rightarrow> a
   | Some (True, ws) \<Rightarrow> a
   | Some (False, []) \<Rightarrow> a\<lparr>sp_sems := (sp_sems a)(p \<mapsto> (True, []))\<rparr>
   | Some (False, w # ws) \<Rightarrow>
       a\<lparr>sp_running := w, sp_ready := sp_ready a @ [sp_running a],
         sp_sems := (sp_sems a)(p \<mapsto> (False, ws))\<rparr>)"

definition spec_spawn :: "sched \<Rightarrow> sched \<times> microkit_cothread_ref_t" where
  "spec_spawn a = (case sp_free a of
     [] \<Rightarrow> (a, LIBMICROKITCO_NULL_HANDLE)
   | h # hs \<Rightarrow> (a\<lparr>sp_free := hs, sp_ready := sp_ready a @ [h]\<rparr>, h))"

definition spec_exit :: "sched \<Rightarrow> sched" where
  "spec_exit a = spec_dispatch (a\<lparr>sp_free := sp_free a @ [sp_running a]\<rparr>)"

definition spec_sem_init :: "sem_ptr \<Rightarrow> sched \<Rightarrow> sched" where
  "spec_sem_init p a = a\<lparr>sp_sems := (sp_sems a)(p \<mapsto> (False, []))\<rparr>"

text \<open>The state a handle is in.\<close>

definition spec_state :: "sched \<Rightarrow> microkit_cothread_ref_t \<Rightarrow> co_state_t" where
  "spec_state a h =
     (if h = sp_running a then cothread_running
      else if h \<in> set (sp_ready a) then cothread_ready
      else if h \<in> set (sp_free a) then cothread_not_active
      else cothread_blocked)"

subsection \<open>Well-formedness\<close>

definition placed :: "sched \<Rightarrow> microkit_cothread_ref_t list" where
  "placed a = sp_running a # sp_ready a @ sp_free a"

definition spec_ok :: "nat \<Rightarrow> sched \<Rightarrow> bool" where
  "spec_ok n a \<longleftrightarrow>
     distinct (placed a) \<and>
     (\<forall>p. distinct (waiters a p) \<and> set (waiters a p) \<inter> set (placed a) = {}) \<and>
     (\<forall>p q. p \<noteq> q \<longrightarrow> set (waiters a p) \<inter> set (waiters a q) = {}) \<and>
     set (placed a) \<union> (\<Union>p. set (waiters a p)) = {0..<int n} \<and>
     (\<forall>p ws. sp_sems a p = Some (True, ws) \<longrightarrow> ws = []) \<and>
     0 \<in> set (sp_running a # sp_ready a)"

lemma spec_okD:
  assumes "spec_ok n a"
  shows "distinct (placed a)" "distinct (waiters a p)" "set (waiters a p) \<inter> set (placed a) = {}"
    "p \<noteq> q \<Longrightarrow> set (waiters a p) \<inter> set (waiters a q) = {}"
    "set (placed a) \<union> (\<Union>p. set (waiters a p)) = {0..<int n}"
    "sp_sems a p = Some (True, ws) \<Longrightarrow> ws = []"
    "0 \<in> set (sp_running a # sp_ready a)"
  using assms unfolding spec_ok_def by blast+

lemma spec_ok_range:
  assumes "spec_ok n a"
  shows "h \<in> set (placed a) \<Longrightarrow> 0 \<le> h \<and> h < int n" "h \<in> set (waiters a p) \<Longrightarrow> 0 \<le> h \<and> h < int n"
  using spec_okD(5) [OF assms] by (auto simp: set_eq_iff)

text \<open>
  The queues never overflow: the running cothread and the ones in a queue are different
  handles below \<open>n\<close>.
\<close>

lemma spec_ok_room:
  assumes "spec_ok n a"
  shows "length (sp_ready a) < n" "length (sp_free a) < n"
proof -
  have "length (placed a) \<le> card {0..<int n}"
    using spec_okD(1,5) [OF assms] by (intro distinct_subset_length) auto
  then show "length (sp_ready a) < n" "length (sp_free a) < n" by (simp_all add: placed_def)
qed

lemma spec_ok_ready_nonempty:
  "spec_ok n a \<Longrightarrow> sp_running a \<noteq> 0 \<Longrightarrow> sp_ready a \<noteq> []"
  using spec_okD(7) by fastforce

lemma waiters_update:
  "waiters (a\<lparr>sp_sems := (sp_sems a)(p \<mapsto> (f, ws))\<rparr>) q = (if q = p then ws else waiters a q)"
  by (simp add: waiters_def)

lemma waiters_cong: "sp_sems b = sp_sems a \<Longrightarrow> waiters b p = waiters a p"
  by (simp add: waiters_def)

text \<open>
  All operations move handles between places. Two states with the same handles placed or
  waiting, one well-formed, are compared through this rule.
\<close>

lemma spec_ok_move:
  assumes "spec_ok n a"
    and "distinct (placed b)"
    and "\<And>p. distinct (waiters b p) \<and> set (waiters b p) \<inter> set (placed b) = {}"
    and "\<And>p q. p \<noteq> q \<Longrightarrow> set (waiters b p) \<inter> set (waiters b q) = {}"
    and "set (placed b) \<union> (\<Union>p. set (waiters b p)) = set (placed a) \<union> (\<Union>p. set (waiters a p))"
    and "\<And>p ws. sp_sems b p = Some (True, ws) \<Longrightarrow> ws = []"
    and "0 \<in> set (sp_running b # sp_ready b)"
  shows "spec_ok n b"
  using assms spec_okD(5) [OF assms(1)] unfolding spec_ok_def by metis

text \<open>Rearranging the placed handles only.\<close>

lemma spec_ok_rearrange:
  assumes "spec_ok n a" and "sp_sems b = sp_sems a"
    and "distinct (placed b)" and "set (placed b) = set (placed a)"
    and "0 \<in> set (sp_running b # sp_ready b)"
  shows "spec_ok n b"
proof (rule spec_ok_move [OF assms(1,3)])
  note w = waiters_cong [OF assms(2)]
  show "\<And>p. distinct (waiters b p) \<and> set (waiters b p) \<inter> set (placed b) = {}"
    using spec_okD(2,3) [OF assms(1)] by (simp add: w assms(4))
  show "\<And>p q. p \<noteq> q \<Longrightarrow> set (waiters b p) \<inter> set (waiters b q) = {}"
    using spec_okD(4) [OF assms(1)] by (simp add: w)
  show "set (placed b) \<union> (\<Union>p. set (waiters b p)) = set (placed a) \<union> (\<Union>p. set (waiters a p))"
    by (simp add: w assms(4))
  show "\<And>p ws. sp_sems b p = Some (True, ws) \<Longrightarrow> ws = []"
    using spec_okD(6) [OF assms(1)] by (simp add: assms(2))
qed (rule assms(5))

subsection \<open>The operations keep it\<close>

lemma spec_yield_ok:
  assumes "spec_ok n a"
  shows "spec_ok n (spec_yield a)"
  using spec_okD(1,7) [OF assms]
  by (intro spec_ok_rearrange [OF assms])
    (cases "sp_ready a"; auto simp: spec_yield_def spec_dispatch_def placed_def)+

lemma spec_spawn_ok:
  assumes "spec_ok n a"
  shows "spec_ok n (fst (spec_spawn a))"
  using spec_okD(1,7) [OF assms]
  by (intro spec_ok_rearrange [OF assms])
    (cases "sp_free a"; auto simp: spec_spawn_def placed_def)+

lemma spec_exit_ok:
  assumes "spec_ok n a" and "sp_running a \<noteq> 0"
  shows "spec_ok n (spec_exit a)"
  using spec_okD(1,7) [OF assms(1)] spec_ok_ready_nonempty [OF assms] assms(2)
  by (intro spec_ok_rearrange [OF assms(1)])
    (cases "sp_ready a"; auto simp: spec_exit_def spec_dispatch_def placed_def)+

lemma spec_ok_sem_update:
  assumes "spec_ok n a" and "waiters a p = ws" and "f \<Longrightarrow> ws = []"
  shows "spec_ok n (a\<lparr>sp_sems := (sp_sems a)(p \<mapsto> (f, ws))\<rparr>)"
proof -
  let ?b = "a\<lparr>sp_sems := (sp_sems a)(p \<mapsto> (f, ws))\<rparr>"
  have w: "waiters ?b = waiters a" using assms(2) by (auto simp: fun_eq_iff waiters_update)
  have pl: "placed ?b = placed a" by (simp add: placed_def)
  have flags: "\<forall>q vs. sp_sems ?b q = Some (True, vs) \<longrightarrow> vs = []"
    using spec_okD(6) [OF assms(1)] assms(3) by auto
  show ?thesis using assms(1) flags unfolding spec_ok_def w pl by simp
qed

lemma spec_sem_init_ok:
  assumes "spec_ok n a" and "waiters a p = []"
  shows "spec_ok n (spec_sem_init p a)"
  unfolding spec_sem_init_def using assms by (rule spec_ok_sem_update) simp

lemma spec_wait_flag_ok:
  assumes "spec_ok n a" and "sp_sems a p = Some (True, ws)"
  shows "spec_ok n (spec_wait p a)"
proof -
  have "ws = []" using spec_okD(6) [OF assms(1)] assms(2) by blast
  then have "spec_wait p a = spec_sem_init p a" and "waiters a p = []"
    using assms(2) by (simp_all add: spec_wait_def spec_sem_init_def waiters_def)
  then show ?thesis using spec_sem_init_ok [OF assms(1)] by simp
qed

lemma spec_wait_block_ok:
  assumes "spec_ok n a" and "sp_sems a p = Some (False, ws)" and "sp_running a \<noteq> 0"
  shows "spec_ok n (spec_wait p a)"
proof -
  obtain h hs where r: "sp_ready a = h # hs"
    using spec_ok_ready_nonempty [OF assms(1,3)] by (cases "sp_ready a") auto
  let ?b = "spec_wait p a"
  have b: "sp_running ?b = h" "sp_ready ?b = hs" "sp_free ?b = sp_free a"
    "sp_sems ?b = (sp_sems a)(p \<mapsto> (False, ws @ [sp_running a]))"
    using assms(2) r by (simp_all add: spec_wait_def spec_dispatch_def)
  have ws: "waiters a p = ws" using assms(2) by (simp add: waiters_def)
  have w: "waiters ?b q = (if q = p then ws @ [sp_running a] else waiters a q)" for q
    by (simp add: waiters_def b)
  have pa: "placed a = sp_running a # placed ?b" by (simp add: placed_def b r)
  note D = spec_okD [OF assms(1)]
  show ?thesis
  proof (rule spec_ok_move [OF assms(1)])
    show "distinct (placed ?b)" using D(1) pa by simp
    show "distinct (waiters ?b q) \<and> set (waiters ?b q) \<inter> set (placed ?b) = {}" for q
      using D(1) D(2,3) [of q] D(2,3) [of p] pa ws by (auto simp: w)
    show "set (waiters ?b q) \<inter> set (waiters ?b q') = {}" if "q \<noteq> q'" for q q'
      using D(4) [OF that] D(3) [of q] D(3) [of q'] pa ws that by (auto simp: w)
    have "(\<Union>q. set (waiters ?b q)) = insert (sp_running a) (\<Union>q. set (waiters a q))"
      using ws by (auto simp: w split: if_splits)
    then show "set (placed ?b) \<union> (\<Union>q. set (waiters ?b q)) = set (placed a) \<union> (\<Union>q. set (waiters a q))"
      by (simp add: pa)
    show "\<And>q vs. sp_sems ?b q = Some (True, vs) \<Longrightarrow> vs = []"
      using D(6) by (auto simp: b split: if_splits)
    show "0 \<in> set (sp_running ?b # sp_ready ?b)" using D(7) assms(3) by (simp add: b r)
  qed
qed

lemma spec_signal_wake_ok:
  assumes "spec_ok n a" and "sp_sems a p = Some (False, w # ws)"
  shows "spec_ok n (spec_signal p a)"
proof -
  let ?b = "spec_signal p a"
  have b: "sp_running ?b = w" "sp_ready ?b = sp_ready a @ [sp_running a]" "sp_free ?b = sp_free a"
    "sp_sems ?b = (sp_sems a)(p \<mapsto> (False, ws))"
    using assms(2) by (simp_all add: spec_signal_def)
  have ws: "waiters a p = w # ws" using assms(2) by (simp add: waiters_def)
  have w: "waiters ?b q = (if q = p then ws else waiters a q)" for q
    by (simp add: waiters_def b)
  have pb: "set (placed ?b) = insert w (set (placed a))" by (auto simp: placed_def b)
  note D = spec_okD [OF assms(1)]
  have w_fresh: "w \<notin> set (placed a)" "w \<notin> set ws" "\<And>q. q \<noteq> p \<Longrightarrow> w \<notin> set (waiters a q)"
    using D(2,3,4) [of p] ws by auto
  show ?thesis
  proof (rule spec_ok_move [OF assms(1)])
    show "distinct (placed ?b)" using D(1) w_fresh(1) by (auto simp: placed_def b)
    show "distinct (waiters ?b q) \<and> set (waiters ?b q) \<inter> set (placed ?b) = {}" for q
      using D(2,3) [of q] D(2,3) [of p] ws w_fresh by (auto simp: w pb)
    show "set (waiters ?b q) \<inter> set (waiters ?b q') = {}" if "q \<noteq> q'" for q q'
      using D(4) [OF that] ws by (auto simp: w)
    have "set (waiters a q) \<subseteq> insert w (set (waiters ?b q))" "set (waiters ?b q) \<subseteq> set (waiters a q)"
      for q using ws by (auto simp: w)
    moreover have "w \<in> set (waiters a p)" using ws by simp
    ultimately have "(\<Union>q. set (waiters a q)) = insert w (\<Union>q. set (waiters ?b q))" by blast
    then show "set (placed ?b) \<union> (\<Union>q. set (waiters ?b q)) = set (placed a) \<union> (\<Union>q. set (waiters a q))"
      by (simp add: pb)
    show "\<And>q vs. sp_sems ?b q = Some (True, vs) \<Longrightarrow> vs = []"
      using D(6) by (auto simp: b split: if_splits)
    show "0 \<in> set (sp_running ?b # sp_ready ?b)" using D(7) by (auto simp: b)
  qed
qed

lemma spec_signal_set_ok:
  assumes "spec_ok n a" and "sp_sems a p = Some (False, [])"
  shows "spec_ok n (spec_signal p a)"
  using spec_ok_sem_update [OF assms(1), of p "[]" True] assms(2)
  by (simp add: spec_signal_def waiters_def)

lemma spec_signal_ok:
  assumes "spec_ok n a"
  shows "spec_ok n (spec_signal p a)"
proof (cases "sp_sems a p")
  case None
  then show ?thesis using assms by (simp add: spec_signal_def)
next
  case (Some fw)
  obtain f ws where fw: "fw = (f, ws)" by (cases fw)
  show ?thesis
    using assms Some fw spec_signal_wake_ok [OF assms, of p] spec_signal_set_ok [OF assms, of p]
    by (cases f; cases ws) (auto simp: spec_signal_def)
qed

end
