(* ===== verification/CoRefine.thy ===== *)
theory CoRefine
  imports CoView CoSpec
begin

text \<open>
  The controller refines the abstract scheduler of \<open>CoSpec\<close>: the relation between the
  two, and for every operation of the scheduler and the semaphores that the code does
  to the controller what the specification does to the abstract state. All results are
  total: under the invariant the code reaches no panic and no fault.
\<close>

subsection \<open>Linked waiting queues\<close>

definition nx :: "co_control_t \<Rightarrow> microkit_cothread_ref_t \<Rightarrow> microkit_cothread_ref_t" where
  "nx c h = next_blocked_on_same_event (tcb c h)"

fun linked :: "(microkit_cothread_ref_t \<Rightarrow> microkit_cothread_ref_t) \<Rightarrow> microkit_cothread_ref_t list \<Rightarrow> bool" where
  "linked f [] \<longleftrightarrow> True"
| "linked f [h] \<longleftrightarrow> f h = LIBMICROKITCO_NULL_HANDLE"
| "linked f (h # k # hs) \<longleftrightarrow> f h = k \<and> linked f (k # hs)"

lemma linked_cong: "(\<And>h. h \<in> set hs \<Longrightarrow> f h = g h) \<Longrightarrow> linked f hs = linked g hs"
  by (induction f hs rule: linked.induct) auto

lemma linked_tl: "linked f (h # hs) \<Longrightarrow> linked f hs"
  by (cases hs) auto

lemma linked_next: "linked f (h # hs) \<Longrightarrow> f h = (case hs of [] \<Rightarrow> LIBMICROKITCO_NULL_HANDLE | k # _ \<Rightarrow> k)"
  by (cases hs) auto

lemma linked_snoc:
  assumes "linked f hs" and "hs \<noteq> []" and "distinct hs" and "x \<notin> set hs"
    and "f x = LIBMICROKITCO_NULL_HANDLE"
  shows "linked (f(last hs := x)) (hs @ [x])"
  using assms
proof (induction f hs rule: linked.induct)
  case (3 f h k hs)
  then have "last (k # hs) \<noteq> h" by (metis distinct.simps(2) last_in_set list.distinct(1))
  with 3 show ?case by auto
qed auto

text \<open>The semaphore record and the links of the control blocks stand for a flag and a list.\<close>

definition sem_rel ::
    "co_control_t \<Rightarrow> microkit_cothread_sem_t \<Rightarrow> bool \<Rightarrow> microkit_cothread_ref_t list \<Rightarrow> bool" where
  "sem_rel c sem f ws \<longleftrightarrow>
     sem_set sem = f \<and>
     sem_head sem = (case ws of [] \<Rightarrow> LIBMICROKITCO_NULL_HANDLE | h # _ \<Rightarrow> h) \<and>
     (ws \<noteq> [] \<longrightarrow> sem_tail sem = last ws) \<and>
     linked (nx c) ws"

lemma sem_rel_cong: "(\<And>h. h \<in> set ws \<Longrightarrow> nx c h = nx c' h) \<Longrightarrow> sem_rel c sem f ws = sem_rel c' sem f ws"
  by (simp add: sem_rel_def linked_cong [of ws "nx c" "nx c'"])

subsection \<open>The relation on controllers\<close>

text \<open>What no scheduling operation changes of a control block.\<close>

definition core :: "co_tcb_t \<Rightarrow> co_tcb_t" where
  "core t = t\<lparr>tcb_state := cothread_not_active, next_blocked_on_same_event := 0\<rparr>"

lemma core_simps [simp]:
  "core (t\<lparr>tcb_state := x\<rparr>) = core t" "core (t\<lparr>next_blocked_on_same_event := y\<rparr>) = core t"
  by (simp_all add: core_def)

lemma core_eqD:
  assumes "core t = core u"
  shows "local_storage t = local_storage u" "co_handle t = co_handle u"
    "client_entry t = client_entry u" "private_arg t = private_arg u"
  using assms unfolding core_def by (cases t; cases u; simp)+

definition same_core :: "co_control_t \<Rightarrow> co_control_t \<Rightarrow> bool" where
  "same_core c c' \<longleftrightarrow> (\<forall>h\<ge>0. core (tcb c' h) = core (tcb c h)) \<and>
     co_stack_size c' = co_stack_size c"

lemma same_coreD:
  assumes "same_core c c'" and "0 \<le> h"
  shows "co_handle (tcb c' h) = co_handle (tcb c h)" "local_storage (tcb c' h) = local_storage (tcb c h)"
    "client_entry (tcb c' h) = client_entry (tcb c h)" "private_arg (tcb c' h) = private_arg (tcb c h)"
    "co_stack_size c' = co_stack_size c"
proof -
  have "core (tcb c' h) = core (tcb c h)" using assms by (simp add: same_core_def)
  from core_eqD [OF this] show "co_handle (tcb c' h) = co_handle (tcb c h)"
    "local_storage (tcb c' h) = local_storage (tcb c h)"
    "client_entry (tcb c' h) = client_entry (tcb c h)" "private_arg (tcb c' h) = private_arg (tcb c h)"
    by simp_all
  show "co_stack_size c' = co_stack_size c" using assms by (simp add: same_core_def)
qed

lemma same_core_refl [simp]: "same_core c c"
  by (simp add: same_core_def)

lemma same_core_trans: "same_core a b \<Longrightarrow> same_core b c \<Longrightarrow> same_core a c"
  by (simp add: same_core_def)

lemma same_core_queues: "same_but_queues c c' \<Longrightarrow> same_core c c'"
  by (simp add: same_core_def same_but_queues_views)

definition base_rel :: "config \<Rightarrow> sched \<Rightarrow> co_control_t \<Rightarrow> bool" where
  "base_rel cfg a c \<longleftrightarrow>
     length (tcbs c) = max_cothreads cfg \<and> queues_ok (max_cothreads cfg) c \<and>
     length (blocked_channel_map c) = max_channels cfg \<and>
     ready_list c = sp_ready a \<and> free_list c = sp_free a"

definition ctl_rel :: "config \<Rightarrow> sched \<Rightarrow> co_control_t \<Rightarrow> bool" where
  "ctl_rel cfg a c \<longleftrightarrow> base_rel cfg a c \<and> running c = sp_running a \<and>
     (\<forall>h. 0 \<le> h \<and> h < int (max_cothreads cfg) \<longrightarrow> tcb_state (tcb c h) = spec_state a h) \<and>
     (\<forall>h \<in> set (sp_running a # sp_ready a). nx c h = LIBMICROKITCO_NULL_HANDLE)"

text \<open>Between parking the caller and choosing its successor nobody runs.\<close>

definition parked_state :: "sched \<Rightarrow> microkit_cothread_ref_t \<Rightarrow> co_state_t" where
  "parked_state b h =
     (if h \<in> set (sp_ready b) then cothread_ready
      else if h \<in> set (sp_free b) then cothread_not_active else cothread_blocked)"

definition parked_rel :: "config \<Rightarrow> sched \<Rightarrow> co_control_t \<Rightarrow> bool" where
  "parked_rel cfg b c \<longleftrightarrow> base_rel cfg b c \<and>
     (\<forall>h. 0 \<le> h \<and> h < int (max_cothreads cfg) \<longrightarrow> tcb_state (tcb c h) = parked_state b h) \<and>
     (\<forall>h \<in> set (sp_ready b). nx c h = LIBMICROKITCO_NULL_HANDLE \<and> 0 \<le> h \<and> h < int (max_cothreads cfg))"

lemma base_rel_valid: "base_rel cfg a c \<Longrightarrow> valid_ref c h \<longleftrightarrow> 0 \<le> h \<and> h < int (max_cothreads cfg)"
  by (simp add: base_rel_def valid_ref_def)

lemma internal_go_next_refines:
  assumes "parked_rel cfg b c" and "sp_ready b = h # hs" and "distinct (sp_ready b)"
    and "0 < max_cothreads cfg"
  shows "\<exists>c'. internal_go_next c = Inr (c', co_handle (tcb c h)) \<and> running c' = h \<and>
    ctl_rel cfg (spec_dispatch b) c' \<and> same_core c c' \<and> (\<forall>k\<ge>0. nx c' k = nx c k) \<and>
    blocked_channel_map c' = blocked_channel_map c"
proof -
  have base: "base_rel cfg b c" using assms(1) by (simp add: parked_rel_def)
  have range: "\<forall>k \<in> set (ready_list c). valid_ref c k"
    using assms(1) base by (simp add: parked_rel_def base_rel_valid [OF base] base_rel_def)
  have ready: "ready_list c = h # hs" using base assms(2) by (simp add: base_rel_def)
  have h: "0 \<le> h" "h < int (max_cothreads cfg)" "tcb_state (tcb c h) = cothread_ready"
    using assms(1,2) by (auto simp: parked_rel_def parked_state_def)
  have fresh: "\<not> stale c h" using h(3) by (simp add: stale_def)
  have next_h: "next_running c = h"
    using fresh ready h(1) by (simp add: next_running_def first_choice_def)
  have "valid_ref c 0" using assms(4) by (simp add: base_rel_valid [OF base])
  from internal_go_next_spec [OF _ range this, of "max_cothreads cfg"] base
  obtain c' where c': "internal_go_next c = Inr (c', co_handle (tcb c h))"
    "queues_ok (max_cothreads cfg) c'" "running c' = h" "ready_list c' = hs"
    "free_list c' = free_list c" "blocked_channel_map c' = blocked_channel_map c"
    "co_stack_size c' = co_stack_size c" "length (tcbs c') = length (tcbs c)"
    and tcb': "\<forall>k\<ge>0. tcb c' k = (if k = h then (tcb c k)\<lparr>tcb_state := cothread_running\<rparr> else tcb c k)"
    by (auto simp: base_rel_def next_h ready fresh)
  have disp: "spec_dispatch b = b\<lparr>sp_running := h, sp_ready := hs\<rparr>"
    by (simp add: spec_dispatch_def assms(2))
  have "ctl_rel cfg (spec_dispatch b) c'"
    using assms(1,3) c' tcb' base h(1) unfolding ctl_rel_def parked_rel_def disp
    by (auto simp: base_rel_def assms(2) spec_state_def parked_state_def nx_def)
  with c' tcb' show ?thesis by (auto simp: same_core_def nx_def)
qed

lemma ctl_relD:
  assumes "ctl_rel cfg a c"
  shows "base_rel cfg a c" "running c = sp_running a"
    "0 \<le> h \<Longrightarrow> h < int (max_cothreads cfg) \<Longrightarrow> tcb_state (tcb c h) = spec_state a h"
    "h \<in> set (sp_running a # sp_ready a) \<Longrightarrow> nx c h = LIBMICROKITCO_NULL_HANDLE"
    "queues_ok (max_cothreads cfg) c" "length (tcbs c) = max_cothreads cfg"
    "ready_list c = sp_ready a" "free_list c = sp_free a"
    "length (blocked_channel_map c) = max_channels cfg"
  using assms by (auto simp: ctl_rel_def base_rel_def)

lemma ctl_rel_valid:
  assumes "ctl_rel cfg a c"
  shows "valid_ref c h \<longleftrightarrow> 0 \<le> h \<and> h < int (max_cothreads cfg)"
  using base_rel_valid ctl_relD(1) [OF assms] by blast

lemma nx_upd_tcb [ctl_simps]:
  "valid_ref c h \<Longrightarrow> 0 \<le> k \<Longrightarrow>
    nx (upd_tcb h f c) k = (if k = h then next_blocked_on_same_event (f (tcb c h)) else nx c k)"
  by (simp add: nx_def tcb_upd_tcb)

lemma nx_running [ctl_simps]: "nx (c\<lparr>running := r\<rparr>) h = nx c h"
  by (simp add: nx_def ctl_simps)

lemma nx_queues: "same_but_queues c c' \<Longrightarrow> nx c' h = nx c h"
  by (simp add: nx_def same_but_queues_views)

subsection \<open>Yield, on the controller\<close>

lemma placed_simps [simp]:
  "placed (a\<lparr>sp_sems := f\<rparr>) = placed a"
  "spec_state (a\<lparr>sp_sems := f\<rparr>) = spec_state a"
  by (simp_all add: placed_def spec_state_def fun_eq_iff)

lemma yield_parks:
  assumes "spec_ok (max_cothreads cfg) a" and "ctl_rel cfg a c"
  shows "\<exists>c1 c2. sched_push (running c) c = Inr (LIBHOSTEDQUEUE_NOERR, c1) \<and>
    set_state (running c1) cothread_ready c1 = Inr c2 \<and>
    parked_rel cfg (a\<lparr>sp_ready := sp_ready a @ [sp_running a]\<rparr>) c2 \<and>
    same_core c c2 \<and> (\<forall>k\<ge>0. nx c2 k = nx c k) \<and>
    blocked_channel_map c2 = blocked_channel_map c \<and> running c1 = running c \<and> running c2 = running c"
proof -
  note R = ctl_relD [OF assms(2)]
  have run: "0 \<le> sp_running a" "sp_running a < int (max_cothreads cfg)"
    using spec_ok_range(1) [OF assms(1)] by (auto simp: placed_def)
  obtain c1 where c1: "sched_push (running c) c = Inr (LIBHOSTEDQUEUE_NOERR, c1)"
    "queues_ok (max_cothreads cfg) c1" "same_but_queues c c1"
    "ready_list c1 = sp_ready a @ [sp_running a]" "free_list c1 = sp_free a"
    using sched_push_room [OF R(5), of "running c"] spec_ok_room(1) [OF assms(1)] R by auto
  note views = same_but_queues_views [OF c1(3)]
  let ?c = "upd_tcb (running c1) (\<lambda>t. t\<lparr>tcb_state := cothread_ready\<rparr>) c1"
  have valid: "valid_ref c1 (sp_running a)"
    using run by (simp add: views ctl_rel_valid [OF assms(2)])
  have set_eq: "set_state (running c1) cothread_ready c1 = Inr ?c"
    using valid views R by (simp add: set_state_def mod_tcb_valid)
  have range: "0 \<le> h \<and> h < int (max_cothreads cfg)" if "h \<in> set (sp_ready a)" for h
    using spec_ok_range(1) [OF assms(1)] that by (auto simp: placed_def)
  have "parked_rel cfg (a\<lparr>sp_ready := sp_ready a @ [sp_running a]\<rparr>) ?c"
    using R c1 views valid run range
    by (auto simp: parked_rel_def base_rel_def ctl_simps parked_state_def spec_state_def
        nx_queues [OF c1(3)]) (auto simp: nx_def)
  moreover have "same_core c ?c" "\<forall>k\<ge>0. nx ?c k = nx c k"
    "blocked_channel_map ?c = blocked_channel_map c" "running ?c = running c"
    using valid views R
    by (auto simp: same_core_def ctl_simps nx_queues [OF c1(3)]) (auto simp: nx_def)
  ultimately show ?thesis using c1(1) set_eq views by blast
qed

subsection \<open>Waiting, on the controller\<close>

lemma spec_state_sp_sems: "sp_running b = sp_running a \<Longrightarrow> sp_ready b = sp_ready a \<Longrightarrow>
    sp_free b = sp_free a \<Longrightarrow> spec_state b h = spec_state a h"
  by (simp add: spec_state_def)

text \<open>The part of \<open>wait\<close> that appends the caller to the semaphore's queue.\<close>

definition enqueue_waiter ::
    "microkit_cothread_sem_t \<Rightarrow> co_control_t \<Rightarrow> fault + (microkit_cothread_sem_t \<times> co_control_t)" where
  "enqueue_waiter sem c =
     (if sem_head sem = LIBMICROKITCO_NULL_HANDLE
      then Inr (sem\<lparr>sem_head := running c, sem_tail := running c\<rparr>, c)
      else bindR (set_next (sem_tail sem) (running c) c) (\<lambda>c.
             Inr (sem\<lparr>sem_tail := running c\<rparr>, c)))"

lemma semaphore_wait_unset:
  "\<not> sem_set sem \<Longrightarrow> microkit_cothread_semaphore_wait sem c =
     bindR (set_state (running c) cothread_blocked c) (\<lambda>c.
     bindR (enqueue_waiter sem c) (\<lambda>(sem, c).
     bindR (internal_go_next c) (\<lambda>(c, handle). Inr (sem, c, Some handle))))"
  by (simp add: microkit_cothread_semaphore_wait_def enqueue_waiter_def)

lemma wait_parks:
  assumes "spec_ok (max_cothreads cfg) a" and "ctl_rel cfg a c"
    and "sem_rel c sem False ws" and "waiters a p = ws"
  shows "\<exists>c1 c2 sem'. set_state (running c) cothread_blocked c = Inr c1 \<and>
    enqueue_waiter sem c1 = Inr (sem', c2) \<and>
    parked_rel cfg (a\<lparr>sp_sems := f\<rparr>) c2 \<and> same_core c c2 \<and>
    sem_rel c2 sem' False (ws @ [running c]) \<and> (\<forall>k\<ge>0. k \<notin> set ws \<longrightarrow> nx c2 k = nx c k) \<and>
    blocked_channel_map c2 = blocked_channel_map c"
proof -
  note R = ctl_relD [OF assms(2)] and D = spec_okD [OF assms(1)]
  have run: "0 \<le> sp_running a" "sp_running a < int (max_cothreads cfg)"
    using spec_ok_range(1) [OF assms(1)] by (auto simp: placed_def)
  have ws_range: "0 \<le> h \<and> h < int (max_cothreads cfg)" if "h \<in> set ws" for h
    using spec_ok_range(2) [OF assms(1), of h p] that assms(4) by simp
  have ws_placed: "h \<notin> set (placed a)" if "h \<in> set ws" for h
    using D(3) [of p] that assms(4) by auto
  have run_ws: "sp_running a \<notin> set ws" using ws_placed by (auto simp: placed_def)
  have valid: "valid_ref c (sp_running a)" using run by (simp add: ctl_rel_valid [OF assms(2)])
  let ?c1 = "upd_tcb (running c) (\<lambda>t. t\<lparr>tcb_state := cothread_blocked\<rparr>) c"
  have s1: "set_state (running c) cothread_blocked c = Inr ?c1"
    using valid R by (simp add: set_state_def mod_tcb_valid)
  have range: "0 \<le> h \<and> h < int (max_cothreads cfg)" if "h \<in> set (sp_ready a)" for h
    using spec_ok_range(1) [OF assms(1)] that by (auto simp: placed_def)
  have dist: "sp_running a \<notin> set (sp_ready a)" "sp_running a \<notin> set (sp_free a)"
    using D(1) by (auto simp: placed_def)
  have nx1: "nx ?c1 k = nx c k" if "0 \<le> k" for k
    using that valid R by (simp add: ctl_simps) (simp add: nx_def)
  have p1: "parked_rel cfg (a\<lparr>sp_sems := f\<rparr>) ?c1"
    using R valid run range dist nx1
    by (auto simp: parked_rel_def base_rel_def ctl_simps parked_state_def spec_state_def)
  have sc1: "same_core c ?c1" using valid R by (auto simp: same_core_def ctl_simps)
  have head: "sem_head sem = LIBMICROKITCO_NULL_HANDLE \<longleftrightarrow> ws = []"
    using assms(3) ws_range by (cases ws) (force simp: sem_rel_def)+
  show ?thesis
  proof (cases "ws = []")
    case True
    let ?sem = "sem\<lparr>sem_head := running ?c1, sem_tail := running ?c1\<rparr>"
    have "sem_rel ?c1 ?sem False (ws @ [running c])"
      using True assms(3) R(4) [of "sp_running a"] R(2) nx1 [OF run(1)]
      by (simp add: sem_rel_def upd_tcb_select)
    then show ?thesis using s1 p1 sc1 nx1 head True by (auto simp: upd_tcb_select enqueue_waiter_def)
  next
    case False
    let ?t = "last ws"
    have t: "?t \<in> set ws" "0 \<le> ?t" "valid_ref ?c1 ?t"
      using False ws_range [of "last ws"] by (auto simp: valid_ref_upd_tcb ctl_rel_valid [OF assms(2)])
    let ?c2 = "upd_tcb ?t (\<lambda>t. t\<lparr>next_blocked_on_same_event := running c\<rparr>) ?c1"
    have s2: "set_next (sem_tail sem) (running ?c1) ?c1 = Inr ?c2"
      using t assms(3) False by (simp add: set_next_def mod_tcb_valid upd_tcb_select sem_rel_def)
    have nx2: "nx ?c2 k = ((nx c)(?t := running c)) k" if "0 \<le> k" for k
      using that t nx1 by (simp add: nx_upd_tcb)
    have ready_t: "?t \<notin> set (sp_ready a)" using ws_placed [OF t(1)] by (auto simp: placed_def)
    have "parked_rel cfg (a\<lparr>sp_sems := f\<rparr>) ?c2"
      using p1 t nx2 nx1 ready_t
      by (auto simp: parked_rel_def base_rel_def ctl_simps)
    moreover have "same_core c ?c2"
      using sc1 t by (auto simp: same_core_def ctl_simps)
    moreover have "sem_rel ?c2 (sem\<lparr>sem_tail := running c\<rparr>) False (ws @ [running c])"
    proof -
      have "linked ((nx c)(?t := running c)) (ws @ [running c])"
        using assms(3) False D(2) [of p] assms(4) run_ws R(2) R(4) [of "sp_running a"]
        by (intro linked_snoc) (auto simp: sem_rel_def)
      then have "linked (nx ?c2) (ws @ [running c])"
        using nx2 ws_range run R(2) by (subst linked_cong [where g = "(nx c)(?t := running c)"]) auto
      then show ?thesis using assms(3) False by (cases ws) (auto simp: sem_rel_def)
    qed
    moreover have "\<forall>k\<ge>0. k \<notin> set ws \<longrightarrow> nx ?c2 k = nx c k" using nx2 t(1) by auto
    ultimately show ?thesis using s1 s2 head False by (auto simp: upd_tcb_select enqueue_waiter_def)
  qed
qed

lemma semaphore_wait_block_refines:
  assumes "spec_ok (max_cothreads cfg) a" and "ctl_rel cfg a c"
    and "sem_rel c sem False ws" and "sp_sems a p = Some (False, ws)" and "sp_running a \<noteq> 0"
  shows "\<exists>sem' c'. microkit_cothread_semaphore_wait sem c
      = Inr (sem', c', Some (co_handle (tcb c' (running c')))) \<and>
    ctl_rel cfg (spec_wait p a) c' \<and> same_core c c' \<and>
    sem_rel c' sem' False (ws @ [sp_running a]) \<and> (\<forall>k\<ge>0. k \<notin> set ws \<longrightarrow> nx c' k = nx c k) \<and>
    blocked_channel_map c' = blocked_channel_map c"
proof -
  let ?b = "a\<lparr>sp_sems := (sp_sems a)(p \<mapsto> (False, ws @ [sp_running a]))\<rparr>"
  have ws: "waiters a p = ws" using assms(4) by (simp add: waiters_def)
  note R = ctl_relD [OF assms(2)]
  obtain c1 c2 sem' where c2: "set_state (running c) cothread_blocked c = Inr c1"
    "enqueue_waiter sem c1 = Inr (sem', c2)"
    "parked_rel cfg ?b c2" "same_core c c2" "sem_rel c2 sem' False (ws @ [running c])"
    "\<forall>k\<ge>0. k \<notin> set ws \<longrightarrow> nx c2 k = nx c k" "blocked_channel_map c2 = blocked_channel_map c"
    using wait_parks [OF assms(1-3) ws, of "(sp_sems a)(p \<mapsto> (False, ws @ [sp_running a]))"]
    by blast
  obtain h hs where r: "sp_ready a = h # hs"
    using spec_ok_ready_nonempty [OF assms(1,5)] by (cases "sp_ready a") auto
  have "distinct (sp_ready ?b)" using spec_okD(1) [OF assms(1)] by (simp add: placed_def)
  moreover have "0 < max_cothreads cfg" using spec_ok_room(1) [OF assms(1)] by linarith
  ultimately obtain c' where c': "internal_go_next c2 = Inr (c', co_handle (tcb c2 h))"
    "running c' = h" "ctl_rel cfg (spec_dispatch ?b) c'" "same_core c2 c'"
    "\<forall>k\<ge>0. nx c' k = nx c2 k" "blocked_channel_map c' = blocked_channel_map c2"
    using internal_go_next_refines [OF c2(3), of h hs] r by auto
  have h: "0 \<le> h" using c2(3) r by (auto simp: parked_rel_def)
  have handle: "co_handle (tcb c2 h) = co_handle (tcb c' h)"
    by (rule same_coreD(1) [OF c'(4) h, symmetric])
  have range: "0 \<le> k" if "k \<in> set (ws @ [running c])" for k
    using that spec_ok_range [OF assms(1), of k] ws R(2)
      spec_ok_range(2) [OF assms(1), of k p] by (auto simp: placed_def)
  have "sem_rel c' sem' False (ws @ [running c])"
    using c2(5) c'(5) range sem_rel_cong [of "ws @ [running c]" c' c2] by simp
  moreover have "microkit_cothread_semaphore_wait sem c = Inr (sem', c', Some (co_handle (tcb c' (running c'))))"
    using assms(3) c2(1,2) c'(1,2) handle
    by (simp add: semaphore_wait_unset sem_rel_def)
  moreover have "spec_wait p a = spec_dispatch ?b" using assms(4) by (simp add: spec_wait_def)
  ultimately show ?thesis
    using c' c2 same_core_trans [OF c2(4) c'(4)] R(2) by auto
qed

subsection \<open>Signalling, on the controller\<close>

lemma semaphore_signal_wake_refines:
  assumes "spec_ok (max_cothreads cfg) a" and "ctl_rel cfg a c"
    and "sem_rel c sem False (w # ws)" and "sp_sems a p = Some (False, w # ws)"
  shows "\<exists>sem' c'. microkit_cothread_semaphore_signal sem c
      = Inr (sem', c', Some (co_handle (tcb c' (running c')))) \<and>
    ctl_rel cfg (spec_signal p a) c' \<and> same_core c c' \<and>
    sem_rel c' sem' False ws \<and> (\<forall>k\<ge>0. k \<noteq> w \<longrightarrow> nx c' k = nx c k) \<and>
    blocked_channel_map c' = blocked_channel_map c"
proof -
  note R = ctl_relD [OF assms(2)] and D = spec_okD [OF assms(1)]
  have ws: "waiters a p = w # ws" using assms(4) by (simp add: waiters_def)
  have w: "0 \<le> w" "w < int (max_cothreads cfg)" using spec_ok_range(2) [OF assms(1), of w p] ws by auto
  have fresh: "w \<notin> set (placed a)" "w \<notin> set ws" using D(2,3) [of p] ws by auto
  obtain c1 c2 where c2: "sched_push (running c) c = Inr (LIBHOSTEDQUEUE_NOERR, c1)"
    "set_state (running c1) cothread_ready c1 = Inr c2"
    "parked_rel cfg (a\<lparr>sp_ready := sp_ready a @ [sp_running a]\<rparr>) c2"
    "same_core c c2" "\<forall>k\<ge>0. nx c2 k = nx c k" "blocked_channel_map c2 = blocked_channel_map c"
    "running c1 = running c" "running c2 = running c"
    using yield_parks [OF assms(1,2)] by blast
  have base2: "base_rel cfg (a\<lparr>sp_ready := sp_ready a @ [sp_running a]\<rparr>) c2"
    using c2(3) by (simp add: parked_rel_def)
  have valid: "valid_ref c w" "valid_ref c2 w"
    using w by (simp_all add: ctl_rel_valid [OF assms(2)] base_rel_valid [OF base2])
  let ?next = "nx c w"
  let ?sem = "if ?next = LIBMICROKITCO_NULL_HANDLE
    then microkit_cothread_semaphore_init (sem\<lparr>sem_head := ?next\<rparr>) else sem\<lparr>sem_head := ?next\<rparr>"
  let ?c3 = "(upd_tcb w (\<lambda>t. t\<lparr>next_blocked_on_same_event := LIBMICROKITCO_NULL_HANDLE\<rparr>) c2)\<lparr>running := w\<rparr>"
  let ?c4 = "upd_tcb w (\<lambda>t. t\<lparr>tcb_state := cothread_running\<rparr>) ?c3"
  have head: "sem_head sem = w" "w \<noteq> LIBMICROKITCO_NULL_HANDLE" "\<not> sem_set sem"
    using assms(3) w by (auto simp: sem_rel_def)
  have sig: "microkit_cothread_semaphore_signal sem c = Inr (?sem, ?c4, Some (co_handle (tcb ?c4 w)))"
    using head c2(1,2,7,8) valid w
    by (simp add: microkit_cothread_semaphore_signal_def microkit_cothread_semaphore_is_set_def
        microkit_cothread_semaphore_is_queue_empty_def tcb_at_valid set_next_def set_state_def
        mod_tcb_valid ctl_simps Let_def nx_def [of c w] del: not_None_eq)
  have tcb4: "tcb ?c4 k = (if k = w then (tcb c2 w)\<lparr>tcb_state := cothread_running,
      next_blocked_on_same_event := LIBMICROKITCO_NULL_HANDLE\<rparr> else tcb c2 k)" if "0 \<le> k" for k
    using that valid w by (simp add: ctl_simps)
  have nx4: "nx ?c4 k = (if k = w then LIBMICROKITCO_NULL_HANDLE else nx c k)" if "0 \<le> k" for k
    using c2(5) that tcb4 [OF that] unfolding nx_def by simp
  have spec: "spec_signal p a = a\<lparr>sp_running := w, sp_ready := sp_ready a @ [sp_running a],
      sp_sems := (sp_sems a)(p \<mapsto> (False, ws))\<rparr>"
    using assms(4) by (simp add: spec_signal_def)
  have "ctl_rel cfg (spec_signal p a) ?c4"
    using c2(3) base2 tcb4 nx4 w fresh R(4) spec_ok_range(1) [OF assms(1)]
    unfolding ctl_rel_def spec
    by (auto simp: parked_rel_def base_rel_def ctl_simps spec_state_def parked_state_def placed_def)
  moreover have "same_core c ?c4"
    using c2(4) tcb4 by (auto simp: same_core_def ctl_simps)
  moreover have "sem_rel ?c4 ?sem False ws"
  proof -
    have "linked (nx ?c4) ws = linked (nx c) ws"
      using nx4 fresh(2) spec_ok_range(2) [OF assms(1), of _ p] ws by (intro linked_cong) auto
    moreover have link: "linked (nx c) (w # ws)" using assms(3) by (simp add: sem_rel_def)
    ultimately have l4: "linked (nx ?c4) ws" using linked_tl by blast
    show ?thesis
    proof (cases ws)
      case Nil
      then show ?thesis using linked_next [OF link]
        by (simp add: sem_rel_def microkit_cothread_semaphore_init_def)
    next
      case (Cons k ks)
      then have "0 \<le> k" using spec_ok_range(2) [OF assms(1), of k p] ws by simp
      then show ?thesis using Cons linked_next [OF link] l4 assms(3)
        by (auto simp: sem_rel_def)
    qed
  qed
  moreover have "\<forall>k\<ge>0. k \<noteq> w \<longrightarrow> nx ?c4 k = nx c k" using nx4 by simp
  moreover have "blocked_channel_map ?c4 = blocked_channel_map c" "running ?c4 = w"
    using c2(6) by (simp_all add: ctl_simps)
  ultimately show ?thesis using sig by metis
qed

end
