(* ===== verification/CoSimulation.thy ===== *)
theory CoSimulation
  imports CoRefine
begin

text \<open>
  The refinement of the whole state of the protection domain: the controller, the
  semaphores wherever they live, the stacks and the executing context. Every public
  operation, called as the README asks, does what the specification does, and never
  panics, faults or touches memory outside a stack.
\<close>

subsection \<open>Stacks and handles\<close>

text \<open>
  The stacks are mapped, disjoint, not null, do not hold the root thread's buffer, and
  their size fits an \<open>int\<close>.
\<close>

definition stacks_ok :: "config \<Rightarrow> 64 memory \<Rightarrow> co_control_t \<Rightarrow> bool" where
  "stacks_ok cfg m c \<longleftrightarrow>
     0x1000 \<le> unat (co_stack_size c) \<and> unat (co_stack_size c) \<le> INT_MAX \<and>
     (\<forall>h. 1 \<le> h \<and> h < int (max_cothreads cfg) \<longrightarrow>
        local_storage (tcb c h) \<noteq> 0 \<and>
        mapped m (local_storage (tcb c h)) (unat (co_stack_size c)) \<and>
        \<not> inside (root_handle cfg) (local_storage (tcb c h)) (unat (co_stack_size c))) \<and>
     (\<forall>h k b. 1 \<le> h \<and> h < int (max_cothreads cfg) \<and> 1 \<le> k \<and> k < int (max_cothreads cfg) \<and>
        h \<noteq> k \<and> inside b (local_storage (tcb c h)) (unat (co_stack_size c)) \<longrightarrow>
        \<not> inside b (local_storage (tcb c k)) (unat (co_stack_size c)))"

definition handles_ok :: "config \<Rightarrow> sched \<Rightarrow> co_control_t \<Rightarrow> bool" where
  "handles_ok cfg a c \<longleftrightarrow> root_handle cfg \<noteq> 0 \<and> co_handle (tcb c 0) = root_handle cfg \<and>
     (\<forall>h. 1 \<le> h \<and> h < int (max_cothreads cfg) \<and> h \<notin> set (sp_free a) \<longrightarrow>
        co_handle (tcb c h) =
          derived_handle (cfg_arch cfg) (local_storage (tcb c h)) (co_stack_size c))"

lemma stacks_ok_cong:
  assumes "stacks_ok cfg m c" and "same_core c c'" and "dom m' = dom m"
  shows "stacks_ok cfg m' c'"
proof -
  have "local_storage (tcb c' h) = local_storage (tcb c h)" if "1 \<le> h" for h
    using that by (intro same_coreD(2) [OF assms(2)]) simp
  then show ?thesis
    using assms(1) same_coreD(5) [OF assms(2), of 0] unfolding stacks_ok_def
    by (auto simp: mapped_dom [OF assms(3)])
qed

lemma handles_ok_cong:
  assumes "handles_ok cfg a c" and "same_core c c'" and "set (sp_free a) \<subseteq> set (sp_free a')"
  shows "handles_ok cfg a' c'"
proof -
  have "local_storage (tcb c' h) = local_storage (tcb c h)" "co_handle (tcb c' h) = co_handle (tcb c h)"
    if "0 \<le> h" for h
    using that same_coreD [OF assms(2)] by auto
  then show ?thesis
    using assms(1,3) same_coreD(5) [OF assms(2), of 0] unfolding handles_ok_def by auto
qed

text \<open>Different cothreads in use have different contexts.\<close>

lemma handles_distinct:
  assumes "stacks_ok cfg m c" and "handles_ok cfg a c"
    and "0 \<le> h" "h < int (max_cothreads cfg)" "h \<notin> set (sp_free a)"
    and "0 \<le> k" "k < int (max_cothreads cfg)" "k \<notin> set (sp_free a)" and "h \<noteq> k"
  shows "co_handle (tcb c h) \<noteq> co_handle (tcb c k)"
proof -
  have at: "inside (co_handle (tcb c i)) (local_storage (tcb c i)) (unat (co_stack_size c))"
    if "1 \<le> i" "i < int (max_cothreads cfg)" "i \<notin> set (sp_free a)" for i
    using that assms(1,2) derived_handle_inside [of "co_stack_size c"]
    by (simp add: handles_ok_def stacks_ok_def)
  have root: "co_handle (tcb c 0) = root_handle cfg" using assms(2) by (simp add: handles_ok_def)
  have not_root: "co_handle (tcb c i) \<noteq> root_handle cfg"
    if "1 \<le> i" "i < int (max_cothreads cfg)" "i \<notin> set (sp_free a)" for i
    using at [OF that] that assms(1) by (auto simp: stacks_ok_def)
  consider "h = 0" "1 \<le> k" | "k = 0" "1 \<le> h" | "1 \<le> h" "1 \<le> k" using assms(3,6,9) by linarith
  then show ?thesis
  proof cases
    case 1
    with not_root [of k] root assms(7,8) show ?thesis by simp
  next
    case 2
    with not_root [of h] root assms(4,5) show ?thesis by simp
  next
    case 3
    then show ?thesis using at [of h] at [of k] assms by (auto simp: stacks_ok_def)
  qed
qed

subsection \<open>Semaphores in the state\<close>

definition sem_view :: "pd \<Rightarrow> co_control_t \<Rightarrow> sem_ptr \<Rightarrow> microkit_cothread_sem_t" where
  "sem_view s c p = (case p of ClientSem a \<Rightarrow> client_sems s a
     | ChannelSem ch \<Rightarrow> blocked_channel_map c ! ch)"

definition valid_ptr :: "config \<Rightarrow> sem_ptr \<Rightarrow> bool" where
  "valid_ptr cfg p = (case p of ClientSem a \<Rightarrow> True | ChannelSem ch \<Rightarrow> ch < max_channels cfg)"

definition sems_rel :: "config \<Rightarrow> sched \<Rightarrow> pd \<Rightarrow> co_control_t \<Rightarrow> bool" where
  "sems_rel cfg a s c \<longleftrightarrow> (\<forall>p f ws. sp_sems a p = Some (f, ws) \<longrightarrow>
     valid_ptr cfg p \<and> sem_rel c (sem_view s c p) f ws)"

lemma sem_read_view:
  assumes "co_controller s = Some c" and "valid_ptr cfg p"
    and "length (blocked_channel_map c) = max_channels cfg"
  shows "sem_read s p = Inr (sem_view s c p)"
  using assms by (cases p) (simp_all add: get_ctl_def sem_view_def valid_ptr_def)

text \<open>Writing a semaphore back: the state it leaves and what the semaphores are then.\<close>

lemma sem_write_view:
  assumes "valid_ptr cfg p" and "length (blocked_channel_map c) = max_channels cfg"
  shows "\<exists>s' c'. sem_write p v (put_ctl c s) = Inr s' \<and> co_controller s' = Some c' \<and>
    c' = c\<lparr>blocked_channel_map := blocked_channel_map c'\<rparr> \<and>
    length (blocked_channel_map c') = max_channels cfg \<and>
    (\<forall>q. valid_ptr cfg q \<longrightarrow> sem_view s' c' q = (if q = p then v else sem_view s c q)) \<and>
    pd_mem s' = pd_mem s \<and> co_active_handle s' = co_active_handle s"
proof (cases p)
  case (ClientSem a)
  then show ?thesis using assms
    by (intro exI [of _ "(put_ctl c s)\<lparr>client_sems := (client_sems s)(a := v)\<rparr>"] exI [of _ c])
      (auto simp: put_ctl_def sem_view_def split: sem_ptr.splits)
next
  case (ChannelSem ch)
  let ?c = "c\<lparr>blocked_channel_map := (blocked_channel_map c)[ch := v]\<rparr>"
  show ?thesis using assms ChannelSem
    by (intro exI [of _ "put_ctl ?c (put_ctl c s)"] exI [of _ ?c])
      (auto simp: put_ctl_def get_ctl_def sem_view_def valid_ptr_def nth_list_update_if
        split: sem_ptr.splits)
qed

subsection \<open>The refinement relation\<close>

definition refines :: "config \<Rightarrow> sched \<Rightarrow> pd \<Rightarrow> bool" where
  "refines cfg a s \<longleftrightarrow> spec_ok (max_cothreads cfg) a \<and>
     (\<exists>c. co_controller s = Some c \<and> ctl_rel cfg a c \<and> sems_rel cfg a s c \<and>
        stacks_ok cfg (pd_mem s) c \<and> handles_ok cfg a c \<and>
        co_active_handle s = co_handle (tcb c (running c)))"

lemma refinesE:
  assumes "refines cfg a s"
  obtains c where "spec_ok (max_cothreads cfg) a" "co_controller s = Some c" "ctl_rel cfg a c"
    "sems_rel cfg a s c" "stacks_ok cfg (pd_mem s) c" "handles_ok cfg a c"
    "co_active_handle s = co_handle (tcb c (running c))" "get_ctl s = Inr c"
  using assms by (auto simp: refines_def get_ctl_def)

lemma refines_step:
  assumes "stacks_ok cfg (pd_mem s) c" and "handles_ok cfg a c"
    and "spec_ok (max_cothreads cfg) a'" and "ctl_rel cfg a' c'" and "same_core c c'"
    and "set (sp_free a) \<subseteq> set (sp_free a')"
    and "co_controller s' = Some c'" and "sems_rel cfg a' s' c'" and "pd_mem s' = pd_mem s"
    and "co_active_handle s' = co_handle (tcb c' (running c'))"
  shows "refines cfg a' s'"
  unfolding refines_def using assms stacks_ok_cong [OF assms(1,5) refl] handles_ok_cong [OF assms(2,5,6)]
  by auto

lemma put_ctl_simps [simp]:
  "co_controller (put_ctl c s) = Some c" "pd_mem (put_ctl c s) = pd_mem s"
  "co_active_handle (put_ctl c s) = co_active_handle s" "client_sems (put_ctl c s) = client_sems s"
  by (simp_all add: put_ctl_def)

lemma co_switch_simps [simp]:
  "co_controller (co_switch h s) = co_controller s" "pd_mem (co_switch h s) = pd_mem s"
  "co_active_handle (co_switch h s) = h" "client_sems (co_switch h s) = client_sems s"
  by (simp_all add: co_switch_def)

text \<open>
  When links and semaphores of the waiting queues stay, the semaphores stay related.
\<close>

lemma sems_rel_keep:
  assumes "spec_ok (max_cothreads cfg) a" and "sems_rel cfg a s c" and "sp_sems a' = sp_sems a"
    and "blocked_channel_map c' = blocked_channel_map c" and "client_sems s' = client_sems s"
    and "\<And>p k. k \<in> set (waiters a p) \<Longrightarrow> nx c' k = nx c k"
  shows "sems_rel cfg a' s' c'"
  unfolding sems_rel_def
proof (intro allI impI)
  fix p f ws assume p: "sp_sems a' p = Some (f, ws)"
  with assms(3) have "sp_sems a p = Some (f, ws)" by simp
  moreover have "sem_view s' c' p = sem_view s c p"
    using assms(4,5) by (simp add: sem_view_def split: sem_ptr.splits)
  moreover have "nx c' k = nx c k" if "k \<in> set ws" for k
    using assms(6) [of k p] that calculation(1) by (simp add: waiters_def)
  ultimately show "valid_ptr cfg p \<and> sem_rel c' (sem_view s' c' p) f ws"
    using assms(2) sem_rel_cong [of ws c' c] by (auto simp: sems_rel_def)
qed

end
