(* ===== verification/CoOps.thy ===== *)
theory CoOps
  imports CoSimulation
begin

text \<open>
  Every public operation that schedules, on the whole state: it returns, and the state it
  returns refines what the specification does to the abstract state.
\<close>

subsection \<open>Yield\<close>

lemma switch_handle:
  assumes "same_core c c'" and "0 \<le> h"
  shows "co_handle (tcb c h) = co_handle (tcb c' h)"
  using same_coreD(1) [OF assms] by simp

lemma yield_refines:
  assumes "refines cfg a s"
  shows "\<exists>s'. microkit_cothread_yield s = Inr s' \<and> refines cfg (spec_yield a) s' \<and>
    pd_mem s' = pd_mem s \<and> client_sems s' = client_sems s"
proof -
  obtain c where c: "spec_ok (max_cothreads cfg) a" "co_controller s = Some c" "ctl_rel cfg a c"
    "sems_rel cfg a s c" "stacks_ok cfg (pd_mem s) c" "handles_ok cfg a c" "get_ctl s = Inr c"
    using refinesE [OF assms] by blast
  let ?b = "a\<lparr>sp_ready := sp_ready a @ [sp_running a]\<rparr>"
  obtain c1 c2 where c2: "sched_push (running c) c = Inr (LIBHOSTEDQUEUE_NOERR, c1)"
    "set_state (running c1) cothread_ready c1 = Inr c2" "parked_rel cfg ?b c2"
    "same_core c c2" "\<forall>k\<ge>0. nx c2 k = nx c k" "blocked_channel_map c2 = blocked_channel_map c"
    using yield_parks [OF c(1,3)] by blast
  obtain h hs where r: "sp_ready ?b = h # hs" by (cases "sp_ready ?b") auto
  have "distinct (sp_ready ?b)" using spec_okD(1) [OF c(1)] by (auto simp: placed_def)
  moreover have "0 < max_cothreads cfg" using spec_ok_room(1) [OF c(1)] by linarith
  ultimately obtain c' where c': "internal_go_next c2 = Inr (c', co_handle (tcb c2 h))"
    "running c' = h" "ctl_rel cfg (spec_dispatch ?b) c'" "same_core c2 c'"
    "\<forall>k\<ge>0. nx c' k = nx c2 k" "blocked_channel_map c' = blocked_channel_map c2"
    using internal_go_next_refines [OF c2(3) r] by blast
  have h: "0 \<le> h" using c2(3) r by (auto simp: parked_rel_def)
  let ?s = "co_switch (co_handle (tcb c2 h)) (put_ctl c' s)"
  have eq: "microkit_cothread_yield s = Inr ?s"
    using c(7) c2(1,2) c'(1) by (simp add: microkit_cothread_yield_def)
  have same: "same_core c c'" using same_core_trans [OF c2(4) c'(4)] .
  have spec: "spec_yield a = spec_dispatch ?b" by (simp add: spec_yield_def)
  have "sp_sems (spec_yield a) = sp_sems a" "sp_free (spec_yield a) = sp_free a"
    by (simp_all add: spec_yield_def spec_dispatch_def split: list.splits)
  moreover have "sems_rel cfg (spec_yield a) ?s c'"
  proof (rule sems_rel_keep [OF c(1,4)])
    show "nx c' k = nx c k" if "k \<in> set (waiters a p)" for p k
      using spec_ok_range(2) [OF c(1) that] c2(5) c'(5) by simp
  qed (use calculation c2(6) c'(6) in simp_all)
  ultimately have "refines cfg (spec_yield a) ?s"
    using c c' same spec spec_yield_ok [OF c(1)] switch_handle [OF c'(4) h]
    by (intro refines_step [where c = c and c' = c' and a = a and s = s]) simp_all
  with eq show ?thesis by auto
qed

subsection \<open>Operations on a semaphore\<close>

lemma channel_map_views [simp]:
  "tcb (c\<lparr>blocked_channel_map := b\<rparr>) = tcb c"
  "ready_list (c\<lparr>blocked_channel_map := b\<rparr>) = ready_list c"
  "free_list (c\<lparr>blocked_channel_map := b\<rparr>) = free_list c"
  "queues_ok n (c\<lparr>blocked_channel_map := b\<rparr>) = queues_ok n c"
  by (simp_all add: fun_eq_iff tcb_def ready_list_def free_list_def queues_ok_def)

lemma channel_map_links [simp]:
  "nx (c\<lparr>blocked_channel_map := b\<rparr>) = nx c"
  "same_core d (c\<lparr>blocked_channel_map := b\<rparr>) = same_core d c"
  by (simp_all add: fun_eq_iff nx_def same_core_def)

lemma channel_map_sem_rel [simp]: "sem_rel (c\<lparr>blocked_channel_map := b\<rparr>) = sem_rel c"
  by (simp add: fun_eq_iff sem_rel_def)

lemma ctl_rel_channel_map:
  assumes "ctl_rel cfg a c" and "length b = max_channels cfg"
  shows "ctl_rel cfg a (c\<lparr>blocked_channel_map := b\<rparr>)"
  using assms by (simp add: ctl_rel_def base_rel_def)

lemma ctl_rel_sems:
  assumes "ctl_rel cfg a c"
  shows "ctl_rel cfg (a\<lparr>sp_sems := f\<rparr>) c"
  using assms by (simp add: ctl_rel_def base_rel_def)

text \<open>
  Reading a semaphore, doing a controller operation that keeps the relation, writing it
  back and switching keeps the refinement.
\<close>

lemma on_sem_refines:
  assumes ref: "refines cfg a s" "co_controller s = Some c" and p: "sp_sems a p = Some (f, ws)"
    and op: "op (sem_view s c p) c = Inr (sem', c', sw)"
    and rel: "ctl_rel cfg a' c'" "same_core c c'" "sem_rel c' sem' f' ws'"
    and nx: "\<forall>k\<ge>0. k \<notin> set ws \<longrightarrow> nx c' k = nx c k"
    and chan: "blocked_channel_map c' = blocked_channel_map c"
    and spec: "sp_sems a' = (sp_sems a)(p \<mapsto> (f', ws'))" "spec_ok (max_cothreads cfg) a'"
      "set (sp_free a) \<subseteq> set (sp_free a')"
    and sw: "sw = Some (co_handle (tcb c' (running c'))) \<or> sw = None \<and> running c' = running c"
  shows "\<exists>s'. on_sem op p s = Inr s' \<and> refines cfg a' s' \<and> pd_mem s' = pd_mem s"
proof -
  have c: "spec_ok (max_cothreads cfg) a" "ctl_rel cfg a c" "sems_rel cfg a s c"
    "stacks_ok cfg (pd_mem s) c" "handles_ok cfg a c"
    "co_active_handle s = co_handle (tcb c (running c))" "get_ctl s = Inr c"
    using ref by (auto elim: refinesE)
  have valid: "valid_ptr cfg p" using c(3) p by (auto simp: sems_rel_def)
  have len: "length (blocked_channel_map c') = max_channels cfg"
    using ctl_relD(9) [OF rel(1)] .
  have read: "sem_read s p = Inr (sem_view s c p)"
    by (rule sem_read_view [OF ref(2) valid]) (use len chan in simp)
  obtain s1 c1 where w: "sem_write p sem' (put_ctl c' s) = Inr s1" "co_controller s1 = Some c1"
    "c1 = c'\<lparr>blocked_channel_map := blocked_channel_map c1\<rparr>"
    "length (blocked_channel_map c1) = max_channels cfg"
    "\<And>q. valid_ptr cfg q \<Longrightarrow> sem_view s1 c1 q = (if q = p then sem' else sem_view s c' q)"
    "pd_mem s1 = pd_mem s" "co_active_handle s1 = co_active_handle s"
    using sem_write_view [OF valid len, of sem' s] by blast
  have views: "tcb c1 = tcb c'" "nx c1 = nx c'" "running c1 = running c'" "sem_rel c1 = sem_rel c'"
    by (subst w(3), simp)+
  have view_c: "sem_view s c' q = sem_view s c q" for q
    using chan by (simp add: sem_view_def split: sem_ptr.splits)
  let ?s = "switch_to sw s1"
  have s: "co_controller ?s = Some c1" "pd_mem ?s = pd_mem s" "client_sems ?s = client_sems s1"
    using w by (simp_all add: switch_to_def split: option.splits)
  have "on_sem op p s = Inr ?s" using c(7) read op w(1) by (simp add: on_sem_def)
  moreover have "refines cfg a' ?s"
  proof (rule refines_step [OF c(4,5) spec(2) _ _ spec(3) s(1) _ s(2)])
    show "ctl_rel cfg a' c1" by (subst w(3)) (rule ctl_rel_channel_map [OF rel(1) w(4)])
    show "same_core c c1" by (subst w(3)) (use rel(2) in simp)
    have "0 \<le> running c"
      using spec_ok_range(1) [OF c(1), of "running c"] ctl_relD(2) [OF c(2)] by (simp add: placed_def)
    then have "running c' = running c \<Longrightarrow> co_handle (tcb c' (running c')) = co_handle (tcb c (running c))"
      using same_coreD(1) [OF rel(2)] by simp
    then show "co_active_handle ?s = co_handle (tcb c1 (running c1))"
      using sw w(7) c(6) views by (auto simp: switch_to_def)
    show "sems_rel cfg a' ?s c1"
      unfolding sems_rel_def
    proof (intro allI impI)
      fix q g vs assume q: "sp_sems a' q = Some (g, vs)"
      have sv: "sem_view ?s c1 q = sem_view s1 c1 q" using s(3)
        by (simp add: sem_view_def split: sem_ptr.splits)
      show "valid_ptr cfg q \<and> sem_rel c1 (sem_view ?s c1 q) g vs"
      proof (cases "q = p")
        case True
        then show ?thesis using q spec(1) valid w(5) [OF valid] sv rel(3) views by simp
      next
        case False
        with q spec(1) have qa: "sp_sems a q = Some (g, vs)" by simp
        then have r: "valid_ptr cfg q" "sem_rel c (sem_view s c q) g vs"
          using c(3) by (auto simp: sems_rel_def)
        have "nx c' k = nx c k" if "k \<in> set vs" for k
          using that nx spec_okD(4) [OF c(1) False] spec_ok_range(2) [OF c(1), of k q] qa p
          by (auto simp: waiters_def)
        then have "sem_rel c' (sem_view s c q) g vs"
          using r(2) sem_rel_cong [of vs c' c] by simp
        with r(1) False w(5) [OF r(1)] sv views view_c show ?thesis by simp
      qed
    qed
  qed
  ultimately show ?thesis using s(2) by blast
qed

lemma refines_sem_rel:
  assumes "refines cfg a s" and "co_controller s = Some c" and "sp_sems a p = Some (f, ws)"
  shows "spec_ok (max_cothreads cfg) a" "ctl_rel cfg a c" "sem_rel c (sem_view s c p) f ws"
    "valid_ptr cfg p"
  using assms by (auto simp: sems_rel_def elim!: refinesE)

lemma refines_ctl: "refines cfg a s \<Longrightarrow> \<exists>c. co_controller s = Some c"
  by (auto elim: refinesE)

lemma wait_refines:
  assumes "refines cfg a s" and "sp_sems a p = Some (f, ws)" and "f \<or> sp_running a \<noteq> 0"
  shows "\<exists>s'. pd_semaphore_wait p s = Inr s' \<and> refines cfg (spec_wait p a) s' \<and> pd_mem s' = pd_mem s"
proof -
  obtain c where c: "co_controller s = Some c" using refines_ctl [OF assms(1)] by blast
  note R = refines_sem_rel [OF assms(1) c assms(2)]
  show ?thesis
  proof (cases f)
    case True
    then have ws: "ws = []" using spec_okD(6) [OF R(1), of p ws] assms(2) by simp
    let ?a = "spec_wait p a" and ?sem = "(sem_view s c p)\<lparr>sem_set := False\<rparr>"
    have a: "?a = a\<lparr>sp_sems := (sp_sems a)(p \<mapsto> (False, ws))\<rparr>"
      using True assms(2) by (simp add: spec_wait_def)
    have "spec_ok (max_cothreads cfg) ?a" using spec_wait_flag_ok [OF R(1)] assms(2) True by simp
    moreover have "sem_rel c ?sem False ws" using R(3) ws by (simp add: sem_rel_def)
    moreover have "microkit_cothread_semaphore_wait (sem_view s c p) c = Inr (?sem, c, None)"
      using R(3) True by (simp add: microkit_cothread_semaphore_wait_def sem_rel_def)
    ultimately show ?thesis unfolding pd_semaphore_wait_def
      by (intro on_sem_refines [OF assms(1) c assms(2), where c' = c and sw = None])
        (simp_all add: a ctl_rel_sems [OF R(2)])
  next
    case False
    then have run: "sp_running a \<noteq> 0" using assms(3) by simp
    have p: "sp_sems a p = Some (False, ws)" using assms(2) False by simp
    obtain sem' c' where c': "microkit_cothread_semaphore_wait (sem_view s c p) c
        = Inr (sem', c', Some (co_handle (tcb c' (running c'))))"
      "ctl_rel cfg (spec_wait p a) c'" "same_core c c'"
      "sem_rel c' sem' False (ws @ [sp_running a])"
      "\<forall>k\<ge>0. k \<notin> set ws \<longrightarrow> nx c' k = nx c k" "blocked_channel_map c' = blocked_channel_map c"
      using semaphore_wait_block_refines [OF R(1,2) _ p run, of "sem_view s c p"] R(3) False by auto
    have "sp_sems (spec_wait p a) = (sp_sems a)(p \<mapsto> (False, ws @ [sp_running a]))"
      "sp_free (spec_wait p a) = sp_free a"
      by (simp_all add: spec_wait_def p spec_dispatch_def split: list.splits)
    with c' spec_wait_block_ok [OF R(1) p run] show ?thesis unfolding pd_semaphore_wait_def
      by (intro on_sem_refines [where op = microkit_cothread_semaphore_wait, OF assms(1) c p c'(1-6)]) simp_all
  qed
qed

lemma signal_refines:
  assumes "refines cfg a s" and "sp_sems a p = Some (f, ws)"
  shows "\<exists>s'. pd_semaphore_signal p s = Inr s' \<and> refines cfg (spec_signal p a) s' \<and> pd_mem s' = pd_mem s"
proof -
  obtain c where c: "co_controller s = Some c" using refines_ctl [OF assms(1)] by blast
  note R = refines_sem_rel [OF assms(1) c assms(2)]
  have ok: "spec_ok (max_cothreads cfg) (spec_signal p a)" by (rule spec_signal_ok [OF R(1)])
  let ?sig = "microkit_cothread_semaphore_signal (sem_view s c p) c"
  consider "f" | "\<not> f" "ws = []" | w vs where "\<not> f" "ws = w # vs" by (cases ws) auto
  then show ?thesis
  proof cases
    case 1
    have "?sig = Inr (sem_view s c p, c, None)"
      using R(3) 1 by (simp add: microkit_cothread_semaphore_signal_def
          microkit_cothread_semaphore_is_set_def sem_rel_def)
    moreover have "spec_signal p a = a" using assms(2) 1 by (simp add: spec_signal_def)
    ultimately show ?thesis using R ok assms(2) unfolding pd_semaphore_signal_def
      by (intro on_sem_refines [OF assms(1) c assms(2), where c' = c and sw = None]) auto
  next
    case 2
    let ?sem = "(sem_view s c p)\<lparr>sem_set := True\<rparr>"
    have "?sig = Inr (?sem, c, None)"
      using R(3) 2 by (simp add: microkit_cothread_semaphore_signal_def sem_rel_def
          microkit_cothread_semaphore_is_set_def microkit_cothread_semaphore_is_queue_empty_def)
    moreover have "spec_signal p a = a\<lparr>sp_sems := (sp_sems a)(p \<mapsto> (True, []))\<rparr>"
      using assms(2) 2 by (simp add: spec_signal_def)
    moreover have "sem_rel c ?sem True []" using R(3) 2 by (simp add: sem_rel_def)
    ultimately show ?thesis using ok unfolding pd_semaphore_signal_def
      by (intro on_sem_refines [OF assms(1) c assms(2), where c' = c and sw = None])
        (simp_all add: ctl_rel_sems [OF R(2)])
  next
    case 3
    have p: "sp_sems a p = Some (False, w # vs)" using assms(2) 3 by simp
    obtain sem' c' where c': "?sig = Inr (sem', c', Some (co_handle (tcb c' (running c'))))"
      "ctl_rel cfg (spec_signal p a) c'" "same_core c c'" "sem_rel c' sem' False vs"
      "\<forall>k\<ge>0. k \<noteq> w \<longrightarrow> nx c' k = nx c k" "blocked_channel_map c' = blocked_channel_map c"
      using semaphore_signal_wake_refines [OF R(1,2) _ p, of "sem_view s c p"] R(3) 3 by auto
    have nx: "\<forall>k\<ge>0. k \<notin> set (w # vs) \<longrightarrow> nx c' k = nx c k" using c'(5) by simp
    have "sp_sems (spec_signal p a) = (sp_sems a)(p \<mapsto> (False, vs))"
      "sp_free (spec_signal p a) = sp_free a"
      by (simp_all add: spec_signal_def p)
    with ok show ?thesis unfolding pd_semaphore_signal_def
      by (intro on_sem_refines [where op = microkit_cothread_semaphore_signal, OF assms(1) c p c'(1-4) nx c'(6)]) simp_all
  qed
qed

lemma sem_init_refines:
  assumes "refines cfg a s" and "valid_ptr cfg p" and "waiters a p = []"
  shows "\<exists>s'. pd_semaphore_init p s = Inr s' \<and> refines cfg (spec_sem_init p a) s' \<and> pd_mem s' = pd_mem s"
proof -
  obtain c where c: "spec_ok (max_cothreads cfg) a" "co_controller s = Some c" "ctl_rel cfg a c"
    "sems_rel cfg a s c" "stacks_ok cfg (pd_mem s) c" "handles_ok cfg a c"
    "co_active_handle s = co_handle (tcb c (running c))" "get_ctl s = Inr c"
    using refinesE [OF assms(1)] by blast
  note len = ctl_relD(9) [OF c(3)]
  let ?v = "microkit_cothread_semaphore_init (sem_view s c p)"
  have put: "put_ctl c s = s" using c(2) by (simp add: put_ctl_def)
  obtain s' c' where s': "sem_write p ?v s = Inr s'" "co_controller s' = Some c'"
    "c' = c\<lparr>blocked_channel_map := blocked_channel_map c'\<rparr>"
    "length (blocked_channel_map c') = max_channels cfg"
    "\<And>q. valid_ptr cfg q \<Longrightarrow> sem_view s' c' q = (if q = p then ?v else sem_view s c q)"
    "pd_mem s' = pd_mem s" "co_active_handle s' = co_active_handle s"
    using sem_write_view [OF assms(2) len, of ?v s] unfolding put by blast
  have views: "tcb c' = tcb c" "running c' = running c" "sem_rel c' = sem_rel c"
    by (subst s'(3), simp)+
  have eq: "pd_semaphore_init p s = Inr s'"
    using sem_read_view [OF c(2) assms(2) len] s'(1) by (simp add: pd_semaphore_init_def)
  have v: "sem_rel c ?v False []" by (simp add: sem_rel_def microkit_cothread_semaphore_init_def)
  have "refines cfg (spec_sem_init p a) s'"
  proof (rule refines_step [OF c(5,6) spec_sem_init_ok [OF c(1) assms(3)] _ _ _ s'(2) _ s'(6)])
    show "ctl_rel cfg (spec_sem_init p a) c'"
      unfolding spec_sem_init_def
      by (subst s'(3)) (rule ctl_rel_channel_map [OF ctl_rel_sems [OF c(3)] s'(4)])
    show "same_core c c'" by (subst s'(3)) simp
    show "sems_rel cfg (spec_sem_init p a) s' c'"
      using c(4) s'(5) assms(2) v views
      by (auto simp: sems_rel_def spec_sem_init_def)
    show "co_active_handle s' = co_handle (tcb c' (running c'))" using s'(7) c(7) views by simp
  qed (simp add: spec_sem_init_def)
  with eq s'(6) show ?thesis by blast
qed

lemma wait_on_channel_refines:
  assumes "refines cfg a s" and "sp_sems a (ChannelSem (unat ch)) = Some (f, ws)"
    and "f \<or> sp_running a \<noteq> 0"
  shows "\<exists>s'. microkit_cothread_wait_on_channel cfg ch s = Inr s' \<and>
    refines cfg (spec_wait (ChannelSem (unat ch)) a) s' \<and> pd_mem s' = pd_mem s"
proof -
  obtain c where "co_controller s = Some c" using refines_ctl [OF assms(1)] by blast
  then have "unat ch < max_channels cfg"
    using refines_sem_rel(4) [OF assms(1) _ assms(2)] by (simp add: valid_ptr_def)
  then show ?thesis using wait_refines [OF assms]
    by (simp add: microkit_cothread_wait_on_channel_def)
qed

lemma recv_ntfn_refines:
  assumes "refines cfg a s" and "sp_sems a (ChannelSem (unat ch)) = Some (f, ws)"
    and "sp_running a = 0"
  shows "\<exists>s'. microkit_cothread_recv_ntfn cfg ch s = Inr s' \<and>
    refines cfg (spec_signal (ChannelSem (unat ch)) a) s' \<and> pd_mem s' = pd_mem s"
proof -
  obtain c where c: "co_controller s = Some c" using refines_ctl [OF assms(1)] by blast
  note R = refines_sem_rel [OF assms(1) c assms(2)]
  have "unat ch < max_channels cfg" using R(4) by (simp add: valid_ptr_def)
  then show ?thesis using signal_refines [OF assms(1,2)] c ctl_relD(2) [OF R(2)] assms(3)
    by (simp add: microkit_cothread_recv_ntfn_def get_ctl_def)
qed

end
