(* ===== verification/CoLife.thy ===== *)
theory CoLife
  imports CoOps
begin

text \<open>
  The life of a cothread: what spawning one, returning from its entry point and asking
  for its handle, argument or state do to a state that refines the specification.
\<close>

subsection \<open>Leaving\<close>

lemma exit_parks:
  assumes "spec_ok (max_cothreads cfg) a" and "ctl_rel cfg a c"
  shows "\<exists>c1 c2. free_push (running c) c = Inr (LIBHOSTEDQUEUE_NOERR, c1) \<and>
    set_state (running c) cothread_not_active c1 = Inr c2 \<and>
    parked_rel cfg (a\<lparr>sp_free := sp_free a @ [sp_running a]\<rparr>) c2 \<and>
    same_core c c2 \<and> (\<forall>k\<ge>0. nx c2 k = nx c k) \<and>
    blocked_channel_map c2 = blocked_channel_map c \<and> running c2 = running c"
proof -
  note R = ctl_relD [OF assms(2)]
  have run: "0 \<le> sp_running a" "sp_running a < int (max_cothreads cfg)"
    using spec_ok_range(1) [OF assms(1)] by (auto simp: placed_def)
  obtain c1 where c1: "free_push (running c) c = Inr (LIBHOSTEDQUEUE_NOERR, c1)"
    "queues_ok (max_cothreads cfg) c1" "same_but_queues c c1"
    "free_list c1 = sp_free a @ [sp_running a]" "ready_list c1 = sp_ready a"
    using free_push_room [OF R(5), of "running c"] spec_ok_room(2) [OF assms(1)] R by auto
  note views = same_but_queues_views [OF c1(3)]
  let ?c = "upd_tcb (running c) (\<lambda>t. t\<lparr>tcb_state := cothread_not_active\<rparr>) c1"
  have valid: "valid_ref c1 (sp_running a)"
    using run by (simp add: views ctl_rel_valid [OF assms(2)])
  have set_eq: "set_state (running c) cothread_not_active c1 = Inr ?c"
    using valid R by (simp add: set_state_def mod_tcb_valid)
  have range: "0 \<le> h \<and> h < int (max_cothreads cfg)" if "h \<in> set (sp_ready a)" for h
    using spec_ok_range(1) [OF assms(1)] that by (auto simp: placed_def)
  have dist: "sp_running a \<notin> set (sp_ready a)"
    using spec_okD(1) [OF assms(1)] by (auto simp: placed_def)
  have "parked_rel cfg (a\<lparr>sp_free := sp_free a @ [sp_running a]\<rparr>) ?c"
    using R c1 views valid run range dist
    by (auto simp: parked_rel_def base_rel_def ctl_simps parked_state_def spec_state_def
        nx_queues [OF c1(3)])
  moreover have "same_core c ?c" "\<forall>k\<ge>0. nx ?c k = nx c k"
    "blocked_channel_map ?c = blocked_channel_map c" "running ?c = running c"
    using valid views R
    by (auto simp: same_core_def ctl_simps nx_queues [OF c1(3)]) (auto simp: nx_def)
  ultimately show ?thesis using c1(1) set_eq by blast
qed

lemma exit_refines:
  assumes "refines cfg a s" and "sp_running a \<noteq> 0"
  shows "\<exists>s'. microkit_cothread_destroy cfg (sp_running a) s = Inr s' \<and>
    refines cfg (spec_exit a) s' \<and> pd_mem s' = pd_mem s \<and> client_sems s' = client_sems s \<and>
    co_active_handle s' \<noteq> co_active_handle s"
proof -
  obtain c where c: "spec_ok (max_cothreads cfg) a" "co_controller s = Some c" "ctl_rel cfg a c"
    "sems_rel cfg a s c" "stacks_ok cfg (pd_mem s) c" "handles_ok cfg a c"
    "co_active_handle s = co_handle (tcb c (running c))" "get_ctl s = Inr c"
    using refinesE [OF assms(1)] by blast
  note R = ctl_relD [OF c(3)]
  let ?b = "a\<lparr>sp_free := sp_free a @ [sp_running a]\<rparr>"
  have run: "0 \<le> sp_running a" "sp_running a < int (max_cothreads cfg)"
    using spec_ok_range(1) [OF c(1)] by (auto simp: placed_def)
  have valid: "valid_ref c (sp_running a)" using run by (simp add: ctl_rel_valid [OF c(3)])
  have active: "tcb_state (tcb c (sp_running a)) = cothread_running"
    using R(3) [OF run] by (simp add: spec_state_def)
  obtain c1 c2 where c2: "free_push (running c) c = Inr (LIBHOSTEDQUEUE_NOERR, c1)"
    "set_state (running c) cothread_not_active c1 = Inr c2" "parked_rel cfg ?b c2"
    "same_core c c2" "\<forall>k\<ge>0. nx c2 k = nx c k" "blocked_channel_map c2 = blocked_channel_map c"
    "running c2 = running c"
    using exit_parks [OF c(1,3)] by blast
  obtain h hs where r: "sp_ready a = h # hs"
    using spec_ok_ready_nonempty [OF c(1) assms(2)] by (cases "sp_ready a") auto
  then have rb: "sp_ready ?b = h # hs" by simp
  have D: "distinct (placed a)" by (rule spec_okD(1) [OF c(1)])
  have "distinct (sp_ready ?b)" using D by (simp add: placed_def)
  moreover have "0 < max_cothreads cfg" using spec_ok_room(1) [OF c(1)] by linarith
  ultimately obtain c' where c': "internal_go_next c2 = Inr (c', co_handle (tcb c2 h))"
    "running c' = h" "ctl_rel cfg (spec_dispatch ?b) c'" "same_core c2 c'"
    "\<forall>k\<ge>0. nx c' k = nx c2 k" "blocked_channel_map c' = blocked_channel_map c2"
    using internal_go_next_refines [OF c2(3) rb] by blast
  have h: "0 \<le> h" "h < int (max_cothreads cfg)" using c2(3) r by (auto simp: parked_rel_def)
  let ?s = "co_switch (co_handle (tcb c2 h)) (put_ctl c' s)"
  have eq: "microkit_cothread_destroy cfg (sp_running a) s = Inr ?s"
    using c(8) c2(1,2,7) c'(1) run active valid R(2) assms(2)
    by (simp add: microkit_cothread_destroy_def tcb_at_valid)
  have same: "same_core c c'" using same_core_trans [OF c2(4) c'(4)] .
  have sems: "sp_sems (spec_exit a) = sp_sems a" "sp_free (spec_exit a) = sp_free a @ [sp_running a]"
    by (simp_all add: spec_exit_def spec_dispatch_def r)
  have "sems_rel cfg (spec_exit a) ?s c'"
  proof (rule sems_rel_keep [OF c(1,4)])
    show "nx c' k = nx c k" if "k \<in> set (waiters a p)" for p k
      using spec_ok_range(2) [OF c(1) that] c2(5) c'(5) by simp
  qed (use sems c2(6) c'(6) in simp_all)
  then have "refines cfg (spec_exit a) ?s"
    using c c' same sems spec_exit_ok [OF c(1) assms(2)] switch_handle [OF c'(4) h(1)]
    by (intro refines_step [where c = c and c' = c' and a = a and s = s])
      (simp_all add: spec_exit_def subset_insertI)
  moreover have "co_handle (tcb c h) \<noteq> co_handle (tcb c (sp_running a))"
    using D r by (intro handles_distinct [OF c(5,6) h _ run]) (auto simp: placed_def)
  then have "co_active_handle ?s \<noteq> co_active_handle s"
    using c(7) R(2) switch_handle [OF c2(4) h(1)] by simp
  ultimately show ?thesis using eq by auto
qed

lemma entry_wrapper_return_refines:
  assumes "refines cfg a s" and "sp_running a \<noteq> 0"
  shows "\<exists>s'. cothread_entry_wrapper_return cfg s = Inr s' \<and> refines cfg (spec_exit a) s' \<and>
    pd_mem s' = pd_mem s \<and> client_sems s' = client_sems s"
proof -
  obtain c where c: "co_controller s = Some c" using refines_ctl [OF assms(1)] by blast
  have "running c = sp_running a" using assms(1) c by (auto simp: ctl_rel_def elim!: refinesE)
  with exit_refines [OF assms] c show ?thesis
    by (auto simp: cothread_entry_wrapper_return_def get_ctl_def)
qed

subsection \<open>Spawning\<close>

lemma unat_scast32:
  assumes "unat (w :: 32 word) \<le> INT_MAX"
  shows "unat (scast w :: 64 word) = unat w"
proof -
  have "unat w \<le> 0x7fffffff" using assms by simp
  then have "int (unat w) \<le> 0x7fffffff" by linarith
  then have u: "uint w \<le> 0x7fffffff" by simp
  have "signed_take_bit 31 (uint w) = uint w"
  proof (rule signed_take_bit_int_eq_self)
    show "- (2 ^ 31) \<le> uint w" by (rule order_trans [OF _ uint_ge_0]) simp
    have "uint w < 0x80000000" using u by linarith
    then show "uint w < 2 ^ 31" by simp
  qed
  then have "sint w = uint w" by (simp add: sint_uint)
  then have "(scast w :: 64 word) = ucast w" by (metis scast_eq ucast_eq)
  then show ?thesis by (simp add: unat_ucast32)
qed

text \<open>The stack of a free handle can be cleared and a context derived in it.\<close>

lemma spawn_stack:
  assumes "stacks_ok cfg m c" and "1 \<le> h" and "h < int (max_cothreads cfg)"
  shows "\<exists>m2. memzero m (local_storage (tcb c h)) (scast (co_stack_size c))
      = Inr (zeroed m (local_storage (tcb c h)) (unat (co_stack_size c))) \<and>
    co_derive (cfg_arch cfg) ce (zeroed m (local_storage (tcb c h)) (unat (co_stack_size c)))
      (local_storage (tcb c h)) (co_stack_size c) w
      = Inr (m2, derived_handle (cfg_arch cfg) (local_storage (tcb c h)) (co_stack_size c)) \<and>
    dom m2 = dom m \<and>
    (\<forall>b. \<not> inside b (local_storage (tcb c h)) (unat (co_stack_size c)) \<longrightarrow> m2 b = m b)"
proof -
  let ?st = "local_storage (tcb c h)" and ?sz = "co_stack_size c"
  have sz: "0x1000 \<le> unat ?sz" "unat ?sz \<le> INT_MAX" using assms(1) by (simp_all add: stacks_ok_def)
  have st: "mapped m ?st (unat ?sz)" "?st \<noteq> 0" using assms by (simp_all add: stacks_ok_def)
  note u = unat_scast32 [OF sz(2)]
  let ?m1 = "zeroed m ?st (unat ?sz)"
  have z: "memzero m ?st (scast ?sz) = Inr ?m1"
    using memzero_mapped [of m ?st "scast ?sz"] st(1) sz(2) by (simp add: u)
  have le: "unat ?sz \<le> 2 ^ LENGTH(64)" using unat_word32 [of ?sz] by simp
  have dom1: "dom ?m1 = dom m" by (rule zeroed_dom [OF st(1) le])
  have "mapped ?m1 ?st (unat ?sz)" using st(1) by (simp add: mapped_dom [OF dom1])
  from co_derive_ok [OF this sz(1) st(2), of "cfg_arch cfg" ce w] obtain m2 where
    m2: "co_derive (cfg_arch cfg) ce ?m1 ?st ?sz w = Inr (m2, derived_handle (cfg_arch cfg) ?st ?sz)"
    "dom m2 = dom ?m1" "\<forall>b. \<not> inside b ?st (unat ?sz) \<longrightarrow> m2 b = ?m1 b" by blast
  then show ?thesis using z dom1 by (auto simp: zeroed_def)
qed

lemma co_active_running:
  assumes "refines cfg a s"
  shows "co_active cfg s = (s, co_active_handle s)"
proof -
  obtain c where c: "spec_ok (max_cothreads cfg) a" "co_controller s = Some c" "ctl_rel cfg a c"
    "stacks_ok cfg (pd_mem s) c" "handles_ok cfg a c"
    "co_active_handle s = co_handle (tcb c (running c))"
    using refinesE [OF assms] by blast
  have run: "0 \<le> sp_running a" "sp_running a < int (max_cothreads cfg)" "sp_running a \<notin> set (sp_free a)"
    using spec_ok_range(1) [OF c(1)] spec_okD(1) [OF c(1)] by (auto simp: placed_def)
  have "co_active_handle s \<noteq> 0" if "cfg_arch cfg = Amd64"
  proof (cases "sp_running a = 0")
    case True
    then show ?thesis using c(5,6) ctl_relD(2) [OF c(3)] by (simp add: handles_ok_def)
  next
    case False
    then show ?thesis using run c(4,5,6) ctl_relD(2) [OF c(3)] that
      by (simp add: handles_ok_def stacks_ok_def derived_handle_def)
  qed
  then show ?thesis by (auto simp: co_active_def)
qed

lemma spawn_empty:
  assumes "refines cfg a s" and "sp_free a = []" and "entry \<noteq> 0"
  shows "microkit_cothread_spawn cfg entry arg s = Inr (s, LIBMICROKITCO_NULL_HANDLE)"
proof -
  obtain c where c: "co_controller s = Some c" "ctl_rel cfg a c" "get_ctl s = Inr c"
    using refinesE [OF assms(1)] by blast
  have "free_pop 0 c = Inr (LIBHOSTEDQUEUE_ERR_EMPTY, c, 0)"
    using free_pop_empty [OF ctl_relD(5) [OF c(2)]] ctl_relD(8) [OF c(2)] assms(2) by simp
  then show ?thesis using c(1,3) assms(3)
    by (simp add: microkit_cothread_spawn_def put_ctl_def)
qed

text \<open>
  What a successful spawn leaves: the control block of the new handle is filled in, its
  stack is zero but for the context that \<open>co_derive\<close> prepares there for \<open>cothread_entry_wrapper\<close>,
  and is the only memory written; nothing of the cores of the others moves.
\<close>

definition spawned ::
    "config \<Rightarrow> client_entry_t \<Rightarrow> addr \<Rightarrow> microkit_cothread_ref_t \<Rightarrow> pd \<Rightarrow> pd \<Rightarrow> bool" where
  "spawned cfg entry arg h s s' \<longleftrightarrow>
     (\<exists>c c'. co_controller s = Some c \<and> co_controller s' = Some c' \<and>
        client_entry (tcb c' h) = entry \<and> private_arg (tcb c' h) = arg \<and>
        tcb_state (tcb c' h) = cothread_ready \<and>
        local_storage (tcb c' h) = local_storage (tcb c h) \<and> co_stack_size c' = co_stack_size c \<and>
        (\<forall>k\<ge>0. k \<noteq> h \<longrightarrow> tcb c' k = tcb c k) \<and>
        co_derive (cfg_arch cfg) (addr_co_entrypoint cfg)
          (zeroed (pd_mem s) (local_storage (tcb c h)) (unat (co_stack_size c)))
          (local_storage (tcb c h)) (co_stack_size c) (addr_entry_wrapper cfg)
          = Inr (pd_mem s', co_handle (tcb c' h)) \<and>
        (\<forall>b. \<not> inside b (local_storage (tcb c h)) (unat (co_stack_size c)) \<longrightarrow> pd_mem s' b = pd_mem s b)) \<and>
     client_sems s' = client_sems s \<and> co_active_handle s' = co_active_handle s \<and>
     dom (pd_mem s') = dom (pd_mem s)"

abbreviation (input) spawn_tcb ::
    "config \<Rightarrow> client_entry_t \<Rightarrow> addr \<Rightarrow> co_control_t \<Rightarrow> co_tcb_t \<Rightarrow> co_tcb_t" where
  "spawn_tcb cfg entry arg c t \<equiv> t\<lparr>client_entry := entry, private_arg := arg,
     co_handle := derived_handle (cfg_arch cfg) (local_storage t) (co_stack_size c),
     tcb_state := cothread_ready, next_blocked_on_same_event := LIBMICROKITCO_NULL_HANDLE\<rparr>"

lemma spawn_controller:
  assumes "spec_ok (max_cothreads cfg) a" and "ctl_rel cfg a c" and "sp_free a = h # hs"
  shows "\<exists>c1 c2. free_pop 0 c = Inr (LIBHOSTEDQUEUE_NOERR, c1, h) \<and> same_but_queues c c1 \<and>
    sched_push h (upd_tcb h (spawn_tcb cfg entry arg c) c1) = Inr (LIBHOSTEDQUEUE_NOERR, c2) \<and>
    ctl_rel cfg (fst (spec_spawn a)) c2 \<and> co_stack_size c2 = co_stack_size c \<and>
    blocked_channel_map c2 = blocked_channel_map c \<and> running c2 = running c \<and>
    (\<forall>k\<ge>0. tcb c2 k = (if k = h then spawn_tcb cfg entry arg c (tcb c h) else tcb c k))"
proof -
  note R = ctl_relD [OF assms(2)] and D = spec_okD [OF assms(1)]
  have h: "0 \<le> h" "h < int (max_cothreads cfg)"
    using spec_ok_range(1) [OF assms(1)] assms(3) by (auto simp: placed_def)
  obtain c1 where c1: "free_pop 0 c = Inr (LIBHOSTEDQUEUE_NOERR, c1, h)"
    "queues_ok (max_cothreads cfg) c1" "same_but_queues c c1" "free_list c1 = hs"
    "ready_list c1 = sp_ready a"
    using free_pop_front [OF R(5), of h hs 0] R(7,8) assms(3) by auto
  note views = same_but_queues_views [OF c1(3)]
  have valid: "valid_ref c1 h" using h by (simp add: views ctl_rel_valid [OF assms(2)])
  let ?c = "upd_tcb h (spawn_tcb cfg entry arg c) c1"
  obtain c2 where c2: "sched_push h ?c = Inr (LIBHOSTEDQUEUE_NOERR, c2)"
    "queues_ok (max_cothreads cfg) c2" "same_but_queues ?c c2"
    "ready_list c2 = sp_ready a @ [h]" "free_list c2 = hs"
    using sched_push_room [of "max_cothreads cfg" ?c h] c1 spec_ok_room(1) [OF assms(1)]
    by (auto simp: ctl_simps)
  note views2 = same_but_queues_views [OF c2(3)]
  have tcb2: "tcb c2 k = (if k = h then spawn_tcb cfg entry arg c (tcb c h) else tcb c k)" if "0 \<le> k" for k
    using valid that views views2 by (simp add: ctl_simps)
  have spec: "fst (spec_spawn a) = a\<lparr>sp_free := hs, sp_ready := sp_ready a @ [h]\<rparr>"
    by (simp add: spec_spawn_def assms(3))
  have "ctl_rel cfg (fst (spec_spawn a)) c2"
    using c2(2,4,5) R(2,3,4,6,9) views views2 tcb2 h D(1) assms(3)
      spec_ok_range(1) [OF assms(1)]
    unfolding ctl_rel_def spec
    by (auto simp: base_rel_def ctl_simps spec_state_def placed_def nx_def)
  with c1(1,3) c2(1) views views2 tcb2 show ?thesis by (auto simp: ctl_simps)
qed

lemma spawn_refines:
  assumes "refines cfg a s" and "sp_free a = h # hs" and "entry \<noteq> 0"
  shows "\<exists>s'. microkit_cothread_spawn cfg entry arg s = Inr (s', h) \<and>
    refines cfg (fst (spec_spawn a)) s' \<and> spawned cfg entry arg h s s'"
proof -
  obtain c where c: "spec_ok (max_cothreads cfg) a" "co_controller s = Some c" "ctl_rel cfg a c"
    "sems_rel cfg a s c" "stacks_ok cfg (pd_mem s) c" "handles_ok cfg a c"
    "co_active_handle s = co_handle (tcb c (running c))" "get_ctl s = Inr c"
    using refinesE [OF assms(1)] by blast
  have hpos: "0 \<le> h" "h < int (max_cothreads cfg)" "h \<noteq> 0" "h \<noteq> sp_running a"
    using spec_ok_range(1) [OF c(1)] spec_okD(1,7) [OF c(1)] assms(2) by (auto simp: placed_def)
  then have h1: "1 \<le> h" by linarith
  obtain c1 c2 where c2: "free_pop 0 c = Inr (LIBHOSTEDQUEUE_NOERR, c1, h)" "same_but_queues c c1"
    "sched_push h (upd_tcb h (spawn_tcb cfg entry arg c) c1) = Inr (LIBHOSTEDQUEUE_NOERR, c2)"
    "ctl_rel cfg (fst (spec_spawn a)) c2" "co_stack_size c2 = co_stack_size c"
    "blocked_channel_map c2 = blocked_channel_map c" "running c2 = running c"
    and tcb2: "\<forall>k\<ge>0. tcb c2 k = (if k = h then spawn_tcb cfg entry arg c (tcb c h) else tcb c k)"
    using spawn_controller [OF c(1,3) assms(2)] by blast
  note views = same_but_queues_views [OF c2(2)]
  let ?m1 = "zeroed (pd_mem s) (local_storage (tcb c h)) (unat (co_stack_size c))"
  obtain m2 where m: "memzero (pd_mem s) (local_storage (tcb c h)) (scast (co_stack_size c)) = Inr ?m1"
    "co_derive (cfg_arch cfg) (addr_co_entrypoint cfg) ?m1 (local_storage (tcb c h)) (co_stack_size c)
       (addr_entry_wrapper cfg)
      = Inr (m2, derived_handle (cfg_arch cfg) (local_storage (tcb c h)) (co_stack_size c))"
    "dom m2 = dom (pd_mem s)"
    "\<forall>b. \<not> inside b (local_storage (tcb c h)) (unat (co_stack_size c)) \<longrightarrow> m2 b = pd_mem s b"
    using spawn_stack [OF c(5) h1 hpos(2)] by blast
  let ?s = "put_ctl c2 (s\<lparr>pd_mem := m2\<rparr>)"
  have valid: "valid_ref c1 h" using hpos by (simp add: views ctl_rel_valid [OF c(3)])
  have upd: "upd_tcb h (\<lambda>t. t\<lparr>client_entry := entry, private_arg := arg,
       co_handle := derived_handle (cfg_arch cfg) (local_storage (tcb c h)) (co_stack_size c),
       tcb_state := cothread_ready, next_blocked_on_same_event := LIBMICROKITCO_NULL_HANDLE\<rparr>) c1
     = upd_tcb h (spawn_tcb cfg entry arg c) c1"
    by (simp add: upd_tcb_def views)
  have eq: "microkit_cothread_spawn cfg entry arg s = Inr (?s, h)"
    using assms(3) c(8) c2(1,3) m(1,2) valid co_active_running [OF assms(1)] upd
    by (simp add: microkit_cothread_spawn_def tcb_at_valid mod_tcb_valid views Let_def)
  have s': "co_controller ?s = Some c2" "pd_mem ?s = m2" "client_sems ?s = client_sems s"
    "co_active_handle ?s = co_active_handle s" by (simp_all add: put_ctl_def)
  have spec: "sp_sems (fst (spec_spawn a)) = sp_sems a" "sp_free (fst (spec_spawn a)) = hs"
    by (simp_all add: spec_spawn_def assms(2))
  have sems: "sems_rel cfg (fst (spec_spawn a)) ?s c2"
  proof (rule sems_rel_keep [OF c(1,4) spec(1) c2(6) s'(3)])
    fix p k assume k: "k \<in> set (waiters a p)"
    have "h \<in> set (placed a)" using assms(2) by (simp add: placed_def)
    then have "k \<noteq> h" using k spec_okD(3) [OF c(1), of p] by auto
    then show "nx c2 k = nx c k" using tcb2 spec_ok_range(2) [OF c(1) k] by (simp add: nx_def)
  qed
  have store: "local_storage (tcb c2 k) = local_storage (tcb c k)" if "1 \<le> k" for k
    using tcb2 that by simp
  have stacks: "stacks_ok cfg (pd_mem ?s) c2"
    using c(5) unfolding stacks_ok_def s'(2) c2(5)
    by (auto simp: mapped_dom [OF m(3)] store)
  have handles: "handles_ok cfg (fst (spec_spawn a)) c2"
    using c(6) tcb2 c2(5) hpos assms(2) unfolding handles_ok_def spec by auto
  have "0 \<le> running c" using spec_ok_range(1) [OF c(1)] ctl_relD(2) [OF c(3)] by (simp add: placed_def)
  then have "co_active_handle ?s = co_handle (tcb c2 (running c2))"
    using c(7) c2(7) tcb2 hpos(4) ctl_relD(2) [OF c(3)] s'(4) by simp
  then have "refines cfg (fst (spec_spawn a)) ?s"
    using spec_spawn_ok [OF c(1)] s'(1) c2(4) sems stacks handles unfolding refines_def by blast
  moreover have "spawned cfg entry arg h s ?s"
    unfolding spawned_def using c(2) s' tcb2 hpos m(2-4) c2(5) by auto
  ultimately show ?thesis using eq by blast
qed

subsection \<open>Handles, arguments and states\<close>

lemma my_handle_refines:
  assumes "refines cfg a s"
  shows "microkit_cothread_my_handle s = Inr (sp_running a)"
  using assms by (auto simp: microkit_cothread_my_handle_def ctl_rel_def elim!: refinesE)

lemma query_state_refines:
  assumes "refines cfg a s" and "0 \<le> h" and "h < int (max_cothreads cfg)"
  shows "microkit_cothread_query_state cfg h s = Inr (spec_state a h)"
proof -
  obtain c where c: "ctl_rel cfg a c" "get_ctl s = Inr c" using refinesE [OF assms(1)] by blast
  have "valid_ref c h" using assms(2,3) by (simp add: ctl_rel_valid [OF c(1)])
  then show ?thesis using c(2) assms(2,3) ctl_relD(3) [OF c(1) assms(2,3)]
    by (simp add: microkit_cothread_query_state_def tcb_at_valid)
qed

lemma free_handle_available_refines:
  assumes "refines cfg a s"
  shows "microkit_cothread_free_handle_available r s
    = Inr (sp_free a \<noteq> [], case sp_free a of [] \<Rightarrow> r | h # hs \<Rightarrow> h)"
proof -
  obtain c where c: "ctl_rel cfg a c" "get_ctl s = Inr c" using refinesE [OF assms] by blast
  note R = ctl_relD [OF c(1)]
  have inv: "hq_inv (free_handle_queue c) (free_handle_queue_mem c)"
    and l: "hq_list (free_handle_queue c) (free_handle_queue_mem c) = sp_free a"
    using R(5,8) by (simp_all add: queues_ok_def free_list_def)
  show ?thesis
  proof (cases "sp_free a")
    case Nil
    then have "hq_items (free_handle_queue c) = 0" using l hq_list_Nil_iff by metis
    then show ?thesis using c(2) Nil
      by (simp add: microkit_cothread_free_handle_available_def hostedqueue_peek_def)
  next
    case (Cons h hs)
    then show ?thesis using c(2) hostedqueue_peek_front [OF inv, of h hs r] l
      by (simp add: microkit_cothread_free_handle_available_def)
  qed
qed

end
