(* ===== verification/CoBoot.thy ===== *)
theory CoBoot
  imports CoLife
begin

text \<open>
  \<open>microkit_cothread_init\<close>: the test of the stacks is exact, each bad argument has its
  own panic, and with good arguments the state it leaves refines the initial state of
  the specification.
\<close>

subsection \<open>The overlap test\<close>

definition no_wrap :: "addr \<Rightarrow> nat \<Rightarrow> bool" where
  "no_wrap a n \<longleftrightarrow> unat a + n \<le> 2 ^ 64"

lemma unat_word64: "unat (w :: addr) < 2 ^ 64"
  using unsigned_less [where ?'a = nat, of w] by simp

lemma of_nat_pred:
  assumes "0 < unat (sz :: addr)"
  shows "of_nat (unat sz - 1) = sz - 1"
proof -
  have "(of_nat (unat sz - 1) :: addr) = of_nat (unat sz) - of_nat 1"
    by (rule of_nat_diff) (use assms in linarith)
  then show ?thesis by simp
qed

lemma inside_no_wrap:
  assumes "no_wrap a n"
  shows "inside b a n \<longleftrightarrow> unat a \<le> unat b \<and> unat b < unat a + n"
proof (cases "unat a \<le> unat b")
  case True
  then have "unat (b - a) = unat b - unat a" by (simp add: unat_sub_if')
  then show ?thesis using True by (auto simp: inside_def)
next
  case False
  then have "unat (b - a) = 2 ^ 64 - unat a + unat b"
    using unat_word64 [of a] by (simp add: unat_sub_if' word_le_nat_alt)
  then show ?thesis using False assms by (auto simp: inside_def no_wrap_def)
qed

lemma stack_end:
  assumes "no_wrap a (unat sz)" and "0 < unat sz"
  shows "unat (a + sz - 1) = unat a + unat sz - 1"
proof -
  let ?k = "of_nat (unat sz - 1) :: addr"
  have k: "unat ?k = unat sz - 1"
    using unat_word64 [of sz] by (simp add: unat_of_nat)
  have "unat a + (unat sz - 1) < 2 ^ 64"
    using assms unfolding no_wrap_def by linarith
  then have "unat (a + ?k) = unat a + (unat sz - 1)"
    using unat_add_lem [of a ?k] k by simp
  moreover have "a + ?k = a + sz - 1" by (subst of_nat_pred [OF assms(2)]) simp
  moreover have "unat a + (unat sz - 1) = unat a + unat sz - 1" using assms(2) by linarith
  ultimately show ?thesis by (simp only:)
qed

lemma stacks_overlap_exact:
  assumes "no_wrap a (unat sz)" and "no_wrap b (unat sz)" and "0 < unat sz"
  shows "stacks_overlap sz a b \<longleftrightarrow> (\<exists>x. inside x a (unat sz) \<and> inside x b (unat sz))"
proof -
  have "stacks_overlap sz a b \<longleftrightarrow> unat a < unat b + unat sz \<and> unat b < unat a + unat sz"
    using assms(3) by (simp add: stacks_overlap_def word_le_nat_alt stack_end [OF assms(1,3)]
        stack_end [OF assms(2,3)]) linarith
  also have "\<dots> \<longleftrightarrow> (\<exists>x. inside x a (unat sz) \<and> inside x b (unat sz))"
  proof
    assume "unat a < unat b + unat sz \<and> unat b < unat a + unat sz"
    then have "inside (if unat a \<le> unat b then b else a) a (unat sz) \<and>
        inside (if unat a \<le> unat b then b else a) b (unat sz)"
      using assms(3) by (auto simp: inside_no_wrap [OF assms(1)] inside_no_wrap [OF assms(2)])
    then show "\<exists>x. inside x a (unat sz) \<and> inside x b (unat sz)" by blast
  qed (auto simp: inside_no_wrap [OF assms(1)] inside_no_wrap [OF assms(2)])
  finally show ?thesis .
qed

subsection \<open>The loop over the stacks\<close>

text \<open>What the arguments of \<open>init\<close> have to be: one stack per cothread, in mapped memory.\<close>

definition stacks_given :: "config \<Rightarrow> addr \<Rightarrow> addr list \<Rightarrow> 64 memory \<Rightarrow> bool" where
  "stacks_given cfg sz sts m \<longleftrightarrow> length sts = max_cothreads cfg - 1 \<and>
     (\<forall>st \<in> set sts. st \<noteq> 0 \<longrightarrow> mapped m st (unat sz) \<and> no_wrap st (unat sz))"

lemma write_byte_mapped:
  assumes "mapped m a n" and "i < n"
  shows "\<exists>m'. write_byte m (a + of_nat i) v = Inr m' \<and> dom m' = dom m"
  using assms by (auto simp: write_byte_def mapped_def)

lemma init_stacks_probe:
  assumes "mapped m st (unat sz)" and "0 < unat (sz :: addr)"
  shows "\<exists>m1 m2. write_byte m st 0 = Inr m1 \<and> write_byte m1 (st + (sz - 1)) 0 = Inr m2 \<and> dom m2 = dom m"
proof -
  have "\<exists>m'. write_byte m st 0 = Inr m' \<and> dom m' = dom m"
    using write_byte_mapped [OF assms, of 0] by simp
  then obtain m1 where m1: "write_byte m st 0 = Inr m1" "dom m1 = dom m" by blast
  have "mapped m1 st (unat sz)" using assms(1) mapped_dom [OF m1(2)] by blast
  moreover have "st + (sz - 1) = st + of_nat (unat sz - 1)"
    by (subst of_nat_pred [OF assms(2)]) (rule refl)
  moreover have "unat sz - 1 < unat sz" using assms(2) by linarith
  ultimately obtain m2 where "write_byte m1 (st + (sz - 1)) 0 = Inr m2" "dom m2 = dom m1"
    using write_byte_mapped [of m1 st "unat sz" "unat sz - 1" 0] by (simp only:) blast
  then show ?thesis using m1 by auto
qed

definition stored :: "addr list \<Rightarrow> nat list \<Rightarrow> co_control_t \<Rightarrow> co_control_t \<Rightarrow> bool" where
  "stored sts is c c' \<longleftrightarrow> c' = c\<lparr>tcbs := tcbs c'\<rparr> \<and> length (tcbs c') = length (tcbs c) \<and>
     (\<forall>k<length (tcbs c). tcbs c' ! k =
        (if k \<in> set is then (tcbs c ! k)\<lparr>local_storage := sts ! (k - 1)\<rparr> else tcbs c ! k))"

lemma init_stacks_spec:
  assumes "stacks_given cfg sz sts m" and "0 < unat sz" and "length (tcbs c) = max_cothreads cfg"
    and "\<forall>i \<in> set is. 1 \<le> i \<and> i < max_cothreads cfg"
  shows "if \<exists>i \<in> set is. sts ! (i - 1) = 0
    then init_stacks sz sts is c m = microkit_cothread_panic init_co_stack_null
    else \<exists>c' m'. init_stacks sz sts is c m = Inr (c', m') \<and> stored sts is c c' \<and> dom m' = dom m"
  using assms
proof (induction "is" arbitrary: c m)
  case Nil
  then show ?case by (simp add: stored_def)
next
  case (Cons i "is")
  let ?st = "sts ! (i - 1)" and ?c = "upd_tcb (int i) (\<lambda>t. t\<lparr>local_storage := sts ! (i - 1)\<rparr>) c"
  have i: "1 \<le> i" "i < max_cothreads cfg" using Cons.prems(4) by auto
  have len: "\<not> length sts \<le> i - 1" using i Cons.prems(1) by (auto simp: stacks_given_def)
  have valid: "valid_ref c (int i)" using i Cons.prems(3) by (simp add: valid_ref_def)
  show ?case
  proof (cases "?st = 0")
    case True
    then show ?thesis using len valid by (auto simp: mod_tcb_valid Let_def)
  next
    case False
    have "?st \<in> set sts" using len by simp
    then have "mapped m ?st (unat sz)" using Cons.prems(1) False by (simp add: stacks_given_def)
    from init_stacks_probe [OF this Cons.prems(2)] obtain m1 m2 where
      m2: "write_byte m ?st 0 = Inr m1" "write_byte m1 (?st + (sz - 1)) 0 = Inr m2" "dom m2 = dom m"
      by blast
    have step: "init_stacks sz sts (i # is) c m = init_stacks sz sts is ?c m2"
      using len valid False m2(1,2) by (simp add: mod_tcb_valid Let_def)
    have "stacks_given cfg sz sts m2"
      using Cons.prems(1) by (simp add: stacks_given_def mapped_dom [OF m2(3)])
    note IH = Cons.IH [OF this Cons.prems(2), of ?c]
    have "stored sts (i # is) c c'" if "stored sts is ?c c'" for c'
      using that i Cons.prems(3) unfolding stored_def
      by (auto simp: upd_tcb_def tcb_def nth_list_update)
    then show ?thesis using IH Cons.prems(3,4) step False m2(3)
      by (auto simp: upd_tcb_select split: if_splits)
  qed
qed

subsection \<open>The controller \<open>init\<close> builds\<close>

definition boot_controller :: "config \<Rightarrow> addr \<Rightarrow> co_control_t" where
  "boot_controller cfg sz = (zero_controller cfg)\<lparr>co_stack_size := ucast sz\<rparr>"

lemma boot_controller_simps [simp]:
  "length (tcbs (boot_controller cfg sz)) = max_cothreads cfg"
  "length (free_handle_queue_mem (boot_controller cfg sz)) = max_cothreads cfg"
  "length (scheduling_queue_mem (boot_controller cfg sz)) = max_cothreads cfg"
  "co_stack_size (boot_controller cfg sz) = ucast sz"
  "blocked_channel_map (boot_controller cfg sz) = replicate (max_channels cfg) zero_sem"
  by (simp_all add: boot_controller_def zero_controller_def)

lemma boot_controller_tcbs [simp]:
  "k < max_cothreads cfg \<Longrightarrow> tcbs (boot_controller cfg sz) ! k = zero_tcb"
  by (simp add: boot_controller_def zero_controller_def)

lemma unat_max_cothreads:
  "valid_config cfg \<Longrightarrow> unat (of_nat (max_cothreads cfg) :: 32 word) = max_cothreads cfg"
  by (simp add: valid_config_def unat_of_nat)

lemma init_queues_spec:
  assumes "valid_config cfg" and "length (free_handle_queue_mem c) = max_cothreads cfg"
    and "length (scheduling_queue_mem c) = max_cothreads cfg"
  shows "\<exists>c'. init_queues cfg c = Inr c' \<and> queues_ok (max_cothreads cfg) c' \<and>
    same_but_queues c c' \<and> ready_list c' = [] \<and> free_list c' = map int [1..<max_cothreads cfg]"
proof -
  let ?n = "of_nat (max_cothreads cfg) :: 32 word"
  have n: "unat ?n = max_cothreads cfg" by (rule unat_max_cothreads [OF assms(1)])
  have pos: "0 < unat ?n" using assms(1) n by (simp add: valid_config_def)
  let ?q = "\<lparr>hq_capacity = ?n, hq_items = 0, hq_head = 0, hq_tail = 0\<rparr> :: hosted_queue_t"
  note init = hostedqueue_init_ok [OF pos]
  have f: "hq_inv ?q (free_handle_queue_mem c)" "hq_list ?q (free_handle_queue_mem c) = []"
    "hq_inv ?q (scheduling_queue_mem c)" "hq_list ?q (scheduling_queue_mem c) = []"
    "hq_cap ?q = max_cothreads cfg"
    using hq_inv_init [OF pos, of "free_handle_queue_mem c" undefined]
      hq_inv_init [OF pos, of "scheduling_queue_mem c" undefined] assms(2,3) n
    by (simp_all add: init)
  obtain q m where p: "push_all hostedqueue_push ?q (free_handle_queue_mem c)
      (map int [1..<max_cothreads cfg]) = Inr (LIBHOSTEDQUEUE_NOERR, q, m)"
    "hq_inv q m" "hq_list q m = map int [1..<max_cothreads cfg]" "hq_cap q = max_cothreads cfg"
    using hq.push_all_room [OF f(1), of "map int [1..<max_cothreads cfg]"] f(2,5) by auto
  let ?c = "c\<lparr>free_handle_queue := q, scheduling_queue := ?q, free_handle_queue_mem := m\<rparr>"
  have "init_queues cfg c = Inr ?c" using p(1) by (simp add: init_queues_def init Let_def)
  moreover have "queues_ok (max_cothreads cfg) ?c" using p f by (simp add: queues_ok_def)
  ultimately show ?thesis using p f
    by (auto simp: same_but_queues_def ready_list_def free_list_def)
qed

lemma some_stacks_overlap_iff:
  assumes "\<And>i. 1 \<le> i \<Longrightarrow> i < max_cothreads cfg \<Longrightarrow> no_wrap (local_storage (tcbs c ! i)) (unat sz)"
    and "0 < unat sz"
  shows "some_stacks_overlap cfg sz c \<longleftrightarrow>
    (\<exists>i\<in>{1..<max_cothreads cfg}. \<exists>j\<in>{1..<max_cothreads cfg}. j \<noteq> i \<and> (\<exists>x.
      inside x (local_storage (tcbs c ! i)) (unat sz) \<and> inside x (local_storage (tcbs c ! j)) (unat sz)))"
proof -
  have eq: "stacks_overlap sz (local_storage (tcbs c ! i)) (local_storage (tcbs c ! j)) \<longleftrightarrow>
      (\<exists>x. inside x (local_storage (tcbs c ! i)) (unat sz) \<and>
           inside x (local_storage (tcbs c ! j)) (unat sz))"
    if "i \<in> {1..<max_cothreads cfg}" "j \<in> {1..<max_cothreads cfg}" for i j
    using that by (intro stacks_overlap_exact [OF assms(1) assms(1) assms(2)]) auto
  show ?thesis unfolding some_stacks_overlap_def list_ex_iff set_upt
    by (intro bex_cong [OF refl] conj_cong [OF refl] eq)
qed

subsection \<open>The checks and the initial state\<close>

definition spec_initial :: "config \<Rightarrow> sched" where
  "spec_initial cfg = \<lparr>sp_running = 0, sp_ready = [], sp_free = map int [1..<max_cothreads cfg],
     sp_sems = (\<lambda>p. case p of
        ChannelSem ch \<Rightarrow> if ch < max_channels cfg then Some (False, []) else None
      | ClientSem a \<Rightarrow> None)\<rparr>"

lemma spec_initial_ok:
  assumes "0 < max_cothreads cfg"
  shows "spec_ok (max_cothreads cfg) (spec_initial cfg)"
proof -
  have w: "waiters (spec_initial cfg) p = []" for p
    by (simp add: waiters_def spec_initial_def split: sem_ptr.splits)
  have "set (placed (spec_initial cfg)) = {0..<int (max_cothreads cfg)}"
  proof -
    have "int ` {0..<max_cothreads cfg} = {0..<int (max_cothreads cfg)}"
      by (rule image_int_atLeastLessThan [of 0, simplified])
    moreover have "{0..<max_cothreads cfg} = insert 0 {1..<max_cothreads cfg}" using assms by auto
    ultimately show ?thesis by (simp add: placed_def spec_initial_def)
  qed
  moreover have "distinct (placed (spec_initial cfg))"
    by (auto simp: placed_def spec_initial_def distinct_map)
  ultimately show ?thesis unfolding spec_ok_def
    by (auto simp: w) (auto simp: spec_initial_def split: sem_ptr.splits if_splits)
qed

text \<open>
  The environment \<open>init\<close> is called in: memory for the controller, a library not yet
  initialised, and the root thread executing.
\<close>

definition init_env :: "config \<Rightarrow> addr \<Rightarrow> pd \<Rightarrow> bool" where
  "init_env cfg cmem s \<longleftrightarrow> valid_config cfg \<and> co_controller s = None \<and>
     LIBMICROKITCO_CONTROLLER_SIZE cfg \<le> INT_MAX \<and>
     mapped (pd_mem s) cmem (LIBMICROKITCO_CONTROLLER_SIZE cfg) \<and> root_handle cfg \<noteq> 0 \<and>
     (co_active_handle s = root_handle cfg \<or> cfg_arch cfg = Amd64 \<and> co_active_handle s = 0)"

definition stacks_disjoint :: "addr \<Rightarrow> addr list \<Rightarrow> bool" where
  "stacks_disjoint sz sts \<longleftrightarrow> (\<forall>i<length sts. \<forall>j<length sts. i \<noteq> j \<longrightarrow>
     \<not> (\<exists>x. inside x (sts ! i) (unat sz) \<and> inside x (sts ! j) (unat sz)))"

lemma init_memzero:
  assumes "init_env cfg cmem s"
  shows "\<exists>m. memzero (pd_mem s) cmem (of_nat (LIBMICROKITCO_CONTROLLER_SIZE cfg)) = Inr m \<and>
    dom m = dom (pd_mem s)"
proof -
  let ?n = "of_nat (LIBMICROKITCO_CONTROLLER_SIZE cfg) :: addr"
  have n: "unat ?n = LIBMICROKITCO_CONTROLLER_SIZE cfg"
    using assms by (simp add: init_env_def unat_of_nat)
  then have mp: "mapped (pd_mem s) cmem (unat ?n)" "unat ?n \<le> INT_MAX"
    using assms by (simp_all add: init_env_def)
  have "dom (zeroed (pd_mem s) cmem (unat ?n)) = dom (pd_mem s)"
    by (rule zeroed_dom [OF mp(1)]) (use unat_word64 [of ?n] in simp)
  with memzero_mapped [OF mp] show ?thesis by blast
qed

lemma stored_boot:
  assumes "stored sts [1..<max_cothreads cfg] (boot_controller cfg sz) c"
  shows "length (tcbs c) = max_cothreads cfg" "co_stack_size c = ucast sz"
    "free_handle_queue_mem c = replicate (max_cothreads cfg) 0"
    "scheduling_queue_mem c = replicate (max_cothreads cfg) 0"
    "blocked_channel_map c = replicate (max_channels cfg) zero_sem"
    "\<And>k. k < max_cothreads cfg \<Longrightarrow> 1 \<le> k \<Longrightarrow> tcbs c ! k = zero_tcb\<lparr>local_storage := sts ! (k - 1)\<rparr>"
proof -
  have c: "c = (boot_controller cfg sz)\<lparr>tcbs := tcbs c\<rparr>" using assms by (simp add: stored_def)
  show "length (tcbs c) = max_cothreads cfg" using assms by (simp add: stored_def)
  show "co_stack_size c = ucast sz" "blocked_channel_map c = replicate (max_channels cfg) zero_sem"
    by (subst c; simp)+
  show "free_handle_queue_mem c = replicate (max_cothreads cfg) 0"
    "scheduling_queue_mem c = replicate (max_cothreads cfg) 0"
    by (subst c; simp add: boot_controller_def zero_controller_def)+
  show "tcbs c ! k = zero_tcb\<lparr>local_storage := sts ! (k - 1)\<rparr>" if "k < max_cothreads cfg" "1 \<le> k" for k
    using assms that by (simp add: stored_def)
qed

text \<open>What \<open>init\<close> does once the loop over the stacks is done.\<close>

definition init_finish :: "config \<Rightarrow> addr \<Rightarrow> pd \<Rightarrow> co_control_t \<Rightarrow> 64 memory \<Rightarrow> fault + pd" where
  "init_finish cfg sz s c m =
     (if some_stacks_overlap cfg sz c then microkit_cothread_panic init_co_stack_overlap
      else
        let (s, handle) = co_active cfg (s\<lparr>pd_mem := m\<rparr>) in
        bindR (init_root handle c) (\<lambda>c.
        bindR (init_queues cfg c) (\<lambda>c.
        Inr (put_ctl (c\<lparr>blocked_channel_map :=
               map microkit_cothread_semaphore_init (blocked_channel_map c)\<rparr>) s))))"

lemma init_unfold:
  assumes "init_env cfg cmem s" and "0x1000 \<le> sz" and "stacks_given cfg sz sts (pd_mem s)"
  shows "if 0 \<in> set sts
    then microkit_cothread_init cfg cmem sz sts s = microkit_cothread_panic init_co_stack_null
    else \<exists>c m. stored sts [1..<max_cothreads cfg] (boot_controller cfg sz) c \<and> dom m = dom (pd_mem s) \<and>
      microkit_cothread_init cfg cmem sz sts s = init_finish cfg sz s c m"
proof -
  obtain m where m: "memzero (pd_mem s) cmem (of_nat (LIBMICROKITCO_CONTROLLER_SIZE cfg)) = Inr m"
    "dom m = dom (pd_mem s)"
    using init_memzero [OF assms(1)] by blast
  have given: "stacks_given cfg sz sts m"
    using assms(3) by (simp add: stacks_given_def mapped_dom [OF m(2)])
  have len: "length sts = max_cothreads cfg - 1" using assms(3) by (simp add: stacks_given_def)
  have none: "co_controller s = None" using assms(1) by (simp add: init_env_def)
  have pos: "0 < unat sz" using assms(2) by (simp add: word_le_nat_alt)
  have zero: "(\<exists>i\<in>set [1..<max_cothreads cfg]. sts ! (i - 1) = 0) \<longleftrightarrow> 0 \<in> set sts"
  proof
    assume "0 \<in> set sts"
    then obtain k where "k < length sts" "sts ! k = 0" by (auto simp: in_set_conv_nth)
    then show "\<exists>i\<in>set [1..<max_cothreads cfg]. sts ! (i - 1) = 0"
      using len by (intro bexI [of _ "Suc k"]) auto
  next
    assume "\<exists>i\<in>set [1..<max_cothreads cfg]. sts ! (i - 1) = 0"
    then obtain i where "1 \<le> i" "i < max_cothreads cfg" "sts ! (i - 1) = 0" by auto
    moreover from this have "i - 1 < length sts" using len by linarith
    ultimately show "0 \<in> set sts" by (metis nth_mem)
  qed
  have "microkit_cothread_init cfg cmem sz sts s =
    bindR (init_stacks sz sts [1..<max_cothreads cfg] (boot_controller cfg sz) m) (\<lambda>(c, m). init_finish cfg sz s c m)"
    using none m(1) leD [OF assms(2)]
    by (simp add: microkit_cothread_init_def boot_controller_def init_finish_def)
  note eq = this
  have step: "if 0 \<in> set sts
    then init_stacks sz sts [1..<max_cothreads cfg] (boot_controller cfg sz) m
      = microkit_cothread_panic init_co_stack_null
    else \<exists>c' m'. init_stacks sz sts [1..<max_cothreads cfg] (boot_controller cfg sz) m = Inr (c', m') \<and>
      stored sts [1..<max_cothreads cfg] (boot_controller cfg sz) c' \<and> dom m' = dom m"
    using init_stacks_spec [OF given pos, of "boot_controller cfg sz" "[1..<max_cothreads cfg]"]
    unfolding zero by simp
  show ?thesis
  proof (cases "0 \<in> set sts")
    case True
    then show ?thesis using step eq by simp
  next
    case False
    with step obtain c' m' where
      c': "init_stacks sz sts [1..<max_cothreads cfg] (boot_controller cfg sz) m = Inr (c', m')"
      "stored sts [1..<max_cothreads cfg] (boot_controller cfg sz) c'" "dom m' = dom m"
      by (auto simp only: if_False)
    then have "microkit_cothread_init cfg cmem sz sts s = init_finish cfg sz s c' m'"
      unfolding eq by simp
    with c' m(2) False show ?thesis by (simp only: if_False) blast
  qed
qed

lemma overlap_stored:
  assumes "stored sts [1..<max_cothreads cfg] (boot_controller cfg sz) c"
    and "stacks_given cfg sz sts m" and "0 \<notin> set sts" and "0 < unat sz"
  shows "some_stacks_overlap cfg sz c \<longleftrightarrow> \<not> stacks_disjoint sz sts"
proof -
  note st = stored_boot(6) [OF assms(1)]
  have len: "length sts = max_cothreads cfg - 1" using assms(2) by (simp add: stacks_given_def)
  have at: "local_storage (tcbs c ! i) = sts ! (i - 1)" "sts ! (i - 1) \<in> set sts"
    if "1 \<le> i" "i < max_cothreads cfg" for i
    using st [of i] that len by simp_all
  have nw: "no_wrap (local_storage (tcbs c ! i)) (unat sz)" if "1 \<le> i" "i < max_cothreads cfg" for i
    using at [OF that] assms(2,3) by (metis stacks_given_def)
  have iff: "some_stacks_overlap cfg sz c \<longleftrightarrow>
    (\<exists>i\<in>{1..<max_cothreads cfg}. \<exists>j\<in>{1..<max_cothreads cfg}. j \<noteq> i \<and> (\<exists>x.
      inside x (local_storage (tcbs c ! i)) (unat sz) \<and> inside x (local_storage (tcbs c ! j)) (unat sz)))"
    by (rule some_stacks_overlap_iff) (use nw assms(4) in auto)
  let ?P = "\<lambda>i j. \<exists>x. inside x (sts ! i) (unat sz) \<and> inside x (sts ! j) (unat sz)"
  have "some_stacks_overlap cfg sz c \<longleftrightarrow>
      (\<exists>i\<in>{1..<max_cothreads cfg}. \<exists>j\<in>{1..<max_cothreads cfg}. j \<noteq> i \<and> ?P (i - 1) (j - 1))"
    unfolding iff by (intro bex_cong [OF refl] conj_cong [OF refl]) (simp add: at(1))
  also have "\<dots> \<longleftrightarrow> \<not> stacks_disjoint sz sts"
  proof
    assume "\<exists>i\<in>{1..<max_cothreads cfg}. \<exists>j\<in>{1..<max_cothreads cfg}. j \<noteq> i \<and> ?P (i - 1) (j - 1)"
    then obtain i j where m: "i \<in> {1..<max_cothreads cfg}" "j \<in> {1..<max_cothreads cfg}"
      and ij: "j \<noteq> i" "?P (i - 1) (j - 1)" by blast
    then have "1 \<le> i" "i < max_cothreads cfg" "1 \<le> j" "j < max_cothreads cfg" by simp_all
    then have "i - 1 < length sts" "j - 1 < length sts" "i - 1 \<noteq> j - 1" using len ij(1) by linarith+
    with ij(2) show "\<not> stacks_disjoint sz sts" unfolding stacks_disjoint_def by blast
  next
    assume "\<not> stacks_disjoint sz sts"
    then obtain i j where "i < length sts" "j < length sts" "i \<noteq> j" "?P i j"
      unfolding stacks_disjoint_def by blast
    then show "\<exists>i\<in>{1..<max_cothreads cfg}. \<exists>j\<in>{1..<max_cothreads cfg}. j \<noteq> i \<and> ?P (i - 1) (j - 1)"
      using len by (intro bexI [of _ "Suc i"] bexI [of _ "Suc j"]) auto
  qed
  finally show ?thesis .
qed

lemma init_root_valid:
  assumes "valid_ref c 0"
  shows "init_root h c = Inr ((upd_tcb 0 (\<lambda>t. t\<lparr>local_storage := 0, co_handle := h,
     tcb_state := cothread_running, next_blocked_on_same_event := LIBMICROKITCO_NULL_HANDLE\<rparr>) c)
     \<lparr>running := 0\<rparr>)"
  using assms by (simp add: init_root_def mod_tcb_valid)

text \<open>The controller after the queues are set up is related to the initial state.\<close>

lemma init_controller_rel:
  assumes "valid_config cfg" and "stored sts [1..<max_cothreads cfg] (boot_controller cfg sz) c"
  shows "\<exists>c2. bindR (init_root root c) (\<lambda>c. init_queues cfg c) = Inr c2 \<and>
    length (tcbs c2) = max_cothreads cfg \<and> queues_ok (max_cothreads cfg) c2 \<and>
    ready_list c2 = [] \<and> free_list c2 = map int [1..<max_cothreads cfg] \<and> running c2 = 0 \<and>
    co_stack_size c2 = ucast sz \<and> blocked_channel_map c2 = replicate (max_channels cfg) zero_sem \<and>
    co_handle (tcb c2 0) = root \<and> tcb_state (tcb c2 0) = cothread_running \<and>
    local_storage (tcb c2 0) = 0 \<and> nx c2 0 = LIBMICROKITCO_NULL_HANDLE \<and>
    (\<forall>h. 1 \<le> h \<and> h < int (max_cothreads cfg) \<longrightarrow>
       tcb c2 h = zero_tcb\<lparr>local_storage := sts ! (nat h - 1)\<rparr>)"
proof -
  note st = stored_boot [OF assms(2)]
  have v: "valid_ref c 0" using assms(1) st(1) by (simp add: valid_ref_def valid_config_def)
  let ?f = "\<lambda>t. t\<lparr>local_storage := 0, co_handle := root, tcb_state := cothread_running,
    next_blocked_on_same_event := LIBMICROKITCO_NULL_HANDLE\<rparr>"
  let ?c1 = "(upd_tcb 0 ?f c)\<lparr>running := 0\<rparr>"
  obtain c2 where c2: "init_queues cfg ?c1 = Inr c2" "queues_ok (max_cothreads cfg) c2"
    "same_but_queues ?c1 c2" "ready_list c2 = []" "free_list c2 = map int [1..<max_cothreads cfg]"
    using init_queues_spec [OF assms(1), of ?c1] st(3,4) by (auto simp: upd_tcb_select)
  note views = same_but_queues_views [OF c2(3)]
  have t: "tcb c2 h = (if h = 0 then ?f (tcb c 0) else tcb c h)" if "0 \<le> h" for h
    using that v views by (simp add: ctl_simps)
  have s: "tcb c2 h = zero_tcb\<lparr>local_storage := sts ! (nat h - 1)\<rparr>"
    if "1 \<le> h" "h < int (max_cothreads cfg)" for h
  proof -
    have "nat h < max_cothreads cfg" "1 \<le> nat h" using that by linarith+
    then show ?thesis using t [of h] st(6) [of "nat h"] that by (simp add: tcb_def)
  qed
  show ?thesis using c2 views st init_root_valid [OF v, of root] t [of 0] s
    by (simp add: ctl_simps nx_def)
qed

text \<open>The cothreads have their stacks.\<close>

definition stacks_are :: "config \<Rightarrow> addr \<Rightarrow> addr list \<Rightarrow> pd \<Rightarrow> bool" where
  "stacks_are cfg sz sts s \<longleftrightarrow> (\<exists>c. co_controller s = Some c \<and> unat (co_stack_size c) = unat sz \<and>
     (\<forall>h. 1 \<le> h \<and> h < int (max_cothreads cfg) \<longrightarrow> local_storage (tcb c h) = sts ! (nat h - 1)))"

lemma init_builds:
  assumes env: "init_env cfg cmem s" and sz: "0x1000 \<le> sz" "unat sz \<le> INT_MAX"
    and given: "stacks_given cfg sz sts (pd_mem s)" "0 \<notin> set sts" "stacks_disjoint sz sts"
    and root: "\<forall>st \<in> set sts. \<not> inside (root_handle cfg) st (unat sz)"
  shows "\<exists>s'. microkit_cothread_init cfg cmem sz sts s = Inr s' \<and> refines cfg (spec_initial cfg) s' \<and>
    stacks_are cfg sz sts s' \<and> dom (pd_mem s') = dom (pd_mem s)"
proof -
  have cfg: "valid_config cfg" "root_handle cfg \<noteq> 0" using env by (simp_all add: init_env_def)
  have pos: "0 < unat sz" using sz(1) by (simp add: word_le_nat_alt)
  obtain c m where c: "stored sts [1..<max_cothreads cfg] (boot_controller cfg sz) c"
    "dom m = dom (pd_mem s)" and eq: "microkit_cothread_init cfg cmem sz sts s = init_finish cfg sz s c m"
    using init_unfold [OF env sz(1) given(1)] given(2) by auto
  have no: "\<not> some_stacks_overlap cfg sz c"
    using overlap_stored [OF c(1) given(1,2) pos] given(3) by simp
  let ?root = "root_handle cfg" and ?s = "s\<lparr>pd_mem := m, co_active_handle := root_handle cfg\<rparr>"
  have act: "co_active cfg (s\<lparr>pd_mem := m\<rparr>) = (?s, ?root)"
    using env by (auto simp: init_env_def co_active_def)
  obtain c1 c2 where c2: "init_root ?root c = Inr c1" "init_queues cfg c1 = Inr c2"
    "length (tcbs c2) = max_cothreads cfg" "queues_ok (max_cothreads cfg) c2"
    "ready_list c2 = []" "free_list c2 = map int [1..<max_cothreads cfg]" "running c2 = 0"
    "co_stack_size c2 = ucast sz" "blocked_channel_map c2 = replicate (max_channels cfg) zero_sem"
    "co_handle (tcb c2 0) = ?root" "tcb_state (tcb c2 0) = cothread_running"
    "nx c2 0 = LIBMICROKITCO_NULL_HANDLE"
    and t2: "\<forall>h. 1 \<le> h \<and> h < int (max_cothreads cfg) \<longrightarrow>
       tcb c2 h = zero_tcb\<lparr>local_storage := sts ! (nat h - 1)\<rparr>"
    using init_controller_rel [OF cfg(1) c(1), of ?root] by (auto simp: bindR_Inr_iff)
  let ?c3 = "c2\<lparr>blocked_channel_map := map microkit_cothread_semaphore_init (blocked_channel_map c2)\<rparr>"
  let ?s' = "put_ctl ?c3 ?s"
  have res: "microkit_cothread_init cfg cmem sz sts s = Inr ?s'"
    using eq no act c2(1,2) by (simp add: init_finish_def)
  have ok: "spec_ok (max_cothreads cfg) (spec_initial cfg)"
    using cfg(1) by (intro spec_initial_ok) (simp add: valid_config_def)
  have st: "spec_state (spec_initial cfg) h = cothread_not_active"
    if "1 \<le> h" "h < int (max_cothreads cfg)" for h
    using that by (auto simp: spec_state_def spec_initial_def image_iff intro!: bexI [of _ "nat h"])
  have rel: "ctl_rel cfg (spec_initial cfg) ?c3"
  proof -
    have "tcb_state (tcb c2 h) = spec_state (spec_initial cfg) h"
      if "0 \<le> h" "h < int (max_cothreads cfg)" for h
    proof (cases "h = 0")
      case True
      then show ?thesis using c2(11) by (simp add: spec_state_def spec_initial_def)
    next
      case False
      then have "1 \<le> h" using that(1) by linarith
      then show ?thesis using st [of h] t2 that(2) by (simp add: zero_tcb_def)
    qed
    then show ?thesis unfolding ctl_rel_def base_rel_def
      using c2(3-9,12) by (simp add: spec_initial_def)
  qed
  have sems: "sems_rel cfg (spec_initial cfg) ?s' ?c3"
    using c2(9) by (auto simp: sems_rel_def spec_initial_def sem_view_def valid_ptr_def sem_rel_def
        microkit_cothread_semaphore_init_def split: sem_ptr.splits if_splits)
  have usz: "unat (co_stack_size ?c3) = unat sz"
  proof -
    have "unat sz < 2 ^ 32" using sz(2) by (simp add: less_le_trans)
    then show ?thesis using c2(8) by (simp add: unsigned_ucast_eq take_bit_nat_eq_self)
  qed
  have len: "length sts = max_cothreads cfg - 1" using given(1) by (simp add: stacks_given_def)
  have idx: "sts ! (nat h - 1) \<in> set sts" "nat h - 1 < length sts"
    if "1 \<le> h" "h < int (max_cothreads cfg)" for h
  proof -
    show "nat h - 1 < length sts" using that len by linarith
    then show "sts ! (nat h - 1) \<in> set sts" by simp
  qed
  have stacks: "stacks_ok cfg (pd_mem ?s') ?c3"
    unfolding stacks_ok_def usz
  proof (intro conjI allI impI)
    show "0x1000 \<le> unat sz" using sz(1) by (simp add: word_le_nat_alt)
    show "unat sz \<le> INT_MAX" by (rule sz(2))
  next
    fix h assume h: "1 \<le> h \<and> h < int (max_cothreads cfg)"
    then have ls: "local_storage (tcb ?c3 h) = sts ! (nat h - 1)" using t2 by simp
    have ne: "sts ! (nat h - 1) \<noteq> 0" using idx(1) [of h] h given(2) by metis
    show "local_storage (tcb ?c3 h) \<noteq> 0" unfolding ls by (rule ne)
    have "mapped (pd_mem s) (sts ! (nat h - 1)) (unat sz)"
      using idx(1) [of h] h ne given(1) unfolding stacks_given_def by blast
    then show "mapped (pd_mem ?s') (local_storage (tcb ?c3 h)) (unat sz)"
      unfolding ls using mapped_dom [OF c(2)] by simp
    show "\<not> inside (root_handle cfg) (local_storage (tcb ?c3 h)) (unat sz)"
      unfolding ls using idx(1) [of h] h root by blast
  next
    fix h k b assume hk: "1 \<le> h \<and> h < int (max_cothreads cfg) \<and> 1 \<le> k \<and>
      k < int (max_cothreads cfg) \<and> h \<noteq> k \<and> inside b (local_storage (tcb ?c3 h)) (unat sz)"
    then have ls: "local_storage (tcb ?c3 h) = sts ! (nat h - 1)"
      "local_storage (tcb ?c3 k) = sts ! (nat k - 1)" using t2 by simp_all
    have "nat h - 1 \<noteq> nat k - 1" using hk by linarith
    then show "\<not> inside b (local_storage (tcb ?c3 k)) (unat sz)"
      using given(3) idx(2) [of h] idx(2) [of k] hk unfolding stacks_disjoint_def ls by blast
  qed
  have hs: "h \<in> set (sp_free (spec_initial cfg))" if "1 \<le> h" "h < int (max_cothreads cfg)" for h
    using that by (auto simp: spec_initial_def image_iff intro!: bexI [of _ "nat h"])
  have "handles_ok cfg (spec_initial cfg) ?c3"
    unfolding handles_ok_def using cfg(2) c2(10) hs by auto
  then have "refines cfg (spec_initial cfg) ?s'"
    unfolding refines_def using ok rel sems stacks c2(7,10) by (simp add: put_ctl_def)
  moreover have "stacks_are cfg sz sts ?s'"
    using usz t2 by (simp add: stacks_are_def put_ctl_def)
  moreover have "dom (pd_mem ?s') = dom (pd_mem s)" using c(2) by simp
  ultimately show ?thesis using res by blast
qed

lemma init_refines:
  assumes "init_env cfg cmem s" and "0x1000 \<le> sz" and "unat sz \<le> INT_MAX"
    and "stacks_given cfg sz sts (pd_mem s)" and "0 \<notin> set sts" and "stacks_disjoint sz sts"
    and "\<forall>st \<in> set sts. \<not> inside (root_handle cfg) st (unat sz)"
  shows "\<exists>s'. microkit_cothread_init cfg cmem sz sts s = Inr s' \<and> refines cfg (spec_initial cfg) s'"
  using init_builds [OF assms] by blast

text \<open>Every bad argument has its panic, tested in this order.\<close>

lemma init_again:
  "co_controller s \<noteq> None \<Longrightarrow>
    microkit_cothread_init cfg cmem sz sts s = microkit_cothread_panic init_already_initialised"
  by (simp add: microkit_cothread_init_def)

lemma init_small:
  assumes "co_controller s = None" and "sz < 0x1000"
  shows "microkit_cothread_init cfg cmem sz sts s = microkit_cothread_panic init_stack_too_small"
  using assms by (simp add: microkit_cothread_init_def)

lemma init_bad_stacks:
  assumes "init_env cfg cmem s" and "0x1000 \<le> sz" and "stacks_given cfg sz sts (pd_mem s)"
  shows "0 \<in> set sts \<Longrightarrow>
      microkit_cothread_init cfg cmem sz sts s = microkit_cothread_panic init_co_stack_null"
    and "0 \<notin> set sts \<Longrightarrow> \<not> stacks_disjoint sz sts \<Longrightarrow>
      microkit_cothread_init cfg cmem sz sts s = microkit_cothread_panic init_co_stack_overlap"
proof -
  assume "0 \<in> set sts"
  then show "microkit_cothread_init cfg cmem sz sts s = microkit_cothread_panic init_co_stack_null"
    using init_unfold [OF assms] by simp
next
  assume *: "0 \<notin> set sts" "\<not> stacks_disjoint sz sts"
  have pos: "0 < unat sz" using assms(2) by (simp add: word_le_nat_alt)
  show "microkit_cothread_init cfg cmem sz sts s = microkit_cothread_panic init_co_stack_overlap"
    using init_unfold [OF assms] overlap_stored [OF _ assms(3) *(1) pos] *
    by (auto simp: init_finish_def)
qed

end
