(* ===== verification/CoSystem.thy ===== *)
theory CoSystem
  imports CoBoot
begin

text \<open>
  The library as a system: calls of its interface in the order in which the protection
  domain makes them. A protection domain has one thread of execution, so a run is a
  sequence of calls, each made by the cothread that is running at that moment.

  \<open>allowed\<close> are the rules for callers: what the README asks, and that a cothread destroys nobody
  but itself, because the code mishandles the destruction of a ready cothread, which the
  README permits (\<open>respawn_overflows\<close> in \<open>CoFindings\<close>). The simulation of one call extends to
  runs by the locale \<open>forward_simulation\<close>; the step relation \<open>co_step\<close> and its reachable
  states carry the invariants.
\<close>

subsection \<open>Calls\<close>

datatype api_call =
    Call_yield
  | Call_semaphore_wait sem_ptr
  | Call_semaphore_signal sem_ptr
  | Call_semaphore_init sem_ptr
  | Call_wait_on_channel microkit_channel
  | Call_recv_ntfn microkit_channel
  | Call_spawn client_entry_t addr
  | Call_destroy microkit_cothread_ref_t
  | Call_set_arg microkit_cothread_ref_t addr
  | Entry_returns

fun api :: "config \<Rightarrow> api_call \<Rightarrow> pd \<Rightarrow> fault + pd" where
  "api cfg Call_yield s = microkit_cothread_yield s"
| "api cfg (Call_semaphore_wait p) s = pd_semaphore_wait p s"
| "api cfg (Call_semaphore_signal p) s = pd_semaphore_signal p s"
| "api cfg (Call_semaphore_init p) s = pd_semaphore_init p s"
| "api cfg (Call_wait_on_channel ch) s = microkit_cothread_wait_on_channel cfg ch s"
| "api cfg (Call_recv_ntfn ch) s = microkit_cothread_recv_ntfn cfg ch s"
| "api cfg (Call_spawn entry arg) s =
     bindR (microkit_cothread_spawn cfg entry arg s) (\<lambda>(s', h). Inr s')"
| "api cfg (Call_destroy h) s = microkit_cothread_destroy cfg h s"
| "api cfg (Call_set_arg h arg) s = microkit_cothread_set_arg cfg h arg s"
| "api cfg Entry_returns s = cothread_entry_wrapper_return cfg s"

fun spec_api :: "api_call \<Rightarrow> sched \<Rightarrow> sched" where
  "spec_api Call_yield a = spec_yield a"
| "spec_api (Call_semaphore_wait p) a = spec_wait p a"
| "spec_api (Call_semaphore_signal p) a = spec_signal p a"
| "spec_api (Call_semaphore_init p) a = spec_sem_init p a"
| "spec_api (Call_wait_on_channel ch) a = spec_wait (ChannelSem (unat ch)) a"
| "spec_api (Call_recv_ntfn ch) a = spec_signal (ChannelSem (unat ch)) a"
| "spec_api (Call_spawn entry arg) a = fst (spec_spawn a)"
| "spec_api (Call_destroy h) a = spec_exit a"
| "spec_api (Call_set_arg h arg) a = a"
| "spec_api Entry_returns a = spec_exit a"

text \<open>
  The rules for callers: semaphores are initialised before use and not initialised again
  while cothreads wait on them; the root thread does not block, so that it can receive
  notifications, and is the one that forwards them; an entry point is not null; a
  cothread destroys itself only (destroying a blocked one is undefined, and a ready one
  keeps its place in the scheduling queue); arguments are set for active handles.
\<close>

fun may_wait :: "sched \<Rightarrow> sem_ptr \<Rightarrow> bool" where
  "may_wait a p = (case sp_sems a p of None \<Rightarrow> False | Some (f, ws) \<Rightarrow> f \<or> sp_running a \<noteq> 0)"

fun allowed :: "config \<Rightarrow> sched \<Rightarrow> api_call \<Rightarrow> bool" where
  "allowed cfg a Call_yield = True"
| "allowed cfg a (Call_semaphore_wait p) = may_wait a p"
| "allowed cfg a (Call_semaphore_signal p) = (sp_sems a p \<noteq> None)"
| "allowed cfg a (Call_semaphore_init p) = (valid_ptr cfg p \<and> waiters a p = [])"
| "allowed cfg a (Call_wait_on_channel ch) = may_wait a (ChannelSem (unat ch))"
| "allowed cfg a (Call_recv_ntfn ch) = (sp_running a = 0 \<and> sp_sems a (ChannelSem (unat ch)) \<noteq> None)"
| "allowed cfg a (Call_spawn entry arg) = (entry \<noteq> 0)"
| "allowed cfg a (Call_destroy h) = (h = sp_running a \<and> h \<noteq> 0)"
| "allowed cfg a (Call_set_arg h arg) =
     (0 \<le> h \<and> h < int (max_cothreads cfg) \<and> spec_state a h \<noteq> cothread_not_active)"
| "allowed cfg a Entry_returns = (sp_running a \<noteq> 0)"

subsection \<open>Setting an argument\<close>

lemma set_arg_refines:
  assumes "refines cfg a s" and "0 \<le> h" and "h < int (max_cothreads cfg)"
    and "spec_state a h \<noteq> cothread_not_active"
  shows "\<exists>s' c c'. microkit_cothread_set_arg cfg h arg s = Inr s' \<and> refines cfg a s' \<and>
    co_controller s = Some c \<and> co_controller s' = Some c' \<and> private_arg (tcb c' h) = arg \<and>
    (\<forall>k\<ge>0. k \<noteq> h \<longrightarrow> tcb c' k = tcb c k) \<and> pd_mem s' = pd_mem s"
proof -
  obtain c where c: "spec_ok (max_cothreads cfg) a" "co_controller s = Some c" "ctl_rel cfg a c"
    "sems_rel cfg a s c" "stacks_ok cfg (pd_mem s) c" "handles_ok cfg a c"
    "co_active_handle s = co_handle (tcb c (running c))" "get_ctl s = Inr c"
    using refinesE [OF assms(1)] by blast
  note R = ctl_relD [OF c(3)]
  have v: "valid_ref c h" using assms(2,3) by (simp add: ctl_rel_valid [OF c(3)])
  let ?c = "upd_tcb h (\<lambda>t. t\<lparr>private_arg := arg\<rparr>) c"
  have t: "tcb ?c k = (if k = h then (tcb c h)\<lparr>private_arg := arg\<rparr> else tcb c k)" if "0 \<le> k" for k
    using that v by (simp add: tcb_upd_tcb)
  have st: "tcb_state (tcb ?c k) = tcb_state (tcb c k)" "nx ?c k = nx c k"
    "local_storage (tcb ?c k) = local_storage (tcb c k)" "co_handle (tcb ?c k) = co_handle (tcb c k)"
    if "0 \<le> k" for k
    using t [OF that] by (simp_all add: nx_def)
  have ready: "0 \<le> k" if "k \<in> set (sp_running a # sp_ready a)" for k
    using that spec_ok_range(1) [OF c(1), of k] by (auto simp: placed_def)
  have "ctl_rel cfg a ?c"
    using c(3) st ready unfolding ctl_rel_def base_rel_def by (simp add: ctl_simps)
  moreover have "sems_rel cfg a (put_ctl ?c s) ?c"
  proof (rule sems_rel_keep [OF c(1,4) refl])
    show "nx ?c k = nx c k" if "k \<in> set (waiters a p)" for p k
      using spec_ok_range(2) [OF c(1) that] st(2) by simp
  qed (simp_all add: upd_tcb_select)
  moreover have "stacks_ok cfg (pd_mem s) ?c"
    using c(5) unfolding stacks_ok_def upd_tcb_select by (auto simp: st(3))
  moreover have "handles_ok cfg a ?c"
    using c(6) st(3,4) unfolding handles_ok_def by (simp add: upd_tcb_select)
  moreover have "co_active_handle (put_ctl ?c s) = co_handle (tcb ?c (running ?c))"
    using c(7) st(4) ready R(2) by (simp add: upd_tcb_select)
  ultimately have "refines cfg a (put_ctl ?c s)" using c(1) unfolding refines_def by simp
  moreover have "microkit_cothread_set_arg cfg h arg s = Inr (put_ctl ?c s)"
    using assms(2-4) c(8) v R(3) [OF assms(2,3)]
    by (simp add: microkit_cothread_set_arg_def tcb_at_valid mod_tcb_valid)
  ultimately show ?thesis using c(2) t assms(2) by (intro exI [of _ "put_ctl ?c s"] exI [of _ c] exI [of _ ?c]) simp
qed

subsection \<open>One call\<close>

lemma api_refines:
  assumes "refines cfg a s" and "allowed cfg a call"
  shows "\<exists>s'. api cfg call s = Inr s' \<and> refines cfg (spec_api call a) s'"
proof (cases call)
  case Call_yield
  then show ?thesis using yield_refines [OF assms(1)] by auto
next
  case (Call_semaphore_wait p)
  then show ?thesis using assms(2) wait_refines [OF assms(1), of p]
    by (auto split: option.splits prod.splits)
next
  case (Call_semaphore_signal p)
  then show ?thesis using assms(2) signal_refines [OF assms(1), of p] by fastforce
next
  case (Call_semaphore_init p)
  then show ?thesis using assms(2) sem_init_refines [OF assms(1), of p] by auto
next
  case (Call_wait_on_channel ch)
  then show ?thesis using assms(2) wait_on_channel_refines [OF assms(1), of ch]
    by (auto split: option.splits prod.splits)
next
  case (Call_recv_ntfn ch)
  then show ?thesis using assms(2) recv_ntfn_refines [OF assms(1), of ch] by fastforce
next
  case (Call_spawn entry arg)
  show ?thesis
  proof (cases "sp_free a")
    case Nil
    then show ?thesis using Call_spawn assms spawn_empty [OF assms(1) Nil, of entry arg]
      by (simp add: spec_spawn_def)
  next
    case (Cons h hs)
    then show ?thesis using Call_spawn assms(2) spawn_refines [OF assms(1) Cons, of entry arg] by auto
  qed
next
  case (Call_destroy h)
  then show ?thesis using assms(2) exit_refines [OF assms(1)] by auto
next
  case (Call_set_arg h arg)
  then show ?thesis using assms(2) set_arg_refines [OF assms(1), of h arg] by auto
next
  case Entry_returns
  then show ?thesis using assms(2) entry_wrapper_return_refines [OF assms(1)] by auto
qed

subsection \<open>Runs\<close>

fun run_impl :: "('l \<Rightarrow> 'c \<Rightarrow> fault + 'c) \<Rightarrow> 'l list \<Rightarrow> 'c \<Rightarrow> fault + 'c" where
  "run_impl impl [] s = Inr s"
| "run_impl impl (l # ls) s = bindR (impl l s) (run_impl impl ls)"

fun run_spec :: "('l \<Rightarrow> 'a \<Rightarrow> 'a) \<Rightarrow> 'l list \<Rightarrow> 'a \<Rightarrow> 'a" where
  "run_spec spec [] a = a"
| "run_spec spec (l # ls) a = run_spec spec ls (spec l a)"

fun run_allowed :: "('a \<Rightarrow> 'l \<Rightarrow> bool) \<Rightarrow> ('l \<Rightarrow> 'a \<Rightarrow> 'a) \<Rightarrow> 'l list \<Rightarrow> 'a \<Rightarrow> bool" where
  "run_allowed enabled spec [] a = True"
| "run_allowed enabled spec (l # ls) a = (enabled a l \<and> run_allowed enabled spec ls (spec l a))"

lemma run_impl_append:
  "run_impl impl (ls @ ks) s = bindR (run_impl impl ls s) (run_impl impl ks)"
  by (induction ls arbitrary: s) (auto simp: bindR_assoc intro!: arg_cong [where f = "bindR _"])

lemma run_spec_append: "run_spec spec (ls @ ks) a = run_spec spec ks (run_spec spec ls a)"
  by (induction ls arbitrary: a) simp_all

text \<open>
  A relation between states of two systems that each call preserves: the concrete one
  never fails on a run of calls the abstract one allows, and the relation holds at the
  end and at every point between.
\<close>

locale forward_simulation =
  fixes rel :: "'a \<Rightarrow> 'c \<Rightarrow> bool"
    and enabled :: "'a \<Rightarrow> 'l \<Rightarrow> bool"
    and spec :: "'l \<Rightarrow> 'a \<Rightarrow> 'a"
    and impl :: "'l \<Rightarrow> 'c \<Rightarrow> fault + 'c"
  assumes sim: "rel a s \<Longrightarrow> enabled a l \<Longrightarrow> \<exists>s'. impl l s = Inr s' \<and> rel (spec l a) s'"
begin

lemma run_sim:
  "rel a s \<Longrightarrow> run_allowed enabled spec ls a \<Longrightarrow>
    \<exists>s'. run_impl impl ls s = Inr s' \<and> rel (run_spec spec ls a) s'"
proof (induction ls arbitrary: a s)
  case Nil
  then show ?case by simp
next
  case (Cons l ls)
  then obtain s1 where s1: "impl l s = Inr s1" "rel (spec l a) s1" using sim [of a s l] by auto
  with Cons.IH [OF s1(2)] Cons.prems(2) show ?case by simp
qed

text \<open>A run of the code that follows the rules ends where the specification says.\<close>

lemma run_determined:
  assumes "rel a s" and "run_allowed enabled spec ls a" and "run_impl impl ls s = Inr s'"
  shows "rel (run_spec spec ls a) s'"
  using run_sim [OF assms(1,2)] assms(3) by auto

end

interpretation co: forward_simulation "refines cfg" "allowed cfg" spec_api "api cfg" for cfg
  by unfold_locales (rule api_refines)

abbreviation "co_run cfg \<equiv> run_impl (api cfg)"
abbreviation "spec_run \<equiv> run_spec spec_api"
abbreviation "co_allowed cfg \<equiv> run_allowed (allowed cfg) spec_api"

subsection \<open>Steps and reachable states\<close>

text \<open>
  The same system as a step relation, for callers that follow the rules: the state of
  the specification is carried along as a ghost that decides what they may call.
\<close>

inductive co_step :: "config \<Rightarrow> sched \<times> pd \<Rightarrow> api_call \<Rightarrow> sched \<times> pd \<Rightarrow> bool" for cfg where
  co_stepI: "allowed cfg a call \<Longrightarrow> api cfg call s = Inr s' \<Longrightarrow>
    co_step cfg (a, s) call (spec_api call a, s')"

inductive_simps co_step_simps: "co_step cfg (a, s) call (a', s')"
inductive_cases co_stepE: "co_step cfg (a, s) call (a', s')"

inductive co_reachable :: "config \<Rightarrow> sched \<times> pd \<Rightarrow> bool" for cfg where
  booted: "init_env cfg cmem s \<Longrightarrow> 0x1000 \<le> sz \<Longrightarrow> unat sz \<le> INT_MAX \<Longrightarrow>
    stacks_given cfg sz sts (pd_mem s) \<Longrightarrow> 0 \<notin> set sts \<Longrightarrow> stacks_disjoint sz sts \<Longrightarrow>
    (\<forall>st \<in> set sts. \<not> inside (root_handle cfg) st (unat sz)) \<Longrightarrow>
    microkit_cothread_init cfg cmem sz sts s = Inr s' \<Longrightarrow>
    co_reachable cfg (spec_initial cfg, s')"
| called: "co_reachable cfg x \<Longrightarrow> co_step cfg x call y \<Longrightarrow> co_reachable cfg y"

lemma co_reachable_refines:
  assumes "co_reachable cfg x"
  shows "refines cfg (fst x) (snd x)"
  using assms
proof (induction rule: co_reachable.induct)
  case (booted cmem s sz sts s')
  then show ?case using init_refines [OF booted(1-7)] by auto
next
  case (called x call y)
  obtain a s a' s' where xy: "x = (a, s)" "y = (a', s')" by (cases x; cases y) auto
  from called.hyps(2) have "allowed cfg a call" "api cfg call s = Inr s'" "a' = spec_api call a"
    unfolding xy co_step_simps by blast+
  then show ?case using api_refines [of cfg a s call] called.IH xy by auto
qed

text \<open>
  Reachable states never get stuck: a call that follows the rules has a step. So no
  panic, no fault and no undefined behaviour is reachable.
\<close>

lemma co_reachable_progress:
  assumes "co_reachable cfg (a, s)" and "allowed cfg a call"
  shows "\<exists>s'. co_step cfg (a, s) call (spec_api call a, s')"
  using api_refines [OF _ assms(2), of s] co_reachable_refines [OF assms(1)] assms(2)
  by (auto simp: co_step_simps)

end
