(* ===== verification/CoGuarantees.thy ===== *)
theory CoGuarantees
  imports CoSystem
begin

text \<open>
  What clients may rely on over a run of calls: who runs when, in which order waiting
  cothreads wake, and that a signal is not lost. The arguments are about the
  specification; the simulation carries them over to the code.
\<close>

subsection \<open>A ready cothread gets its turn\<close>

text \<open>Whether a call ends in a decision of the scheduler.\<close>

fun blocks :: "sched \<Rightarrow> sem_ptr \<Rightarrow> bool" where
  "blocks a p = (case sp_sems a p of None \<Rightarrow> False | Some (f, ws) \<Rightarrow> \<not> f)"

fun decides :: "sched \<Rightarrow> api_call \<Rightarrow> bool" where
  "decides a Call_yield = True"
| "decides a (Call_semaphore_wait p) = blocks a p"
| "decides a (Call_wait_on_channel ch) = blocks a (ChannelSem (unat ch))"
| "decides a (Call_destroy h) = True"
| "decides a Entry_returns = True"
| "decides a call = False"

fun decisions :: "sched \<Rightarrow> api_call list \<Rightarrow> nat" where
  "decisions a [] = 0"
| "decisions a (call # calls) =
     (if decides a call then 1 else 0) + decisions (spec_api call a) calls"

text \<open>A decision takes the front of the ready queue; every other call only appends.\<close>

lemma dispatch_takes_front:
  "sp_ready a = h # hs \<Longrightarrow> sp_running (spec_dispatch a) = h \<and> sp_ready (spec_dispatch a) = hs"
  by (simp add: spec_dispatch_def)

lemma decision_takes_front:
  assumes "decides a call" and "sp_ready a = h # hs"
  shows "sp_running (spec_api call a) = h \<and> (\<exists>xs. sp_ready (spec_api call a) = hs @ xs)"
  using assms
  by (cases call)
    (auto simp: spec_yield_def spec_wait_def spec_exit_def dispatch_takes_front
      split: option.splits prod.splits)

lemma call_keeps_ready:
  assumes "\<not> decides a call"
  shows "\<exists>xs. sp_ready (spec_api call a) = sp_ready a @ xs"
  using assms
  by (cases call)
    (auto simp: spec_signal_def spec_wait_def spec_sem_init_def spec_spawn_def
      split: option.splits prod.splits bool.splits list.splits)

lemma ready_after_run:
  assumes "decisions a calls \<le> length (sp_ready a)"
  shows "\<exists>xs. sp_ready (spec_run calls a) = drop (decisions a calls) (sp_ready a) @ xs"
  using assms
proof (induction calls arbitrary: a)
  case Nil
  then show ?case by simp
next
  case (Cons call calls)
  let ?a = "spec_api call a"
  show ?case
  proof (cases "decides a call")
    case True
    with Cons.prems obtain h hs where r: "sp_ready a = h # hs" by (cases "sp_ready a") auto
    obtain xs where xs: "sp_ready ?a = hs @ xs" using decision_takes_front [OF True r] by blast
    have "decisions ?a calls \<le> length hs" using Cons.prems True r by simp
    then show ?thesis using Cons.IH [of ?a] True r xs by auto
  next
    case False
    obtain xs where xs: "sp_ready ?a = sp_ready a @ xs" using call_keeps_ready [OF False] by blast
    have "decisions ?a calls \<le> length (sp_ready a)" using Cons.prems False by simp
    then show ?thesis using Cons.IH [of ?a] False xs by auto
  qed
qed

lemma turn_comes:
  assumes "sp_ready a = pre @ h # post" and "decisions a calls = length pre"
    and "decides (spec_run calls a) call"
  shows "sp_running (spec_run (calls @ [call]) a) = h"
proof -
  obtain xs where "sp_ready (spec_run calls a) = drop (length pre) (sp_ready a) @ xs"
    using ready_after_run [of a calls] assms(1,2) by auto
  then have "sp_ready (spec_run calls a) = h # (post @ xs)" using assms(1) by simp
  from decision_takes_front [OF assms(3) this] show ?thesis by (simp add: run_spec_append)
qed

subsection \<open>Waking in order\<close>

text \<open>
  Signals on one semaphore with calls of other cothreads between them: who is woken is
  fixed by the order of blocking.
\<close>

fun touches :: "sem_ptr \<Rightarrow> api_call \<Rightarrow> bool" where
  "touches p (Call_semaphore_wait q) = (q = p)"
| "touches p (Call_semaphore_signal q) = (q = p)"
| "touches p (Call_semaphore_init q) = (q = p)"
| "touches p (Call_wait_on_channel ch) = (ChannelSem (unat ch) = p)"
| "touches p (Call_recv_ntfn ch) = (ChannelSem (unat ch) = p)"
| "touches p call = False"

lemma dispatch_sems [simp]: "sp_sems (spec_dispatch a) = sp_sems a"
  by (simp add: spec_dispatch_def split: list.splits)

lemma wait_other: "q \<noteq> p \<Longrightarrow> sp_sems (spec_wait q a) p = sp_sems a p"
  by (simp add: spec_wait_def split: option.splits prod.splits bool.splits)

lemma signal_other: "q \<noteq> p \<Longrightarrow> sp_sems (spec_signal q a) p = sp_sems a p"
  by (simp add: spec_signal_def split: option.splits prod.splits bool.splits list.splits)

lemma untouched_call: "\<not> touches p call \<Longrightarrow> sp_sems (spec_api call a) p = sp_sems a p"
  by (cases call)
    (auto simp: wait_other signal_other spec_yield_def spec_exit_def spec_sem_init_def spec_spawn_def
      split: list.splits)

lemma untouched_run:
  "\<forall>call \<in> set calls. \<not> touches p call \<Longrightarrow> sp_sems (spec_run calls a) p = sp_sems a p"
  by (induction calls arbitrary: a) (simp_all add: untouched_call)

lemma spec_wait_appends:
  "sp_sems a p = Some (False, ws) \<Longrightarrow> sp_sems (spec_wait p a) p = Some (False, ws @ [sp_running a])"
  by (simp add: spec_wait_def)

lemma spec_signal_wakes:
  "sp_sems a p = Some (False, w # ws) \<Longrightarrow>
    sp_running (spec_signal p a) = w \<and> sp_sems (spec_signal p a) p = Some (False, ws)"
  by (simp add: spec_signal_def)

text \<open>
  \<open>signals p\<close> alternates signals with runs that leave \<open>p\<close> alone; \<open>woken\<close> lists who runs
  right after each signal.
\<close>

fun woken :: "sem_ptr \<Rightarrow> api_call list list \<Rightarrow> sched \<Rightarrow> microkit_cothread_ref_t list" where
  "woken p [] a = []"
| "woken p (between # gaps) a =
     (let b = spec_signal p (spec_run between a) in sp_running b # woken p gaps b)"

lemma woken_in_order:
  assumes "sp_sems a p = Some (False, ws @ vs)" and "length gaps = length ws"
    and "\<forall>between \<in> set gaps. \<forall>call \<in> set between. \<not> touches p call"
  shows "woken p gaps a = ws"
  using assms
proof (induction ws arbitrary: a gaps)
  case Nil
  then show ?case by simp
next
  case (Cons w ws)
  then obtain g gs where gaps: "gaps = g # gs" by (cases gaps) auto
  have "sp_sems (spec_run g a) p = Some (False, w # ws @ vs)"
    using Cons.prems(1,3) gaps untouched_run [of g p a] by simp
  from spec_signal_wakes [OF this] show ?case
    using Cons.IH [of "spec_signal p (spec_run g a)" gs] Cons.prems(2,3) gaps by (simp add: Let_def)
qed

text \<open>The same on the code: run, signal, ask who runs.\<close>

fun co_woken :: "config \<Rightarrow> sem_ptr \<Rightarrow> api_call list list \<Rightarrow> pd \<Rightarrow> fault + microkit_cothread_ref_t list" where
  "co_woken cfg p [] s = Inr []"
| "co_woken cfg p (between # gaps) s =
     bindR (co_run cfg (between @ [Call_semaphore_signal p]) s) (\<lambda>s'.
     bindR (microkit_cothread_my_handle s') (\<lambda>h.
     bindR (co_woken cfg p gaps s') (\<lambda>hs. Inr (h # hs))))"

lemma run_allowed_append:
  "run_allowed en spec (ls @ ks) a \<longleftrightarrow> run_allowed en spec ls a \<and> run_allowed en spec ks (run_spec spec ls a)"
  by (induction ls arbitrary: a) auto

definition signalled :: "sem_ptr \<Rightarrow> api_call list list \<Rightarrow> api_call list" where
  "signalled p gaps = concat (map (\<lambda>between. between @ [Call_semaphore_signal p]) gaps)"

lemma co_woken_refines:
  assumes "refines cfg a s" and "co_allowed cfg (signalled p gaps) a"
  shows "co_woken cfg p gaps s = Inr (woken p gaps a)"
  using assms
proof (induction gaps arbitrary: a s)
  case Nil
  then show ?case by simp
next
  case (Cons between gaps)
  let ?calls = "between @ [Call_semaphore_signal p]"
  have al: "co_allowed cfg ?calls a" "co_allowed cfg (signalled p gaps) (spec_run ?calls a)"
    using Cons.prems(2) by (simp_all add: signalled_def run_allowed_append run_spec_append)
  obtain s1 where s1: "co_run cfg ?calls s = Inr s1" "refines cfg (spec_run ?calls a) s1"
    using co.run_sim [OF Cons.prems(1) al(1)] by blast
  show ?case using s1(1) my_handle_refines [OF s1(2)] Cons.IH [OF s1(2) al(2)]
    by (simp add: run_spec_append Let_def)
qed

subsection \<open>A signal is kept\<close>

lemma signal_then_wait:
  assumes "refines cfg a s" and "sp_sems a p = Some (False, [])"
    and "\<forall>call \<in> set calls. \<not> touches p call"
    and "co_allowed cfg calls (spec_signal p a)"
  shows "\<exists>s1 s2. co_run cfg (Call_semaphore_signal p # calls) s = Inr s1 \<and>
    pd_semaphore_wait p s1 = Inr s2 \<and>
    microkit_cothread_my_handle s2 = microkit_cothread_my_handle s1 \<and>
    refines cfg ((spec_run calls (spec_signal p a))
      \<lparr>sp_sems := (sp_sems (spec_run calls (spec_signal p a)))(p \<mapsto> (False, []))\<rparr>) s2"
proof -
  let ?b = "spec_run calls (spec_signal p a)"
  have "co_allowed cfg (Call_semaphore_signal p # calls) a" using assms(2,4) by simp
  from co.run_sim [OF assms(1) this] obtain s1 where
    s1: "co_run cfg (Call_semaphore_signal p # calls) s = Inr s1" "refines cfg ?b s1" by auto
  have "sp_sems ?b p = Some (True, [])"
    using untouched_run [OF assms(3)] assms(2) by (simp add: spec_signal_def)
  then obtain s2 where s2: "pd_semaphore_wait p s1 = Inr s2" "refines cfg (spec_wait p ?b) s2"
    using wait_refines [OF s1(2)] by blast
  have b: "spec_wait p ?b = ?b\<lparr>sp_sems := (sp_sems ?b)(p \<mapsto> (False, []))\<rparr>"
    using \<open>sp_sems ?b p = Some (True, [])\<close> by (simp add: spec_wait_def)
  have "microkit_cothread_my_handle s2 = microkit_cothread_my_handle s1"
    using my_handle_refines [OF s1(2)] my_handle_refines [OF s2(2)] b by simp
  with s1(1) s2 b show ?thesis by auto
qed

end
