(* ===== verification/CoFrame.thy ===== *)
theory CoFrame
  imports CoGuarantees
begin

text \<open>
  What scheduling leaves alone, without any assumption on the state: the entry point, the
  argument, the stack and the context handle of every control block, which only \<open>spawn\<close> and
  \<open>set_arg\<close> change, and the semaphores in client memory that the call does not name. The
  byte memory stays as it is, too, but for the contexts that \<open>co_swap\<close> saves there: these
  the model of the scheduler leaves out, the \<open>Switch\<close> theories have them.
\<close>

definition cores :: "co_control_t \<Rightarrow> 32 word \<times> co_tcb_t list" where
  "cores c = (co_stack_size c, map core (tcbs c))"

definition pd_cores :: "pd \<Rightarrow> (32 word \<times> co_tcb_t list) option" where
  "pd_cores s = map_option cores (co_controller s)"

lemma cores_mod_tcb:
  assumes "mod_tcb i f c = Inr c'" and "\<And>t. core (f t) = core t"
  shows "cores c' = cores c"
proof -
  obtain t where t: "tcb_at c i = Inr t" and c': "c' = c\<lparr>tcbs := (tcbs c)[nat i := f t]\<rparr>"
    using assms(1) by (auto simp: mod_tcb_def bindR_Inr_iff)
  have "map core ((tcbs c)[nat i := f t]) = (map core (tcbs c))[nat i := core t]"
    by (simp add: map_update assms(2))
  also have "\<dots> = map core (tcbs c)"
    using t by (auto simp: tcb_at_def split: if_splits intro!: nth_equalityI simp: nth_list_update)
  finally show ?thesis by (simp add: c' cores_def)
qed

lemma cores_set:
  "set_state i st c = Inr c' \<Longrightarrow> cores c' = cores c"
  "set_next i n c = Inr c' \<Longrightarrow> cores c' = cores c"
  by (auto simp: set_state_def set_next_def intro: cores_mod_tcb)

lemma cores_update [simp]:
  "cores (c\<lparr>running := r\<rparr>) = cores c" "cores (c\<lparr>blocked_channel_map := b\<rparr>) = cores c"
  by (simp_all add: cores_def)

lemma cores_queues:
  "sched_push i c = Inr (e, c') \<Longrightarrow> cores c' = cores c"
  "sched_pop i c = Inr (e, c', x) \<Longrightarrow> cores c' = cores c"
  "free_push i c = Inr (e, c') \<Longrightarrow> cores c' = cores c"
  by (auto simp: sched_push_def sched_pop_def free_push_def bindR_Inr_iff cores_def)

lemma cores_schedule_loop: "internal_schedule_loop r c = Inr (c', x) \<Longrightarrow> cores c' = cores c"
proof (induction r c rule: internal_schedule_loop.induct)
  case (1 r c)
  obtain e c1 h where pop: "sched_pop r c = Inr (e, c1, h)"
    using "1.prems" by (subst (asm) internal_schedule_loop.simps) (auto split: sum.splits prod.splits)
  note c1 = cores_queues(2) [OF pop]
  show ?case
  proof (cases "e = LIBHOSTEDQUEUE_NOERR \<and> h \<noteq> 0 \<and> (\<exists>t. tcb_at c1 h = Inr t \<and> tcb_state t \<noteq> cothread_ready)")
    case True
    then have "internal_schedule_loop h c1 = Inr (c', x)"
      using "1.prems" pop by (subst (asm) internal_schedule_loop.simps) auto
    with True c1 "1.IH" [OF pop refl refl] show ?thesis by auto
  next
    case False
    then have "c' = c1" using "1.prems" pop
      by (subst (asm) internal_schedule_loop.simps) (auto split: if_splits sum.splits)
    with c1 show ?thesis by simp
  qed
qed

lemma cores_go_next: "internal_go_next c = Inr (c', h) \<Longrightarrow> cores c' = cores c"
  by (auto simp: internal_go_next_def internal_schedule_def bindR_Inr_iff Let_def
      dest!: cores_schedule_loop cores_set(1))

lemma cores_semaphore_wait:
  "microkit_cothread_semaphore_wait sem c = Inr (sem', c', sw) \<Longrightarrow> cores c' = cores c"
  by (auto simp: microkit_cothread_semaphore_wait_def bindR_Inr_iff split: if_splits
      dest!: cores_go_next cores_set)

lemma cores_semaphore_signal:
  "microkit_cothread_semaphore_signal sem c = Inr (sem', c', sw) \<Longrightarrow> cores c' = cores c"
  by (auto simp: microkit_cothread_semaphore_signal_def bindR_Inr_iff Let_def split: if_splits
      dest!: cores_queues cores_set)

subsection \<open>The same for the calls\<close>

definition same_world :: "pd \<Rightarrow> pd \<Rightarrow> bool" where
  "same_world s s' \<longleftrightarrow> pd_cores s' = pd_cores s \<and> pd_mem s' = pd_mem s"

lemma pd_cores_put [simp]: "pd_cores (put_ctl c s) = Some (cores c)"
  by (simp add: pd_cores_def)

lemma same_world_switch [simp]: "same_world s (co_switch h t) = same_world s t"
  by (simp add: same_world_def pd_cores_def)

lemma same_world_put:
  "get_ctl s = Inr c \<Longrightarrow> cores c' = cores c \<Longrightarrow> same_world s (put_ctl c' s)"
  by (auto simp: same_world_def pd_cores_def get_ctl_def split: option.splits)

lemma same_world_sem_write:
  assumes "sem_write p v s = Inr s'"
  shows "same_world s s'"
proof (cases p)
  case (ClientSem a)
  then show ?thesis using assms by (auto simp: same_world_def pd_cores_def)
next
  case (ChannelSem ch)
  then show ?thesis using assms
    by (auto simp: bindR_Inr_iff split: if_splits intro!: same_world_put)
qed

lemma same_world_trans: "same_world a b \<Longrightarrow> same_world b c \<Longrightarrow> same_world a c"
  by (simp add: same_world_def)

lemma same_world_on_sem:
  assumes "on_sem op p s = Inr s'"
    and "\<And>sem c sem' c' sw. op sem c = Inr (sem', c', sw) \<Longrightarrow> cores c' = cores c"
  shows "same_world s s'"
proof -
  obtain c sem sem' c' sw t where "get_ctl s = Inr c" "op sem c = Inr (sem', c', sw)"
    and t: "sem_write p sem' (put_ctl c' s) = Inr t" "s' = switch_to sw t"
    using assms(1) by (auto simp: on_sem_def bindR_Inr_iff)
  then have "same_world s t"
    using same_world_put assms(2) same_world_sem_write [OF t(1)] same_world_trans by blast
  then show ?thesis by (simp add: t(2) switch_to_def split: option.splits)
qed

lemma same_world_yield:
  assumes "microkit_cothread_yield s = Inr s'"
  shows "same_world s s'"
proof -
  obtain c e c1 c2 c3 h where get: "get_ctl s = Inr c"
    and "sched_push (running c) c = Inr (e, c1)" "set_state (running c1) cothread_ready c1 = Inr c2"
      "internal_go_next c2 = Inr (c3, h)"
    and s': "s' = co_switch h (put_ctl c3 s)"
    using assms by (auto simp: microkit_cothread_yield_def bindR_Inr_iff split: if_splits)
  then have "cores c3 = cores c" using cores_queues cores_set cores_go_next by metis
  with get show ?thesis by (simp add: s' same_world_put)
qed

lemma same_world_destroy:
  assumes "microkit_cothread_destroy cfg h s = Inr s'"
  shows "same_world s s'"
proof -
  obtain c e c1 c2 where c: "get_ctl s = Inr c" "free_push h c = Inr (e, c1)"
      "set_state h cothread_not_active c1 = Inr c2"
    and s': "if h = running c2 then \<exists>c3 k. internal_go_next c2 = Inr (c3, k) \<and>
        s' = co_switch k (put_ctl c3 s) else s' = put_ctl c2 s"
    using assms by (auto simp: microkit_cothread_destroy_def bindR_Inr_iff split: if_splits)
  have "cores c2 = cores c" using cores_queues(3) [OF c(2)] cores_set(1) [OF c(3)] by simp
  then show ?thesis using s' same_world_put [OF c(1)] cores_go_next
    by (auto split: if_splits)
qed

lemma same_world_entry_returns:
  "cothread_entry_wrapper_return cfg s = Inr s' \<Longrightarrow> same_world s s'"
  by (auto simp: cothread_entry_wrapper_return_def bindR_Inr_iff split: if_splits
      dest: same_world_destroy)

lemma same_world_call:
  assumes "api cfg call s = Inr s'" and "\<forall>e x. call \<noteq> Call_spawn e x" and "\<forall>h x. call \<noteq> Call_set_arg h x"
  shows "same_world s s'"
proof -
  note sem = same_world_on_sem [of microkit_cothread_semaphore_wait, OF _ cores_semaphore_wait]
    same_world_on_sem [of microkit_cothread_semaphore_signal, OF _ cores_semaphore_signal]
  show ?thesis
  proof (cases call)
    case Call_yield
    then show ?thesis using assms(1) by (simp add: same_world_yield)
  next
    case (Call_semaphore_wait p)
    then show ?thesis using assms(1) sem(1) by (simp add: pd_semaphore_wait_def)
  next
    case (Call_semaphore_signal p)
    then show ?thesis using assms(1) sem(2) by (simp add: pd_semaphore_signal_def)
  next
    case (Call_semaphore_init p)
    then show ?thesis using assms(1)
      by (auto simp: pd_semaphore_init_def bindR_Inr_iff same_world_sem_write)
  next
    case (Call_wait_on_channel ch)
    then show ?thesis using assms(1) sem(1)
      by (auto simp: microkit_cothread_wait_on_channel_def pd_semaphore_wait_def split: if_splits)
  next
    case (Call_recv_ntfn ch)
    then show ?thesis using assms(1) sem(2)
      by (auto simp: microkit_cothread_recv_ntfn_def pd_semaphore_signal_def bindR_Inr_iff
          split: if_splits)
  next
    case (Call_destroy h)
    then show ?thesis using assms(1) by (simp add: same_world_destroy)
  next
    case Entry_returns
    then show ?thesis using assms(1) by (simp add: same_world_entry_returns)
  qed (use assms in simp_all)
qed

text \<open>A call changes no semaphore in client memory but the one it is given.\<close>

fun names_semaphore :: "api_call \<Rightarrow> addr \<Rightarrow> bool" where
  "names_semaphore (Call_semaphore_wait p) a = (p = ClientSem a)"
| "names_semaphore (Call_semaphore_signal p) a = (p = ClientSem a)"
| "names_semaphore (Call_semaphore_init p) a = (p = ClientSem a)"
| "names_semaphore call a = False"

lemma sem_write_others: "sem_write p v s = Inr s' \<Longrightarrow> p \<noteq> ClientSem a \<Longrightarrow> client_sems s' a = client_sems s a"
  by (cases p) (auto simp: bindR_Inr_iff split: if_splits)

lemma on_sem_others:
  assumes "on_sem op p s = Inr s'" and "p \<noteq> ClientSem a"
  shows "client_sems s' a = client_sems s a"
proof -
  obtain c' sem' sw t where t: "sem_write p sem' (put_ctl c' s) = Inr t" "s' = switch_to sw t"
    using assms(1) by (auto simp: on_sem_def bindR_Inr_iff)
  from sem_write_others [OF t(1) assms(2)] t(2) show ?thesis
    by (simp add: switch_to_def split: option.splits)
qed

lemma client_sems_yield: "microkit_cothread_yield s = Inr s' \<Longrightarrow> client_sems s' = client_sems s"
  by (auto simp: microkit_cothread_yield_def bindR_Inr_iff split: if_splits)

lemma client_sems_destroy: "microkit_cothread_destroy cfg h s = Inr s' \<Longrightarrow> client_sems s' = client_sems s"
  by (auto simp: microkit_cothread_destroy_def bindR_Inr_iff split: if_splits)

lemma client_sems_spawn: "microkit_cothread_spawn cfg e x s = Inr (s', h) \<Longrightarrow> client_sems s' = client_sems s"
  by (auto simp: microkit_cothread_spawn_def bindR_Inr_iff Let_def co_active_def split: if_splits)

lemma client_sems_call:
  assumes "api cfg call s = Inr s'" and "\<not> names_semaphore call a"
  shows "client_sems s' a = client_sems s a"
proof (cases call)
  case (Call_spawn e x)
  then show ?thesis using assms(1) by (auto simp: bindR_Inr_iff dest!: client_sems_spawn)
next
  case (Call_set_arg h x)
  then show ?thesis using assms(1) by (auto simp: microkit_cothread_set_arg_def bindR_Inr_iff split: if_splits)
next
  case Entry_returns
  then show ?thesis using assms(1)
    by (auto simp: cothread_entry_wrapper_return_def bindR_Inr_iff split: if_splits dest!: client_sems_destroy)
next
  case (Call_semaphore_init p)
  then show ?thesis using assms
    by (auto simp: pd_semaphore_init_def bindR_Inr_iff intro: sem_write_others)
qed (use assms in \<open>auto simp: pd_semaphore_wait_def pd_semaphore_signal_def bindR_Inr_iff
      microkit_cothread_wait_on_channel_def microkit_cothread_recv_ntfn_def split: if_splits
      dest!: client_sems_yield client_sems_destroy intro: on_sem_others\<close>)

subsection \<open>Entry points and arguments over a run\<close>

definition pd_tcb :: "pd \<Rightarrow> microkit_cothread_ref_t \<Rightarrow> co_tcb_t" where
  "pd_tcb s h = (case co_controller s of Some c \<Rightarrow> tcb c h | None \<Rightarrow> undefined)"

text \<open>Calls that neither set the argument of \<open>h\<close> nor end its life.\<close>

fun spares :: "microkit_cothread_ref_t \<Rightarrow> sched \<Rightarrow> api_call \<Rightarrow> bool" where
  "spares h a (Call_set_arg k x) = (k \<noteq> h)"
| "spares h a (Call_destroy k) = (sp_running a \<noteq> h)"
| "spares h a Entry_returns = (sp_running a \<noteq> h)"
| "spares h a call = True"

definition spares_run :: "microkit_cothread_ref_t \<Rightarrow> api_call list \<Rightarrow> sched \<Rightarrow> bool" where
  "spares_run h = run_allowed (spares h) spec_api"

lemma spared_not_free:
  assumes "spares h a call" and "allowed cfg a call" and "h \<notin> set (sp_free a)"
  shows "h \<notin> set (sp_free (spec_api call a))"
  using assms
  by (cases call)
    (auto simp: spec_yield_def spec_exit_def spec_dispatch_def spec_wait_def spec_signal_def
      spec_sem_init_def spec_spawn_def split: list.splits option.splits prod.splits bool.splits)

lemma same_world_tcb:
  assumes "same_world s s'" and "co_controller s = Some c" and "valid_ref c h"
  shows "core (pd_tcb s' h) = core (pd_tcb s h)"
proof -
  obtain c' where c': "co_controller s' = Some c'" "map core (tcbs c') = map core (tcbs c)"
    using assms(1,2) by (auto simp: same_world_def pd_cores_def cores_def)
  have "core (tcbs c' ! nat h) = core (tcbs c ! nat h)"
    using c'(2) assms(3) unfolding valid_ref_def
    by (metis length_map nat_less_iff nth_map)
  then show ?thesis using assms(2) c'(1) by (simp add: pd_tcb_def tcb_def)
qed

lemma spared_tcb:
  assumes "refines cfg a s" and "allowed cfg a call" and "api cfg call s = Inr s'"
    and "spares h a call" and "0 \<le> h" "h < int (max_cothreads cfg)" "h \<notin> set (sp_free a)"
  shows "client_entry (pd_tcb s' h) = client_entry (pd_tcb s h)"
    "private_arg (pd_tcb s' h) = private_arg (pd_tcb s h)"
proof -
  obtain c where c: "co_controller s = Some c" "ctl_rel cfg a c" using refinesE [OF assms(1)] by blast
  have v: "valid_ref c h" using assms(5,6) by (simp add: ctl_rel_valid [OF c(2)])
  consider (spawn) e x where "call = Call_spawn e x" | (set_arg) k x where "call = Call_set_arg k x"
    | (other) "\<forall>e x. call \<noteq> Call_spawn e x" "\<forall>k x. call \<noteq> Call_set_arg k x" by blast
  then have "client_entry (pd_tcb s' h) = client_entry (pd_tcb s h) \<and>
      private_arg (pd_tcb s' h) = private_arg (pd_tcb s h)"
  proof cases
    case spawn
    show ?thesis
    proof (cases "sp_free a")
      case Nil
      then show ?thesis using spawn_empty [OF assms(1) Nil, of e x] assms(2,3) spawn by simp
    next
      case (Cons k ks)
      then obtain t where "microkit_cothread_spawn cfg e x s = Inr (t, k)" "spawned cfg e x k s t"
        using spawn_refines [OF assms(1) Cons, of e x] assms(2) spawn by auto
      then show ?thesis using assms(3,5,7) spawn Cons c(1) by (auto simp: spawned_def pd_tcb_def)
    qed
  next
    case set_arg
    then show ?thesis
      using assms(2-5) set_arg_refines [OF assms(1), of k x] by (auto simp: pd_tcb_def)
  next
    case other
    have "core (pd_tcb s' h) = core (pd_tcb s h)"
      by (rule same_world_tcb [OF same_world_call [OF assms(3) other] c(1) v])
    from core_eqD(3,4) [OF this] show ?thesis by blast
  qed
  then show "client_entry (pd_tcb s' h) = client_entry (pd_tcb s h)"
    "private_arg (pd_tcb s' h) = private_arg (pd_tcb s h)" by simp_all
qed

lemma spared_run:
  assumes "refines cfg a s" and "co_allowed cfg calls a" and "spares_run h calls a"
    and "0 \<le> h" "h < int (max_cothreads cfg)" "h \<notin> set (sp_free a)"
  shows "\<exists>s'. co_run cfg calls s = Inr s' \<and> refines cfg (spec_run calls a) s' \<and>
    h \<notin> set (sp_free (spec_run calls a)) \<and>
    client_entry (pd_tcb s' h) = client_entry (pd_tcb s h) \<and>
    private_arg (pd_tcb s' h) = private_arg (pd_tcb s h)"
  using assms
proof (induction calls arbitrary: a s)
  case Nil
  then show ?case by simp
next
  case (Cons call calls)
  have al: "allowed cfg a call" "co_allowed cfg calls (spec_api call a)"
    "spares h a call" "spares_run h calls (spec_api call a)"
    using Cons.prems(2,3) by (simp_all add: spares_run_def)
  obtain s1 where s1: "api cfg call s = Inr s1" "refines cfg (spec_api call a) s1"
    using api_refines [OF Cons.prems(1) al(1)] by blast
  note t = spared_tcb [OF Cons.prems(1) al(1) s1(1) al(3) Cons.prems(4-6)]
  have "h \<notin> set (sp_free (spec_api call a))" by (rule spared_not_free [OF al(3,1) Cons.prems(6)])
  from Cons.IH [OF s1(2) al(2,4) Cons.prems(4,5) this] show ?case using s1(1) t by auto
qed

lemma my_arg_refines:
  assumes "refines cfg a s"
  shows "microkit_cothread_my_arg s =
    (if sp_running a = 0 then microkit_cothread_panic my_arg_called_from_root
     else Inr (private_arg (pd_tcb s (sp_running a))))"
proof -
  obtain c where c: "spec_ok (max_cothreads cfg) a" "co_controller s = Some c" "ctl_rel cfg a c"
    "get_ctl s = Inr c" using refinesE [OF assms] by blast
  have "valid_ref c (sp_running a)"
    using spec_ok_range(1) [OF c(1)] by (simp add: ctl_rel_valid [OF c(3)] placed_def)
  then show ?thesis using c ctl_relD(2) [OF c(3)]
    by (simp add: microkit_cothread_my_arg_def tcb_at_valid pd_tcb_def)
qed

end
