(* ===== verification/CoDemo.thy ===== *)
theory CoDemo
  imports CoFrame
begin

text \<open>
  A concrete protection domain: three cothreads (the root thread and two more), four
  channels, two stacks of one page in a memory that is mapped everywhere. It is the state
  at which the theorems with hypotheses are applied.
\<close>

definition demo_cfg :: config where
  "demo_cfg = \<lparr>max_cothreads = 3, max_channels = 4, cfg_arch = AArch64,
     addr_co_entrypoint = 0x400100, addr_entry_wrapper = 0x400200, root_handle = 0x500000\<rparr>"

definition demo_stacks :: "addr list" where
  "demo_stacks = [0x10000, 0x20000]"

definition demo_pd0 :: pd where
  "demo_pd0 = \<lparr>co_controller = None, client_sems = (\<lambda>_. zero_sem), co_active_handle = 0x500000,
     pd_mem = (\<lambda>_. Some 0)\<rparr>"

definition demo_boot :: "fault + pd" where
  "demo_boot = microkit_cothread_init demo_cfg 0x8000 0x1000 demo_stacks demo_pd0"

definition demo_pd :: pd where
  "demo_pd = projr demo_boot"

lemma demo_cfg_simps [simp]:
  "max_cothreads demo_cfg = 3" "max_channels demo_cfg = 4" "cfg_arch demo_cfg = AArch64"
  "root_handle demo_cfg = 0x500000" "valid_config demo_cfg"
  by (simp_all add: demo_cfg_def valid_config_def)

lemma demo_mapped: "mapped (pd_mem demo_pd0) a n"
  by (simp add: demo_pd0_def mapped_def)

lemma demo_no_wrap: "no_wrap 0x10000 0x1000" "no_wrap 0x20000 0x1000"
  by (simp_all add: no_wrap_def)

lemma demo_env: "init_env demo_cfg 0x8000 demo_pd0"
  using demo_mapped by (simp add: init_env_def LIBMICROKITCO_CONTROLLER_SIZE_def demo_pd0_def)

lemma demo_given: "stacks_given demo_cfg 0x1000 demo_stacks (pd_mem demo_pd0)"
  using demo_mapped demo_no_wrap by (simp add: stacks_given_def demo_stacks_def)

lemma demo_inside:
  fixes x :: addr
  shows "inside x 0x10000 0x1000 \<longleftrightarrow> 0x10000 \<le> unat x \<and> unat x < 0x11000"
    "inside x 0x20000 0x1000 \<longleftrightarrow> 0x20000 \<le> unat x \<and> unat x < 0x21000"
  using inside_no_wrap [OF demo_no_wrap(1), of x] inside_no_wrap [OF demo_no_wrap(2), of x]
  by simp_all

lemma demo_disjoint: "stacks_disjoint 0x1000 demo_stacks"
  by (auto simp: stacks_disjoint_def demo_stacks_def demo_inside less_Suc_eq nth_Cons')

lemma demo_nonnull: "0 \<notin> set demo_stacks"
  by (simp add: demo_stacks_def)

lemma demo_root: "\<forall>st \<in> set demo_stacks. \<not> inside (root_handle demo_cfg) st (unat (0x1000 :: addr))"
  by (simp add: demo_stacks_def demo_inside)

lemma demo_boots: "demo_boot = Inr demo_pd"
  and demo_refines: "refines demo_cfg (spec_initial demo_cfg) demo_pd"
proof -
  obtain s where "demo_boot = Inr s" "refines demo_cfg (spec_initial demo_cfg) s"
    using init_refines [OF demo_env _ _ demo_given demo_nonnull demo_disjoint demo_root]
    unfolding demo_boot_def by auto
  moreover from this(1) have "demo_pd = s" unfolding demo_pd_def by (metis sum.sel(2))
  ultimately show "demo_boot = Inr demo_pd" "refines demo_cfg (spec_initial demo_cfg) demo_pd"
    by blast+
qed

lemma demo_initial:
  "spec_initial demo_cfg = \<lparr>sp_running = 0, sp_ready = [], sp_free = [1, 2],
     sp_sems = sp_sems (spec_initial demo_cfg)\<rparr>"
  "sp_sems (spec_initial demo_cfg) (ChannelSem ch) = (if ch < 4 then Some (False, []) else None)"
  "sp_sems (spec_initial demo_cfg) (ClientSem b) = None"
  by (simp_all add: spec_initial_def upt_rec)

subsection \<open>A later state\<close>

text \<open>Two cothreads are spawned and both block on channel 0; the root thread runs again.\<close>

definition demo_calls :: "api_call list" where
  "demo_calls = [Call_spawn 0x401000 7, Call_spawn 0x402000 9, Call_yield,
     Call_wait_on_channel 0, Call_wait_on_channel 0]"

definition demo_sched :: sched where
  "demo_sched = spec_run demo_calls (spec_initial demo_cfg)"

definition demo_pd1 :: pd where
  "demo_pd1 = projr (co_run demo_cfg demo_calls demo_pd)"

lemma demo_spec_simps:
  "sp_running (spec_initial demo_cfg) = 0" "sp_ready (spec_initial demo_cfg) = []"
  "sp_free (spec_initial demo_cfg) = [1, 2]"
  by (simp_all add: demo_initial(1) [THEN arg_cong [where f = sp_running]]
      demo_initial(1) [THEN arg_cong [where f = sp_ready]]
      demo_initial(1) [THEN arg_cong [where f = sp_free]])

lemmas demo_steps = spec_spawn_def spec_yield_def spec_dispatch_def spec_wait_def spec_signal_def
  spec_exit_def spec_sem_init_def waiters_def spec_state_def demo_spec_simps demo_initial(2,3)

lemma demo_calls_allowed: "co_allowed demo_cfg demo_calls (spec_initial demo_cfg)"
  by (simp add: demo_calls_def demo_steps)

lemma demo_sched_simps:
  "sp_running demo_sched = 0" "sp_ready demo_sched = []" "sp_free demo_sched = []"
  "sp_sems demo_sched (ChannelSem 0) = Some (False, [1, 2])"
  "sp_sems demo_sched (ChannelSem 1) = Some (False, [])"
  by (simp_all add: demo_sched_def demo_calls_def demo_steps)

lemma projr_the: "x = Inr y \<Longrightarrow> projr x = y"
  by (metis sum.sel(2))

lemma demo_runs: "co_run demo_cfg demo_calls demo_pd = Inr demo_pd1"
  and demo_refines1: "refines demo_cfg demo_sched demo_pd1"
proof -
  obtain s where s: "co_run demo_cfg demo_calls demo_pd = Inr s" "refines demo_cfg demo_sched s"
    using co.run_sim [OF demo_refines demo_calls_allowed] unfolding demo_sched_def by blast
  then have "demo_pd1 = s" unfolding demo_pd1_def by (intro projr_the)
  with s show "co_run demo_cfg demo_calls demo_pd = Inr demo_pd1"
    "refines demo_cfg demo_sched demo_pd1" by blast+
qed

text \<open>A state in which cothread 1 runs and 2 and the root thread are ready.\<close>

definition demo_calls2 :: "api_call list" where
  "demo_calls2 = [Call_spawn 0x401000 7, Call_spawn 0x402000 9, Call_yield]"

definition demo_sched2 :: sched where
  "demo_sched2 = spec_run demo_calls2 (spec_initial demo_cfg)"

definition demo_pd2 :: pd where
  "demo_pd2 = projr (co_run demo_cfg demo_calls2 demo_pd)"

lemma demo_calls2_allowed: "co_allowed demo_cfg demo_calls2 (spec_initial demo_cfg)"
  by (simp add: demo_calls2_def demo_steps)

lemma demo_sched2_simps:
  "sp_running demo_sched2 = 1" "sp_ready demo_sched2 = [2, 0]" "sp_free demo_sched2 = []"
  "sp_sems demo_sched2 (ChannelSem 0) = Some (False, [])"
  by (simp_all add: demo_sched2_def demo_calls2_def demo_steps)

lemma demo_runs2: "co_run demo_cfg demo_calls2 demo_pd = Inr demo_pd2"
  and demo_refines2: "refines demo_cfg demo_sched2 demo_pd2"
proof -
  obtain s where s: "co_run demo_cfg demo_calls2 demo_pd = Inr s" "refines demo_cfg demo_sched2 s"
    using co.run_sim [OF demo_refines demo_calls2_allowed] unfolding demo_sched2_def by blast
  then have "demo_pd2 = s" unfolding demo_pd2_def by (intro projr_the)
  with s show "co_run demo_cfg demo_calls2 demo_pd = Inr demo_pd2"
    "refines demo_cfg demo_sched2 demo_pd2" by blast+
qed

lemma demo_reachable: "co_reachable demo_cfg (spec_initial demo_cfg, demo_pd)"
proof -
  have "microkit_cothread_init demo_cfg 0x8000 0x1000 demo_stacks demo_pd0 = Inr demo_pd"
    using demo_boots by (simp add: demo_boot_def)
  then show ?thesis
    by (rule co_reachable.booted [OF demo_env _ _ demo_given demo_nonnull demo_disjoint demo_root, rotated 2])
      simp_all
qed

end
