(* ===== verification/CoFindings.thy ===== *)
theory CoFindings
  imports CoDemo
begin

text \<open>
  Where the code does something else than its documentation or its comments say. Each
  lemma starts from a state that refines the specification, so the caller has followed
  the rules up to this point.
\<close>

subsection \<open>The guard of \<open>destroy\<close>\<close>

text \<open>
  The guard against destroying the root thread tests who is calling, not who is to be
  destroyed: the root thread can destroy nobody, and a cothread can destroy the root.
\<close>

lemma refines_tcb_at:
  assumes "refines cfg a s" and "0 \<le> h" and "h < int (max_cothreads cfg)"
  obtains c where "get_ctl s = Inr c" "ctl_rel cfg a c" "spec_ok (max_cothreads cfg) a"
    "tcb_at c h = Inr (tcb c h)" "tcb_state (tcb c h) = spec_state a h" "running c = sp_running a"
    "co_controller s = Some c"
proof -
  obtain c where c: "spec_ok (max_cothreads cfg) a" "ctl_rel cfg a c" "get_ctl s = Inr c"
    "co_controller s = Some c"
    using refinesE [OF assms(1)] by blast
  have "valid_ref c h" using assms(2,3) by (simp add: ctl_rel_valid [OF c(2)])
  with c show ?thesis
    using that ctl_relD(2) [OF c(2)] ctl_relD(3) [OF c(2) assms(2,3)] tcb_at_valid by blast
qed

lemma root_destroys_nobody:
  assumes "refines cfg a s" and "sp_running a = 0" and "0 \<le> h" "h < int (max_cothreads cfg)"
    and "spec_state a h \<noteq> cothread_not_active"
  shows "microkit_cothread_destroy cfg h s = microkit_cothread_panic destroy_cannot_destroy_root"
proof -
  obtain c where c: "get_ctl s = Inr c" "tcb_at c h = Inr (tcb c h)"
    "tcb_state (tcb c h) = spec_state a h" "running c = sp_running a"
    using refines_tcb_at [OF assms(1,3,4)] by metis
  show ?thesis using c assms(2-5) by (simp add: microkit_cothread_destroy_def)
qed

text \<open>What destroying a cothread other than the caller does to the controller.\<close>

lemma destroy_other:
  assumes "refines cfg a s" and "sp_running a \<noteq> 0" and "0 \<le> h" "h < int (max_cothreads cfg)"
    and "spec_state a h \<noteq> cothread_not_active" and "h \<noteq> sp_running a"
  shows "\<exists>c c1 s1. co_controller s = Some c \<and> microkit_cothread_destroy cfg h s = Inr s1 \<and>
    s1 = put_ctl c1 s \<and> queues_ok (max_cothreads cfg) c1 \<and> length (tcbs c1) = max_cothreads cfg \<and>
    ready_list c1 = sp_ready a \<and> free_list c1 = sp_free a @ [h] \<and> running c1 = sp_running a \<and>
    co_stack_size c1 = co_stack_size c \<and>
    (\<forall>k\<ge>0. tcb c1 k = (if k = h then (tcb c h)\<lparr>tcb_state := cothread_not_active\<rparr> else tcb c k))"
proof -
  obtain c where c: "get_ctl s = Inr c" "ctl_rel cfg a c" "spec_ok (max_cothreads cfg) a"
    "tcb_at c h = Inr (tcb c h)" "tcb_state (tcb c h) = spec_state a h" "running c = sp_running a"
    "co_controller s = Some c"
    using refines_tcb_at [OF assms(1,3,4)] by metis
  note R = ctl_relD [OF c(2)]
  obtain c1 where c1: "free_push h c = Inr (LIBHOSTEDQUEUE_NOERR, c1)"
    "queues_ok (max_cothreads cfg) c1" "same_but_queues c c1"
    "free_list c1 = sp_free a @ [h]" "ready_list c1 = sp_ready a"
    using free_push_room [OF R(5), of h] spec_ok_room(2) [OF c(3)] R by auto
  note views = same_but_queues_views [OF c1(3)]
  have v: "valid_ref c1 h" using assms(3,4) by (simp add: views ctl_rel_valid [OF c(2)])
  let ?c = "upd_tcb h (\<lambda>t. t\<lparr>tcb_state := cothread_not_active\<rparr>) c1"
  have "microkit_cothread_destroy cfg h s = Inr (put_ctl ?c s)"
    using c c1(1) v views assms(2-6)
    by (simp add: microkit_cothread_destroy_def set_state_def mod_tcb_valid upd_tcb_select)
  then show ?thesis using c c1 v views R(6) assms(3)
    by (intro exI [of _ c] exI [of _ ?c] exI [of _ "put_ctl ?c s"]) (simp add: ctl_simps)
qed

lemma cothread_destroys_root:
  assumes "refines cfg a s" and "sp_running a \<noteq> 0"
  shows "\<exists>s'. microkit_cothread_destroy cfg 0 s = Inr s' \<and>
    microkit_cothread_query_state cfg 0 s' = Inr cothread_not_active"
proof -
  obtain c where "spec_ok (max_cothreads cfg) a" using refinesE [OF assms(1)] by blast
  note ok = this
  have pos: "0 < int (max_cothreads cfg)" using spec_ok_room(1) [OF ok] by linarith
  have "0 \<in> set (sp_ready a)" using spec_okD(7) [OF ok] assms(2) by simp
  then have "spec_state a 0 \<noteq> cothread_not_active" using assms(2) by (simp add: spec_state_def)
  from destroy_other [OF assms order_refl pos this] assms(2) obtain c1 where
    c1: "microkit_cothread_destroy cfg 0 s = Inr (put_ctl c1 s)" "length (tcbs c1) = max_cothreads cfg"
    "tcb_state (tcb c1 0) = cothread_not_active" by auto
  then have "microkit_cothread_query_state cfg 0 (put_ctl c1 s) = Inr cothread_not_active"
    using pos by (simp add: microkit_cothread_query_state_def get_ctl_def tcb_at_valid valid_ref_def)
  with c1(1) show ?thesis by blast
qed

subsection \<open>Destroying a ready cothread\<close>

text \<open>
  A destroyed ready cothread stays in the scheduling queue until the scheduler pops it.
  When its handle is spawned again before that, it is in the queue twice: the new
  cothread runs at the place of the old one.
\<close>

lemma co_active_same: "refines cfg a s \<Longrightarrow> co_active_handle t = co_active_handle s \<Longrightarrow> co_active cfg t = (t, co_active_handle t)"
  using co_active_running [of cfg a s] by (auto simp: co_active_def Let_def split: if_splits)

lemma respawn_twice_in_queue:
  assumes "refines cfg a s" and "sp_running a \<noteq> 0" and "h \<in> set (sp_ready a)" and "h \<noteq> 0"
    and "sp_free a = []" and "entry \<noteq> 0"
  shows "\<exists>s1 s2 c2. microkit_cothread_destroy cfg h s = Inr s1 \<and>
    microkit_cothread_spawn cfg entry arg s1 = Inr (s2, h) \<and> co_controller s2 = Some c2 \<and>
    ready_list c2 = sp_ready a @ [h] \<and> queues_ok (max_cothreads cfg) c2 \<and>
    tcb_state (tcb c2 h) = cothread_ready \<and> running c2 = sp_running a"
proof -
  have ok: "spec_ok (max_cothreads cfg) a" using refinesE [OF assms(1)] by blast
  have h: "0 \<le> h" "h < int (max_cothreads cfg)" "h \<noteq> sp_running a" "1 \<le> h"
    using spec_ok_range(1) [OF ok, of h] spec_okD(1) [OF ok] assms(3,4) by (auto simp: placed_def)
  have act: "spec_state a h \<noteq> cothread_not_active" using assms(3) h(3) by (simp add: spec_state_def)
  obtain c c1 where c1: "co_controller s = Some c"
    "microkit_cothread_destroy cfg h s = Inr (put_ctl c1 s)" "queues_ok (max_cothreads cfg) c1"
    "length (tcbs c1) = max_cothreads cfg" "ready_list c1 = sp_ready a" "free_list c1 = [h]"
    "running c1 = sp_running a" "co_stack_size c1 = co_stack_size c"
    and t1: "\<forall>k\<ge>0. tcb c1 k = (if k = h then (tcb c h)\<lparr>tcb_state := cothread_not_active\<rparr> else tcb c k)"
    using destroy_other [OF assms(1,2) h(1,2) act h(3)] assms(5) by auto
  have st: "stacks_ok cfg (pd_mem s) c" using assms(1) c1(1) by (auto elim: refinesE)
  let ?m1 = "zeroed (pd_mem s) (local_storage (tcb c h)) (unat (co_stack_size c))"
  obtain m2 where m: "memzero (pd_mem s) (local_storage (tcb c h)) (scast (co_stack_size c)) = Inr ?m1"
    "co_derive (cfg_arch cfg) (addr_co_entrypoint cfg) ?m1 (local_storage (tcb c h)) (co_stack_size c)
       (addr_entry_wrapper cfg)
      = Inr (m2, derived_handle (cfg_arch cfg) (local_storage (tcb c h)) (co_stack_size c))"
    using spawn_stack [OF st h(4,2)] by blast
  obtain c2 where c2: "free_pop 0 c1 = Inr (LIBHOSTEDQUEUE_NOERR, c2, h)"
    "queues_ok (max_cothreads cfg) c2" "same_but_queues c1 c2" "ready_list c2 = sp_ready a"
    using free_pop_front [OF c1(3), of h "[]" 0] c1(5,6) by auto
  note views = same_but_queues_views [OF c2(3)]
  have v: "valid_ref c2 h" using h c1(4) by (simp add: views valid_ref_def)
  let ?c3 = "upd_tcb h (\<lambda>t. t\<lparr>client_entry := entry, private_arg := arg,
       co_handle := derived_handle (cfg_arch cfg) (local_storage (tcb c h)) (co_stack_size c),
       tcb_state := cothread_ready, next_blocked_on_same_event := LIBMICROKITCO_NULL_HANDLE\<rparr>) c2"
  obtain c4 where c4: "sched_push h ?c3 = Inr (LIBHOSTEDQUEUE_NOERR, c4)"
    "queues_ok (max_cothreads cfg) c4" "same_but_queues ?c3 c4" "ready_list c4 = sp_ready a @ [h]"
    using sched_push_room [of "max_cothreads cfg" ?c3 h] c2 spec_ok_room(1) [OF ok]
    by (auto simp: ctl_simps)
  note views4 = same_but_queues_views [OF c4(3)]
  let ?s1 = "put_ctl c1 s"
  have ls: "local_storage (tcb c1 h) = local_storage (tcb c h)" using t1 h(1) by simp
  have act: "co_active cfg ?s1 = (?s1, co_active_handle ?s1)"
    by (rule co_active_same [OF assms(1)]) simp
  have "microkit_cothread_spawn cfg entry arg ?s1 = Inr (put_ctl c4 (?s1\<lparr>pd_mem := m2\<rparr>), h)"
    using assms(6) c2(1) v m ls act c4(1) c1(8)
    by (simp add: microkit_cothread_spawn_def get_ctl_def tcb_at_valid mod_tcb_valid views Let_def)
  moreover have "tcb_state (tcb c4 h) = cothread_ready" "running c4 = sp_running a"
    using views4 views v h(1) c1(7) by (simp_all add: ctl_simps)
  ultimately show ?thesis using c1(2) c4(2,4) by auto
qed

text \<open>
  When every other cothread is ready the queue is full with that, and the next yield of
  the caller panics.
\<close>

lemma respawn_then_yield_panics:
  assumes "refines cfg a s" and "sp_running a \<noteq> 0" and "h \<in> set (sp_ready a)" and "h \<noteq> 0"
    and "sp_free a = []" and "entry \<noteq> 0" and "length (sp_ready a) = max_cothreads cfg - 1"
  shows "\<exists>s1 s2. microkit_cothread_destroy cfg h s = Inr s1 \<and>
    microkit_cothread_spawn cfg entry arg s1 = Inr (s2, h) \<and>
    microkit_cothread_yield s2 = microkit_cothread_panic yield_cannot_schedule_caller"
proof -
  obtain s1 s2 c2 where s: "microkit_cothread_destroy cfg h s = Inr s1"
    "microkit_cothread_spawn cfg entry arg s1 = Inr (s2, h)" "co_controller s2 = Some c2"
    "ready_list c2 = sp_ready a @ [h]" "queues_ok (max_cothreads cfg) c2"
    using respawn_twice_in_queue [OF assms(1-6), of arg] by blast
  have "spec_ok (max_cothreads cfg) a" using refinesE [OF assms(1)] by blast
  from spec_ok_room(1) [OF this] have "length (ready_list c2) = max_cothreads cfg"
    using s(4) assms(7) by simp
  from sched_push_full [OF s(5) this] obtain c3 where
    "sched_push (running c2) c2 = Inr (LIBHOSTEDQUEUE_ERR_FULL, c3)" by blast
  then have "microkit_cothread_yield s2 = microkit_cothread_panic yield_cannot_schedule_caller"
    using s(3) by (simp add: microkit_cothread_yield_def get_ctl_def)
  with s(1,2) show ?thesis by blast
qed

subsection \<open>Blocking the root thread\<close>

text \<open>
  When the root thread waits on an unset semaphore and nothing is ready, the scheduler
  falls back to the root thread itself: the wait returns at once, without a signal, the
  root thread is marked running and still in the semaphore's queue.
\<close>

lemma root_wait_returns:
  assumes "refines cfg a s" and "sp_running a = 0" and "sp_ready a = []"
    and "sp_sems a p = Some (False, [])"
  shows "\<exists>s' c'. pd_semaphore_wait p s = Inr s' \<and> co_controller s' = Some c' \<and>
    co_active_handle s' = co_active_handle s \<and> running c' = 0 \<and>
    tcb_state (tcb c' 0) = cothread_running \<and>
    sem_head (sem_view s' c' p) = 0 \<and> \<not> sem_set (sem_view s' c' p)"
proof -
  obtain c where c: "spec_ok (max_cothreads cfg) a" "co_controller s = Some c" "ctl_rel cfg a c"
    "co_active_handle s = co_handle (tcb c (running c))" "get_ctl s = Inr c"
    using refinesE [OF assms(1)] by blast
  note R = ctl_relD [OF c(3)] and sem = refines_sem_rel [OF assms(1) c(2) assms(4)]
  let ?sem = "sem_view s c p"
  have ws: "waiters a p = []" using assms(4) by (simp add: waiters_def)
  have head: "sem_head ?sem = LIBMICROKITCO_NULL_HANDLE" "\<not> sem_set ?sem"
    using sem(3) by (simp_all add: sem_rel_def)
  have v: "valid_ref c 0"
    using spec_ok_room(1) [OF c(1)] by (simp add: ctl_rel_valid [OF c(3)])
  let ?c1 = "upd_tcb 0 (\<lambda>t. t\<lparr>tcb_state := cothread_blocked\<rparr>) c"
  let ?sem1 = "?sem\<lparr>sem_head := 0, sem_tail := 0\<rparr>"
  have q1: "queues_ok (max_cothreads cfg) ?c1" "ready_list ?c1 = []" using R assms(3) by (simp_all add: ctl_simps)
  have next0: "next_running ?c1 = 0" using q1(2) by (simp add: next_running_def first_choice_def)
  obtain c2 where c2: "internal_go_next ?c1 = Inr (c2, co_handle (tcb ?c1 0))" "running c2 = 0"
    "tcb c2 0 = (tcb ?c1 0)\<lparr>tcb_state := cothread_running\<rparr>"
    "blocked_channel_map c2 = blocked_channel_map c"
    using internal_go_next_spec [OF q1(1)] q1(2) v next0 by (auto simp: ctl_simps)
  have hand: "co_handle (tcb ?c1 0) = co_active_handle s"
    using c(4) R(2) assms(2) v by (simp add: ctl_simps)
  have op: "microkit_cothread_semaphore_wait ?sem c = Inr (?sem1, c2, Some (co_active_handle s))"
    using head R(2) assms(2) v c2(1) hand
    by (simp add: microkit_cothread_semaphore_wait_def set_state_def mod_tcb_valid upd_tcb_select)
  have len: "length (blocked_channel_map c2) = max_channels cfg" using c2(4) R(9) by simp
  obtain s1 c3 where w: "sem_write p ?sem1 (put_ctl c2 s) = Inr s1" "co_controller s1 = Some c3"
    "c3 = c2\<lparr>blocked_channel_map := blocked_channel_map c3\<rparr>"
    "\<And>q. valid_ptr cfg q \<Longrightarrow> sem_view s1 c3 q = (if q = p then ?sem1 else sem_view s c2 q)"
    "co_active_handle s1 = co_active_handle s"
    using sem_write_view [OF sem(4) len, of ?sem1 s] by blast
  let ?s = "co_switch (co_active_handle s) s1"
  have "pd_semaphore_wait p s = Inr ?s"
    using c(5) sem_read_view [OF c(2) sem(4) R(9)] op w(1)
    by (simp add: pd_semaphore_wait_def on_sem_def switch_to_def)
  moreover have "running c3 = 0" "tcb_state (tcb c3 0) = cothread_running"
    using c2(2,3) by (subst w(3), simp)+
  moreover have "sem_view ?s c3 p = ?sem1" using w(4) [OF sem(4)]
    by (simp add: sem_view_def split: sem_ptr.splits)
  ultimately show ?thesis using w(2) head(2) by (intro exI [of _ ?s] exI [of _ c3]) simp
qed

end
