(* ===== verification/CoContracts.thy ===== *)
theory CoContracts
  imports CoFindings
begin

text \<open>
  The contract of each public operation in one theorem: what it returns and leaves on
  every branch, from any state that refines the specification.
\<close>

section \<open>Scheduling operations\<close>

text \<open>
  C16: \<open>yield\<close> puts its caller at the back of the ready queue and runs the front of it; every
  entry point, argument, stack and context handle and every semaphore in client memory
  stay as they were. With an empty queue the caller keeps running.
\<close>

theorem yield_contract:
  assumes "refines cfg a s"
  shows "\<exists>s'. microkit_cothread_yield s = Inr s' \<and> refines cfg (spec_yield a) s' \<and>
    microkit_cothread_my_handle s' = Inr (hd (sp_ready a @ [sp_running a])) \<and>
    pd_cores s' = pd_cores s \<and> client_sems s' = client_sems s"
proof -
  obtain s' where s': "microkit_cothread_yield s = Inr s'" "refines cfg (spec_yield a) s'"
    using yield_refines [OF assms] by blast
  have "sp_running (spec_yield a) = hd (sp_ready a @ [sp_running a])"
    by (cases "sp_ready a") (simp_all add: spec_yield_def spec_dispatch_def)
  with s' same_world_yield [OF s'(1)] client_sems_yield [OF s'(1)] my_handle_refines [OF s'(2)]
  show ?thesis by (auto simp: same_world_def)
qed

theorem yield_contract_witness:
  "\<exists>s'. microkit_cothread_yield demo_pd2 = Inr s' \<and> microkit_cothread_my_handle s' = Inr 2"
  using yield_contract [OF demo_refines2] by (auto simp: demo_sched2_simps)

text \<open>
  C17: \<open>wait\<close> on a set semaphore clears it and returns to its caller; on an unset one the
  caller goes to the end of the semaphore's queue, is blocked, and the front of the ready
  queue runs.
\<close>

theorem wait_contract:
  assumes "refines cfg a s" and "sp_sems a p = Some (f, ws)" and "f \<or> sp_running a \<noteq> 0"
  shows "\<exists>s'. pd_semaphore_wait p s = Inr s' \<and> refines cfg (spec_wait p a) s' \<and>
    (if f then microkit_cothread_my_handle s' = Inr (sp_running a)
     else microkit_cothread_my_handle s' = Inr (hd (sp_ready a)) \<and>
       microkit_cothread_query_state cfg (sp_running a) s' = Inr cothread_blocked \<and>
       sp_sems (spec_wait p a) p = Some (False, ws @ [sp_running a]))"
proof -
  obtain s' where s': "pd_semaphore_wait p s = Inr s'" "refines cfg (spec_wait p a) s'"
    using wait_refines [OF assms] by blast
  note my = my_handle_refines [OF s'(2)]
  have ok: "spec_ok (max_cothreads cfg) a" using refinesE [OF assms(1)] by blast
  have run: "0 \<le> sp_running a" "sp_running a < int (max_cothreads cfg)"
    using spec_ok_range(1) [OF ok] by (auto simp: placed_def)
  show ?thesis
  proof (cases f)
    case True
    then have "sp_running (spec_wait p a) = sp_running a" using assms(2) by (simp add: spec_wait_def)
    then show ?thesis using True s' my by auto
  next
    case False
    obtain h hs where r: "sp_ready a = h # hs"
      using spec_ok_ready_nonempty [OF ok] assms(3) False by (cases "sp_ready a") auto
    have w: "sp_running (spec_wait p a) = h" "sp_ready (spec_wait p a) = hs"
      "sp_free (spec_wait p a) = sp_free a"
      using assms(2) False r by (simp_all add: spec_wait_def spec_dispatch_def)
    then have "spec_state (spec_wait p a) (sp_running a) = cothread_blocked"
      using spec_okD(1) [OF ok] r by (auto simp: spec_state_def placed_def)
    then show ?thesis
      using False s' my w(1) r query_state_refines [OF s'(2) run] assms(2)
      by (auto simp: spec_wait_appends)
  qed
qed

theorem wait_contract_witness:
  "\<exists>s'. pd_semaphore_wait (ChannelSem 0) demo_pd2 = Inr s' \<and>
    microkit_cothread_my_handle s' = Inr 2 \<and>
    microkit_cothread_query_state demo_cfg 1 s' = Inr cothread_blocked"
  using wait_contract [OF demo_refines2 demo_sched2_simps(4)] by (auto simp: demo_sched2_simps)

text \<open>
  C18: \<open>signal\<close> on a semaphore somebody waits on makes the first waiter run at once, not the
  front of the ready queue, and puts the caller at the back of it; with nobody waiting it
  sets the flag, and on a set semaphore it does nothing.
\<close>

theorem signal_contract:
  assumes "refines cfg a s" and "sp_sems a p = Some (f, ws)"
  shows "\<exists>s'. pd_semaphore_signal p s = Inr s' \<and> refines cfg (spec_signal p a) s' \<and>
    (case ws of [] \<Rightarrow> microkit_cothread_my_handle s' = Inr (sp_running a) \<and>
        sp_sems (spec_signal p a) p = Some (True, [])
     | w # vs \<Rightarrow> microkit_cothread_my_handle s' = Inr w \<and>
        sp_ready (spec_signal p a) = sp_ready a @ [sp_running a] \<and>
        sp_sems (spec_signal p a) p = Some (False, vs))"
proof -
  obtain s' where s': "pd_semaphore_signal p s = Inr s'" "refines cfg (spec_signal p a) s'"
    using signal_refines [OF assms] by blast
  have "f \<Longrightarrow> ws = []" using spec_okD(6) [of "max_cothreads cfg" a p ws] assms by (auto elim: refinesE)
  then show ?thesis using s' my_handle_refines [OF s'(2)] assms(2)
    by (cases ws; cases f) (auto simp: spec_signal_def)
qed

theorem signal_contract_witness:
  "\<exists>s'. pd_semaphore_signal (ChannelSem 0) demo_pd1 = Inr s' \<and> microkit_cothread_my_handle s' = Inr 1"
  using signal_contract [OF demo_refines1 demo_sched_simps(4)] by auto

text \<open>
  C19: \<open>recv_ntfn\<close> forwards a notification only in the root thread and only for a channel
  the Microkit has; otherwise it panics with the code for the reason, checked in this
  order.
\<close>

theorem recv_ntfn_contract:
  assumes "refines cfg a s" and "\<forall>ch < max_channels cfg. sp_sems a (ChannelSem ch) \<noteq> None"
  shows "if sp_running a \<noteq> 0
    then microkit_cothread_recv_ntfn cfg ch s = microkit_cothread_panic recv_ntfn_called_from_non_root_cothread
    else if max_channels cfg \<le> unat ch
    then microkit_cothread_recv_ntfn cfg ch s = microkit_cothread_panic recv_ntfn_invalid_channel
    else \<exists>s'. microkit_cothread_recv_ntfn cfg ch s = Inr s' \<and>
      refines cfg (spec_signal (ChannelSem (unat ch)) a) s'"
proof -
  obtain c where c: "co_controller s = Some c" "get_ctl s = Inr c" "running c = sp_running a"
    using refinesE [OF assms(1)] ctl_relD(2) by metis
  show ?thesis
  proof (cases "sp_running a \<noteq> 0 \<or> max_channels cfg \<le> unat ch")
    case True
    then show ?thesis using c by (auto simp: microkit_cothread_recv_ntfn_def)
  next
    case False
    then have "sp_sems a (ChannelSem (unat ch)) \<noteq> None" using assms(2) by simp
    then obtain f ws where "sp_sems a (ChannelSem (unat ch)) = Some (f, ws)" by auto
    from recv_ntfn_refines [OF assms(1) this] False show ?thesis by auto
  qed
qed

theorem recv_ntfn_contract_witness:
  "microkit_cothread_recv_ntfn demo_cfg 9 demo_pd = microkit_cothread_panic recv_ntfn_invalid_channel"
proof -
  have "\<forall>ch < max_channels demo_cfg. sp_sems (spec_initial demo_cfg) (ChannelSem ch) \<noteq> None"
    by (simp add: demo_initial(2))
  from recv_ntfn_contract [OF demo_refines this, of 9] show ?thesis by (simp add: demo_spec_simps)
qed

section \<open>Spawning and leaving\<close>

text \<open>
  C20: \<open>spawn\<close> hands out the free handles first in, first out: it fills in the control block,
  leaves the stack of the new cothread zero but for the context that \<open>co_derive\<close> prepares in it
  for \<open>cothread_entry_wrapper\<close>, touches no other memory, and puts the cothread at the back of
  the ready queue without switching. With no free handle it changes nothing and returns the
  null handle; a null entry point is a panic.
\<close>

theorem spawn_contract:
  assumes "refines cfg a s"
  shows "if entry = 0
    then microkit_cothread_spawn cfg entry arg s = microkit_cothread_panic spawn_client_entry_is_null
    else case sp_free a of
      [] \<Rightarrow> microkit_cothread_spawn cfg entry arg s = Inr (s, LIBMICROKITCO_NULL_HANDLE)
    | h # hs \<Rightarrow> \<exists>s'. microkit_cothread_spawn cfg entry arg s = Inr (s', h) \<and>
        refines cfg (a\<lparr>sp_free := hs, sp_ready := sp_ready a @ [h]\<rparr>) s' \<and>
        spawned cfg entry arg h s s'"
proof (cases "sp_free a")
  case Nil
  then show ?thesis using spawn_empty [OF assms Nil]
    by (auto simp: microkit_cothread_spawn_def)
next
  case (Cons h hs)
  then show ?thesis using spawn_refines [OF assms Cons]
    by (auto simp: microkit_cothread_spawn_def spec_spawn_def)
qed

theorem spawn_contract_witness:
  "(\<exists>s'. microkit_cothread_spawn demo_cfg 0x401000 7 demo_pd = Inr (s', 1)) \<and>
    microkit_cothread_spawn demo_cfg 0x401000 7 demo_pd1 = Inr (demo_pd1, LIBMICROKITCO_NULL_HANDLE)"
  using spawn_contract [OF demo_refines, of "0x401000" 7]
    spawn_contract [OF demo_refines1, of "0x401000" 7]
  by (auto simp: demo_spec_simps demo_sched_simps)

text \<open>
  \<open>free_handle_available\<close> tells the truth: it answers true exactly when the next \<open>spawn\<close>
  succeeds, and the handle it writes is the one that \<open>spawn\<close> returns.
\<close>

lemma free_handle_announced:
  assumes "refines cfg a s" and "entry \<noteq> 0"
  shows "\<exists>b h. microkit_cothread_free_handle_available r s = Inr (b, h) \<and>
    (if b then \<exists>s'. microkit_cothread_spawn cfg entry arg s = Inr (s', h)
     else microkit_cothread_spawn cfg entry arg s = Inr (s, LIBMICROKITCO_NULL_HANDLE))"
proof (cases "sp_free a")
  case Nil
  then show ?thesis
    using free_handle_available_refines [OF assms(1), of r] spawn_empty [OF assms(1) Nil assms(2)] by auto
next
  case (Cons h hs)
  then show ?thesis
    using free_handle_available_refines [OF assms(1), of r] spawn_refines [OF assms(1) Cons assms(2)] by auto
qed

text \<open>
  When an entry point returns, its cothread gives its handle back at the end of the
  free handles, the front of the ready queue runs on another context, and the panic after
  the destruction is not reached.
\<close>

theorem entry_return_contract:
  assumes "refines cfg a s" and "sp_running a \<noteq> 0"
  shows "\<exists>s'. cothread_entry_wrapper_return cfg s = Inr s' \<and> refines cfg (spec_exit a) s' \<and>
    microkit_cothread_my_handle s' = Inr (hd (sp_ready a)) \<and>
    microkit_cothread_query_state cfg (sp_running a) s' = Inr cothread_not_active \<and>
    sp_free (spec_exit a) = sp_free a @ [sp_running a] \<and> same_world s s'"
proof -
  obtain s' where s': "cothread_entry_wrapper_return cfg s = Inr s'" "refines cfg (spec_exit a) s'"
    using entry_wrapper_return_refines [OF assms] by blast
  have ok: "spec_ok (max_cothreads cfg) a" using refinesE [OF assms(1)] by blast
  have run: "0 \<le> sp_running a" "sp_running a < int (max_cothreads cfg)"
    using spec_ok_range(1) [OF ok] by (auto simp: placed_def)
  obtain h hs where r: "sp_ready a = h # hs"
    using spec_ok_ready_nonempty [OF ok assms(2)] by (cases "sp_ready a") auto
  have x: "sp_running (spec_exit a) = h" "sp_ready (spec_exit a) = hs"
    "sp_free (spec_exit a) = sp_free a @ [sp_running a]"
    by (simp_all add: spec_exit_def spec_dispatch_def r)
  then have "spec_state (spec_exit a) (sp_running a) = cothread_not_active"
    using spec_okD(1) [OF ok] r by (auto simp: spec_state_def placed_def)
  with s' x r show ?thesis
    using my_handle_refines [OF s'(2)] query_state_refines [OF s'(2) run]
      same_world_entry_returns [OF s'(1)] by auto
qed

theorem entry_return_contract_example:
  "\<exists>s'. cothread_entry_wrapper_return demo_cfg demo_pd2 = Inr s' \<and>
    microkit_cothread_my_handle s' = Inr 2 \<and>
    microkit_cothread_query_state demo_cfg 1 s' = Inr cothread_not_active"
  using entry_return_contract [OF demo_refines2] by (auto simp: demo_sched2_simps)

text \<open>
  C21: A cothread finds the argument it was spawned with, and the entry point in its control
  block, whenever it runs, whatever ran before, as long as nobody sets its argument and it
  has not ended.
\<close>

theorem own_argument:
  assumes "refines cfg a s" and "sp_free a = h # hs" and "entry \<noteq> 0"
    and "co_allowed cfg calls (fst (spec_spawn a))" and "spares_run h calls (fst (spec_spawn a))"
    and "sp_running (spec_run calls (fst (spec_spawn a))) = h"
  shows "\<exists>s1 s2. microkit_cothread_spawn cfg entry arg s = Inr (s1, h) \<and> co_run cfg calls s1 = Inr s2 \<and>
    microkit_cothread_my_arg s2 = Inr arg \<and> client_entry (pd_tcb s2 h) = entry"
proof -
  have ok: "spec_ok (max_cothreads cfg) a" using refinesE [OF assms(1)] by blast
  have h: "0 \<le> h" "h < int (max_cothreads cfg)" "h \<noteq> 0" "h \<notin> set hs"
    using spec_ok_range(1) [OF ok] spec_okD(1,7) [OF ok] assms(2) by (auto simp: placed_def)
  obtain s1 where s1: "microkit_cothread_spawn cfg entry arg s = Inr (s1, h)"
    "refines cfg (fst (spec_spawn a)) s1" "spawned cfg entry arg h s s1"
    using spawn_refines [OF assms(1-3)] by blast
  have "h \<notin> set (sp_free (fst (spec_spawn a)))" using h(4) assms(2) by (simp add: spec_spawn_def)
  from spared_run [OF s1(2) assms(4,5) h(1,2) this] obtain s2 where s2: "co_run cfg calls s1 = Inr s2"
    "refines cfg (spec_run calls (fst (spec_spawn a))) s2"
    "client_entry (pd_tcb s2 h) = client_entry (pd_tcb s1 h)"
    "private_arg (pd_tcb s2 h) = private_arg (pd_tcb s1 h)" by blast
  moreover have "client_entry (pd_tcb s1 h) = entry" "private_arg (pd_tcb s1 h) = arg"
    using s1(3) by (auto simp: spawned_def pd_tcb_def)
  ultimately show ?thesis using s1(1) my_arg_refines [OF s2(2)] assms(6) h(3) by auto
qed

theorem own_argument_witness:
  "\<exists>s1 s2. microkit_cothread_spawn demo_cfg 0x401000 7 demo_pd = Inr (s1, 1) \<and>
    co_run demo_cfg [Call_spawn 0x402000 9, Call_yield] s1 = Inr s2 \<and>
    microkit_cothread_my_arg s2 = Inr 7 \<and> client_entry (pd_tcb s2 1) = 0x401000"
  by (rule own_argument [OF demo_refines, where hs = "[2]"])
    (simp_all add: demo_steps spares_run_def)

text \<open>
  C22: No call but \<open>spawn\<close> and \<open>set_arg\<close> changes an entry point, an argument, a stack or a
  context handle of any control block, and no call changes a semaphore in client memory but
  the one it is given.
\<close>

theorem scheduling_frame:
  assumes "api cfg call s = Inr s'"
  shows "((\<forall>e x. call \<noteq> Call_spawn e x) \<and> (\<forall>h x. call \<noteq> Call_set_arg h x) \<longrightarrow>
      pd_cores s' = pd_cores s) \<and>
    (\<forall>a. \<not> names_semaphore call a \<longrightarrow> client_sems s' a = client_sems s a)"
  using same_world_call [OF assms] client_sems_call [OF assms] by (simp_all add: same_world_def)

theorem scheduling_frame_witness:
  "pd_cores (projr (api demo_cfg Call_yield demo_pd)) = pd_cores demo_pd \<and>
    client_sems (projr (api demo_cfg Call_yield demo_pd)) 0x500 = client_sems demo_pd 0x500"
proof -
  obtain s' where "api demo_cfg Call_yield demo_pd = Inr s'"
    using api_refines [OF demo_refines, of Call_yield] by auto
  moreover from this have "projr (api demo_cfg Call_yield demo_pd) = s'" by (rule projr_the)
  ultimately show ?thesis using scheduling_frame [of demo_cfg Call_yield demo_pd s'] by simp
qed

section \<open>Checks\<close>

text \<open>
  C23: \<open>init\<close> decides its arguments exactly: a small stack size, a null stack and two stacks
  that share a byte each end in their panic, in this order, and everything else is
  accepted and leaves the initial state; a second call panics.
\<close>

theorem init_decides:
  assumes "init_env cfg cmem s" and "unat sz \<le> INT_MAX" and "stacks_given cfg sz sts (pd_mem s)"
    and "\<forall>st \<in> set sts. \<not> inside (root_handle cfg) st (unat sz)"
  shows "if sz < 0x1000
    then microkit_cothread_init cfg cmem sz sts s = microkit_cothread_panic init_stack_too_small
    else if 0 \<in> set sts
    then microkit_cothread_init cfg cmem sz sts s = microkit_cothread_panic init_co_stack_null
    else if \<not> stacks_disjoint sz sts
    then microkit_cothread_init cfg cmem sz sts s = microkit_cothread_panic init_co_stack_overlap
    else \<exists>s'. microkit_cothread_init cfg cmem sz sts s = Inr s' \<and> refines cfg (spec_initial cfg) s' \<and>
      microkit_cothread_init cfg cmem sz sts s' = microkit_cothread_panic init_already_initialised"
proof (cases "sz < 0x1000")
  case True
  then show ?thesis using init_small [of s sz] assms(1) by (simp add: init_env_def)
next
  case False
  then have sz: "0x1000 \<le> sz" by (rule leI)
  note bad = init_bad_stacks [OF assms(1) sz assms(3)]
  show ?thesis
  proof (cases "0 \<in> set sts \<or> \<not> stacks_disjoint sz sts")
    case True
    then show ?thesis using False bad by auto
  next
    case ok: False
    then obtain s' where s': "microkit_cothread_init cfg cmem sz sts s = Inr s'"
      "refines cfg (spec_initial cfg) s'"
      using init_refines [OF assms(1) sz assms(2,3) _ _ assms(4)] by blast
    then have "co_controller s' \<noteq> None" using refines_ctl by fastforce
    from init_again [OF this] show ?thesis using False ok s' by auto
  qed
qed

theorem init_decides_witness:
  "microkit_cothread_init demo_cfg 0x8000 0x1000 [0x10000, 0x10800] demo_pd0
    = microkit_cothread_panic init_co_stack_overlap"
proof -
  have nw: "no_wrap 0x10800 0x1000" by (simp add: no_wrap_def)
  have in2: "inside x 0x10800 0x1000 \<longleftrightarrow> 0x10800 \<le> unat x \<and> unat x < 0x11800" for x :: addr
    using inside_no_wrap [OF nw, of x] by simp
  have g: "stacks_given demo_cfg 0x1000 [0x10000, 0x10800] (pd_mem demo_pd0)"
    using demo_mapped demo_no_wrap nw by (simp add: stacks_given_def)
  have r: "\<forall>st \<in> set [0x10000, 0x10800]. \<not> inside (root_handle demo_cfg) st (unat (0x1000 :: addr))"
    by (simp add: demo_inside in2)
  have "inside 0x10800 (0x10000 :: addr) 0x1000 \<and> inside 0x10800 (0x10800 :: addr) 0x1000"
    by (simp add: demo_inside in2)
  then have "\<not> stacks_disjoint 0x1000 [0x10000, 0x10800]"
    unfolding stacks_disjoint_def by (intro notI) (drule spec [of _ 0], auto dest: spec [of _ 1])
  with init_decides [OF demo_env _ g r] show ?thesis by simp
qed

text \<open>
  The arithmetic of the overlap test says what it means: for stacks that do not wrap
  around the end of the address space it holds exactly when they share a byte.
\<close>

lemma overlap_test_exact:
  assumes "no_wrap a (unat sz)" and "no_wrap b (unat sz)" and "0 < unat sz"
  shows "stacks_overlap sz a b \<longleftrightarrow> (\<exists>x. inside x a (unat sz) \<and> inside x b (unat sz))"
  using assms by (rule stacks_overlap_exact)

text \<open>
  A handle outside the table is rejected before the table is read, by \<open>set_arg\<close>,
  \<open>query_state\<close> and \<open>destroy\<close> alike; a handle that is not active is rejected by the two
  that change something.
\<close>

lemma handles_checked:
  assumes "refines cfg a s" and "\<not> (0 \<le> h \<and> h < int (max_cothreads cfg)) \<or> spec_state a h = cothread_not_active"
  shows "microkit_cothread_set_arg cfg h arg s = microkit_cothread_panic generic_invalid_handle \<and>
    (if 0 \<le> h \<and> h < int (max_cothreads cfg)
     then microkit_cothread_destroy cfg h s = microkit_cothread_panic destroy_already_not_initialised \<and>
       microkit_cothread_query_state cfg h s = Inr cothread_not_active
     else microkit_cothread_destroy cfg h s = microkit_cothread_panic generic_invalid_handle \<and>
       microkit_cothread_query_state cfg h s = microkit_cothread_panic generic_invalid_handle)"
proof (cases "0 \<le> h \<and> h < int (max_cothreads cfg)")
  case True
  then have st: "spec_state a h = cothread_not_active" using assms(2) by blast
  obtain c where c: "get_ctl s = Inr c" "tcb_at c h = Inr (tcb c h)" "tcb_state (tcb c h) = spec_state a h"
    using refines_tcb_at [OF assms(1)] True by metis
  then show ?thesis using True st
    by (simp add: microkit_cothread_set_arg_def microkit_cothread_destroy_def
        microkit_cothread_query_state_def)
next
  case False
  then show ?thesis
    by (auto simp: microkit_cothread_set_arg_def microkit_cothread_destroy_def
        microkit_cothread_query_state_def)
qed

text \<open>
  C24: Whatever is in the scheduling queue, the scheduler returns: it drops the stale entries
  in front, takes the first entry that is the root thread or ready, and says so when there
  is none.
\<close>

theorem scheduler_choice:
  assumes "queues_ok n c" and "\<forall>h \<in> set (ready_list c). valid_ref c h"
  shows "\<exists>c'. internal_schedule c = Inr (c', case dropWhile (stale c) (ready_list c) of
        [] \<Rightarrow> SCHEDULER_NULL_CHOICE | h # _ \<Rightarrow> h) \<and>
    ready_list c' = tl (dropWhile (stale c) (ready_list c)) \<and> free_list c' = free_list c \<and>
    running c' = running c \<and> tcbs c' = tcbs c"
  using internal_schedule_spec [OF assms] by (auto simp: first_choice_def same_but_queues_def)

theorem scheduler_choice_witness:
  "\<exists>c c'. co_controller demo_pd = Some c \<and> internal_schedule c = Inr (c', SCHEDULER_NULL_CHOICE)"
proof -
  obtain c where c: "co_controller demo_pd = Some c" "ctl_rel demo_cfg (spec_initial demo_cfg) c"
    using refinesE [OF demo_refines] by blast
  have "ready_list c = []" using ctl_relD(7) [OF c(2)] by (simp add: demo_spec_simps)
  with scheduler_choice [OF ctl_relD(5) [OF c(2)]] c(1) show ?thesis by auto
qed

section \<open>Divergences\<close>

text \<open>
  C25: The guard of \<open>destroy\<close> protects nobody but everybody from the root thread: called by
  the root thread \<open>destroy\<close> panics for every active handle, and called by a cothread it
  destroys the root thread.
\<close>

theorem destroy_guard:
  assumes "refines cfg a s" and "0 \<le> h" and "h < int (max_cothreads cfg)"
    and "spec_state a h \<noteq> cothread_not_active"
  shows "if sp_running a = 0
    then microkit_cothread_destroy cfg h s = microkit_cothread_panic destroy_cannot_destroy_root
    else \<exists>s'. microkit_cothread_destroy cfg 0 s = Inr s' \<and>
      microkit_cothread_query_state cfg 0 s' = Inr cothread_not_active"
  using root_destroys_nobody [OF assms(1) _ assms(2-4)] cothread_destroys_root [OF assms(1)] by simp

theorem destroy_guard_witness:
  "microkit_cothread_destroy demo_cfg 1 demo_pd1 = microkit_cothread_panic destroy_cannot_destroy_root \<and>
    (\<exists>s'. microkit_cothread_destroy demo_cfg 0 demo_pd2 = Inr s' \<and>
      microkit_cothread_query_state demo_cfg 0 s' = Inr cothread_not_active)"
  using destroy_guard [OF demo_refines1, of 1] destroy_guard [OF demo_refines2, of 1]
  by (simp add: spec_state_def demo_sched_simps demo_sched2_simps)

text \<open>
  C26: Destroying a ready cothread and spawning its handle again, both allowed by the
  documentation, leaves the handle twice in the scheduling queue; when no cothread is
  blocked the next yield panics.
\<close>

theorem respawn_overflows:
  assumes "refines cfg a s" and "sp_running a \<noteq> 0" and "h \<in> set (sp_ready a)" and "h \<noteq> 0"
    and "sp_free a = []" and "entry \<noteq> 0" and "length (sp_ready a) = max_cothreads cfg - 1"
  shows "\<exists>s1 s2. microkit_cothread_destroy cfg h s = Inr s1 \<and>
    microkit_cothread_spawn cfg entry arg s1 = Inr (s2, h) \<and>
    microkit_cothread_yield s2 = microkit_cothread_panic yield_cannot_schedule_caller"
  using assms by (rule respawn_then_yield_panics)

theorem respawn_overflows_witness:
  "\<exists>s1 s2. microkit_cothread_destroy demo_cfg 2 demo_pd2 = Inr s1 \<and>
    microkit_cothread_spawn demo_cfg 0x403000 0 s1 = Inr (s2, 2) \<and>
    microkit_cothread_yield s2 = microkit_cothread_panic yield_cannot_schedule_caller"
  by (rule respawn_overflows [OF demo_refines2]) (simp_all add: demo_sched2_simps)

text \<open>
  The root thread cannot block: when it waits on an unset semaphore and nothing is ready,
  the wait returns at once although nothing was signalled, and the running root thread
  stays in the semaphore's queue.
\<close>

theorem root_wait_not_blocking:
  assumes "refines cfg a s" and "sp_running a = 0" and "sp_ready a = []"
    and "sp_sems a p = Some (False, [])"
  shows "\<exists>s' c'. pd_semaphore_wait p s = Inr s' \<and> co_controller s' = Some c' \<and>
    co_active_handle s' = co_active_handle s \<and> running c' = 0 \<and>
    tcb_state (tcb c' 0) = cothread_running \<and>
    sem_head (sem_view s' c' p) = 0 \<and> \<not> sem_set (sem_view s' c' p)"
  using assms by (rule root_wait_returns)

theorem root_wait_not_blocking_example:
  "\<exists>s' c'. pd_semaphore_wait (ChannelSem 1) demo_pd1 = Inr s' \<and> co_controller s' = Some c' \<and>
    running c' = 0 \<and> sem_head (sem_view s' c' (ChannelSem 1)) = 0"
  using root_wait_not_blocking [OF demo_refines1 _ _ demo_sched_simps(5)]
  by (auto simp: demo_sched_simps)

end
