(* ===== verification/CoSafety.thy ===== *)
theory CoSafety
  imports CoFrame
begin

text \<open>
  Safety for every client, also one that breaks the rules: once \<open>init\<close> has accepted and as
  long as the semaphores in client memory hold handles in their links, as cleared memory
  does, then whatever is called in whatever order, the library never indexes outside an
  array, never follows a bad link, never divides by zero and never uses a controller that
  is not there. A call returns, or ends in one of the library's panics, or \<open>spawn\<close> faults
  when it clears the stack of the root thread, which has none: the null pointer is taken
  for its stack once somebody has destroyed it and its handle is given out again.

  The invariant \<open>pd_wf\<close> only says that everything that is used as an index is one,
  \<open>stacks_wf\<close> that every stack but the root thread's is mapped.
\<close>

subsection \<open>Results that are safe\<close>

text \<open>The panics, and faults at the addresses \<open>A\<close>.\<close>

definition orderly :: "(addr \<Rightarrow> bool) \<Rightarrow> fault \<Rightarrow> bool" where
  "orderly A f \<longleftrightarrow> (\<exists>e. f = Panic e) \<or> (\<exists>a. f = VMFault a \<and> A a)"

definition safe :: "(addr \<Rightarrow> bool) \<Rightarrow> ('a \<Rightarrow> bool) \<Rightarrow> fault + 'a \<Rightarrow> bool" where
  "safe A P r \<longleftrightarrow> (case r of Inl f \<Rightarrow> orderly A f | Inr x \<Rightarrow> P x)"

named_theorems safe_intros

lemma safe_Inr [safe_intros]: "P x \<Longrightarrow> safe A P (Inr x)"
  by (simp add: safe_def)

lemma safe_Inr_iff [simp]: "safe A P (Inr x) = P x"
  by (simp add: safe_def)

lemma safe_panic [safe_intros, simp]: "safe A P (microkit_cothread_panic e)"
  by (simp add: safe_def microkit_cothread_panic_def orderly_def)

lemma safe_fault [safe_intros]: "A a \<Longrightarrow> safe A P (Inl (VMFault a))"
  by (simp add: safe_def orderly_def)

lemma safe_bind: "safe A Q m \<Longrightarrow> (\<And>x. Q x \<Longrightarrow> safe A P (f x)) \<Longrightarrow> safe A P (bindR m f)"
  by (cases m) (simp_all add: safe_def)

lemma safe_if [safe_intros]: "(b \<Longrightarrow> safe A P x) \<Longrightarrow> (\<not> b \<Longrightarrow> safe A P y) \<Longrightarrow> safe A P (if b then x else y)"
  by simp

lemma safe_weaken: "safe A Q r \<Longrightarrow> (\<And>x. Q x \<Longrightarrow> P x) \<Longrightarrow> safe A P r"
  by (auto simp: safe_def split: sum.splits)

lemma safe_total: "\<exists>x. r = Inr x \<and> P x \<Longrightarrow> safe A P r"
  by (auto simp: safe_def)

subsection \<open>The invariant\<close>

definition ok_ref :: "config \<Rightarrow> microkit_cothread_ref_t \<Rightarrow> bool" where
  "ok_ref cfg h \<longleftrightarrow> 0 \<le> h \<and> h < int (max_cothreads cfg)"

definition ok_link :: "config \<Rightarrow> microkit_cothread_ref_t \<Rightarrow> bool" where
  "ok_link cfg h \<longleftrightarrow> h = LIBMICROKITCO_NULL_HANDLE \<or> ok_ref cfg h"

definition sem_wf :: "config \<Rightarrow> microkit_cothread_sem_t \<Rightarrow> bool" where
  "sem_wf cfg sem \<longleftrightarrow> ok_link cfg (sem_head sem) \<and>
     (sem_head sem \<noteq> LIBMICROKITCO_NULL_HANDLE \<longrightarrow> ok_ref cfg (sem_tail sem))"

definition ctl_wf :: "config \<Rightarrow> co_control_t \<Rightarrow> bool" where
  "ctl_wf cfg c \<longleftrightarrow> 0 < max_cothreads cfg \<and> length (tcbs c) = max_cothreads cfg \<and>
     queues_ok (max_cothreads cfg) c \<and> ok_ref cfg (running c) \<and>
     (\<forall>h \<in> set (ready_list c). ok_ref cfg h) \<and> (\<forall>h \<in> set (free_list c). ok_ref cfg h) \<and>
     (\<forall>h. ok_ref cfg h \<longrightarrow> ok_link cfg (nx c h)) \<and> unat (co_stack_size c) \<le> INT_MAX"

definition channels_wf :: "config \<Rightarrow> co_control_t \<Rightarrow> bool" where
  "channels_wf cfg c \<longleftrightarrow> length (blocked_channel_map c) = max_channels cfg \<and>
     (\<forall>sem \<in> set (blocked_channel_map c). sem_wf cfg sem)"

definition pd_wf :: "config \<Rightarrow> pd \<Rightarrow> bool" where
  "pd_wf cfg s \<longleftrightarrow> (\<exists>c. co_controller s = Some c \<and> ctl_wf cfg c \<and> channels_wf cfg c) \<and>
     (\<forall>a. sem_wf cfg (client_sems s a))"

lemma ctl_wf_valid: "ctl_wf cfg c \<Longrightarrow> valid_ref c h \<longleftrightarrow> ok_ref cfg h"
  by (simp add: ctl_wf_def valid_ref_def ok_ref_def)

lemma ctl_wf_zero: "ctl_wf cfg c \<Longrightarrow> ok_ref cfg 0"
  by (simp add: ctl_wf_def ok_ref_def)

lemma ctl_wf_running: "ctl_wf cfg c \<Longrightarrow> ok_ref cfg (running c)"
  by (simp add: ctl_wf_def)

lemma ok_ref_nonneg: "ok_ref cfg h \<Longrightarrow> 0 \<le> h"
  by (simp add: ok_ref_def)

lemma ctl_wf_upd_tcb:
  assumes "ctl_wf cfg c" and "ok_ref cfg h"
    and "ok_link cfg (next_blocked_on_same_event (f (tcb c h)))"
  shows "ctl_wf cfg (upd_tcb h f c)"
  using assms ctl_wf_valid [OF assms(1), of h]
  unfolding ctl_wf_def by (auto simp: ctl_simps ok_ref_nonneg)

text \<open>What every step on the controller keeps: its well-formedness and the channel table.\<close>

definition keeps :: "config \<Rightarrow> co_control_t \<Rightarrow> co_control_t \<Rightarrow> bool" where
  "keeps cfg c c' \<longleftrightarrow> ctl_wf cfg c' \<and> blocked_channel_map c' = blocked_channel_map c"

lemma keeps_trans: "keeps cfg a b \<Longrightarrow> keeps cfg b c \<Longrightarrow> keeps cfg a c"
  by (simp add: keeps_def)

lemma keeps_wf: "keeps cfg a b \<Longrightarrow> ctl_wf cfg b"
  by (simp add: keeps_def)

lemma keeps_running: "keeps cfg a b \<Longrightarrow> ok_ref cfg (running b)"
  by (simp add: keeps_def ctl_wf_def)

lemma safe_tcb_at:
  assumes "ctl_wf cfg c" and "ok_ref cfg h"
  shows "safe A (\<lambda>t. ok_link cfg (next_blocked_on_same_event t)) (tcb_at c h)"
  using assms ctl_wf_valid [OF assms(1), of h]
  by (intro safe_total) (auto simp: tcb_at_valid ctl_wf_def nx_def)

lemma safe_set_state:
  assumes "ctl_wf cfg c" and "ok_ref cfg h"
  shows "safe A (keeps cfg c) (set_state h st c)"
proof -
  have "ok_link cfg (nx c h)" using assms by (simp add: ctl_wf_def)
  then have "ctl_wf cfg (upd_tcb h (\<lambda>t. t\<lparr>tcb_state := st\<rparr>) c)"
    by (intro ctl_wf_upd_tcb [OF assms]) (simp add: nx_def)
  then show ?thesis using assms ctl_wf_valid [OF assms(1), of h]
    by (intro safe_total) (simp add: set_state_def mod_tcb_valid keeps_def upd_tcb_select)
qed

lemma safe_set_next:
  assumes "ctl_wf cfg c" and "ok_ref cfg h" and "ok_link cfg n"
  shows "safe A (keeps cfg c) (set_next h n c)"
proof -
  have "ctl_wf cfg (upd_tcb h (\<lambda>t. t\<lparr>next_blocked_on_same_event := n\<rparr>) c)"
    by (intro ctl_wf_upd_tcb [OF assms(1,2)]) (simp add: assms(3))
  then show ?thesis using assms ctl_wf_valid [OF assms(1), of h]
    by (intro safe_total) (simp add: set_next_def mod_tcb_valid keeps_def upd_tcb_select)
qed

subsection \<open>The queues and the scheduler\<close>

lemma ctl_wf_queues:
  assumes "ctl_wf cfg c" and "same_but_queues c c'" and "queues_ok (max_cothreads cfg) c'"
    and "\<forall>h \<in> set (ready_list c'). ok_ref cfg h" and "\<forall>h \<in> set (free_list c'). ok_ref cfg h"
  shows "keeps cfg c c'"
  using assms(1,3-5) same_but_queues_views [OF assms(2)] nx_queues [OF assms(2)]
  by (simp add: keeps_def ctl_wf_def)

lemma safe_sched_push:
  assumes "ctl_wf cfg c" and "ok_ref cfg h"
  shows "safe A (\<lambda>(err, c'). err = LIBHOSTEDQUEUE_NOERR \<longrightarrow> keeps cfg c c') (sched_push h c)"
proof -
  have q: "queues_ok (max_cothreads cfg) c" "\<forall>k \<in> set (ready_list c). ok_ref cfg k"
    "\<forall>k \<in> set (free_list c). ok_ref cfg k" using assms(1) by (simp_all add: ctl_wf_def)
  show ?thesis
  proof (cases "length (ready_list c) < max_cothreads cfg")
    case True
    then obtain c' where "sched_push h c = Inr (LIBHOSTEDQUEUE_NOERR, c')"
      "queues_ok (max_cothreads cfg) c'" "same_but_queues c c'" "ready_list c' = ready_list c @ [h]"
      "free_list c' = free_list c" using sched_push_room [OF q(1)] by blast
    then show ?thesis using q assms by (auto intro!: safe_total ctl_wf_queues)
  next
    case False
    then have "length (ready_list c) = max_cothreads cfg" using ready_list_bound [OF q(1)] by simp
    from sched_push_full [OF q(1) this, of h] show ?thesis by (auto intro!: safe_total)
  qed
qed

lemma safe_free_push:
  assumes "ctl_wf cfg c" and "ok_ref cfg h"
  shows "safe A (\<lambda>(err, c'). err = LIBHOSTEDQUEUE_NOERR \<longrightarrow> keeps cfg c c') (free_push h c)"
proof -
  have q: "queues_ok (max_cothreads cfg) c" "\<forall>k \<in> set (ready_list c). ok_ref cfg k"
    "\<forall>k \<in> set (free_list c). ok_ref cfg k" using assms(1) by (simp_all add: ctl_wf_def)
  show ?thesis
  proof (cases "length (free_list c) < max_cothreads cfg")
    case True
    then obtain c' where "free_push h c = Inr (LIBHOSTEDQUEUE_NOERR, c')"
      "queues_ok (max_cothreads cfg) c'" "same_but_queues c c'" "free_list c' = free_list c @ [h]"
      "ready_list c' = ready_list c" using free_push_room [OF q(1)] by blast
    then show ?thesis using q assms by (auto intro!: safe_total ctl_wf_queues)
  next
    case False
    then have "length (free_list c) = max_cothreads cfg" using free_list_bound [OF q(1)] by simp
    from free_push_full [OF q(1) this, of h] show ?thesis by (auto intro!: safe_total)
  qed
qed

lemma safe_free_pop:
  assumes "ctl_wf cfg c"
  shows "safe A (\<lambda>(err, c', h). keeps cfg c c' \<and> (err = LIBHOSTEDQUEUE_NOERR \<longrightarrow> ok_ref cfg h)) (free_pop r c)"
proof -
  have q: "queues_ok (max_cothreads cfg) c" "\<forall>k \<in> set (ready_list c). ok_ref cfg k"
    "\<forall>k \<in> set (free_list c). ok_ref cfg k" using assms(1) by (simp_all add: ctl_wf_def)
  show ?thesis
  proof (cases "free_list c")
    case Nil
    then show ?thesis using free_pop_empty [OF q(1) Nil, of r] assms
      by (auto intro!: safe_total simp: keeps_def)
  next
    case (Cons h hs)
    then obtain c' where "free_pop r c = Inr (LIBHOSTEDQUEUE_NOERR, c', h)"
      "queues_ok (max_cothreads cfg) c'" "same_but_queues c c'" "free_list c' = hs"
      "ready_list c' = ready_list c" using free_pop_front [OF q(1) Cons] by blast
    then show ?thesis using q assms Cons by (auto intro!: safe_total ctl_wf_queues)
  qed
qed

lemma safe_go_next:
  assumes "ctl_wf cfg c"
  shows "safe A (\<lambda>(c', handle). keeps cfg c c') (internal_go_next c)"
proof -
  have q: "queues_ok (max_cothreads cfg) c" "\<forall>k \<in> set (ready_list c). valid_ref c k" "valid_ref c 0"
    using assms(1) ctl_wf_zero [OF assms] by (simp_all add: ctl_wf_def ctl_wf_valid [OF assms])
  obtain c' where c': "internal_go_next c = Inr (c', co_handle (tcb c (next_running c)))"
    "valid_ref c (next_running c)" "queues_ok (max_cothreads cfg) c'" "running c' = next_running c"
    "ready_list c' = tl (dropWhile (stale c) (ready_list c))" "free_list c' = free_list c"
    "\<forall>h \<ge> 0. tcb c' h = (if h = next_running c then (tcb c h)\<lparr>tcb_state := cothread_running\<rparr> else tcb c h)"
    "blocked_channel_map c' = blocked_channel_map c" "co_stack_size c' = co_stack_size c"
    "length (tcbs c') = length (tcbs c)"
    using internal_go_next_spec [OF q] by blast
  have "set (ready_list c') \<subseteq> set (ready_list c)"
    unfolding c'(5) by (metis list.set_sel(2) set_dropWhileD subsetI tl_Nil)
  moreover have "nx c' h = nx c h" if "ok_ref cfg h" for h
    using c'(7) that by (simp add: nx_def ok_ref_def)
  ultimately have "keeps cfg c c'"
    using assms c' ctl_wf_valid [OF assms] by (auto simp: keeps_def ctl_wf_def)
  then show ?thesis using c'(1) by (simp add: safe_Inr)
qed

subsection \<open>Semaphores\<close>

lemma running_update_wf:
  "ctl_wf cfg c \<Longrightarrow> ok_ref cfg h \<Longrightarrow> ctl_wf cfg (c\<lparr>running := h\<rparr>)"
  by (simp add: ctl_wf_def ctl_simps)

lemma safe_semaphore_wait:
  assumes "ctl_wf cfg c" and "sem_wf cfg sem"
  shows "safe A (\<lambda>(sem', c', sw). sem_wf cfg sem' \<and> keeps cfg c c') (microkit_cothread_semaphore_wait sem c)"
proof (cases "sem_set sem")
  case True
  then show ?thesis using assms
    by (simp add: microkit_cothread_semaphore_wait_def safe_Inr sem_wf_def keeps_def)
next
  case False
  show ?thesis unfolding semaphore_wait_unset [OF False]
  proof (rule safe_bind [OF safe_set_state [OF assms(1) ctl_wf_running [OF assms(1)]]])
    fix c1 assume c1: "keeps cfg c c1"
    note wf1 = keeps_wf [OF c1]
    have "safe A (\<lambda>(sem', c'). sem_wf cfg sem' \<and> keeps cfg c1 c') (enqueue_waiter sem c1)"
    proof (cases "sem_head sem = LIBMICROKITCO_NULL_HANDLE")
      case True
      then show ?thesis using wf1 ctl_wf_running [OF wf1]
        by (simp add: enqueue_waiter_def safe_Inr sem_wf_def ok_link_def keeps_def)
    next
      case False
      then have "ok_ref cfg (sem_tail sem)" using assms(2) by (simp add: sem_wf_def)
      then have "safe A (keeps cfg c1) (set_next (sem_tail sem) (running c1) c1)"
        using safe_set_next [OF wf1] ctl_wf_running [OF wf1] by (simp add: ok_link_def)
      then show ?thesis unfolding enqueue_waiter_def using False assms(2)
        by simp (erule safe_bind, simp add: sem_wf_def keeps_running)
    qed
    then show "safe A (\<lambda>(sem', c', sw). sem_wf cfg sem' \<and> keeps cfg c c')
        (bindR (enqueue_waiter sem c1) (\<lambda>(sem, c). bindR (internal_go_next c)
          (\<lambda>(c, handle). Inr (sem, c, Some handle))))"
    proof (rule safe_bind, clarify)
      fix sem2 c2 assume 2: "sem_wf cfg sem2" "keeps cfg c1 c2"
      show "safe A (\<lambda>(sem', c', sw). sem_wf cfg sem' \<and> keeps cfg c c')
          (bindR (internal_go_next c2) (\<lambda>(c, handle). Inr (sem2, c, Some handle)))"
        by (rule safe_bind [OF safe_go_next [OF keeps_wf [OF 2(2)]]])
          (auto simp: safe_Inr 2 intro: keeps_trans [OF keeps_trans [OF c1 2(2)]])
    qed
  qed
qed

lemma semaphore_init_wf [simp]: "sem_wf cfg (microkit_cothread_semaphore_init sem)"
  by (simp add: sem_wf_def microkit_cothread_semaphore_init_def ok_link_def)

lemma safe_semaphore_signal:
  assumes "ctl_wf cfg c" and "sem_wf cfg sem"
  shows "safe A (\<lambda>(sem', c', sw). sem_wf cfg sem' \<and> keeps cfg c c') (microkit_cothread_semaphore_signal sem c)"
proof (cases "sem_set sem \<or> sem_head sem = LIBMICROKITCO_NULL_HANDLE")
  case True
  then show ?thesis using assms
    by (auto simp: microkit_cothread_semaphore_signal_def microkit_cothread_semaphore_is_set_def
        microkit_cothread_semaphore_is_queue_empty_def sem_wf_def keeps_def)
next
  case False
  let ?Q = "\<lambda>(sem', c', sw). sem_wf cfg sem' \<and> keeps cfg c c'"
  have head: "ok_ref cfg (sem_head sem)" using assms(2) False by (simp add: sem_wf_def ok_link_def)
  have tail: "ok_ref cfg (sem_tail sem)" using assms(2) False by (simp add: sem_wf_def)
  let ?wake = "\<lambda>next c. bindR (set_next (sem_head sem) LIBMICROKITCO_NULL_HANDLE c) (\<lambda>c.
     bindR (set_state (running (c\<lparr>running := sem_head sem\<rparr>)) cothread_running
              (c\<lparr>running := sem_head sem\<rparr>)) (\<lambda>c.
     bindR (tcb_at c (running c)) (\<lambda>t.
     Inr (if next = LIBMICROKITCO_NULL_HANDLE
          then microkit_cothread_semaphore_init (sem\<lparr>sem_head := next\<rparr>) else sem\<lparr>sem_head := next\<rparr>,
          c, Some (co_handle t)))))"
  have eq: "microkit_cothread_semaphore_signal sem c =
    bindR (tcb_at c (sem_head sem)) (\<lambda>t.
    bindR (sched_push (running c) c) (\<lambda>(sched_err, c).
    if sched_err \<noteq> LIBHOSTEDQUEUE_NOERR
    then microkit_cothread_panic co_err_sem_sig_once_cannot_schedule_caller
    else bindR (set_state (running c) cothread_ready c) (\<lambda>c.
           ?wake (next_blocked_on_same_event t) c)))"
    using False unfolding microkit_cothread_semaphore_signal_def Let_def
      microkit_cothread_semaphore_is_set_def microkit_cothread_semaphore_is_queue_empty_def by simp
  have wake: "safe A ?Q (?wake next c2)" if c2: "keeps cfg c c2" "ok_link cfg next" for "next" c2
  proof (rule safe_bind [OF safe_set_next [OF keeps_wf [OF c2(1)] head]])
    show "ok_link cfg LIBMICROKITCO_NULL_HANDLE" by (simp add: ok_link_def)
    fix c3 assume c3: "keeps cfg c2 c3"
    let ?c = "c3\<lparr>running := sem_head sem\<rparr>"
    have wf: "ctl_wf cfg ?c" by (rule running_update_wf [OF keeps_wf [OF c3] head])
    have k: "keeps cfg c ?c" using c2(1) c3 wf by (simp add: keeps_def)
    show "safe A ?Q (bindR (set_state (running ?c) cothread_running ?c) (\<lambda>c.
       bindR (tcb_at c (running c)) (\<lambda>t.
       Inr (if next = LIBMICROKITCO_NULL_HANDLE
          then microkit_cothread_semaphore_init (sem\<lparr>sem_head := next\<rparr>) else sem\<lparr>sem_head := next\<rparr>,
          c, Some (co_handle t)))))"
    proof (rule safe_bind [OF safe_set_state [OF wf ctl_wf_running [OF wf]]])
      fix c4 assume c4: "keeps cfg ?c c4"
      have "sem_wf cfg (if next = LIBMICROKITCO_NULL_HANDLE
          then microkit_cothread_semaphore_init (sem\<lparr>sem_head := next\<rparr>) else sem\<lparr>sem_head := next\<rparr>)"
        using tail c2(2) by (auto simp: sem_wf_def ok_link_def microkit_cothread_semaphore_init_def)
      then show "safe A ?Q (bindR (tcb_at c4 (running c4)) (\<lambda>t.
         Inr (if next = LIBMICROKITCO_NULL_HANDLE
            then microkit_cothread_semaphore_init (sem\<lparr>sem_head := next\<rparr>) else sem\<lparr>sem_head := next\<rparr>,
            c4, Some (co_handle t))))"
        by (intro safe_bind [OF safe_tcb_at [OF keeps_wf [OF c4] keeps_running [OF c4]]])
          (simp add: keeps_trans [OF k c4])
    qed
  qed
  show ?thesis unfolding eq
  proof (rule safe_bind [OF safe_tcb_at [OF assms(1) head]])
    fix t assume t: "ok_link cfg (next_blocked_on_same_event t)"
    show "safe A ?Q (bindR (sched_push (running c) c) (\<lambda>(sched_err, c).
      if sched_err \<noteq> LIBHOSTEDQUEUE_NOERR
      then microkit_cothread_panic co_err_sem_sig_once_cannot_schedule_caller
      else bindR (set_state (running c) cothread_ready c) (\<lambda>c.
             ?wake (next_blocked_on_same_event t) c)))"
    proof (rule safe_bind [OF safe_sched_push [OF assms(1) ctl_wf_running [OF assms(1)]]], clarify)
      fix err c1 assume c1: "err = LIBHOSTEDQUEUE_NOERR \<longrightarrow> keeps cfg c c1"
      show "safe A ?Q (if err \<noteq> LIBHOSTEDQUEUE_NOERR
        then microkit_cothread_panic co_err_sem_sig_once_cannot_schedule_caller
        else bindR (set_state (running c1) cothread_ready c1) (\<lambda>c.
               ?wake (next_blocked_on_same_event t) c))"
      proof (rule safe_if [OF safe_panic])
        assume "\<not> err \<noteq> LIBHOSTEDQUEUE_NOERR"
        then have k1: "keeps cfg c c1" using c1 by simp
        show "safe A ?Q (bindR (set_state (running c1) cothread_ready c1)
            (\<lambda>c. ?wake (next_blocked_on_same_event t) c))"
          by (rule safe_bind [OF safe_set_state [OF keeps_wf [OF k1] keeps_running [OF k1]]])
            (rule wake [OF keeps_trans [OF k1] t])
      qed
    qed
  qed
qed

subsection \<open>The public operations\<close>

lemma pd_wfE:
  assumes "pd_wf cfg s"
  obtains c where "co_controller s = Some c" "get_ctl s = Inr c" "ctl_wf cfg c" "channels_wf cfg c"
    "\<And>a. sem_wf cfg (client_sems s a)"
  using assms by (auto simp: pd_wf_def get_ctl_def)

lemma pd_wf_put:
  assumes "pd_wf cfg s" and "co_controller s = Some c" and "keeps cfg c c'"
  shows "pd_wf cfg (put_ctl c' s)"
  using assms by (auto simp: pd_wf_def keeps_def channels_wf_def)

lemma pd_wf_switch [simp]: "pd_wf cfg (co_switch h s) = pd_wf cfg s"
  by (simp add: pd_wf_def)

lemma pd_wf_memory [simp]: "pd_wf cfg (s\<lparr>pd_mem := m\<rparr>) = pd_wf cfg s"
  "pd_wf cfg (s\<lparr>co_active_handle := h\<rparr>) = pd_wf cfg s"
  by (simp_all add: pd_wf_def)

lemma safe_sem_read:
  assumes "pd_wf cfg s" and "valid_ptr cfg p"
  shows "safe A (sem_wf cfg) (sem_read s p)"
proof -
  obtain c where c: "co_controller s = Some c" "channels_wf cfg c" "\<And>a. sem_wf cfg (client_sems s a)"
    using pd_wfE [OF assms(1)] by metis
  have "length (blocked_channel_map c) = max_channels cfg" using c(2) by (simp add: channels_wf_def)
  then have "sem_read s p = Inr (sem_view s c p)" by (rule sem_read_view [OF c(1) assms(2)])
  then show ?thesis using c assms(2)
    by (auto simp: sem_view_def valid_ptr_def channels_wf_def split: sem_ptr.splits)
qed

lemma safe_sem_write:
  assumes "pd_wf cfg s" and "valid_ptr cfg p" and "sem_wf cfg v"
  shows "safe A (pd_wf cfg) (sem_write p v s)"
proof -
  obtain c where c: "co_controller s = Some c" "get_ctl s = Inr c" "ctl_wf cfg c" "channels_wf cfg c"
    "\<And>a. sem_wf cfg (client_sems s a)"
    using pd_wfE [OF assms(1)] by metis
  show ?thesis
  proof (cases p)
    case (ClientSem a)
    then show ?thesis using c assms by (auto simp: pd_wf_def)
  next
    case (ChannelSem ch)
    let ?c = "c\<lparr>blocked_channel_map := (blocked_channel_map c)[ch := v]\<rparr>"
    have "ctl_wf cfg ?c" using c(3) by (simp add: ctl_wf_def)
    moreover have "set ((blocked_channel_map c)[ch := v]) \<subseteq> insert v (set (blocked_channel_map c))"
      by (rule set_update_subset_insert)
    then have "channels_wf cfg ?c" using c(4) assms(3) by (auto simp: channels_wf_def)
    ultimately show ?thesis using c assms(2) ChannelSem
      by (simp add: valid_ptr_def channels_wf_def) (simp add: pd_wf_def channels_wf_def)
  qed
qed

lemma safe_on_sem:
  assumes "pd_wf cfg s" and "valid_ptr cfg p"
    and "\<And>sem c. ctl_wf cfg c \<Longrightarrow> sem_wf cfg sem \<Longrightarrow>
      safe A (\<lambda>(sem', c', sw). sem_wf cfg sem' \<and> keeps cfg c c') (op sem c)"
  shows "safe A (pd_wf cfg) (on_sem op p s)"
proof -
  obtain c where c: "co_controller s = Some c" "get_ctl s = Inr c" "ctl_wf cfg c"
    using pd_wfE [OF assms(1)] by metis
  have step: "safe A (pd_wf cfg) (bindR (sem_write p sem' (put_ctl c' s)) (\<lambda>s'. Inr (switch_to sw s')))"
    if "sem_wf cfg sem'" "keeps cfg c c'" for sem' c' sw
    by (rule safe_bind [OF safe_sem_write [OF pd_wf_put [OF assms(1) c(1) that(2)] assms(2) that(1)]])
      (simp add: switch_to_def split: option.splits)
  show ?thesis unfolding on_sem_def c(2) bindR.simps
    by (rule safe_bind [OF safe_sem_read [OF assms(1,2)]], rule safe_bind [OF assms(3) [OF c(3)]])
      (auto intro: step)
qed

lemma safe_pd_wait:
  "pd_wf cfg s \<Longrightarrow> valid_ptr cfg p \<Longrightarrow> safe A (pd_wf cfg) (pd_semaphore_wait p s)"
  unfolding pd_semaphore_wait_def by (rule safe_on_sem) (assumption+, rule safe_semaphore_wait)

lemma safe_pd_signal:
  "pd_wf cfg s \<Longrightarrow> valid_ptr cfg p \<Longrightarrow> safe A (pd_wf cfg) (pd_semaphore_signal p s)"
  unfolding pd_semaphore_signal_def by (rule safe_on_sem) (assumption+, rule safe_semaphore_signal)

lemma safe_pd_init:
  assumes "pd_wf cfg s" and "valid_ptr cfg p"
  shows "safe A (pd_wf cfg) (pd_semaphore_init p s)"
  unfolding pd_semaphore_init_def
  by (rule safe_bind [OF safe_sem_read [OF assms]]) (rule safe_sem_write [OF assms semaphore_init_wf])

lemma safe_yield:
  assumes "pd_wf cfg s"
  shows "safe A (pd_wf cfg) (microkit_cothread_yield s)"
proof -
  obtain c where c: "co_controller s = Some c" "get_ctl s = Inr c" "ctl_wf cfg c"
    using pd_wfE [OF assms] by metis
  have go: "safe A (pd_wf cfg) (bindR (internal_go_next c2) (\<lambda>(c, h). Inr (co_switch h (put_ctl c s))))"
    if k: "keeps cfg c c2" for c2
  proof -
    have "pd_wf cfg (put_ctl c3 s)" if "keeps cfg c2 c3" for c3
      by (rule pd_wf_put [OF assms c(1) keeps_trans [OF k that]])
    then show ?thesis by (intro safe_bind [OF safe_go_next [OF keeps_wf [OF k]]]) auto
  qed
  have set: "safe A (pd_wf cfg) (bindR (set_state (running c1) cothread_ready c1) (\<lambda>c.
       bindR (internal_go_next c) (\<lambda>(c, h). Inr (co_switch h (put_ctl c s)))))"
    if k: "keeps cfg c c1" for c1
    by (rule safe_bind [OF safe_set_state [OF keeps_wf [OF k] keeps_running [OF k]]])
      (rule go [OF keeps_trans [OF k]])
  show ?thesis unfolding microkit_cothread_yield_def c(2) bindR.simps
    by (rule safe_bind [OF safe_sched_push [OF c(3) ctl_wf_running [OF c(3)]]])
      (auto intro: set)
qed

lemma safe_destroy:
  assumes "pd_wf cfg s"
  shows "safe A (pd_wf cfg) (microkit_cothread_destroy cfg h s)"
proof -
  obtain c where c: "co_controller s = Some c" "get_ctl s = Inr c" "ctl_wf cfg c"
    using pd_wfE [OF assms] by metis
  let ?finish = "\<lambda>c. if h = running c then bindR (internal_go_next c) (\<lambda>(c, k). Inr (co_switch k (put_ctl c s)))
    else Inr (put_ctl c s)"
  have go: "safe A (pd_wf cfg) (?finish c2)" if k: "keeps cfg c c2" for c2
  proof -
    have "pd_wf cfg (put_ctl c3 s)" if "keeps cfg c2 c3" for c3
      by (rule pd_wf_put [OF assms c(1) keeps_trans [OF k that]])
    then show ?thesis
      by (intro safe_if safe_bind [OF safe_go_next [OF keeps_wf [OF k]]])
        (auto intro: pd_wf_put [OF assms c(1) k])
  qed
  show ?thesis
  proof (cases "ok_ref cfg h")
    case False
    then show ?thesis by (auto simp: microkit_cothread_destroy_def ok_ref_def)
  next
    case True
    then have r: "\<not> (int (max_cothreads cfg) \<le> h \<or> h < 0)" by (auto simp: ok_ref_def)
    have set: "safe A (pd_wf cfg) (bindR (set_state h cothread_not_active c1) ?finish)"
      if k: "keeps cfg c c1" for c1
      by (rule safe_bind [OF safe_set_state [OF keeps_wf [OF k] True]]) (rule go [OF keeps_trans [OF k]])
    have push: "safe A (pd_wf cfg) (bindR (free_push h c) (\<lambda>(err, c).
        if err \<noteq> LIBHOSTEDQUEUE_NOERR then microkit_cothread_panic destroy_cannot_release_handle
        else bindR (set_state h cothread_not_active c) ?finish))"
      by (rule safe_bind [OF safe_free_push [OF c(3) True]]) (auto intro: set)
    show ?thesis unfolding microkit_cothread_destroy_def if_not_P [OF r] c(2) bindR.simps
      by (rule safe_bind [OF safe_tcb_at [OF c(3) True]]) (intro safe_if safe_panic push)
  qed
qed

lemma safe_entry_returns:
  assumes "pd_wf cfg s"
  shows "safe A (pd_wf cfg) (cothread_entry_wrapper_return cfg s)"
proof -
  obtain c where "get_ctl s = Inr c" using pd_wfE [OF assms] by metis
  then show ?thesis unfolding cothread_entry_wrapper_return_def
    by simp (rule safe_bind [OF safe_destroy [OF assms]], auto)
qed

lemma safe_set_arg:
  assumes "pd_wf cfg s"
  shows "safe A (pd_wf cfg) (microkit_cothread_set_arg cfg h arg s)"
proof -
  obtain c where c: "co_controller s = Some c" "get_ctl s = Inr c" "ctl_wf cfg c"
    using pd_wfE [OF assms] by metis
  show ?thesis
  proof (cases "ok_ref cfg h")
    case False
    then show ?thesis by (auto simp: microkit_cothread_set_arg_def ok_ref_def)
  next
    case True
    then have v: "valid_ref c h" by (simp add: ctl_wf_valid [OF c(3)])
    have "ok_link cfg (nx c h)" using c(3) True by (simp add: ctl_wf_def)
    then have "ctl_wf cfg (upd_tcb h (\<lambda>t. t\<lparr>private_arg := arg\<rparr>) c)"
      by (intro ctl_wf_upd_tcb [OF c(3) True]) (simp add: nx_def)
    then have "pd_wf cfg (put_ctl (upd_tcb h (\<lambda>t. t\<lparr>private_arg := arg\<rparr>) c) s)"
      by (intro pd_wf_put [OF assms c(1)]) (simp add: keeps_def upd_tcb_select)
    then show ?thesis using True v c(2)
      by (auto simp: microkit_cothread_set_arg_def ok_ref_def tcb_at_valid mod_tcb_valid)
  qed
qed

lemma safe_bind_eq:
  "safe A Q m \<Longrightarrow> (\<And>x. m = Inr x \<Longrightarrow> Q x \<Longrightarrow> safe A P (f x)) \<Longrightarrow> safe A P (bindR m f)"
  by (cases m) (simp_all add: safe_def)

lemma safe_memzero:
  fixes m :: "64 memory"
  assumes "unat n \<le> INT_MAX" and "\<And>b. inside b dst (unat n) \<Longrightarrow> m b = None \<Longrightarrow> A b"
  shows "safe A (\<lambda>m'. dom m' = dom m \<and> mapped m dst (unat n)) (memzero m dst n)"
proof (cases "mapped m dst (unat n)")
  case True
  have "unat n \<le> 2 ^ LENGTH(64)" by (rule less_imp_le) (rule unsigned_less)
  then show ?thesis using True memzero_mapped [OF True assms(1)] zeroed_dom [OF True] by simp
next
  case False
  have "safe A (\<lambda>_. True) (memzero_loop m' dst i k)"
    if "k \<le> INT_MAX" "\<And>j. i \<le> j \<Longrightarrow> j < k \<Longrightarrow> m' (dst + of_nat j) = None \<Longrightarrow> A (dst + of_nat j)"
    for m' :: "64 memory" and i k
    using that
  proof (induction m' dst i k rule: memzero_loop.induct)
    case (1 m' dst i k)
    have "safe A (\<lambda>_. True) (memzero_loop (m'(dst + of_nat i \<mapsto> 0)) dst (Suc i) k)"
      if "i < k" "m' (dst + of_nat i) \<noteq> None" "i \<noteq> INT_MAX"
      using that "1.prems" by (intro "1.IH") (auto split: if_splits)
    then show ?case using "1.prems" by (subst memzero_loop.simps) (auto intro!: safe_fault)
  qed
  moreover have "A (dst + of_nat j)" if "j < unat n" "m (dst + of_nat j) = None" for j
  proof (rule assms(2) [OF _ that(2)])
    have "unat n \<le> 2 ^ LENGTH(64)" by (rule less_imp_le) (rule unsigned_less)
    then show "inside (dst + of_nat j) dst (unat n)" using that(1) by (subst inside_iff) auto
  qed
  ultimately have "safe A (\<lambda>_. True) (memzero m dst n)" using assms(1) by (simp add: memzero_def)
  moreover obtain f where "memzero m dst n = Inl f" using memzero_unmapped [OF False] by blast
  ultimately show ?thesis by (simp add: safe_def)
qed

lemma safe_co_derive:
  assumes "mapped m st (unat sz)" and "0x1000 \<le> unat sz"
  shows "safe A (\<lambda>(m', h). dom m' = dom m) (co_derive ar ce m st sz w)"
proof (cases "ar = Amd64 \<and> st = 0")
  case True
  then show ?thesis by (simp add: co_derive_def amd64_co_derive_def)
next
  case False
  have size: "64 \<le> unat sz" "a64_regs_count \<le> unat sz div 8" "rv_num_saved fl \<le> unat sz div 8" for fl
    using assms(2) rv_num_saved_le [of fl] by linarith+
  show ?thesis
    using amd64_co_derive_ok [OF assms(1) size(1), of ce w] False
      a64_co_derive_ok [OF assms(1) size(2), of ce w]
      rv_co_derive_ok [OF assms(1) size(3) [of False], of ce w]
      rv_co_derive_ok [OF assms(1) size(3) [of True], of ce w]
    by (cases ar) (auto simp: co_derive_def dest!: block_writes_frame)
qed

subsection \<open>The stacks\<close>

definition stacks_wf :: "config \<Rightarrow> nat \<Rightarrow> pd \<Rightarrow> bool" where
  "stacks_wf cfg sz s \<longleftrightarrow> 0x1000 \<le> sz \<and> (\<exists>c. co_controller s = Some c \<and> unat (co_stack_size c) = sz \<and>
     length (tcbs c) = max_cothreads cfg \<and>
     (\<forall>h. ok_ref cfg h \<longrightarrow> local_storage (tcb c h) = 0 \<or> mapped (pd_mem s) (local_storage (tcb c h)) sz))"

text \<open>Where \<open>spawn\<close> may fault: in the block of a stack's size at the null pointer.\<close>

abbreviation null_stack :: "nat \<Rightarrow> addr \<Rightarrow> bool" where
  "null_stack sz b \<equiv> inside b 0 sz"

lemma cores_free_pop: "free_pop i c = Inr (e, c', x) \<Longrightarrow> cores c' = cores c"
  by (auto simp: free_pop_def bindR_Inr_iff cores_def)

lemma cores_storage:
  assumes "cores c' = cores c" and "ctl_wf cfg c" and "ok_ref cfg h"
  shows "local_storage (tcb c' h) = local_storage (tcb c h)"
proof -
  have len: "nat h < length (tcbs c)" using assms(2,3) by (auto simp: ctl_wf_def ok_ref_def)
  have eq: "map core (tcbs c') = map core (tcbs c)" using assms(1) by (simp add: cores_def)
  have "core (tcbs c' ! nat h) = core (tcbs c ! nat h)"
    using arg_cong [OF eq, of "\<lambda>ts. ts ! nat h"] len map_eq_imp_length_eq [OF eq] by simp
  from core_eqD(1) [OF this] show ?thesis by (simp add: tcb_def)
qed

lemma safe_spawn:
  assumes "pd_wf cfg s" and "stacks_wf cfg sz s"
  shows "safe (null_stack sz) (\<lambda>(s', h). pd_wf cfg s') (microkit_cothread_spawn cfg entry arg s)"
proof -
  obtain c where c: "co_controller s = Some c" "get_ctl s = Inr c" "ctl_wf cfg c"
    using pd_wfE [OF assms(1)] by metis
  have size: "0x1000 \<le> sz" "unat (co_stack_size c) = sz"
    and store: "\<And>h. ok_ref cfg h \<Longrightarrow> local_storage (tcb c h) = 0 \<or> mapped (pd_mem s) (local_storage (tcb c h)) sz"
    using assms(2) c(1) by (auto simp: stacks_wf_def)
  let ?Q = "\<lambda>(s', h). pd_wf cfg s'"
  let ?fill = "\<lambda>handle. \<lambda>t. t\<lparr>client_entry := entry, private_arg := arg, co_handle := handle,
    tcb_state := cothread_ready, next_blocked_on_same_event := LIBMICROKITCO_NULL_HANDLE\<rparr>"
  have last: "safe (null_stack sz) ?Q (bindR (mod_tcb h (?fill handle) c1) (\<lambda>c. bindR (sched_push h c) (\<lambda>(err, c).
      if err \<noteq> LIBHOSTEDQUEUE_NOERR then microkit_cothread_panic spawn_cannot_schedule_new
      else Inr (put_ctl c (t\<lparr>pd_mem := m\<rparr>), h))))"
    if k: "keeps cfg c c1" and h: "ok_ref cfg h" and t: "pd_wf cfg t" "co_controller t = Some c"
    for c1 h handle m t
  proof -
    let ?c = "upd_tcb h (?fill handle) c1"
    have "ctl_wf cfg ?c" by (rule ctl_wf_upd_tcb [OF keeps_wf [OF k] h]) (simp add: ok_link_def)
    then have kc: "keeps cfg c ?c" using k by (simp add: keeps_def upd_tcb_select)
    have eq: "mod_tcb h (?fill handle) c1 = Inr ?c"
      using h ctl_wf_valid [OF keeps_wf [OF k]] by (simp add: mod_tcb_valid)
    have "pd_wf cfg (put_ctl c2 (t\<lparr>pd_mem := m\<rparr>))" if "keeps cfg ?c c2" for c2
      by (rule pd_wf_put [OF _ _ keeps_trans [OF kc that]]) (simp_all add: t)
    then show ?thesis unfolding eq bindR.simps
      by (intro safe_bind [OF safe_sched_push [OF keeps_wf [OF kc] h]]) auto
  qed
  have act: "pd_wf cfg (fst (co_active cfg s))" "co_controller (fst (co_active cfg s)) = Some c"
    using assms(1) c(1) by (simp_all add: co_active_def Let_def)
  have stack: "safe (null_stack sz) ?Q (bindR (memzero (pd_mem s) st (scast (co_stack_size c1))) (\<lambda>m.
      bindR (co_derive (cfg_arch cfg) (addr_co_entrypoint cfg) m st (co_stack_size c1)
               (addr_entry_wrapper cfg)) (\<lambda>(m, handle).
      bindR (mod_tcb h (?fill handle) c1) (\<lambda>c. bindR (sched_push h c) (\<lambda>(err, c).
      if err \<noteq> LIBHOSTEDQUEUE_NOERR then microkit_cothread_panic spawn_cannot_schedule_new
      else Inr (put_ctl c ((fst (co_active cfg s))\<lparr>pd_mem := m\<rparr>), h))))))"
    if k: "keeps cfg c c1" and h: "ok_ref cfg h" and st: "st = 0 \<or> mapped (pd_mem s) st sz"
      and sz: "unat (co_stack_size c1) = sz" for c1 h st
  proof -
    have le: "unat (co_stack_size c1) \<le> INT_MAX" using keeps_wf [OF k] by (simp add: ctl_wf_def)
    note n = unat_scast32 [OF le]
    have "null_stack sz b" if "inside b st (unat (scast (co_stack_size c1) :: addr))" "pd_mem s b = None" for b
    proof -
      have "\<not> mapped (pd_mem s) st sz"
        using that le sz by (subst mapped_iff_inside) (auto simp: n)
      then show ?thesis using st that(1) by (simp add: n sz)
    qed
    moreover have "unat (scast (co_stack_size c1) :: addr) \<le> INT_MAX" using le by (simp only: n)
    ultimately show ?thesis
    proof (intro safe_bind [OF safe_memzero], goal_cases)
      case (3 m)
      then have "mapped m st (unat (co_stack_size c1))" by (simp add: n mapped_dom [of m "pd_mem s"])
      from safe_co_derive [OF this] size(1) sz show ?case
        by (intro safe_bind [OF safe_co_derive [OF \<open>mapped m st _\<close>]]) (auto intro!: last [OF k h act])
    qed simp_all
  qed
  show ?thesis
  proof (cases "entry = 0")
    case True
    then show ?thesis by (simp add: microkit_cothread_spawn_def)
  next
    case False
    show ?thesis unfolding microkit_cothread_spawn_def if_not_P [OF False] c(2) bindR.simps Let_def
    proof (rule safe_bind_eq [OF safe_free_pop [OF c(3)]], clarify)
      fix err c1 h assume pop: "free_pop 0 c = Inr (err, c1, h)"
        and k: "keeps cfg c c1" and h: "err = LIBHOSTEDQUEUE_NOERR \<longrightarrow> ok_ref cfg h"
      show "safe (null_stack sz) ?Q (if err \<noteq> LIBHOSTEDQUEUE_NOERR then Inr (put_ctl c1 s, LIBMICROKITCO_NULL_HANDLE)
        else bindR (tcb_at c1 h) (\<lambda>t.
          bindR (memzero (pd_mem s) (local_storage t) (scast (co_stack_size c1))) (\<lambda>m.
          bindR (co_derive (cfg_arch cfg) (addr_co_entrypoint cfg) m (local_storage t) (co_stack_size c1)
                   (addr_entry_wrapper cfg)) (\<lambda>(m, handle).
          bindR (mod_tcb h (?fill handle) c1) (\<lambda>c. bindR (sched_push h c) (\<lambda>(err, c).
          if err \<noteq> LIBHOSTEDQUEUE_NOERR then microkit_cothread_panic spawn_cannot_schedule_new
          else Inr (put_ctl c ((fst (co_active cfg s))\<lparr>pd_mem := m\<rparr>), h)))))))"
      proof (rule safe_if)
        show "safe (null_stack sz) ?Q (Inr (put_ctl c1 s, LIBMICROKITCO_NULL_HANDLE))"
          using pd_wf_put [OF assms(1) c(1) k] by simp
      next
        assume "\<not> err \<noteq> LIBHOSTEDQUEUE_NOERR"
        with h have ok: "ok_ref cfg h" by simp
        show "safe (null_stack sz) ?Q (bindR (tcb_at c1 h) (\<lambda>t.
          bindR (memzero (pd_mem s) (local_storage t) (scast (co_stack_size c1))) (\<lambda>m.
          bindR (co_derive (cfg_arch cfg) (addr_co_entrypoint cfg) m (local_storage t) (co_stack_size c1)
                   (addr_entry_wrapper cfg)) (\<lambda>(m, handle).
          bindR (mod_tcb h (?fill handle) c1) (\<lambda>c. bindR (sched_push h c) (\<lambda>(err, c).
          if err \<noteq> LIBHOSTEDQUEUE_NOERR then microkit_cothread_panic spawn_cannot_schedule_new
          else Inr (put_ctl c ((fst (co_active cfg s))\<lparr>pd_mem := m\<rparr>), h)))))))"
        proof (rule safe_bind_eq [OF safe_tcb_at [OF keeps_wf [OF k] ok]], rule stack [OF k ok])
          note cores = cores_free_pop [OF pop]
          show "unat (co_stack_size c1) = sz" using cores size(2) by (simp add: cores_def)
          fix t assume "tcb_at c1 h = Inr t"
          then have "local_storage t = local_storage (tcb c h)"
            using cores_storage [OF cores c(3) ok] ok ctl_wf_valid [OF keeps_wf [OF k]] by (simp add: tcb_at_valid)
          then show "local_storage t = 0 \<or> mapped (pd_mem s) (local_storage t) sz" using store [OF ok] by simp
        qed
      qed
    qed
  qed
qed

subsection \<open>Any call\<close>

fun well_addressed :: "config \<Rightarrow> api_call \<Rightarrow> bool" where
  "well_addressed cfg (Call_semaphore_wait p) = valid_ptr cfg p"
| "well_addressed cfg (Call_semaphore_signal p) = valid_ptr cfg p"
| "well_addressed cfg (Call_semaphore_init p) = valid_ptr cfg p"
| "well_addressed cfg call = True"

lemma safe_and: "safe A P r \<Longrightarrow> (\<And>x. r = Inr x \<Longrightarrow> Q x) \<Longrightarrow> safe A (\<lambda>x. P x \<and> Q x) r"
  by (cases r) (simp_all add: safe_def)

lemma stacks_wf_same:
  assumes "stacks_wf cfg sz s" and "pd_wf cfg s" and "pd_cores s' = pd_cores s" and "dom (pd_mem s') = dom (pd_mem s)"
  shows "stacks_wf cfg sz s'"
proof -
  obtain c where c: "co_controller s = Some c" "ctl_wf cfg c" using pd_wfE [OF assms(2)] by metis
  obtain c' where c': "co_controller s' = Some c'" "cores c' = cores c"
    using assms(3) c(1) by (auto simp: pd_cores_def)
  then have "co_stack_size c' = co_stack_size c" "length (tcbs c') = length (tcbs c)"
    using map_eq_imp_length_eq [of core "tcbs c'" core "tcbs c"] by (simp_all add: cores_def)
  then show ?thesis
    using assms(1) c c' cores_storage [OF c'(2) c(2)] by (simp add: stacks_wf_def mapped_dom [OF assms(4)])
qed

lemma stacks_wf_update:
  assumes "stacks_wf cfg sz s" and "co_controller s = Some c" and "co_controller s' = Some c'"
    and "co_stack_size c' = co_stack_size c" and "map local_storage (tcbs c') = map local_storage (tcbs c)"
    and "dom (pd_mem s') = dom (pd_mem s)"
  shows "stacks_wf cfg sz s'"
proof -
  have len: "length (tcbs c') = length (tcbs c)" using map_eq_imp_length_eq [OF assms(5)] .
  have "local_storage (tcb c' h) = local_storage (tcb c h)" if "ok_ref cfg h" for h
  proof -
    have "nat h < length (tcbs c)" using that assms(1,2) by (auto simp: stacks_wf_def ok_ref_def)
    then show ?thesis
      using arg_cong [OF assms(5), of "\<lambda>ts. ts ! nat h"] len by (simp add: tcb_def)
  qed
  then show ?thesis using assms(1-4) len by (simp add: stacks_wf_def mapped_dom [OF assms(6)])
qed

lemma map_core_storage: "map core ts' = map core ts \<Longrightarrow> map local_storage ts' = map local_storage ts"
proof -
  have core: "map local_storage xs = map local_storage (map core xs)" for xs by (simp add: core_def)
  assume "map core ts' = map core ts"
  then show ?thesis using core [of ts'] core [of ts] by simp
qed

lemma mod_tcb_storage:
  assumes "mod_tcb i f c = Inr c'" and "\<And>t. local_storage (f t) = local_storage t"
  shows "map local_storage (tcbs c') = map local_storage (tcbs c)" and "co_stack_size c' = co_stack_size c"
proof -
  have c': "c' = c\<lparr>tcbs := (tcbs c)[nat i := f (tcbs c ! nat i)]\<rparr>" and i: "nat i < length (tcbs c)"
    using assms(1) by (auto simp: mod_tcb_def tcb_at_def bindR_Inr_iff split: if_splits)
  show "co_stack_size c' = co_stack_size c" by (simp add: c')
  show "map local_storage (tcbs c') = map local_storage (tcbs c)"
    using i by (simp add: c' assms(2) map_update list_update_same_conv)
qed

lemma spawn_stacks:
  assumes "microkit_cothread_spawn cfg entry arg s = Inr (s', h)" and "stacks_wf cfg sz s" and "pd_wf cfg s"
  shows "stacks_wf cfg sz s'"
proof -
  obtain c where c: "co_controller s = Some c" "unat (co_stack_size c) = sz" "0x1000 \<le> sz"
    using assms(2) by (auto simp: stacks_wf_def)
  have entry: "entry \<noteq> 0" using assms(1) by (auto simp: microkit_cothread_spawn_def)
  have get: "get_ctl s = Inr c" using c(1) by (simp add: get_ctl_def)
  obtain err c1 new where pop: "free_pop 0 c = Inr (err, c1, new)"
    using assms(1) entry get by (cases "free_pop 0 c") (auto simp: microkit_cothread_spawn_def)
  then have c1: "co_stack_size c1 = co_stack_size c" "map local_storage (tcbs c1) = map local_storage (tcbs c)"
    using cores_free_pop [OF pop] by (auto simp: cores_def intro: map_core_storage)
  show ?thesis
  proof (cases "err = LIBHOSTEDQUEUE_NOERR")
    case False
    then have "s' = put_ctl c1 s"
      using assms(1) entry get pop by (simp add: microkit_cothread_spawn_def)
    then show ?thesis using c1 by (intro stacks_wf_update [OF assms(2) c(1), where c' = c1]) simp_all
  next
    case True
    then obtain t :: co_tcb_t and m1 m2 handle c2 c3 where
      m1: "memzero (pd_mem s) (local_storage t) (scast (co_stack_size c1)) = Inr m1"
      and m2: "co_derive (cfg_arch cfg) (addr_co_entrypoint cfg) m1 (local_storage t) (co_stack_size c1)
        (addr_entry_wrapper cfg) = Inr (m2, handle)"
      and c2: "mod_tcb new (\<lambda>t. t\<lparr>client_entry := entry, private_arg := arg,
                   co_handle := handle, tcb_state := cothread_ready,
                   next_blocked_on_same_event := LIBMICROKITCO_NULL_HANDLE\<rparr>) c1 = Inr c2"
      and c3: "sched_push new c2 = Inr (LIBHOSTEDQUEUE_NOERR, c3)"
      and s': "s' = put_ctl c3 ((fst (co_active cfg s))\<lparr>pd_mem := m2\<rparr>)"
      using assms(1) entry get pop
      by (auto simp: microkit_cothread_spawn_def bindR_Inr_iff Let_def split: if_splits)
    have "dom m2 = dom (pd_mem s)"
    proof -
      have le: "unat (co_stack_size c1) \<le> INT_MAX"
        using assms(3) c(1) c1(1) by (auto simp: pd_wf_def ctl_wf_def)
      have "safe (\<lambda>_. True) (\<lambda>m'. dom m' = dom (pd_mem s) \<and>
          mapped (pd_mem s) (local_storage t) (unat (scast (co_stack_size c1) :: addr)))
        (memzero (pd_mem s) (local_storage t) (scast (co_stack_size c1)))"
        using le by (intro safe_memzero) (simp_all only: unat_scast32 [OF le])
      then have d: "dom m1 = dom (pd_mem s)" and "mapped (pd_mem s) (local_storage t) sz"
        unfolding m1 safe_Inr_iff unat_scast32 [OF le] by (simp_all add: c1(1) c(2))
      then have "mapped m1 (local_storage t) (unat (co_stack_size c1))"
        using c1(1) c(2) by (simp add: mapped_dom [OF d])
      from safe_co_derive [OF this, of "\<lambda>_. True" "cfg_arch cfg" "addr_co_entrypoint cfg" "addr_entry_wrapper cfg"]
      show ?thesis using m2 d c1(1) c(2,3) by simp
    qed
    moreover have "map local_storage (tcbs c3) = map local_storage (tcbs c)" "co_stack_size c3 = co_stack_size c"
      using mod_tcb_storage [OF c2] cores_queues(1) [OF c3] map_core_storage [of "tcbs c3" "tcbs c2"] c1
      by (simp_all add: cores_def)
    ultimately show ?thesis by (intro stacks_wf_update [OF assms(2) c(1), where c' = c3]) (simp_all add: s')
  qed
qed

lemma set_arg_stacks:
  assumes "microkit_cothread_set_arg cfg h arg s = Inr s'" and "stacks_wf cfg sz s"
  shows "stacks_wf cfg sz s'"
proof -
  obtain c c1 where c: "co_controller s = Some c" "mod_tcb h (\<lambda>t. t\<lparr>private_arg := arg\<rparr>) c = Inr c1" "s' = put_ctl c1 s"
    using assms(1)
    by (auto simp: microkit_cothread_set_arg_def get_ctl_def bindR_Inr_iff split: if_splits option.splits)
  from mod_tcb_storage [OF c(2)] show ?thesis
    by (intro stacks_wf_update [OF assms(2) c(1), where c' = c1]) (simp_all add: c(3))
qed

lemma api_stacks:
  assumes "api cfg call s = Inr s'" and "stacks_wf cfg sz s" and "pd_wf cfg s"
  shows "stacks_wf cfg sz s'"
proof -
  consider (spawn) e x where "call = Call_spawn e x" | (set_arg) k x where "call = Call_set_arg k x"
    | (other) "\<forall>e x. call \<noteq> Call_spawn e x" "\<forall>k x. call \<noteq> Call_set_arg k x" by blast
  then show ?thesis
  proof cases
    case spawn
    then show ?thesis using assms by (auto simp: bindR_Inr_iff intro: spawn_stacks)
  next
    case set_arg
    then show ?thesis using assms(1,2) by (auto intro: set_arg_stacks)
  next
    case other
    from same_world_call [OF assms(1) this] show ?thesis
      by (intro stacks_wf_same [OF assms(2,3)]) (simp_all add: same_world_def)
  qed
qed

text \<open>The invariant of clients that follow no rule.\<close>

definition client_wf :: "config \<Rightarrow> nat \<Rightarrow> pd \<Rightarrow> bool" where
  "client_wf cfg sz s \<longleftrightarrow> pd_wf cfg s \<and> stacks_wf cfg sz s"

lemma api_safe:
  assumes "client_wf cfg sz s" and "well_addressed cfg call"
  shows "safe (null_stack sz) (client_wf cfg sz) (api cfg call s)"
proof -
  have wf: "pd_wf cfg s" "stacks_wf cfg sz s" using assms(1) by (simp_all add: client_wf_def)
  have "safe (null_stack sz) (pd_wf cfg) (api cfg call s)"
  proof (cases call)
    case (Call_wait_on_channel ch)
    then show ?thesis using safe_pd_wait [OF wf(1), of "ChannelSem (unat ch)"]
      by (simp add: microkit_cothread_wait_on_channel_def valid_ptr_def not_le)
  next
    case (Call_recv_ntfn ch)
    obtain c where "get_ctl s = Inr c" using pd_wfE [OF wf(1)] by metis
    with Call_recv_ntfn show ?thesis using safe_pd_signal [OF wf(1), of "ChannelSem (unat ch)"]
      by (simp add: microkit_cothread_recv_ntfn_def valid_ptr_def not_le)
  next
    case (Call_spawn entry arg)
    then show ?thesis by simp (rule safe_bind [OF safe_spawn [OF wf]], auto)
  qed (use wf assms(2) in \<open>simp_all add: safe_yield safe_pd_wait safe_pd_signal safe_pd_init safe_destroy
        safe_set_arg safe_entry_returns\<close>)
  then have "safe (null_stack sz) (\<lambda>s'. pd_wf cfg s' \<and> stacks_wf cfg sz s') (api cfg call s)"
    by (rule safe_and) (rule api_stacks [OF _ wf(2,1)])
  moreover have "client_wf cfg sz = (\<lambda>s'. pd_wf cfg s' \<and> stacks_wf cfg sz s')"
    by (simp add: fun_eq_iff client_wf_def)
  ultimately show ?thesis by simp
qed

lemma run_safe:
  assumes "client_wf cfg sz s" and "\<forall>call \<in> set calls. well_addressed cfg call"
  shows "safe (null_stack sz) (client_wf cfg sz) (co_run cfg calls s)"
  using assms
proof (induction calls arbitrary: s)
  case (Cons call calls)
  then show ?case by simp (rule safe_bind [OF api_safe], auto)
qed simp

subsection \<open>The state after \<open>init\<close>\<close>

lemma init_client_wf:
  assumes env: "init_env cfg cmem s" and sz: "0x1000 \<le> sz" "unat sz \<le> INT_MAX"
    and given: "stacks_given cfg sz sts (pd_mem s)" and sems: "\<And>a. sem_wf cfg (client_sems s a)"
    and ret: "microkit_cothread_init cfg cmem sz sts s = Inr s'"
  shows "client_wf cfg (unat sz) s'"
proof -
  have cfg: "valid_config cfg" using env by (simp add: init_env_def)
  have "0 \<notin> set sts" using init_unfold [OF env sz(1) given] ret by (auto split: if_splits)
  then obtain c m where dom: "dom m = dom (pd_mem s)"
    and c: "stored sts [1..<max_cothreads cfg] (boot_controller cfg sz) c"
    and fin: "init_finish cfg sz s c m = Inr s'"
    using init_unfold [OF env sz(1) given] ret by auto
  let ?s = "fst (co_active cfg (s\<lparr>pd_mem := m\<rparr>))" and ?h = "snd (co_active cfg (s\<lparr>pd_mem := m\<rparr>))"
  obtain c2 where c2: "bindR (init_root ?h c) (\<lambda>c. init_queues cfg c) = Inr c2"
    "length (tcbs c2) = max_cothreads cfg" "queues_ok (max_cothreads cfg) c2" "ready_list c2 = []"
    "free_list c2 = map int [1..<max_cothreads cfg]" "running c2 = 0" "co_stack_size c2 = ucast sz"
    "blocked_channel_map c2 = replicate (max_channels cfg) zero_sem"
    "local_storage (tcb c2 0) = 0" "nx c2 0 = LIBMICROKITCO_NULL_HANDLE"
    and t2: "\<forall>h. 1 \<le> h \<and> h < int (max_cothreads cfg) \<longrightarrow>
       tcb c2 h = zero_tcb\<lparr>local_storage := sts ! (nat h - 1)\<rparr>"
    using init_controller_rel [OF cfg c, of ?h] by blast
  let ?c3 = "c2\<lparr>blocked_channel_map := map microkit_cothread_semaphore_init (blocked_channel_map c2)\<rparr>"
  have s': "s' = put_ctl ?c3 ?s"
    using fin c2(1) by (auto simp: init_finish_def bindR_Inr_iff Let_def split: if_splits prod.splits)
  have links: "ok_link cfg (nx c2 h)" if "ok_ref cfg h" for h
  proof (cases "h = 0")
    case True
    then show ?thesis using c2(10) by (simp add: ok_link_def)
  next
    case False
    then have "nx c2 h = 0" using t2 that by (simp add: nx_def ok_ref_def zero_tcb_def)
    then show ?thesis using cfg by (simp add: ok_link_def ok_ref_def valid_config_def)
  qed
  have size: "unat (co_stack_size c2) = unat sz"
    using sz(2) c2(7) by (simp add: unsigned_ucast_eq take_bit_nat_eq_self)
  then have "ctl_wf cfg ?c3" unfolding ctl_wf_def
    using c2(2-6) links cfg size sz(2) by (auto simp: ok_ref_def valid_config_def)
  moreover have "channels_wf cfg ?c3" using c2(8) by (auto simp: channels_wf_def)
  moreover have sems': "client_sems ?s = client_sems s" and mem: "pd_mem ?s = m"
    by (simp_all add: co_active_def Let_def)
  ultimately have "pd_wf cfg s'" using sems unfolding s' pd_wf_def by simp
  moreover have "stacks_wf cfg (unat sz) s'"
  proof -
    have "local_storage (tcb c2 h) = 0 \<or> mapped m (local_storage (tcb c2 h)) (unat sz)" if h: "ok_ref cfg h" for h
    proof (cases "h = 0")
      case False
      then have "1 \<le> h \<and> h < int (max_cothreads cfg)" "nat h - 1 < length sts"
        using h given by (auto simp: ok_ref_def stacks_given_def)
      then have "local_storage (tcb c2 h) = sts ! (nat h - 1)" "sts ! (nat h - 1) \<in> set sts" using t2 by simp_all
      then show ?thesis using given by (auto simp: stacks_given_def mapped_dom [OF dom])
    qed (simp add: c2(9))
    moreover have "0x1000 \<le> unat sz" using sz(1) by (simp add: word_le_nat_alt)
    ultimately show ?thesis using c2(2) size by (simp add: stacks_wf_def s' mem tcb_def)
  qed
  ultimately show ?thesis by (simp add: client_wf_def)
qed

end
