(* ===== verification/RegMachine.thy ===== *)
theory RegMachine
  imports PdMemory
begin

text \<open>
  A register machine on byte memory, for the hand-assembled \<open>co_swap_function\<close> of each
  architecture: registers of any type \<open>'r\<close>, words of any width. The decoders of the
  architecture theories turn the numbers of the source into lists of the operations
  below; a list is straight-line code that ends in a jump.

  Runs of stores through one base register and runs of loads through another are
  evaluated by one lemma each, so that a whole context switch is three rewriting steps.
\<close>

subsection \<open>Operations and their effect\<close>

datatype 'r uop =
    ULoad 'r 'r int        \<comment> \<open>register, base, offset\<close>
  | UStore 'r 'r int       \<comment> \<open>register, base, offset\<close>
  | UAddI 'r 'r int        \<comment> \<open>destination, source, immediate\<close>
  | UAddIW 'r 'r int       \<comment> \<open>the same on 32 bits, then sign-extended\<close>
  | UJump 'r
  | UJumpEven 'r int       \<comment> \<open>register and offset, the lowest bit cleared\<close>

record ('r, 'a) mach =
  m_reg :: "'r \<Rightarrow> 'a"
  m_mem :: "'a \<Rightarrow> 8 word option"
  m_pc :: 'a

definition set_reg :: "'r \<Rightarrow> 'w word \<Rightarrow> ('r, 'w::len word) mach \<Rightarrow> ('r, 'w word) mach" where
  "set_reg r v s = s\<lparr>m_reg := (m_reg s)(r := v)\<rparr>"

fun uexec :: "'r uop \<Rightarrow> ('r, 'w::len word) mach \<Rightarrow> fault + ('r, 'w word) mach" where
  "uexec (ULoad r b i) s =
     bindR (read_word (m_mem s) (m_reg s b + word_of_int i)) (\<lambda>v. Inr (set_reg r v s))"
| "uexec (UStore r b i) s =
     bindR (write_word (m_mem s) (m_reg s b + word_of_int i) (m_reg s r)) (\<lambda>m. Inr (s\<lparr>m_mem := m\<rparr>))"
| "uexec (UAddI r b i) s = Inr (set_reg r (m_reg s b + word_of_int i) s)"
| "uexec (UAddIW r b i) s =
     Inr (set_reg r (scast (ucast (m_reg s b + word_of_int i) :: 32 word)) s)"
| "uexec (UJump r) s = Inr (s\<lparr>m_pc := m_reg s r\<rparr>)"
| "uexec (UJumpEven r i) s = Inr (s\<lparr>m_pc := (m_reg s r + word_of_int i) AND NOT 1\<rparr>)"

fun urun :: "'r uop list \<Rightarrow> ('r, 'w::len word) mach \<Rightarrow> fault + ('r, 'w word) mach" where
  "urun [] s = Inr s"
| "urun (op # ops) s = bindR (uexec op s) (urun ops)"

text \<open>
  A code array is run by decoding its numbers one by one; the first jump leaves it.
  \<open>sext b v\<close> reads the \<open>b\<close>-bit field
  \<open>v\<close> of an instruction as a signed number.
\<close>

fun until_jump :: "'r uop list \<Rightarrow> 'r uop list" where
  "until_jump [] = []"
| "until_jump (UJump r # ops) = [UJump r]"
| "until_jump (UJumpEven r i # ops) = [UJumpEven r i]"
| "until_jump (op # ops) = op # until_jump ops"

definition run_code :: "(nat \<Rightarrow> 'r uop list option) \<Rightarrow> nat list \<Rightarrow> ('r, 'w::len word) mach \<Rightarrow>
    fault + ('r, 'w word) mach" where
  "run_code dec ws s = (case those (map dec ws) of
      None \<Rightarrow> Inl IllegalInstruction
    | Some ops \<Rightarrow> urun (until_jump (concat ops)) s)"

definition sext :: "nat \<Rightarrow> nat \<Rightarrow> int" where
  "sext b v = (if v < 2 ^ (b - 1) then int v else int v - 2 ^ b)"

lemma urun_append: "urun (xs @ ys) s = bindR (urun xs s) (urun ys)"
  by (induction xs arbitrary: s) (auto simp: bindR_assoc intro!: arg_cong [where f = "bindR _"])

subsection \<open>Runs of stores\<close>

definition stores :: "'r \<Rightarrow> ('r \<times> int) list \<Rightarrow> 'r uop list" where
  "stores b xs = map (\<lambda>(r, i). UStore r b i) xs"

definition loads :: "'r \<Rightarrow> ('r \<times> int) list \<Rightarrow> 'r uop list" where
  "loads b xs = map (\<lambda>(r, i). ULoad r b i) xs"

definition store_list :: "('r \<Rightarrow> 'w::len word) \<Rightarrow> 'w word \<Rightarrow> ('r \<times> int) list \<Rightarrow> ('w word \<times> 'w word) list" where
  "store_list R base xs = map (\<lambda>(r, i). (base + word_of_int i, R r)) xs"

lemma store_list_append: "store_list R h (xs @ ys) = store_list R h xs @ store_list R h ys"
  by (simp add: store_list_def)

lemma store_list_cong:
  "(\<And>r. r \<in> fst ` set xs \<Longrightarrow> R r = R' r) \<Longrightarrow> store_list R h xs = store_list R' h xs"
  by (force simp: store_list_def)

lemma urun_stores:
  "urun (stores b xs) s =
     bindR (write_words (m_mem s) (store_list (m_reg s) (m_reg s b) xs)) (\<lambda>m. Inr (s\<lparr>m_mem := m\<rparr>))"
proof (induction xs arbitrary: s)
  case Nil
  then show ?case by (simp add: stores_def store_list_def)
next
  case (Cons x xs)
  obtain r i where x: "x = (r, i)" by (cases x)
  show ?case
    using Cons.IH by (cases "write_word (m_mem s) (m_reg s b + word_of_int i) (m_reg s r)")
      (simp_all add: x stores_def store_list_def)
qed

lemma until_jump_stores [simp]: "until_jump (stores b xs @ ops) = stores b xs @ until_jump ops"
  by (induction xs) (auto simp: stores_def)

lemma until_jump_loads [simp]: "until_jump (loads b xs @ ops) = loads b xs @ until_jump ops"
  by (induction xs) (auto simp: loads_def)

subsection \<open>Runs of loads\<close>

lemma read_word_Some: "load_word m a = Some v \<Longrightarrow> read_word m a = Inr v"
  by (simp add: read_word_def)

lemma urun_loads:
  assumes "\<forall>(r, i) \<in> set xs. load_word (m_mem s) (m_reg s b + word_of_int i) = Some (V r)"
    and "b \<notin> fst ` set xs"
  shows "urun (loads b xs) s = Inr (s\<lparr>m_reg := \<lambda>r. if r \<in> fst ` set xs then V r else m_reg s r\<rparr>)"
  using assms
proof (induction xs arbitrary: s)
  case Nil
  then show ?case by (simp add: loads_def)
next
  case (Cons x xs)
  obtain r i where x: "x = (r, i)" by (cases x)
  let ?s = "set_reg r (V r) s"
  have "urun (loads b (x # xs)) s = urun (loads b xs) ?s"
    using Cons.prems(1) by (simp add: x loads_def read_word_Some)
  also have "\<dots> = Inr (?s\<lparr>m_reg := \<lambda>r. if r \<in> fst ` set xs then V r else m_reg ?s r\<rparr>)"
    using Cons.prems x by (intro Cons.IH) (auto simp: set_reg_def)
  also have "\<dots> = Inr (s\<lparr>m_reg := \<lambda>k. if k \<in> fst ` set (x # xs) then V k else m_reg s k\<rparr>)"
    by (auto simp: x set_reg_def fun_eq_iff)
  finally show ?case .
qed

lemma set_reg_simps [simp]:
  "m_mem (set_reg r v s) = m_mem s" "m_pc (set_reg r v s) = m_pc s"
  "m_reg (set_reg r v s) k = (if k = r then v else m_reg s k)"
  by (simp_all add: set_reg_def)

lemma set_reg_mem [simp]: "set_reg r v (s\<lparr>m_mem := m\<rparr>) = (set_reg r v s)\<lparr>m_mem := m\<rparr>"
  by (simp add: set_reg_def)

lemma word_bytes_64: "word_bytes TYPE(64) = 8"
  by simp

subsection \<open>Saving to a block and restoring from one\<close>

text \<open>
  A layout gives each saved register its offset from the handle. \<open>saved_at\<close> says what the
  memory holds there, \<open>block_bytes\<close> is the set of bytes the layout occupies.
\<close>

definition saved_at :: "'w::len memory \<Rightarrow> 'w word \<Rightarrow> ('r \<times> int) list \<Rightarrow> ('r \<Rightarrow> 'w word) \<Rightarrow> bool" where
  "saved_at m h xs V \<longleftrightarrow> (\<forall>(r, i) \<in> set xs. load_word m (h + word_of_int i) = Some (V r))"

definition word_range :: "'w::len word \<Rightarrow> 'w word set" where
  "word_range a = {b. inside b a (word_bytes TYPE('w))}"

definition block_bytes :: "'w::len word \<Rightarrow> ('r \<times> int) list \<Rightarrow> 'w word set" where
  "block_bytes h xs = (\<Union>(r, i) \<in> set xs. word_range (h + word_of_int i))"

definition block_mapped :: "'w::len memory \<Rightarrow> 'w word \<Rightarrow> ('r \<times> int) list \<Rightarrow> bool" where
  "block_mapped m h xs \<longleftrightarrow> (\<forall>(r, i) \<in> set xs. mapped m (h + word_of_int i) (word_bytes TYPE('w)))"

lemma block_mapped_dom:
  assumes "dom m' = dom m"
  shows "block_mapped m' h xs = block_mapped m h xs"
  by (simp add: block_mapped_def mapped_dom [OF assms])

lemma saved_at_append: "saved_at m h (xs @ ys) V \<longleftrightarrow> saved_at m h xs V \<and> saved_at m h ys V"
  by (auto simp: saved_at_def)

lemma saved_at_cong: "(\<And>r. r \<in> fst ` set xs \<Longrightarrow> V r = V' r) \<Longrightarrow> saved_at m h xs V = saved_at m h xs V'"
  by (force simp: saved_at_def)

lemma load_word_frame:
  fixes a :: "'w::len word"
  assumes "\<forall>b \<in> word_range a. m' b = m b"
  shows "load_word m' a = load_word m a"
proof (rule load_word_eq_iff)
  fix i assume "i < word_bytes TYPE('w)"
  then have "inside (a + of_nat i) a (word_bytes TYPE('w))"
    using inside_iff [of "word_bytes TYPE('w)" "a + of_nat i" a] bytes_lt [where ?'w = 'w] by auto
  then show "m' (a + of_nat i) = m (a + of_nat i)" using assms by (simp add: word_range_def)
qed

lemma saved_at_frame:
  assumes "\<forall>b \<in> block_bytes h xs. m' b = m b"
  shows "saved_at m' h xs V = saved_at m h xs V"
proof -
  have "load_word m' (h + word_of_int i) = load_word m (h + word_of_int i)" if "(r, i) \<in> set xs" for r i
    by (rule load_word_frame) (use that assms in \<open>auto simp: block_bytes_def\<close>)
  then show ?thesis unfolding saved_at_def by fastforce
qed

text \<open>Offsets far enough from each other for the words there not to overlap.\<close>

fun spaced :: "int \<Rightarrow> int list \<Rightarrow> bool" where
  "spaced n [] \<longleftrightarrow> True"
| "spaced n (i # is) \<longleftrightarrow> list_all (\<lambda>j. n \<le> \<bar>i - j\<bar> \<and> \<bar>i - j\<bar> \<le> 4096) is \<and> spaced n is"

lemma apart_offsets:
  fixes h :: "'w::len word"
  assumes "int n \<le> \<bar>i - j\<bar>" and "\<bar>i - j\<bar> \<le> 4096" and "0 < n" and "n \<le> 4096" and "16 \<le> LENGTH('w)"
  shows "apart (h + word_of_int i) n (h + word_of_int j) n"
proof -
  have "(2 :: nat) ^ 16 \<le> 2 ^ LENGTH('w)" using assms(5) by (rule power_increasing) simp
  then have room: "4096 + 4096 \<le> (2 :: nat) ^ LENGTH('w)" by simp
  have *: "apart (h + word_of_int k) n (h + word_of_int l) n"
    if "int n \<le> l - k" "l - k \<le> 4096" for k l
  proof -
    define d where "d = nat (l - k)"
    have d: "n \<le> d" "d \<le> 4096" using that unfolding d_def by linarith+
    have "int d = l - k" using that(1) unfolding d_def by simp
    then have "of_nat d = (word_of_int l - word_of_int k :: 'w word)" by (metis of_int_diff of_int_of_nat_eq)
    then have "h + word_of_int l = h + word_of_int k + of_nat d" by simp
    moreover have "apart (h + word_of_int k) n (h + word_of_int k + of_nat d) n"
      by (rule apart_offset) (use d assms(3,4) room in linarith)+
    ultimately show ?thesis by (simp only:)
  qed
  show ?thesis
  proof (cases "i \<le> j")
    case True
    then show ?thesis using * [of j i] assms(1,2) by simp
  next
    case False
    then show ?thesis using * [of i j] assms(1,2) by (simp add: apart_sym)
  qed
qed

lemma spaced_all_apart:
  fixes h :: "'w::len word"
  assumes "spaced (int (word_bytes TYPE('w))) is" and "16 \<le> LENGTH('w)" and "LENGTH('w) \<le> 64"
  shows "all_apart (map (\<lambda>i. h + word_of_int i) is)"
  using assms by (induction "is") (auto simp: list_all_iff intro!: apart_offsets)

text \<open>Storing the registers of a layout with distinct offsets.\<close>

lemma write_words_append:
  "write_words m (xs @ ys) = bindR (write_words m xs) (\<lambda>m'. write_words m' ys)"
  by (induction m xs rule: write_words.induct) (auto simp: bindR_assoc)

lemma save_block:
  fixes m :: "'w::len memory"
  assumes "block_mapped m h xs" and "spaced (int (word_bytes TYPE('w))) (map snd xs)"
    and "8 dvd LENGTH('w)" and "16 \<le> LENGTH('w)" and "LENGTH('w) \<le> 64"
  shows "\<exists>m'. write_words m (store_list R h xs) = Inr m' \<and> dom m' = dom m \<and> saved_at m' h xs R \<and>
    (\<forall>b. b \<notin> block_bytes h xs \<longrightarrow> m' b = m b)"
proof -
  have fst_eq: "map fst (store_list R h xs) = map (\<lambda>i. h + word_of_int i) (map snd xs)"
    by (auto simp: store_list_def)
  have "\<forall>(a, v) \<in> set (store_list R h xs). mapped m a (word_bytes TYPE('w))"
    using assms(1) by (fastforce simp: store_list_def block_mapped_def)
  then obtain m' where m': "write_words m (store_list R h xs) = Inr m'" using write_words_mapped by blast
  have "\<forall>(a, v) \<in> set (store_list R h xs). load_word m' a = Some v"
    by (rule write_words_load [OF m' _ assms(3)])
      (simp only: fst_eq spaced_all_apart [OF assms(2,4,5), of h])
  then have "saved_at m' h xs R" by (force simp: saved_at_def store_list_def)
  moreover have "m' b = m b" if "b \<notin> block_bytes h xs" for b
    by (rule write_words_other [OF m'])
      (use that in \<open>force simp: store_list_def block_bytes_def word_range_def\<close>)
  ultimately show ?thesis using m' write_words_dom [OF m'] by blast
qed

text \<open>A mapped block with one offset per register: its contents are the parked registers.\<close>

lemma saved_at_exists:
  assumes "block_mapped m h xs" and "distinct (map fst xs)"
  shows "\<exists>V. saved_at m h xs V"
proof
  let ?V = "\<lambda>r. case map_of xs r of None \<Rightarrow> 0 | Some i \<Rightarrow> the (load_word m (h + word_of_int i))"
  have "load_word m (h + word_of_int i) = Some (?V r)" if "(r, i) \<in> set xs" for r i
  proof -
    have "\<exists>v. load_word m (h + word_of_int i) = Some v"
      using that assms(1) by (auto simp: block_mapped_def load_word_Some_iff)
    moreover have "map_of xs r = Some i" using that assms(2) by simp
    ultimately show ?thesis by auto
  qed
  then show "saved_at m h xs ?V" by (auto simp: saved_at_def)
qed

text \<open>
  A context at the top of a stack: \<open>c\<close> is the distance of the layout's base from the
  topmost word, and every register has one of the words of the stack.
\<close>

definition in_top_words :: "nat \<Rightarrow> int \<Rightarrow> ('r \<times> int) list \<Rightarrow> bool" where
  "in_top_words n c xs \<longleftrightarrow>
     list_all (\<lambda>(r, i). 8 dvd c + i \<and> c + i \<le> 0 \<and> - (c + i) < 8 * int n) xs"

lemma in_top_words_mono: "in_top_words n c xs \<Longrightarrow> n \<le> k \<Longrightarrow> in_top_words k c xs"
  by (fastforce simp: in_top_words_def list_all_iff)

lemma top_words:
  fixes memory :: addr
  assumes "in_top_words (unat (sz :: 32 word) div 8) c xs" and "(r, i) \<in> set xs"
  obtains k where "memory + 8 * (ucast sz div 8 - 1) + word_of_int c + word_of_int i
      = memory + 8 * (ucast sz div 8 - 1) - 8 * of_nat k" and "k < unat sz div 8"
proof -
  obtain j where "c + i = 8 * j" "c + i \<le> 0" "- (c + i) < 8 * int (unat sz div 8)"
    using assms by (auto simp: in_top_words_def list_all_iff elim!: dvdE dest!: bspec)
  moreover define k where "k = nat (- j)"
  ultimately have k: "c + i = - (8 * int k)" "k < unat sz div 8" by auto
  have "word_of_int c + word_of_int i = (- (8 * of_nat k) :: addr)"
    using arg_cong [OF k(1), of "word_of_int :: int \<Rightarrow> addr"] by simp
  then have "memory + 8 * (ucast sz div 8 - 1) + word_of_int c + word_of_int i
      = memory + 8 * (ucast sz div 8 - 1) - 8 * of_nat k"
    by (simp add: add.assoc)
  with k(2) show thesis by (rule that [rotated])
qed

lemma stack_context:
  fixes memory :: addr
  assumes "in_top_words (unat (sz :: 32 word) div 8) c xs"
  shows "mapped m memory (unat sz) \<Longrightarrow>
      block_mapped m (memory + 8 * (ucast sz div 8 - 1) + word_of_int c) xs"
    and "b \<in> block_bytes (memory + 8 * (ucast sz div 8 - 1) + word_of_int c) xs \<Longrightarrow>
      inside b memory (unat sz)"
proof -
  show "block_mapped m (memory + 8 * (ucast sz div 8 - 1) + word_of_int c) xs"
    if "mapped m memory (unat sz)"
    unfolding block_mapped_def
  proof clarify
    fix r i assume "(r, i) \<in> set xs"
    then obtain k where "memory + 8 * (ucast sz div 8 - 1) + word_of_int c + word_of_int i
      = memory + 8 * (ucast sz div 8 - 1) - 8 * of_nat k" and "k < unat sz div 8"
      using top_words [OF assms] by metis
    then show "mapped m (memory + 8 * (ucast sz div 8 - 1) + word_of_int c + word_of_int i)
        (word_bytes TYPE(64))" using mapped_top_slot [OF that, of k] by (simp only: word_bytes_64)
  qed
  show "inside b memory (unat sz)"
    if "b \<in> block_bytes (memory + 8 * (ucast sz div 8 - 1) + word_of_int c) xs"
  proof -
    from that obtain r i where "(r, i) \<in> set xs"
      and b: "inside b (memory + 8 * (ucast sz div 8 - 1) + word_of_int c + word_of_int i) 8"
      by (auto simp: block_bytes_def word_range_def)
    then obtain k where "memory + 8 * (ucast sz div 8 - 1) + word_of_int c + word_of_int i
      = memory + 8 * (ucast sz div 8 - 1) - 8 * of_nat k" and "k < unat sz div 8"
      using top_words [OF assms] by metis
    with b show ?thesis using inside_top_slot [of b memory sz k] by (simp only:)
  qed
qed

subsection \<open>The first stack pointer\<close>

text \<open>Both top-of-stack layouts align a word's address down to 16 bytes.\<close>

lemma align_16:
  fixes x :: addr
  shows "x AND NOT 0xF = x - (x AND 0xF)" and "(x AND NOT 0xF) AND 0xF = 0" and "unat (x AND 0xF) \<le> 15"
proof -
  have "(x AND 0xF) + (x AND NOT 0xF) = (x AND 0xF) OR (x AND NOT 0xF)"
    by (rule disjunctive_add_eq_or) (rule bit_word_eqI, auto simp: bit_simps)
  also have "\<dots> = x" by (rule bit_word_eqI) (auto simp: bit_simps)
  finally show "x AND NOT 0xF = x - (x AND 0xF)" by (simp add: algebra_simps)
  show "(x AND NOT 0xF) AND 0xF = 0" by (rule bit_word_eqI) (auto simp: bit_simps)
  have "x AND 0xF \<le> 0xF" by (rule word_and_le1)
  then show "unat (x AND 0xF) \<le> 15" by (simp add: word_le_nat_alt)
qed

lemma aligned_inside:
  fixes memory :: addr
  assumes "15 \<le> k" and "k < n" and "n < 2 ^ 63"
  shows "inside ((memory + of_nat k) AND NOT 0xF) memory n"
proof -
  let ?d = "(memory + of_nat k) AND 0xF :: addr"
  have d: "unat ?d \<le> k" using align_16(3) [of "memory + of_nat k"] assms(1) by linarith
  have "((memory + of_nat k) AND NOT 0xF) - memory = of_nat k - ?d"
    unfolding align_16(1) by (simp only: add_diff_cancel_left' diff_right_commute)
  also have "\<dots> = of_nat (k - unat ?d)" using d by (simp add: of_nat_diff)
  finally have "unat (((memory + of_nat k) AND NOT 0xF) - memory) = k - unat ?d"
    using assms by (simp add: unat_of_nat)
  then show ?thesis using assms by (simp add: inside_def)
qed

lemma in_block_range:
  fixes base :: "'w::len word"
  assumes "in_block base n a" and "n < 2 ^ LENGTH('w)" and "b \<in> word_range a"
  shows "inside b base n"
  using assms inside_sub by (auto simp: in_block_def word_range_def)

text \<open>Contexts at a distance from each other share no byte.\<close>

lemma block_bytes_within:
  fixes h :: "'w::len word"
  assumes "list_all (\<lambda>(r, i). 0 \<le> c + i \<and> c + i + int (word_bytes TYPE('w)) \<le> int n) xs"
    and "n < 2 ^ LENGTH('w)" and "b \<in> block_bytes h xs"
  shows "inside b (h - word_of_int c) n"
proof -
  obtain r i where i: "(r, i) \<in> set xs" "inside b (h + word_of_int i) (word_bytes TYPE('w))"
    using assms(3) by (auto simp: block_bytes_def word_range_def)
  define k where "k = nat (c + i)"
  have k: "int k = c + i" "k + word_bytes TYPE('w) \<le> n"
    using assms(1) i(1) by (auto simp: list_all_iff k_def)
  have "of_nat k = (word_of_int c + word_of_int i :: 'w word)"
    using arg_cong [OF k(1), of "word_of_int :: int \<Rightarrow> 'w word"] by simp
  then have at: "h - word_of_int c + of_nat k = h + word_of_int i" by simp
  from i(2) [folded at] show ?thesis using inside_sub [of b "h - word_of_int c" k] k(2) assms(2) by simp
qed

lemma ranges_disjoint:
  assumes "\<And>b. b \<in> A \<Longrightarrow> inside b x n" and "\<And>b. b \<in> B \<Longrightarrow> inside b y k" and "apart x n y k"
  shows "A \<inter> B = {}"
  using assms apart_not_inside by blast

text \<open>A memory of zeroes, for examples.\<close>

definition zero_memory :: "'w word \<Rightarrow> 8 word option" where
  "zero_memory = (\<lambda>_. Some 0)"

lemma load_zero_memory: "load_word zero_memory a = Some (0 :: 'w::len word)"
proof -
  have "horner_sum uint 256 (map (\<lambda>i. (0 :: 8 word)) xs) = 0" for xs :: "nat list"
    by (induction xs) simp_all
  then show ?thesis
    by (simp add: load_word_def mapped_def zero_memory_def word_rcat_def rev_map)
qed

lemma saved_at_zero_memory: "saved_at zero_memory h xs (\<lambda>_. 0 :: 'w::len word)"
  by (auto simp: saved_at_def load_zero_memory)

lemma mapped_zero_memory: "mapped zero_memory a n"
  by (simp add: mapped_def zero_memory_def)

lemma block_mapped_UNIV: "dom m = UNIV \<Longrightarrow> block_mapped m h xs"
  by (auto simp: block_mapped_def mapped_def dom_def)

lemma block_mapped_zero_memory: "block_mapped zero_memory (h :: 'w::len word) xs"
  by (auto simp: block_mapped_def mapped_def zero_memory_def)

end
