(* ===== verification/ContextSwitch.thy ===== *)
theory ContextSwitch
  imports RegMachine
begin

text \<open>
  The contract of \<open>co_swap\<close>, which every architecture implements with its own machine
  code, and what it is good for. A context that is not running is parked: memory holds
  its registers and the address where it goes on. The contract says what one run of
  \<open>co_swap\<close> does to the machine; the lemmas of the locale say that switching away and
  back looks like a function call that returns, and that any number of parked contexts
  survives a switch.
\<close>

subsection \<open>\<open>co_switch\<close>\<close>

text \<open>
  \<open>co_switch\<close> replaces the active handle and calls \<open>co_swap\<close> with the new and the old
  handle in the first two argument registers. The state is the machine and the variable
  \<open>co_active_handle\<close>.
\<close>

definition co_switch_by ::
    "(('r, 'w::len word) mach \<Rightarrow> fault + ('r, 'w word) mach) \<Rightarrow> 'r \<Rightarrow> 'r \<Rightarrow> 'w word \<Rightarrow>
     ('r, 'w word) mach \<times> 'w word \<Rightarrow> fault + ('r, 'w word) mach \<times> 'w word" where
  "co_switch_by co_swap to_reg from_reg handle = (\<lambda>(s, co_active_handle).
     let co_previous_handle = co_active_handle in
     bindR (co_swap (set_reg from_reg co_previous_handle (set_reg to_reg handle s)))
       (\<lambda>s'. Inr (s', handle)))"

subsection \<open>The contract\<close>

text \<open>
  \<open>holds m h V pc\<close>: in memory \<open>m\<close> the context \<open>h\<close> is parked with registers \<open>V\<close>, to go on at
  \<open>pc\<close>. \<open>foot m h\<close> are the bytes this depends on, \<open>block h\<close> the bytes that saving to \<open>h\<close>
  writes. \<open>expects s\<close> and \<open>returns_to s\<close> are the registers and the address with which a
  function called in state \<open>s\<close> has to return.
\<close>

locale context_switch =
  fixes swap :: "('r, 'w::len word) mach \<Rightarrow> fault + ('r, 'w word) mach"
    and to_reg from_reg :: 'r
    and saved :: "'r set"
    and ready :: "('r, 'w word) mach \<Rightarrow> bool"
    and holds :: "'w memory \<Rightarrow> 'w word \<Rightarrow> ('r \<Rightarrow> 'w word) \<Rightarrow> 'w word \<Rightarrow> bool"
    and foot :: "'w memory \<Rightarrow> 'w word \<Rightarrow> 'w word set"
    and block :: "'w word \<Rightarrow> 'w word set"
    and expects :: "('r, 'w word) mach \<Rightarrow> 'r \<Rightarrow> 'w word"
    and returns_to :: "('r, 'w word) mach \<Rightarrow> 'w word"
  assumes swap_switches:
    "ready s \<Longrightarrow> holds (m_mem s) (m_reg s to_reg) V pc \<Longrightarrow>
      foot (m_mem s) (m_reg s to_reg) \<inter> block (m_reg s from_reg) = {} \<Longrightarrow>
      \<exists>s'. swap s = Inr s' \<and> m_pc s' = pc \<and> (\<forall>r \<in> saved. m_reg s' r = V r) \<and>
        holds (m_mem s') (m_reg s from_reg) (expects s) (returns_to s) \<and>
        dom (m_mem s') = dom (m_mem s) \<and>
        (\<forall>b. b \<notin> block (m_reg s from_reg) \<longrightarrow> m_mem s' b = m_mem s b)"
    and holds_frame:
      "holds m h V pc \<Longrightarrow> \<forall>b \<in> foot m h. m' b = m b \<Longrightarrow> holds m' h V pc"

definition parked ::
    "('w memory \<Rightarrow> 'w word \<Rightarrow> ('r \<Rightarrow> 'w word) \<Rightarrow> 'w word \<Rightarrow> bool) \<Rightarrow> 'w::len memory \<Rightarrow>
     ('w word \<rightharpoonup> ('r \<Rightarrow> 'w word) \<times> 'w word) \<Rightarrow> bool" where
  "parked holds m ctx \<longleftrightarrow> (\<forall>h V pc. ctx h = Some (V, pc) \<longrightarrow> holds m h V pc)"

context context_switch
begin

text \<open>
  A switch away and, later, a switch back from any context: the caller of the first finds
  its program counter and its callee-saved registers as after a function call.
\<close>

lemma away_and_back:
  assumes "ready s" and "holds (m_mem s) (m_reg s to_reg) V pc"
    and "foot (m_mem s) (m_reg s to_reg) \<inter> block (m_reg s from_reg) = {}"
    and "swap s = Inr s1"
    and "ready s2" and "m_reg s2 to_reg = m_reg s from_reg"
    and "\<forall>b \<in> foot (m_mem s1) (m_reg s from_reg). m_mem s2 b = m_mem s1 b"
    and "foot (m_mem s2) (m_reg s2 to_reg) \<inter> block (m_reg s2 from_reg) = {}"
  shows "\<exists>s3. swap s2 = Inr s3 \<and> m_pc s3 = returns_to s \<and> (\<forall>r \<in> saved. m_reg s3 r = expects s r)"
proof -
  have "holds (m_mem s1) (m_reg s from_reg) (expects s) (returns_to s)"
    using swap_switches [OF assms(1-3)] assms(4) by auto
  then have "holds (m_mem s2) (m_reg s2 to_reg) (expects s) (returns_to s)"
    using holds_frame assms(6,7) by simp
  from swap_switches [OF assms(5) this assms(8)] show ?thesis by blast
qed

text \<open>
  The parked contexts as a map from handles: a switch takes the context of its target and
  parks the caller; every other context stays.
\<close>

lemma switch_parks:
  assumes "ready s" and "parked holds (m_mem s) ctx" and "ctx (m_reg s to_reg) = Some (V, pc)"
    and "\<forall>h \<in> dom ctx. foot (m_mem s) h \<inter> block (m_reg s from_reg) = {}"
  shows "\<exists>s'. swap s = Inr s' \<and> m_pc s' = pc \<and> (\<forall>r \<in> saved. m_reg s' r = V r) \<and>
    parked holds (m_mem s') (ctx(m_reg s from_reg \<mapsto> (expects s, returns_to s)))"
proof -
  have "holds (m_mem s) (m_reg s to_reg) V pc" using assms(2,3) by (simp add: parked_def)
  moreover have "foot (m_mem s) (m_reg s to_reg) \<inter> block (m_reg s from_reg) = {}"
    using assms(3,4) by blast
  ultimately obtain s' where s': "swap s = Inr s'" "m_pc s' = pc" "\<forall>r \<in> saved. m_reg s' r = V r"
    "holds (m_mem s') (m_reg s from_reg) (expects s) (returns_to s)"
    and same: "\<And>b. b \<notin> block (m_reg s from_reg) \<Longrightarrow> m_mem s' b = m_mem s b"
    using swap_switches [OF assms(1)] by blast
  have "holds (m_mem s') h W q" if "ctx h = Some (W, q)" for h W q
  proof (rule holds_frame)
    show "holds (m_mem s) h W q" using assms(2) that by (simp add: parked_def)
    show "\<forall>b \<in> foot (m_mem s) h. m_mem s' b = m_mem s b" using assms(4) that same by blast
  qed
  with s' show ?thesis by (auto simp: parked_def)
qed

text \<open>
  The same for \<open>co_switch\<close>, the function the scheduler calls: the variable
  \<open>co_active_handle\<close> names the running context before and after.
\<close>

lemma co_switch_parks:
  assumes "to_reg \<noteq> from_reg" and "s0 = set_reg from_reg active (set_reg to_reg h s)"
    and "ready s0" and "parked holds (m_mem s) ctx" and "ctx h = Some (V, pc)"
    and "\<forall>k \<in> dom ctx. foot (m_mem s) k \<inter> block active = {}"
  shows "\<exists>s'. co_switch_by swap to_reg from_reg h (s, active) = Inr (s', h) \<and> m_pc s' = pc \<and>
    (\<forall>r \<in> saved. m_reg s' r = V r) \<and>
    parked holds (m_mem s') (ctx(active \<mapsto> (expects s0, returns_to s0)))"
proof -
  have "m_mem s0 = m_mem s" "m_reg s0 to_reg = h" "m_reg s0 from_reg = active"
    using assms(1,2) by (simp_all add: set_reg_def)
  with switch_parks [OF assms(3), of ctx V pc] assms show ?thesis
    by (auto simp: co_switch_by_def)
qed

text \<open>
  The first switch to a context that was prepared in memory \<open>m'\<close> and whose bytes are still
  as they were then.
\<close>

lemma starts_prepared:
  assumes "to_reg \<noteq> from_reg" and "s0 = set_reg from_reg active (set_reg to_reg h s)" and "ready s0"
    and "holds m' h V pc" and "\<forall>b \<in> foot m' h. m_mem s b = m' b"
    and "foot (m_mem s) h \<inter> block active = {}"
  shows "\<exists>s'. co_switch_by swap to_reg from_reg h (s, active) = Inr (s', h) \<and> m_pc s' = pc \<and>
    (\<forall>r \<in> saved. m_reg s' r = V r) \<and> holds (m_mem s') active (expects s0) (returns_to s0) \<and>
    (\<forall>b. b \<notin> block active \<longrightarrow> m_mem s' b = m_mem s b)"
proof -
  have s0: "m_mem s0 = m_mem s" "m_reg s0 to_reg = h" "m_reg s0 from_reg = active"
    using assms(1,2) by simp_all
  have "holds (m_mem s0) (m_reg s0 to_reg) V pc" using holds_frame [OF assms(4)] assms(5) s0 by simp
  from swap_switches [OF assms(3) this] assms(6) s0 show ?thesis
    by (auto simp: co_switch_by_def simp flip: assms(2))
qed

end

end
