(* ===== verification/Aarch64Switch.thy ===== *)
theory Aarch64Switch
  imports LibcoAarch64 ContextSwitch
begin

text \<open>
  The machine code of \<open>co_swap\<close> in \<open>libco/aarch64.c\<close>: decoder, code array, and the proof that
  it meets the contract of a context switch; then the first switch to a derived context.
\<close>

subsection \<open>Instructions\<close>

datatype a64_reg = A64X nat | A64SP | A64D nat

text \<open>Register 31 is the stack pointer as a base or an operand of \<open>add\<close>.\<close>

definition a64_xsp :: "nat \<Rightarrow> a64_reg" where
  "a64_xsp n = (if n = 31 then A64SP else A64X n)"

text \<open>
  The instruction forms of the code: pairs of 64-bit integer or floating-point registers,
  single 64-bit registers with a scaled offset, \<open>add\<close> of an unshifted immediate (\<open>mov\<close> to
  and from the stack pointer), and \<open>br\<close>. Register 31 as data is the zero register, which
  the code does not use.
\<close>

definition a64_decode :: "nat \<Rightarrow> a64_reg uop list option" where
  "a64_decode w =
     (let op = w div 2 ^ 22; rt = w mod 2 ^ 5; rn = w div 2 ^ 5 mod 2 ^ 5; rt2 = w div 2 ^ 10 mod 2 ^ 5;
          imm7 = 8 * sext 7 (w div 2 ^ 15 mod 2 ^ 7); imm12 = int (w div 2 ^ 10 mod 2 ^ 12) in
      if op = 0x2A4 \<and> rt \<noteq> 31 \<and> rt2 \<noteq> 31 then
        Some [UStore (A64X rt) (a64_xsp rn) imm7, UStore (A64X rt2) (a64_xsp rn) (imm7 + 8)]
      else if op = 0x2A5 \<and> rt \<noteq> 31 \<and> rt2 \<noteq> 31 \<and> rt \<noteq> rn \<and> rt \<noteq> rt2 then
        Some [ULoad (A64X rt) (a64_xsp rn) imm7, ULoad (A64X rt2) (a64_xsp rn) (imm7 + 8)]
      else if op = 0x1B4 then
        Some [UStore (A64D rt) (a64_xsp rn) imm7, UStore (A64D rt2) (a64_xsp rn) (imm7 + 8)]
      else if op = 0x1B5 \<and> rt \<noteq> rt2 then
        Some [ULoad (A64D rt) (a64_xsp rn) imm7, ULoad (A64D rt2) (a64_xsp rn) (imm7 + 8)]
      else if op = 0x244 then Some [UAddI (a64_xsp rt) (a64_xsp rn) imm12]
      else if op = 0x3E4 \<and> rt \<noteq> 31 then Some [UStore (A64X rt) (a64_xsp rn) (8 * imm12)]
      else if op = 0x3E5 \<and> rt \<noteq> 31 then Some [ULoad (A64X rt) (a64_xsp rn) (8 * imm12)]
      else if w div 2 ^ 10 = 0x3587C0 \<and> rt = 0 \<and> rn \<noteq> 31 then Some [UJump (A64X rn)]
      else None)"

definition a64_co_swap_function :: "nat list" where
  "a64_co_swap_function =
     [0x6d36382f, 0x6d37302d, 0x6d38282b, 0x6d392029, 0xa93a6c3c, 0xa93b643a, 0xa93c5c38, 0xa93d5436,
      0xa93e4c34, 0x910003f0, 0xa93f403d, 0xf900003e, 0x6d76380f, 0x6d77300d, 0x6d78280b, 0x6d792009,
      0xa97a6c1c, 0xa97b641a, 0xa97c5c18, 0xa97d5416, 0xa97e4c14, 0xa97f401d, 0x9100021f, 0xf940001e,
      0xd61f03c0]"

definition a64_co_swap :: "(a64_reg, 64 word) mach \<Rightarrow> fault + (a64_reg, 64 word) mach" where
  "a64_co_swap = run_code a64_decode a64_co_swap_function"

subsection \<open>What the code is\<close>

abbreviation a64_x0 :: a64_reg where "a64_x0 \<equiv> A64X 0"
abbreviation a64_x1 :: a64_reg where "a64_x1 \<equiv> A64X 1"
abbreviation a64_ip0 :: a64_reg where "a64_ip0 \<equiv> A64X 16"
abbreviation a64_fp :: a64_reg where "a64_fp \<equiv> A64X 29"
abbreviation a64_lr :: a64_reg where "a64_lr \<equiv> A64X 30"

text \<open>
  The callee-saved registers the code moves directly, from the lowest address up; the
  frame pointer, the stack pointer (through \<open>x16\<close>) and the link register follow.
\<close>

definition a64_moved :: "a64_reg list" where
  "a64_moved = map A64D [15, 14, 13, 12, 11, 10, 9, 8]
     @ map A64X [28, 27, 26, 25, 24, 23, 22, 21, 20, 19]"

definition a64_low_layout :: "(a64_reg \<times> int) list" where
  "a64_low_layout = zip a64_moved (map (\<lambda>i. 8 * int i - 160) [0..<18])"

definition a64_layout :: "(a64_reg \<times> int) list" where
  "a64_layout = a64_low_layout @ [(a64_fp, -16), (a64_ip0, -8), (a64_lr, 0)]"

definition a64_saved_regs :: "a64_reg set" where
  "a64_saved_regs = set a64_moved \<union> {a64_fp, A64SP}"

definition a64_save_ops :: "a64_reg uop list" where
  "a64_save_ops = stores a64_x1 a64_low_layout @ [UAddI a64_ip0 A64SP 0]
     @ stores a64_x1 [(a64_fp, -16), (a64_ip0, -8), (a64_lr, 0)]"

definition a64_restore_ops :: "a64_reg uop list" where
  "a64_restore_ops = loads a64_x0 (a64_low_layout @ [(a64_fp, -16), (a64_ip0, -8)])
     @ [UAddI A64SP a64_ip0 0, ULoad a64_lr a64_x0 0, UJump a64_lr]"

lemma a64_low_layout_simps:
  "a64_low_layout = [(A64D 15, -160), (A64D 14, -152), (A64D 13, -144), (A64D 12, -136),
     (A64D 11, -128), (A64D 10, -120), (A64D 9, -112), (A64D 8, -104),
     (A64X 28, -96), (A64X 27, -88), (A64X 26, -80), (A64X 25, -72), (A64X 24, -64),
     (A64X 23, -56), (A64X 22, -48), (A64X 21, -40), (A64X 20, -32), (A64X 19, -24)]"
  by (simp add: a64_low_layout_def a64_moved_def upt_rec)

lemma a64_decoded:
  "map_option concat (those (map a64_decode a64_co_swap_function)) = Some (a64_save_ops @ a64_restore_ops)"
  by (simp add: a64_co_swap_function_def a64_decode_def sext_def Let_def a64_xsp_def
      a64_save_ops_def a64_restore_ops_def a64_low_layout_simps stores_def loads_def)

lemma a64_co_swap_ops: "a64_co_swap s = urun (a64_save_ops @ a64_restore_ops) s"
  using a64_decoded by (auto simp: a64_co_swap_def run_code_def)
    (simp add: a64_save_ops_def a64_restore_ops_def)

subsection \<open>The contract of \<open>co_swap\<close>\<close>

definition a64_block :: "addr \<Rightarrow> addr set" where
  "a64_block h = block_bytes h a64_layout"

definition a64_holds :: "64 memory \<Rightarrow> addr \<Rightarrow> (a64_reg \<Rightarrow> addr) \<Rightarrow> addr \<Rightarrow> bool" where
  "a64_holds m h V pc \<longleftrightarrow> saved_at m h a64_layout (V(a64_ip0 := V A64SP, a64_lr := pc))"

definition a64_ready :: "(a64_reg, 64 word) mach \<Rightarrow> bool" where
  "a64_ready s \<longleftrightarrow> block_mapped (m_mem s) (m_reg s a64_x1) a64_layout"

lemma a64_spaced: "spaced 8 (map snd a64_layout)"
  by (simp add: a64_layout_def a64_low_layout_simps)

lemma a64_low_fst: "fst ` set a64_low_layout = set a64_moved"
  by (simp add: a64_low_layout_simps a64_moved_def)

lemma a64_not_moved:
  "a64_x0 \<notin> set a64_moved" "a64_x1 \<notin> set a64_moved" "a64_ip0 \<notin> set a64_moved"
  "a64_fp \<notin> set a64_moved" "a64_lr \<notin> set a64_moved" "A64SP \<notin> set a64_moved"
  by (auto simp: a64_moved_def)

lemma a64_save:
  assumes "a64_ready s"
  shows "\<exists>m'. urun a64_save_ops s = Inr (set_reg a64_ip0 (m_reg s A64SP) s\<lparr>m_mem := m'\<rparr>) \<and>
    a64_holds m' (m_reg s a64_x1) (m_reg s) (m_reg s a64_lr) \<and> dom m' = dom (m_mem s) \<and>
    (\<forall>b. b \<notin> a64_block (m_reg s a64_x1) \<longrightarrow> m' b = m_mem s b)"
proof -
  let ?h = "m_reg s a64_x1" and ?R = "(m_reg s)(a64_ip0 := m_reg s A64SP)"
  let ?top = "[(a64_fp, -16), (a64_ip0, -8), (a64_lr, 0)] :: (a64_reg \<times> int) list"
  obtain m' where m': "write_words (m_mem s) (store_list ?R ?h a64_layout) = Inr m'"
    "dom m' = dom (m_mem s)" "saved_at m' ?h a64_layout ?R"
    "\<forall>b. b \<notin> a64_block ?h \<longrightarrow> m' b = m_mem s b"
    using save_block [of "m_mem s" ?h a64_layout ?R] assms a64_spaced
    by (auto simp: a64_ready_def a64_block_def)
  then obtain m1 where m1: "write_words (m_mem s) (store_list ?R ?h a64_low_layout) = Inr m1"
    "write_words m1 (store_list ?R ?h ?top) = Inr m'"
    by (auto simp: a64_layout_def store_list_append write_words_append bindR_Inr_iff)
  have "store_list (m_reg s) ?h a64_low_layout = store_list ?R ?h a64_low_layout"
    by (rule store_list_cong) (auto simp: a64_low_fst a64_not_moved)
  with m1(1) have first: "urun (stores a64_x1 a64_low_layout) s = Inr (s\<lparr>m_mem := m1\<rparr>)"
    by (simp add: urun_stores)
  let ?s1 = "set_reg a64_ip0 (m_reg s A64SP) s\<lparr>m_mem := m1\<rparr>"
  have "m_reg ?s1 = ?R" by (simp add: set_reg_def)
  with m1(2) have "urun (stores a64_x1 ?top) ?s1 = Inr (?s1\<lparr>m_mem := m'\<rparr>)"
    by (simp add: urun_stores)
  with first have "urun a64_save_ops s = Inr (set_reg a64_ip0 (m_reg s A64SP) s\<lparr>m_mem := m'\<rparr>)"
    by (simp add: a64_save_ops_def urun_append)
  moreover have "?R = (m_reg s)(a64_ip0 := m_reg s A64SP, a64_lr := m_reg s a64_lr)" by auto
  ultimately show ?thesis using m'(2-4) unfolding a64_holds_def by metis
qed

lemma a64_restore:
  assumes "a64_holds (m_mem s) (m_reg s a64_x0) V pc"
  shows "\<exists>s'. urun a64_restore_ops s = Inr s' \<and>
    m_mem s' = m_mem s \<and> m_pc s' = pc \<and> (\<forall>r \<in> a64_saved_regs. m_reg s' r = V r)"
proof -
  let ?xs = "a64_low_layout @ [(a64_fp, -16), (a64_ip0, -8)]"
  let ?V = "V(a64_ip0 := V A64SP, a64_lr := pc)"
  let ?s = "s\<lparr>m_reg := \<lambda>r. if r \<in> fst ` set ?xs then ?V r else m_reg s r\<rparr>"
  have "urun (loads a64_x0 ?xs) s = Inr ?s"
    using assms
    by (intro urun_loads) (auto simp: a64_holds_def saved_at_def a64_layout_def a64_low_layout_simps)
  moreover have "load_word (m_mem s) (m_reg s a64_x0) = Some pc"
    using assms by (simp add: a64_holds_def saved_at_def a64_layout_def)
  ultimately show ?thesis
    by (auto simp: a64_restore_ops_def urun_append read_word_Some a64_saved_regs_def a64_low_fst
        image_Un a64_not_moved)
qed

lemma a64_holds_frame:
  "a64_holds m h V pc \<Longrightarrow> \<forall>b \<in> a64_block h. m' b = m b \<Longrightarrow> a64_holds m' h V pc"
  using saved_at_frame unfolding a64_holds_def a64_block_def by blast

lemma a64_swap_switches:
  assumes "a64_ready s" and "a64_holds (m_mem s) (m_reg s a64_x0) V pc"
    and "a64_block (m_reg s a64_x0) \<inter> a64_block (m_reg s a64_x1) = {}"
  shows "\<exists>s'. a64_co_swap s = Inr s' \<and> m_pc s' = pc \<and> (\<forall>r \<in> a64_saved_regs. m_reg s' r = V r) \<and>
    a64_holds (m_mem s') (m_reg s a64_x1) (m_reg s) (m_reg s a64_lr) \<and>
    dom (m_mem s') = dom (m_mem s) \<and> (\<forall>b. b \<notin> a64_block (m_reg s a64_x1) \<longrightarrow> m_mem s' b = m_mem s b)"
proof -
  let ?s = "\<lambda>m'. set_reg a64_ip0 (m_reg s A64SP) s\<lparr>m_mem := m'\<rparr>"
  obtain m' where m': "urun a64_save_ops s = Inr (?s m')"
    "a64_holds m' (m_reg s a64_x1) (m_reg s) (m_reg s a64_lr)" "dom m' = dom (m_mem s)"
    "\<forall>b. b \<notin> a64_block (m_reg s a64_x1) \<longrightarrow> m' b = m_mem s b"
    using a64_save [OF assms(1)] by blast
  have "\<forall>b \<in> a64_block (m_reg s a64_x0). m' b = m_mem s b" using m'(4) assms(3) by blast
  then have "a64_holds (m_mem (?s m')) (m_reg (?s m') a64_x0) V pc"
    using a64_holds_frame [OF assms(2)] by simp
  from a64_restore [OF this] obtain s' where s': "urun a64_restore_ops (?s m') = Inr s'" "m_mem s' = m'"
    "m_pc s' = pc" "\<forall>r \<in> a64_saved_regs. m_reg s' r = V r" by auto
  have "a64_co_swap s = Inr s'"
    using m'(1) s'(1) by (simp only: a64_co_swap_ops urun_append bindR.simps)
  with m' s' show ?thesis by blast
qed

interpretation a64: context_switch a64_co_swap a64_x0 a64_x1 a64_saved_regs a64_ready a64_holds
    "\<lambda>m. a64_block" a64_block m_reg "\<lambda>s. m_reg s a64_lr"
  by unfold_locales (use a64_swap_switches a64_holds_frame in blast)+

subsection \<open>\<open>co_switch\<close> and the entry of a derived context\<close>

definition a64_co_switch ::
    "addr \<Rightarrow> (a64_reg, 64 word) mach \<times> addr \<Rightarrow> fault + (a64_reg, 64 word) mach \<times> addr" where
  "a64_co_switch = co_switch_by a64_co_swap a64_x0 a64_x1"

text \<open>
  \<open>co_entrypoint\<close> finds the client's entry point in the place of \<open>x19\<close> in the active context.
\<close>

definition a64_co_entrypoint :: "64 memory \<Rightarrow> addr \<Rightarrow> fault + addr" where
  "a64_co_entrypoint m co_active_handle = read_word m (a64_slot_addr co_active_handle A64_x19)"

lemma a64_in_top_words: "in_top_words 21 0 a64_layout"
  by (simp add: in_top_words_def a64_layout_def a64_low_layout_simps)

lemma a64_block_in_stack:
  assumes "21 \<le> unat sz div 8" and "b \<in> a64_block (a64_top memory sz)"
  shows "inside b memory (unat sz)"
  using stack_context(2) [OF in_top_words_mono [OF a64_in_top_words assms(1)], of b memory] assms(2)
  by (simp add: a64_block_def a64_top_def)

lemma a64_slot_offset:
  "a64_slot_addr t A64_lr = t + word_of_int 0" "a64_slot_addr t A64_sp = t + word_of_int (- 8)"
  "a64_slot_addr t A64_fp = t + word_of_int (- 16)" "a64_slot_addr t A64_x19 = t + word_of_int (- 24)"
  by (simp_all add: a64_slot_addr_def)

lemma a64_derived_holds:
  assumes "mapped m memory (unat sz)" and "21 \<le> unat sz div 8"
    and "a64_co_derive ce m memory sz entry = Inr (m', h)"
  shows "\<exists>V. a64_holds m' h V ce \<and> V A64SP = a64_initial_sp memory sz"
    and "a64_co_entrypoint m' h = Inr entry"
proof -
  have h: "h = a64_top memory sz" and bw: "block_writes m memory (unat sz)
      [(a64_slot_addr h A64_sp, a64_initial_sp memory sz), (a64_slot_addr h A64_lr, ce),
       (a64_slot_addr h A64_x19, entry), (a64_slot_addr h A64_fp, a64_initial_sp memory sz)] m'"
    using a64_co_derive_ok [OF assms(1,2), of ce entry] assms(3) by auto
  have "mapped m' memory (unat sz)"
    using assms(1) bw mapped_dom [of m' m] by (simp add: block_writes_def)
  then have "block_mapped m' h a64_layout"
    using stack_context(1) [OF in_top_words_mono [OF a64_in_top_words assms(2)], of m' memory]
    by (simp add: h a64_top_def)
  moreover have "distinct (map fst a64_layout)" by (simp add: a64_layout_def a64_low_layout_simps)
  ultimately obtain V where V: "saved_at m' h a64_layout V" using saved_at_exists by blast
  have "load_word m' (h + word_of_int 0) = Some ce"
    "load_word m' (h + word_of_int (- 8)) = Some (a64_initial_sp memory sz)"
    using bw unfolding a64_slot_offset by (simp_all add: block_writes_def)
  moreover have "(a64_lr, 0) \<in> set a64_layout" "(a64_ip0, -8) \<in> set a64_layout"
    by (simp_all add: a64_layout_def)
  ultimately have V': "V a64_lr = ce" "V a64_ip0 = a64_initial_sp memory sz"
    using V unfolding saved_at_def by (fastforce simp del: of_int_0 of_int_minus of_int_numeral)+
  let ?W = "V(A64SP := V a64_ip0)"
  have "saved_at m' h a64_layout (?W(a64_ip0 := ?W A64SP, a64_lr := ce))"
    using V by (subst saved_at_cong [of _ _ V]) (auto simp: V' a64_layout_def a64_low_layout_simps)
  then show "\<exists>V. a64_holds m' h V ce \<and> V A64SP = a64_initial_sp memory sz"
    unfolding a64_holds_def using V'(2) by (intro exI [of _ ?W]) simp
  show "a64_co_entrypoint m' h = Inr entry"
    using bw by (simp add: a64_co_entrypoint_def block_writes_def read_word_Some)
qed

lemma a64_initial_sp_ok:
  assumes "0x1000 \<le> unat sz"
  shows "a64_initial_sp memory sz AND 0xF = 0" and "inside (a64_initial_sp memory sz) memory (unat sz)"
proof -
  let ?n = "unat sz div 8 - 22"
  have le: "24 \<le> unat sz div 8" using assms by linarith
  then have "(of_nat (8 * ?n) :: addr) = 8 * (ucast sz div 8 - of_nat 21 - 1)"
    by (simp add: ucast_div8 of_nat_diff)
  then have sp: "a64_initial_sp memory sz = (memory + of_nat (8 * ?n)) AND NOT 0xF"
    by (simp only: a64_initial_sp_def)
  show "a64_initial_sp memory sz AND 0xF = 0" unfolding a64_initial_sp_def by (rule align_16(2))
  show "inside (a64_initial_sp memory sz) memory (unat sz)"
    unfolding sp
  proof (rule aligned_inside)
    show "unat sz < 2 ^ 63" using unat_word32 [of sz] by simp
  qed (use le in linarith)+
qed

lemma a64_holds_cong:
  "(\<And>r. r \<in> a64_saved_regs \<Longrightarrow> V r = V' r) \<Longrightarrow> a64_holds m h V pc = a64_holds m h V' pc"
  unfolding a64_holds_def
  by (rule saved_at_cong) (auto simp: a64_layout_def image_Un a64_low_fst a64_saved_regs_def)

subsection \<open>An example\<close>

definition a64_demo :: "(a64_reg, 64 word) mach" where
  "a64_demo = \<lparr>m_reg = (\<lambda>_. 0)(a64_x0 := 0x2000, a64_x1 := 0x4000, a64_lr := 0x100, A64X 19 := 7),
     m_mem = zero_memory, m_pc = 0\<rparr>"

lemma a64_block_range: "b \<in> a64_block h \<Longrightarrow> inside b (h - 160) 168"
  unfolding a64_block_def
  by (drule block_bytes_within [of 160 168, rotated 2])
    (simp_all add: a64_layout_def a64_low_layout_simps)

lemma a64_demo_apart: "a64_block 0x2000 \<inter> a64_block 0x4000 = {}"
proof (rule ranges_disjoint [OF a64_block_range a64_block_range])
  show "apart (0x2000 - 160 :: addr) 168 (0x4000 - 160) 168" by (simp add: apart_def)
qed

subsection \<open>Properties\<close>

text \<open>
  C8: AArch64: \<open>co_swap\<close> is a function call that returns. The switch goes on in the context
  of its target with that context's callee-saved registers; and whenever later a context
  switches back, with the bytes of the caller's context unchanged, execution goes on at
  the caller's return address with its callee-saved registers and its stack pointer.
\<close>

theorem a64_switch_returns:
  assumes "a64_ready s" and "a64_holds (m_mem s) (m_reg s a64_x0) V pc"
    and "a64_block (m_reg s a64_x0) \<inter> a64_block (m_reg s a64_x1) = {}"
  shows "\<exists>s1. a64_co_swap s = Inr s1 \<and> m_pc s1 = pc \<and> (\<forall>r \<in> a64_saved_regs. m_reg s1 r = V r) \<and>
    dom (m_mem s1) = dom (m_mem s) \<and>
    (\<forall>s2. a64_ready s2 \<and> m_reg s2 a64_x0 = m_reg s a64_x1 \<and>
       (\<forall>b \<in> a64_block (m_reg s a64_x1). m_mem s2 b = m_mem s1 b) \<and>
       a64_block (m_reg s2 a64_x0) \<inter> a64_block (m_reg s2 a64_x1) = {} \<longrightarrow>
       (\<exists>s3. a64_co_swap s2 = Inr s3 \<and> m_pc s3 = m_reg s a64_lr \<and>
         (\<forall>r \<in> a64_saved_regs. m_reg s3 r = m_reg s r)))"
  using a64.swap_switches [OF assms] a64.away_and_back [OF assms] by fastforce

theorem a64_switch_returns_witness:
  "\<exists>s1 s3. a64_co_swap a64_demo = Inr s1 \<and> m_pc s1 = 0 \<and>
    a64_co_swap (set_reg a64_x0 0x4000 (set_reg a64_x1 0x2000 s1)) = Inr s3 \<and> m_pc s3 = 0x100 \<and>
    m_reg s3 (A64X 19) = 7"
proof -
  have "(\<lambda>_. 0 :: addr)(a64_ip0 := 0, a64_lr := 0) = (\<lambda>_. 0)" by auto
  then have "a64_ready a64_demo" "a64_holds (m_mem a64_demo) (m_reg a64_demo a64_x0) (\<lambda>_. 0) 0"
    by (simp_all add: a64_ready_def a64_demo_def block_mapped_zero_memory a64_holds_def saved_at_zero_memory)
  from a64_switch_returns [OF this] a64_demo_apart obtain s1 where
    s1: "a64_co_swap a64_demo = Inr s1" "m_pc s1 = 0" "dom (m_mem s1) = UNIV"
    and again: "\<And>s2. a64_ready s2 \<Longrightarrow> m_reg s2 a64_x0 = 0x4000 \<Longrightarrow> m_mem s2 = m_mem s1 \<Longrightarrow>
      m_reg s2 a64_x1 = 0x2000 \<Longrightarrow> \<exists>s3. a64_co_swap s2 = Inr s3 \<and> m_pc s3 = 0x100 \<and> m_reg s3 (A64X 19) = 7"
    by (fastforce simp: a64_demo_def a64_saved_regs_def a64_moved_def zero_memory_def)
  have "a64_ready (set_reg a64_x0 0x4000 (set_reg a64_x1 0x2000 s1))"
    using s1(3) by (simp add: a64_ready_def block_mapped_UNIV)
  from again [OF this] s1(1,2) show ?thesis by auto
qed

text \<open>
  C12: AArch64: a cothread derived on a mapped stack, switched to for the first time, starts
  at \<open>co_entrypoint\<close> with a 16-byte aligned stack pointer inside its stack, and
  \<open>co_entrypoint\<close> calls the client's entry point; the caller is parked to return from
  \<open>co_switch\<close>.
\<close>

theorem a64_first_switch:
  assumes "mapped m memory (unat sz)" and "0x1000 \<le> unat sz"
    and "a64_co_derive ce m memory sz entry = Inr (m', h)"
    and "\<forall>b. inside b memory (unat sz) \<longrightarrow> m_mem s b = m' b"
    and "a64_ready (set_reg a64_x1 active s)"
    and "\<forall>b \<in> a64_block active. \<not> inside b memory (unat sz)"
  shows "\<exists>s'. a64_co_switch h (s, active) = Inr (s', h) \<and> m_pc s' = ce \<and>
    inside (m_reg s' A64SP) memory (unat sz) \<and> m_reg s' A64SP AND 0xF = 0 \<and>
    a64_co_entrypoint (m_mem s') h = Inr entry \<and> a64_holds (m_mem s') active (m_reg s) (m_reg s a64_lr)"
proof -
  let ?s = "set_reg a64_x1 active (set_reg a64_x0 h s)"
  have n: "21 \<le> unat sz div 8" using assms(2) by linarith
  have h: "h = a64_top memory sz" using assms(3) by (auto simp: a64_co_derive_def Let_def bindR_Inr_iff)
  obtain V where V: "a64_holds m' h V ce" "V A64SP = a64_initial_sp memory sz"
    using a64_derived_holds(1) [OF assms(1) n assms(3)] by blast
  have "a64_ready ?s" using assms(5) by (simp add: a64_ready_def)
  moreover have "\<forall>b \<in> a64_block h. m_mem s b = m' b" "a64_block h \<inter> a64_block active = {}"
    using a64_block_in_stack [OF n] assms(4,6) by (auto simp: h)
  ultimately obtain s' where s': "a64_co_switch h (s, active) = Inr (s', h)" "m_pc s' = ce"
    "\<forall>r \<in> a64_saved_regs. m_reg s' r = V r" "a64_holds (m_mem s') active (m_reg ?s) (m_reg ?s a64_lr)"
    "\<forall>b. b \<notin> a64_block active \<longrightarrow> m_mem s' b = m_mem s b"
    using a64.starts_prepared [OF _ refl, of active h s m' V ce] V(1)
    unfolding a64_co_switch_def by auto
  have "a64_holds (m_mem s') active (m_reg s) (m_reg s a64_lr)"
    using s'(4) by (subst a64_holds_cong [of _ "m_reg ?s"]) (auto simp: a64_saved_regs_def a64_moved_def)
  moreover have "a64_co_entrypoint (m_mem s') h = Inr entry"
  proof -
    have "in_block memory (unat sz) (a64_slot_addr h A64_x19)"
      unfolding h by (rule a64_slot_in_block) (use n in simp)
    then have "\<forall>b \<in> word_range (a64_slot_addr h A64_x19). m_mem s' b = m' b"
      using in_block_range unat_word32 [of sz] s'(5) assms(4,6) by fastforce
    from load_word_frame [OF this] show ?thesis
      using a64_derived_holds(2) [OF assms(1) n assms(3)]
      by (simp add: a64_co_entrypoint_def read_word_def)
  qed
  moreover have "m_reg s' A64SP = a64_initial_sp memory sz"
    using s'(3) V(2) by (simp add: a64_saved_regs_def)
  ultimately show ?thesis using s'(1,2) a64_initial_sp_ok [OF assms(2)] by simp
qed

theorem a64_first_switch_witness:
  "\<exists>m' s'. a64_co_derive 0x400000 zero_memory 0x10000 0x1000 0x401000 = Inr (m', 0x10FF8) \<and>
    a64_co_switch 0x10FF8 (a64_demo\<lparr>m_mem := m'\<rparr>, 0x4000) = Inr (s', 0x10FF8) \<and>
    m_pc s' = 0x400000 \<and> a64_co_entrypoint (m_mem s') 0x10FF8 = Inr 0x401000"
proof -
  have mp: "mapped zero_memory (0x10000 :: addr) (unat (0x1000 :: 32 word))"
    by (simp add: mapped_def zero_memory_def)
  have top: "a64_top 0x10000 0x1000 = 0x10FF8" by (simp add: a64_top_def)
  obtain m' where m': "a64_co_derive 0x400000 zero_memory 0x10000 0x1000 0x401000 = Inr (m', 0x10FF8)"
    and dom: "dom m' = UNIV"
    using a64_co_derive_ok [OF mp, where ce = "0x400000" and entry = "0x401000"] unfolding top
    by (auto simp: block_writes_def zero_memory_def)
  have ready: "a64_ready (set_reg a64_x1 0x4000 (a64_demo\<lparr>m_mem := m'\<rparr>))"
    using dom by (simp add: a64_ready_def block_mapped_UNIV)
  have "\<not> inside b 0x10000 (unat (0x1000 :: 32 word))" if "b \<in> a64_block 0x4000" for b
  proof (rule apart_not_inside [OF _ a64_block_range [OF that]])
    show "apart (0x4000 - 160 :: addr) 168 0x10000 (unat (0x1000 :: 32 word))"
      by (simp add: apart_def)
  qed
  from a64_first_switch [OF mp _ m' _ ready] this m' show ?thesis by fastforce
qed

end
