(* ===== verification/RiscvSwitch.thy ===== *)
theory RiscvSwitch
  imports LibcoRiscv64 ContextSwitch
begin

text \<open>
  The machine code of \<open>co_swap\<close> in \<open>libco/riscv64.c\<close>: a decoder for the instructions it
  consists of, the two code arrays as the source has them, and the proof that they meet
  the contract of a context switch. The second part follows a derived context from
  \<open>co_derive\<close> through its first switch to the client's entry point.
\<close>

subsection \<open>Instructions\<close>

datatype rv_reg = RvX nat | RvF nat

text \<open>
  The instruction forms of the code: 64-bit loads and stores of integer and floating-point
  registers, \<open>addiw\<close>, and \<open>jalr\<close> that discards its link. \<open>x0\<close> is not a register that can
  be written, so that forms with \<open>x0\<close> as operand are left out.
\<close>

definition rv_decode :: "nat \<Rightarrow> rv_reg uop list option" where
  "rv_decode w =
     (let opcode = w mod 2 ^ 7; rd = w div 2 ^ 7 mod 2 ^ 5; funct3 = w div 2 ^ 12 mod 2 ^ 3;
          rs1 = w div 2 ^ 15 mod 2 ^ 5; rs2 = w div 2 ^ 20 mod 2 ^ 5;
          imm_i = sext 12 (w div 2 ^ 20); imm_s = sext 12 (w div 2 ^ 25 * 2 ^ 5 + rd) in
      if rs1 = 0 then None
      else if opcode = 0x03 \<and> funct3 = 3 \<and> rd \<noteq> 0 then Some [ULoad (RvX rd) (RvX rs1) imm_i]
      else if opcode = 0x07 \<and> funct3 = 3 then Some [ULoad (RvF rd) (RvX rs1) imm_i]
      else if opcode = 0x23 \<and> funct3 = 3 \<and> rs2 \<noteq> 0 then Some [UStore (RvX rs2) (RvX rs1) imm_s]
      else if opcode = 0x27 \<and> funct3 = 3 then Some [UStore (RvF rs2) (RvX rs1) imm_s]
      else if opcode = 0x1b \<and> funct3 = 0 \<and> rd \<noteq> 0 then Some [UAddIW (RvX rd) (RvX rs1) imm_i]
      else if opcode = 0x67 \<and> funct3 = 0 \<and> rd = 0 then Some [UJumpEven (RvX rs1) imm_i]
      else None)"

definition rv_co_swap_function :: "bool \<Rightarrow> nat list" where
  "rv_co_swap_function fl =
     (if fl then
       [0xf285859b, 0x0015b023, 0x0025b423, 0x0085b823, 0x0095bc23, 0x0325b023, 0x0335b423, 0x0345b823,
        0x0355bc23, 0x0565b023, 0x0575b423, 0x0585b823, 0x0595bc23, 0x07a5b023, 0x07b5b423, 0x0685b827,
        0x0695bc27, 0x0925b027, 0x0935b427, 0x0945b827, 0x0955bc27, 0x0b65b027, 0x0b75b427, 0x0b85b827,
        0x0b95bc27, 0x0da5b027, 0x0db5b427, 0x0c15b823, 0xf285051b, 0x00053083, 0x00853103, 0x01053403,
        0x01853483, 0x02053903, 0x02853983, 0x03053a03, 0x03853a83, 0x04053b03, 0x04853b83, 0x05053c03,
        0x05853c83, 0x06053d03, 0x06853d83, 0x07053407, 0x07853487, 0x08053907, 0x08853987, 0x09053a07,
        0x09853a87, 0x0a053b07, 0x0a853b87, 0x0b053c07, 0x0b853c87, 0x0c053d07, 0x0c853d87, 0x0d053603,
        0x00060067]
      else
       [0xf885859b, 0x0015b023, 0x0025b423, 0x0085b823, 0x0095bc23, 0x0325b023, 0x0335b423, 0x0345b823,
        0x0355bc23, 0x0565b023, 0x0575b423, 0x0585b823, 0x0595bc23, 0x07a5b023, 0x07b5b423, 0x0615b823,
        0xf885051b, 0x00053083, 0x00853103, 0x01053403, 0x01853483, 0x02053903, 0x02853983, 0x03053a03,
        0x03853a83, 0x04053b03, 0x04853b83, 0x05053c03, 0x05853c83, 0x06053d03, 0x06853d83, 0x07053603,
        0x00060067])"

definition rv_co_swap :: "bool \<Rightarrow> (rv_reg, 64 word) mach \<Rightarrow> fault + (rv_reg, 64 word) mach" where
  "rv_co_swap fl = run_code rv_decode (rv_co_swap_function fl)"

subsection \<open>What the code is\<close>

abbreviation rv_ra :: rv_reg where "rv_ra \<equiv> RvX 1"
abbreviation rv_sp :: rv_reg where "rv_sp \<equiv> RvX 2"
abbreviation rv_a0 :: rv_reg where "rv_a0 \<equiv> RvX 10"
abbreviation rv_a1 :: rv_reg where "rv_a1 \<equiv> RvX 11"
abbreviation rv_a2 :: rv_reg where "rv_a2 \<equiv> RvX 12"

text \<open>The callee-saved registers, \<open>s0\<close> and \<open>s1\<close> being \<open>x8\<close> and \<open>x9\<close>, in the order of the code.\<close>

definition rv_saved_regs :: "bool \<Rightarrow> rv_reg list" where
  "rv_saved_regs fl = map RvX [1, 2, 8, 9, 18, 19, 20, 21, 22, 23, 24, 25, 26, 27]
     @ (if fl then map RvF [8, 9, 18, 19, 20, 21, 22, 23, 24, 25, 26, 27] else [])"

definition rv_pc_offset :: "bool \<Rightarrow> int" where
  "rv_pc_offset fl = (if fl then 208 else 112)"

definition rv_layout :: "bool \<Rightarrow> (rv_reg \<times> int) list" where
  "rv_layout fl = zip (rv_saved_regs fl) (map (\<lambda>i. 8 * int i) [0..<length (rv_saved_regs fl)])"

definition rv_ops :: "bool \<Rightarrow> rv_reg uop list" where
  "rv_ops fl =
     UAddIW rv_a1 rv_a1 (- rv_pc_offset fl - 8)
     # stores rv_a1 (rv_layout fl @ [(rv_ra, rv_pc_offset fl)])
     @ UAddIW rv_a0 rv_a0 (- rv_pc_offset fl - 8)
     # loads rv_a0 (rv_layout fl)
     @ [ULoad rv_a2 rv_a0 (rv_pc_offset fl), UJumpEven rv_a2 0]"

lemma rv_layout_simps:
  "rv_layout False = [(RvX 1, 0), (RvX 2, 8), (RvX 8, 16), (RvX 9, 24), (RvX 18, 32), (RvX 19, 40),
     (RvX 20, 48), (RvX 21, 56), (RvX 22, 64), (RvX 23, 72), (RvX 24, 80), (RvX 25, 88),
     (RvX 26, 96), (RvX 27, 104)]"
  "rv_layout True = rv_layout False @ [(RvF 8, 112), (RvF 9, 120), (RvF 18, 128), (RvF 19, 136),
     (RvF 20, 144), (RvF 21, 152), (RvF 22, 160), (RvF 23, 168), (RvF 24, 176), (RvF 25, 184),
     (RvF 26, 192), (RvF 27, 200)]"
  by (simp_all add: rv_layout_def rv_saved_regs_def upt_rec)

lemma rv_decoded:
  "map_option concat (those (map rv_decode (rv_co_swap_function fl))) = Some (rv_ops fl)"
  by (cases fl)
    (simp_all add: rv_co_swap_function_def rv_decode_def sext_def Let_def rv_ops_def rv_pc_offset_def
      rv_layout_simps stores_def loads_def)

lemma rv_co_swap_ops: "rv_co_swap fl s = urun (rv_ops fl) s"
  using rv_decoded [of fl] by (auto simp: rv_co_swap_def run_code_def) (simp add: rv_ops_def)

subsection \<open>The contract of \<open>co_swap\<close>\<close>

text \<open>
  \<open>addiw\<close> computes with the lower 32 bits of the handle and extends the sign, so the
  code finds the context only when the address is such an extension (\<open>rv_low\<close>).
\<close>

definition rv_base :: "bool \<Rightarrow> addr \<Rightarrow> addr" where
  "rv_base fl h = h + word_of_int (- rv_pc_offset fl - 8)"

definition rv_low :: "bool \<Rightarrow> addr \<Rightarrow> bool" where
  "rv_low fl h \<longleftrightarrow> scast (ucast (rv_base fl h) :: 32 word) = rv_base fl h"

definition rv_block :: "bool \<Rightarrow> addr \<Rightarrow> addr set" where
  "rv_block fl h = block_bytes (rv_base fl h) (rv_layout fl @ [(rv_ra, rv_pc_offset fl)])"

definition rv_holds :: "bool \<Rightarrow> 64 memory \<Rightarrow> addr \<Rightarrow> (rv_reg \<Rightarrow> addr) \<Rightarrow> addr \<Rightarrow> bool" where
  "rv_holds fl m h V pc \<longleftrightarrow> rv_low fl h \<and> saved_at m (rv_base fl h) (rv_layout fl) V \<and>
     (\<exists>v. load_word m (rv_base fl h + word_of_int (rv_pc_offset fl)) = Some v \<and> pc = v AND NOT 1)"

definition rv_ready :: "bool \<Rightarrow> (rv_reg, 64 word) mach \<Rightarrow> bool" where
  "rv_ready fl s \<longleftrightarrow> rv_low fl (m_reg s rv_a1) \<and>
     block_mapped (m_mem s) (rv_base fl (m_reg s rv_a1)) (rv_layout fl @ [(rv_ra, rv_pc_offset fl)])"

lemma rv_layout_fst: "fst ` set (rv_layout fl) = set (rv_saved_regs fl)"
  by (cases fl) (simp_all add: rv_layout_simps rv_saved_regs_def)

lemma rv_saved_regs_not_arg:
  "rv_a0 \<notin> set (rv_saved_regs fl)" "rv_a1 \<notin> set (rv_saved_regs fl)" "rv_a2 \<notin> set (rv_saved_regs fl)"
  by (simp_all add: rv_saved_regs_def)

lemma rv_spaced: "spaced 8 (map snd (rv_layout fl @ [(rv_ra, rv_pc_offset fl)]))"
  by (cases fl) (simp_all add: rv_layout_simps rv_pc_offset_def)

lemma rv_save:
  assumes "rv_ready fl s"
  shows "\<exists>m'. urun (UAddIW rv_a1 rv_a1 (- rv_pc_offset fl - 8)
        # stores rv_a1 (rv_layout fl @ [(rv_ra, rv_pc_offset fl)])) s
      = Inr (set_reg rv_a1 (rv_base fl (m_reg s rv_a1)) s\<lparr>m_mem := m'\<rparr>) \<and>
    rv_holds fl m' (m_reg s rv_a1) (m_reg s) (m_reg s rv_ra AND NOT 1) \<and> dom m' = dom (m_mem s) \<and>
    (\<forall>b. b \<notin> rv_block fl (m_reg s rv_a1) \<longrightarrow> m' b = m_mem s b)"
proof -
  let ?h = "m_reg s rv_a1" and ?L = "rv_layout fl @ [(rv_ra, rv_pc_offset fl)]"
  let ?s = "set_reg rv_a1 (rv_base fl ?h) s"
  have low: "rv_low fl ?h" and mp: "block_mapped (m_mem s) (rv_base fl ?h) ?L"
    using assms by (simp_all add: rv_ready_def)
  obtain m' where m': "write_words (m_mem s) (store_list (m_reg ?s) (rv_base fl ?h) ?L) = Inr m'"
    "saved_at m' (rv_base fl ?h) ?L (m_reg ?s)"
    "dom m' = dom (m_mem s)" "\<forall>b. b \<notin> rv_block fl ?h \<longrightarrow> m' b = m_mem s b"
    using save_block [OF mp, of "m_reg ?s"] rv_spaced [of fl] by (auto simp: rv_block_def)
  have "saved_at m' (rv_base fl ?h) ?L (m_reg s)"
    using m'(2) by (subst saved_at_cong [of _ _ "m_reg ?s"])
      (auto simp: rv_saved_regs_not_arg rv_layout_fst image_Un)
  then have "rv_holds fl m' ?h (m_reg s) (m_reg s rv_ra AND NOT 1)"
    using low by (auto simp: rv_holds_def saved_at_append) (simp add: saved_at_def)
  moreover have "urun (UAddIW rv_a1 rv_a1 (- rv_pc_offset fl - 8) # stores rv_a1 ?L) s
      = Inr (?s\<lparr>m_mem := m'\<rparr>)"
    using low m'(1) by (simp add: urun_stores rv_low_def rv_base_def)
  ultimately show ?thesis using m'(3,4) by blast
qed

lemma rv_restore:
  assumes "rv_holds fl (m_mem s) (m_reg s rv_a0) V pc"
  shows "\<exists>s'. urun (UAddIW rv_a0 rv_a0 (- rv_pc_offset fl - 8) # loads rv_a0 (rv_layout fl)
        @ [ULoad rv_a2 rv_a0 (rv_pc_offset fl), UJumpEven rv_a2 0]) s = Inr s' \<and>
    m_mem s' = m_mem s \<and> m_pc s' = pc \<and> (\<forall>r \<in> set (rv_saved_regs fl). m_reg s' r = V r)"
proof -
  let ?h = "m_reg s rv_a0"
  let ?s = "set_reg rv_a0 (rv_base fl ?h) s"
  obtain v where v: "load_word (m_mem s) (rv_base fl ?h + word_of_int (rv_pc_offset fl)) = Some v"
    and pc: "pc = v AND NOT 1" and low: "rv_low fl ?h"
    and V: "saved_at (m_mem s) (rv_base fl ?h) (rv_layout fl) V"
    using assms by (auto simp: rv_holds_def)
  let ?s' = "?s\<lparr>m_reg := \<lambda>r. if r \<in> fst ` set (rv_layout fl) then V r else m_reg ?s r\<rparr>"
  have "urun (loads rv_a0 (rv_layout fl)) ?s = Inr ?s'"
    using V by (intro urun_loads) (auto simp: saved_at_def rv_layout_fst rv_saved_regs_not_arg)
  moreover have "uexec (UAddIW rv_a0 rv_a0 (- rv_pc_offset fl - 8)) s = Inr ?s"
    using low by (simp add: rv_low_def rv_base_def)
  ultimately show ?thesis
    using v by (auto simp: urun_append rv_layout_fst rv_saved_regs_not_arg read_word_Some pc)
qed

text \<open>Parking depends on the bytes of the context only; restoring what was parked.\<close>

lemma rv_holds_frame:
  assumes "rv_holds fl m h V pc" and "\<forall>b \<in> rv_block fl h. m' b = m b"
  shows "rv_holds fl m' h V pc"
proof -
  have "\<forall>b \<in> block_bytes (rv_base fl h) (rv_layout fl). m' b = m b"
    and "\<forall>b \<in> word_range (rv_base fl h + word_of_int (rv_pc_offset fl)). m' b = m b"
    using assms(2) by (auto simp: rv_block_def block_bytes_def)
  then show ?thesis using assms(1) saved_at_frame load_word_frame unfolding rv_holds_def by metis
qed

lemma rv_holds_cong:
  "(\<And>r. r \<in> set (rv_saved_regs fl) \<Longrightarrow> V r = V' r) \<Longrightarrow> rv_holds fl m h V pc = rv_holds fl m h V' pc"
  unfolding rv_holds_def by (subst saved_at_cong [of _ V V']) (simp_all add: rv_layout_fst)

lemma rv_swap_switches:
  assumes "rv_ready fl s" and "rv_holds fl (m_mem s) (m_reg s rv_a0) V pc"
    and "rv_block fl (m_reg s rv_a0) \<inter> rv_block fl (m_reg s rv_a1) = {}"
  shows "\<exists>s'. rv_co_swap fl s = Inr s' \<and> m_pc s' = pc \<and> (\<forall>r \<in> set (rv_saved_regs fl). m_reg s' r = V r) \<and>
    rv_holds fl (m_mem s') (m_reg s rv_a1) (m_reg s) (m_reg s rv_ra AND NOT 1) \<and>
    dom (m_mem s') = dom (m_mem s) \<and> (\<forall>b. b \<notin> rv_block fl (m_reg s rv_a1) \<longrightarrow> m_mem s' b = m_mem s b)"
proof -
  let ?save = "UAddIW rv_a1 rv_a1 (- rv_pc_offset fl - 8)
    # stores rv_a1 (rv_layout fl @ [(rv_ra, rv_pc_offset fl)])"
  let ?restore = "UAddIW rv_a0 rv_a0 (- rv_pc_offset fl - 8) # loads rv_a0 (rv_layout fl)
    @ [ULoad rv_a2 rv_a0 (rv_pc_offset fl), UJumpEven rv_a2 0]"
  obtain m' where m': "urun ?save s = Inr (set_reg rv_a1 (rv_base fl (m_reg s rv_a1)) s\<lparr>m_mem := m'\<rparr>)"
    "rv_holds fl m' (m_reg s rv_a1) (m_reg s) (m_reg s rv_ra AND NOT 1)"
    "dom m' = dom (m_mem s)" "\<forall>b. b \<notin> rv_block fl (m_reg s rv_a1) \<longrightarrow> m' b = m_mem s b"
    using rv_save [OF assms(1)] by blast
  let ?s = "set_reg rv_a1 (rv_base fl (m_reg s rv_a1)) s\<lparr>m_mem := m'\<rparr>"
  have "\<forall>b \<in> rv_block fl (m_reg s rv_a0). m' b = m_mem s b" using m'(4) assms(3) by blast
  then have "rv_holds fl (m_mem ?s) (m_reg ?s rv_a0) V pc" using rv_holds_frame [OF assms(2)] by simp
  from rv_restore [OF this] obtain s' where s': "urun ?restore ?s = Inr s'" "m_mem s' = m'" "m_pc s' = pc"
    "\<forall>r \<in> set (rv_saved_regs fl). m_reg s' r = V r" by auto
  have "rv_ops fl = ?save @ ?restore" by (simp add: rv_ops_def)
  then have "rv_co_swap fl s = Inr s'"
    using m'(1) s'(1) by (simp only: rv_co_swap_ops urun_append bindR.simps)
  with m' s' show ?thesis by blast
qed

interpretation rv: context_switch "rv_co_swap fl" rv_a0 rv_a1 "set (rv_saved_regs fl)" "rv_ready fl"
    "rv_holds fl" "\<lambda>m. rv_block fl" "rv_block fl" m_reg "\<lambda>s. m_reg s rv_ra AND NOT 1" for fl
  by unfold_locales (use rv_swap_switches rv_holds_frame in blast)+

subsection \<open>\<open>co_switch\<close> and the entry of a derived context\<close>

definition rv_co_switch ::
    "bool \<Rightarrow> addr \<Rightarrow> (rv_reg, 64 word) mach \<times> addr \<Rightarrow> fault + (rv_reg, 64 word) mach \<times> addr" where
  "rv_co_switch fl = co_switch_by (rv_co_swap fl) rv_a0 rv_a1"

text \<open>
  \<open>co_entrypoint\<close> reads the client's entry point from the context of the active handle;
  the value is the address it calls.
\<close>

definition rv_co_entrypoint :: "bool \<Rightarrow> 64 memory \<Rightarrow> addr \<Rightarrow> fault + addr" where
  "rv_co_entrypoint fl m co_active_handle = read_word m (rv_slot_addr fl co_active_handle RV_client_entry)"

lemma rv_in_top_words:
  "in_top_words 28 (- rv_pc_offset fl - 8) (rv_layout fl @ [(rv_ra, rv_pc_offset fl)])"
  by (cases fl) (simp_all add: in_top_words_def rv_layout_simps rv_pc_offset_def)

lemma rv_block_in_stack:
  assumes "28 \<le> unat sz div 8" and "b \<in> rv_block fl (rv_top memory sz)"
  shows "inside b memory (unat sz)"
  using stack_context(2) [OF in_top_words_mono [OF rv_in_top_words assms(1)]] assms(2)
  by (simp only: rv_block_def rv_base_def rv_top_def)

text \<open>The slots that \<open>co_derive\<close> writes, as the code of \<open>co_swap\<close> addresses them.\<close>

lemma rv_slot_base:
  "rv_slot_addr fl t RV_ra = rv_base fl t + word_of_int 0"
  "rv_slot_addr fl t RV_sp = rv_base fl t + word_of_int 8"
  "rv_slot_addr fl t RV_fp = rv_base fl t + word_of_int 16"
  "rv_slot_addr fl t RV_pc = rv_base fl t + word_of_int (rv_pc_offset fl)"
  by (cases fl; simp add: rv_slot_addr_def rv_base_def rv_index_def rv_slots_def rv_pc_offset_def)+

lemma rv_derived_holds:
  assumes "mapped m memory (unat sz)" and "28 \<le> unat sz div 8" and "rv_low fl (rv_top memory sz)"
    and "rv_co_derive fl ce m memory sz entry = Inr (m', h)"
  shows "\<exists>V. rv_holds fl m' h V (ce AND NOT 1) \<and> V rv_ra = 0 \<and> V rv_sp = rv_initial_sp fl memory sz"
    and "rv_co_entrypoint fl m' h = Inr entry"
proof -
  let ?L = "rv_layout fl @ [(rv_ra, rv_pc_offset fl)]"
  have n: "rv_num_saved fl \<le> unat sz div 8" using assms(2) rv_num_saved_le [of fl] by linarith
  have h: "h = rv_top memory sz" and bw: "block_writes m memory (unat sz)
      [(rv_slot_addr fl h RV_ra, 0), (rv_slot_addr fl h RV_sp, rv_initial_sp fl memory sz),
       (rv_slot_addr fl h RV_fp, rv_initial_sp fl memory sz), (rv_slot_addr fl h RV_pc, ce),
       (rv_slot_addr fl h RV_client_entry, entry)] m'"
    using rv_co_derive_ok [OF assms(1) n, of ce entry] assms(4) by auto
  have "mapped m' memory (unat sz)"
    using assms(1) bw mapped_dom [of m' m] by (simp add: block_writes_def)
  then have "block_mapped m' (rv_base fl h) ?L"
    using stack_context(1) [OF in_top_words_mono [OF rv_in_top_words assms(2)]]
    by (simp only: h rv_base_def rv_top_def)
  moreover have "distinct (map fst (rv_layout fl))" by (cases fl) (simp_all add: rv_layout_simps)
  ultimately obtain V where V: "saved_at m' (rv_base fl h) (rv_layout fl) V"
    using saved_at_exists [of m' "rv_base fl h" "rv_layout fl"] by (auto simp: block_mapped_def)
  have writes: "load_word m' (rv_base fl h + word_of_int 0) = Some 0"
    "load_word m' (rv_base fl h + word_of_int 8) = Some (rv_initial_sp fl memory sz)"
    "load_word m' (rv_base fl h + word_of_int (rv_pc_offset fl)) = Some ce"
    using bw unfolding rv_slot_base [symmetric] by (simp_all add: block_writes_def)
  have "(rv_ra, 0) \<in> set (rv_layout fl)" "(rv_sp, 8) \<in> set (rv_layout fl)"
    by (cases fl; simp add: rv_layout_simps)+
  then have "V rv_ra = 0" "V rv_sp = rv_initial_sp fl memory sz"
    using V writes(1,2) unfolding saved_at_def by (fastforce simp del: of_int_0)+
  with V writes(3) assms(3)
  show "\<exists>V. rv_holds fl m' h V (ce AND NOT 1) \<and> V rv_ra = 0 \<and> V rv_sp = rv_initial_sp fl memory sz"
    unfolding rv_holds_def h by blast
  show "rv_co_entrypoint fl m' h = Inr entry"
    using bw by (simp add: rv_co_entrypoint_def block_writes_def read_word_Some)
qed

lemma rv_initial_sp_ok:
  assumes "0x1000 \<le> unat sz"
  shows "(rv_initial_sp fl memory sz) AND 0xF = 0" and "inside (rv_initial_sp fl memory sz) memory (unat sz)"
proof -
  let ?n = "unat sz div 8 - rv_num_saved fl - 1"
  have le: "rv_num_saved fl + 3 \<le> unat sz div 8" using assms rv_num_saved_le [of fl] by linarith
  then have "(of_nat (8 * ?n) :: addr) = 8 * (ucast sz div 8 - of_nat (rv_num_saved fl) - 1)"
    by (simp add: ucast_div8 of_nat_diff)
  then have sp: "rv_initial_sp fl memory sz = (memory + of_nat (8 * ?n)) AND NOT 0xF"
    by (simp only: rv_initial_sp_def)
  show "(rv_initial_sp fl memory sz) AND 0xF = 0" unfolding rv_initial_sp_def by (rule align_16(2))
  show "inside (rv_initial_sp fl memory sz) memory (unat sz)"
    unfolding sp
  proof (rule aligned_inside)
    show "unat sz < 2 ^ 63" using unat_word32 [of sz] by simp
  qed (use le in linarith)+
qed

subsection \<open>An example\<close>

text \<open>Two contexts in a memory of zeroes; \<open>s0\<close> is 7 and the return address 256.\<close>

definition rv_demo :: "(rv_reg, 64 word) mach" where
  "rv_demo = \<lparr>m_reg = (\<lambda>_. 0)(rv_a0 := 0x2000, rv_a1 := 0x4000, rv_ra := 0x100, RvX 8 := 7),
     m_mem = zero_memory, m_pc = 0\<rparr>"

lemma rv_demo_low: "rv_low False 0x2000" "rv_low False 0x4000"
  by (simp_all add: rv_low_def rv_base_def rv_pc_offset_def)

lemma rv_block_range: "b \<in> rv_block fl h \<Longrightarrow> inside b (rv_base fl h) 224"
  unfolding rv_block_def
  by (drule block_bytes_within [of 0 224, rotated 2])
    (cases fl; simp add: rv_layout_simps rv_pc_offset_def)+

lemma rv_demo_apart: "rv_block False 0x2000 \<inter> rv_block False 0x4000 = {}"
proof (rule ranges_disjoint [OF rv_block_range rv_block_range])
  show "apart (rv_base False 0x2000) 224 (rv_base False 0x4000) 224"
    by (simp add: rv_base_def rv_pc_offset_def apart_def)
qed

text \<open>A memory with the second half of the lower 4 GiB mapped.\<close>

definition rv_high_memory :: "64 memory" where
  "rv_high_memory = (\<lambda>a. if 0x80000000 \<le> a \<and> a < 0x100000000 then Some 0 else None)"

subsection \<open>Properties\<close>

text \<open>
  C7: RISC-V: \<open>co_swap\<close> is a function call that returns. The switch goes on in the context
  of its target with that context's callee-saved registers; and whenever later a context
  switches back, with the bytes of the caller's context unchanged, execution goes on at
  the caller's return address with its callee-saved registers as at the call.
\<close>

theorem rv_switch_returns:
  assumes "rv_ready fl s" and "rv_holds fl (m_mem s) (m_reg s rv_a0) V pc"
    and "rv_block fl (m_reg s rv_a0) \<inter> rv_block fl (m_reg s rv_a1) = {}"
  shows "\<exists>s1. rv_co_swap fl s = Inr s1 \<and> m_pc s1 = pc \<and> (\<forall>r \<in> set (rv_saved_regs fl). m_reg s1 r = V r) \<and>
    dom (m_mem s1) = dom (m_mem s) \<and>
    (\<forall>s2. rv_ready fl s2 \<and> m_reg s2 rv_a0 = m_reg s rv_a1 \<and>
       (\<forall>b \<in> rv_block fl (m_reg s rv_a1). m_mem s2 b = m_mem s1 b) \<and>
       rv_block fl (m_reg s2 rv_a0) \<inter> rv_block fl (m_reg s2 rv_a1) = {} \<longrightarrow>
       (\<exists>s3. rv_co_swap fl s2 = Inr s3 \<and> m_pc s3 = m_reg s rv_ra AND NOT 1 \<and>
         (\<forall>r \<in> set (rv_saved_regs fl). m_reg s3 r = m_reg s r)))"
  using rv.swap_switches [OF assms] rv.away_and_back [OF assms] by fastforce

theorem rv_switch_returns_witness:
  "\<exists>s1 s3. rv_co_swap False rv_demo = Inr s1 \<and> m_pc s1 = 0 \<and>
    rv_co_swap False (set_reg rv_a0 0x4000 (set_reg rv_a1 0x2000 s1)) = Inr s3 \<and> m_pc s3 = 0x100 \<and>
    m_reg s3 (RvX 8) = 7"
proof -
  have disj: "rv_block False 0x2000 \<inter> rv_block False 0x4000 = {}" by (rule rv_demo_apart)
  have "rv_ready False rv_demo" "rv_holds False (m_mem rv_demo) (m_reg rv_demo rv_a0) (\<lambda>_. 0) 0"
    by (simp_all add: rv_ready_def rv_demo_def rv_demo_low block_mapped_zero_memory rv_holds_def
        saved_at_zero_memory load_zero_memory)
  from rv_switch_returns [OF this] disj obtain s1 where s1: "rv_co_swap False rv_demo = Inr s1" "m_pc s1 = 0"
    "dom (m_mem s1) = UNIV" 
    and again: "\<And>s2. rv_ready False s2 \<Longrightarrow> m_reg s2 rv_a0 = 0x4000 \<Longrightarrow> m_mem s2 = m_mem s1 \<Longrightarrow>
      m_reg s2 rv_a1 = 0x2000 \<Longrightarrow> \<exists>s3. rv_co_swap False s2 = Inr s3 \<and> m_pc s3 = 0x100 \<and> m_reg s3 (RvX 8) = 7"
    by (fastforce simp: rv_demo_def rv_saved_regs_def zero_memory_def)
  have "rv_ready False (set_reg rv_a0 0x4000 (set_reg rv_a1 0x2000 s1))"
    using s1(3) by (simp add: rv_ready_def rv_demo_low block_mapped_UNIV)
  from again [OF this] s1(1,2) show ?thesis by auto
qed

text \<open>
  C11: RISC-V: a cothread derived on a mapped stack, switched to for the first time, starts
  at \<open>co_entrypoint\<close>, with a null return address and a 16-byte aligned stack pointer inside
  its stack, and \<open>co_entrypoint\<close> calls the client's entry point; the caller is parked.
\<close>

theorem rv_first_switch:
  assumes "mapped m memory (unat sz)" and "0x1000 \<le> unat sz" and "rv_low fl (rv_top memory sz)"
    and "rv_co_derive fl ce m memory sz entry = Inr (m', h)"
    and "\<forall>b. inside b memory (unat sz) \<longrightarrow> m_mem s b = m' b"
    and "rv_ready fl (set_reg rv_a1 active s)"
    and "\<forall>b \<in> rv_block fl active. \<not> inside b memory (unat sz)"
  shows "\<exists>s'. rv_co_switch fl h (s, active) = Inr (s', h) \<and> m_pc s' = ce AND NOT 1 \<and> m_reg s' rv_ra = 0 \<and>
    inside (m_reg s' rv_sp) memory (unat sz) \<and> m_reg s' rv_sp AND 0xF = 0 \<and>
    rv_co_entrypoint fl (m_mem s') h = Inr entry \<and>
    rv_holds fl (m_mem s') active (m_reg s) (m_reg s rv_ra AND NOT 1)"
proof -
  let ?s = "set_reg rv_a1 active (set_reg rv_a0 h s)"
  have n: "28 \<le> unat sz div 8" using assms(2) by linarith
  have h: "h = rv_top memory sz" using assms(4) by (auto simp: rv_co_derive_def Let_def bindR_Inr_iff)
  obtain V where V: "rv_holds fl m' h V (ce AND NOT 1)" "V rv_ra = 0" "V rv_sp = rv_initial_sp fl memory sz"
    using rv_derived_holds(1) [OF assms(1) n assms(3,4)] by blast
  have same: "\<forall>b \<in> rv_block fl h. m_mem ?s b = m' b" 
    using rv_block_in_stack [OF n] assms(5) by (simp add: h)
  have disj: "rv_block fl (m_reg ?s rv_a0) \<inter> rv_block fl (m_reg ?s rv_a1) = {}"
    using rv_block_in_stack [OF n] assms(7) by (auto simp: h)
  have "rv_ready fl ?s" using assms(6) by (simp add: rv_ready_def)
  moreover have "rv_holds fl (m_mem ?s) (m_reg ?s rv_a0) V (ce AND NOT 1)"
    using rv_holds_frame [OF V(1) same] by simp
  ultimately obtain s' where s': "rv_co_swap fl ?s = Inr s'" "m_pc s' = ce AND NOT 1"
    "\<forall>r \<in> set (rv_saved_regs fl). m_reg s' r = V r"
    "rv_holds fl (m_mem s') active (m_reg ?s) (m_reg ?s rv_ra AND NOT 1)"
    "\<forall>b. b \<notin> rv_block fl active \<longrightarrow> m_mem s' b = m_mem s b"
    using rv.swap_switches [of fl ?s V "ce AND NOT 1"] disj by (simp del: bit.compl_one) blast
  have "rv_holds fl (m_mem s') active (m_reg s) (m_reg s rv_ra AND NOT 1)"
    using s'(4) by (subst rv_holds_cong [of _ _ "m_reg ?s"]) (auto simp: rv_saved_regs_def)
  moreover have "rv_co_entrypoint fl (m_mem s') h = Inr entry"
  proof -
    have "in_block memory (unat sz) (rv_slot_addr fl h RV_client_entry)"
      unfolding h by (rule rv_slot_in_block) (use n rv_num_saved_le [of fl] in simp_all)
    then have "\<forall>b \<in> word_range (rv_slot_addr fl h RV_client_entry). m_mem s' b = m' b"
      using in_block_range unat_word32 [of sz] s'(5) assms(5,7) by fastforce
    from load_word_frame [OF this] show ?thesis
      using rv_derived_holds(2) [OF assms(1) n assms(3,4)]
      by (simp add: rv_co_entrypoint_def read_word_def)
  qed
  moreover have "m_reg s' rv_ra = 0" "m_reg s' rv_sp = rv_initial_sp fl memory sz"
    using s'(3) V(2,3) by (simp_all add: rv_saved_regs_def)
  ultimately show ?thesis
    using s'(1,2) rv_initial_sp_ok [OF assms(2)] by (simp add: rv_co_switch_def co_switch_by_def)
qed

theorem rv_first_switch_witness:
  "\<exists>m' s'. rv_co_derive False 0x400000 zero_memory 0x10000 0x1000 0x401000 = Inr (m', 0x10FF8) \<and>
    rv_co_switch False 0x10FF8 (rv_demo\<lparr>m_mem := m'\<rparr>, 0x4000) = Inr (s', 0x10FF8) \<and>
    m_pc s' = 0x400000 \<and> rv_co_entrypoint False (m_mem s') 0x10FF8 = Inr 0x401000"
proof -
  have mp: "mapped zero_memory (0x10000 :: addr) (unat (0x1000 :: 32 word))"
    by (simp add: mapped_def zero_memory_def)
  have top: "rv_top 0x10000 0x1000 = 0x10FF8" by (simp add: rv_top_def)
  obtain m' where m': "rv_co_derive False 0x400000 zero_memory 0x10000 0x1000 0x401000 = Inr (m', 0x10FF8)"
    and dom: "dom m' = UNIV"
    using rv_co_derive_ok [OF mp, where fl = False and ce = "0x400000" and entry = "0x401000"] unfolding top
    by (auto simp: rv_num_saved_values block_writes_def zero_memory_def)
  have low: "rv_low False (rv_top 0x10000 0x1000)"
    by (simp add: top rv_low_def rv_base_def rv_pc_offset_def)
  have ready: "rv_ready False (set_reg rv_a1 0x4000 (rv_demo\<lparr>m_mem := m'\<rparr>))"
    using dom by (simp add: rv_ready_def rv_demo_low block_mapped_UNIV)
  have "\<not> inside b 0x10000 (unat (0x1000 :: 32 word))" if "b \<in> rv_block False 0x4000" for b
  proof (rule apart_not_inside [OF _ rv_block_range [OF that]])
    show "apart (rv_base False 0x4000) 224 0x10000 (unat (0x1000 :: 32 word))"
      by (simp add: rv_base_def rv_pc_offset_def apart_def)
  qed
  from rv_first_switch [OF mp _ low m' _ ready] this m' show ?thesis by fastforce
qed

text \<open>
  C15: RISC-V: \<open>co_swap\<close> computes the base of a context with \<open>addiw\<close>, in 32 bits. For a context
  whose address is not the sign extension of its lower half, 2 GiB and above, it goes to
  the truncated address instead: with nothing mapped there the switch faults although the
  context itself is mapped.
\<close>

theorem rv_high_context_faults:
  assumes "\<not> rv_low fl (m_reg s rv_a1)"
    and "m_mem s (scast (ucast (rv_base fl (m_reg s rv_a1)) :: 32 word)) = None"
  shows "rv_co_swap fl s = Inl (VMFault (scast (ucast (rv_base fl (m_reg s rv_a1)) :: 32 word)))"
proof -
  let ?a = "scast (ucast (rv_base fl (m_reg s rv_a1)) :: 32 word) :: addr"
  have "\<not> mapped (m_mem s) ?a 8" using assms(2) unfolding mapped_def by (auto intro: exI [of _ 0])
  then have "write_word (m_mem s) ?a v = Inl (VMFault ?a)" for v
    by (simp add: write_word_def store_word_def)
  moreover have "\<exists>ops. rv_ops fl = UAddIW rv_a1 rv_a1 (- rv_pc_offset fl - 8) # UStore rv_ra rv_a1 0 # ops"
    by (cases fl) (simp_all add: rv_ops_def rv_layout_simps stores_def)
  ultimately show ?thesis by (auto simp: rv_co_swap_ops rv_base_def)
qed

theorem rv_high_context_faults_witness:
  "block_mapped rv_high_memory (rv_base False 0x80004000) (rv_layout False @ [(rv_ra, 112)]) \<and>
   rv_co_swap False (set_reg rv_a1 0x80004000 (rv_demo\<lparr>m_mem := rv_high_memory\<rparr>))
     = Inl (VMFault 0xFFFFFFFF80003F88)"
proof
  have "mapped rv_high_memory (0x80003F88 + 8 * of_nat k) 8" if "k < 15" for k
    using that unfolding mapped_def rv_high_memory_def
    by (auto simp: word_le_nat_alt word_less_nat_alt unat_word_ariths unat_of_nat)
  note at = this [of 0, simplified] this [of 1, simplified] this [of 2, simplified] this [of 3, simplified]
    this [of 4, simplified] this [of 5, simplified] this [of 6, simplified] this [of 7, simplified]
    this [of 8, simplified] this [of 9, simplified] this [of 10, simplified] this [of 11, simplified]
    this [of 12, simplified] this [of 13, simplified] this [of 14, simplified]
  show "block_mapped rv_high_memory (rv_base False 0x80004000) (rv_layout False @ [(rv_ra, 112)])"
    by (simp add: block_mapped_def rv_layout_simps rv_base_def rv_pc_offset_def at)
  show "rv_co_swap False (set_reg rv_a1 0x80004000 (rv_demo\<lparr>m_mem := rv_high_memory\<rparr>))
      = Inl (VMFault 0xFFFFFFFF80003F88)"
    using rv_high_context_faults [of False "set_reg rv_a1 0x80004000 (rv_demo\<lparr>m_mem := rv_high_memory\<rparr>)"]
    by (simp add: rv_low_def rv_base_def rv_pc_offset_def rv_high_memory_def)
qed

end
