(* ===== verification/ArmSwitch.thy ===== *)
theory ArmSwitch
  imports ContextSwitch
begin

text \<open>
  \<open>libco/arm.c\<close>, the 32-bit ARM variant: \<open>co_active\<close>, \<open>co_derive\<close>, \<open>co_switch\<close>, and the three
  words of machine code of \<open>co_swap\<close> with their decoder. Addresses and registers have 32 bits
  here; \<open>unsigned long\<close> and \<open>unsigned int\<close> are both one word.
\<close>

subsection \<open>Instructions\<close>

datatype arm_reg = ArmR nat

abbreviation arm_to :: arm_reg where "arm_to \<equiv> ArmR 0"
abbreviation arm_from :: arm_reg where "arm_from \<equiv> ArmR 1"
abbreviation arm_sp :: arm_reg where "arm_sp \<equiv> ArmR 13"
abbreviation arm_lr :: arm_reg where "arm_lr \<equiv> ArmR 14"

text \<open>
  Store and load multiple, increment after, with write-back of a base outside the list, and
  \<open>bx\<close>. The registers of the list are in ascending order at ascending addresses. A load of
  the program counter, register 15, is a jump to the loaded value without its lowest bit,
  which selects the instruction set.
\<close>

definition arm_list :: "nat \<Rightarrow> nat list" where
  "arm_list w = filter (\<lambda>r. odd (w div 2 ^ r)) [0..<16]"

definition arm_slots :: "nat list \<Rightarrow> (arm_reg \<times> int) list" where
  "arm_slots rs = zip (map ArmR rs) (map (\<lambda>i. 4 * int i) [0..<length rs])"

definition arm_decode :: "nat \<Rightarrow> arm_reg uop list option" where
  "arm_decode w =
     (let op = w div 2 ^ 20; rn = w div 2 ^ 16 mod 2 ^ 4; rs = arm_list (w mod 2 ^ 16);
          writeback = UAddI (ArmR rn) (ArmR rn) (4 * int (length rs)) in
      if op = 0xe8a \<and> rn \<notin> set rs \<and> 15 \<notin> set rs \<and> rn \<noteq> 15 then
        Some (stores (ArmR rn) (arm_slots rs) @ [writeback])
      else if op = 0xe8b \<and> rn \<notin> set rs \<and> rn \<noteq> 15 then
        Some (loads (ArmR rn) (arm_slots rs) @ [writeback]
          @ (if 15 \<in> set rs then [UJumpEven (ArmR 15) 0] else []))
      else if w div 2 ^ 4 = 0xe12fff1 then Some [UJumpEven (ArmR (w mod 2 ^ 4)) 0]
      else None)"

text \<open>The initialised words; the zeroes that fill the array are behind the jump.\<close>

definition arm_co_swap_function :: "nat list" where
  "arm_co_swap_function = [0xe8a16ff0, 0xe8b0aff0, 0xe12fff1e]"

definition arm_co_swap :: "(arm_reg, 32 word) mach \<Rightarrow> fault + (arm_reg, 32 word) mach" where
  "arm_co_swap = run_code arm_decode arm_co_swap_function"

subsection \<open>What the code is\<close>

definition arm_low_layout :: "(arm_reg \<times> int) list" where
  "arm_low_layout = [(ArmR 4, 0), (ArmR 5, 4), (ArmR 6, 8), (ArmR 7, 12), (ArmR 8, 16), (ArmR 9, 20),
     (ArmR 10, 24), (ArmR 11, 28), (arm_sp, 32)]"

definition arm_layout :: "(arm_reg \<times> int) list" where
  "arm_layout = arm_low_layout @ [(arm_lr, 36)]"

definition arm_saved_regs :: "arm_reg set" where
  "arm_saved_regs = fst ` set arm_low_layout"

definition arm_ops :: "arm_reg uop list" where
  "arm_ops = stores arm_from arm_layout @ [UAddI arm_from arm_from 40]
     @ loads arm_to (arm_low_layout @ [(ArmR 15, 36)]) @ [UAddI arm_to arm_to 40, UJumpEven (ArmR 15) 0]"

lemma arm_lists:
  "arm_list 0x6ff0 = [4, 5, 6, 7, 8, 9, 10, 11, 13, 14]" "arm_list 0xaff0 = [4, 5, 6, 7, 8, 9, 10, 11, 13, 15]"
  by (simp_all add: arm_list_def upt_rec)

lemma arm_decoded:
  "map_option (until_jump \<circ> concat) (those (map arm_decode arm_co_swap_function)) = Some arm_ops"
  by (simp add: arm_co_swap_function_def arm_decode_def Let_def arm_lists arm_slots_def upt_rec
      arm_ops_def arm_layout_def arm_low_layout_def stores_def loads_def)

lemma arm_co_swap_ops: "arm_co_swap s = urun arm_ops s"
  using arm_decoded by (auto simp: arm_co_swap_def run_code_def)

subsection \<open>The contract of \<open>co_swap\<close>\<close>

definition arm_block :: "32 word \<Rightarrow> 32 word set" where
  "arm_block h = block_bytes h arm_layout"

definition arm_holds :: "32 memory \<Rightarrow> 32 word \<Rightarrow> (arm_reg \<Rightarrow> 32 word) \<Rightarrow> 32 word \<Rightarrow> bool" where
  "arm_holds m h V pc \<longleftrightarrow> (\<exists>v. saved_at m h arm_layout (V(arm_lr := v)) \<and> pc = v AND NOT 1)"

definition arm_ready :: "(arm_reg, 32 word) mach \<Rightarrow> bool" where
  "arm_ready s \<longleftrightarrow> block_mapped (m_mem s) (m_reg s arm_from) arm_layout"

lemma arm_holds_frame:
  "arm_holds m h V pc \<Longrightarrow> \<forall>b \<in> arm_block h. m' b = m b \<Longrightarrow> arm_holds m' h V pc"
  using saved_at_frame unfolding arm_holds_def arm_block_def by blast

lemma arm_swap:
  assumes "arm_ready s" and "arm_holds (m_mem s) (m_reg s arm_to) V pc"
    and "arm_block (m_reg s arm_to) \<inter> arm_block (m_reg s arm_from) = {}"
  shows "\<exists>s'. arm_co_swap s = Inr s' \<and> m_pc s' = pc \<and> (\<forall>r \<in> arm_saved_regs. m_reg s' r = V r) \<and>
    arm_holds (m_mem s') (m_reg s arm_from) (m_reg s) (m_reg s arm_lr AND NOT 1) \<and>
    dom (m_mem s') = dom (m_mem s) \<and> (\<forall>b. b \<notin> arm_block (m_reg s arm_from) \<longrightarrow> m_mem s' b = m_mem s b) \<and>
    m_reg s' arm_lr = m_reg s arm_lr"
proof -
  let ?from = "m_reg s arm_from" and ?to = "m_reg s arm_to" and ?R = "m_reg s"
  have "spaced 4 (map snd arm_layout)" by (simp add: arm_layout_def arm_low_layout_def)
  then obtain m' where m': "write_words (m_mem s) (store_list ?R ?from arm_layout) = Inr m'"
    "dom m' = dom (m_mem s)" "saved_at m' ?from arm_layout ?R"
    "\<forall>b. b \<notin> arm_block ?from \<longrightarrow> m' b = m_mem s b"
    using save_block [of "m_mem s" ?from arm_layout ?R] assms(1) by (auto simp: arm_ready_def arm_block_def)
  have "\<forall>b \<in> arm_block ?to. m' b = m_mem s b" using m'(4) assms(3) by blast
  from arm_holds_frame [OF assms(2) this] obtain v where
    v: "saved_at m' ?to arm_layout (V(arm_lr := v))" "pc = v AND NOT 1"
    by (auto simp: arm_holds_def)
  let ?s1 = "set_reg arm_from (?from + 40) s\<lparr>m_mem := m'\<rparr>" and ?W = "V(ArmR 15 := v)"
  let ?xs = "arm_low_layout @ [(ArmR 15, 36)]"
  let ?V = "\<lambda>r. if r \<in> fst ` set ?xs then ?W r else m_reg ?s1 r"
  have save: "urun (stores arm_from arm_layout) s = Inr (s\<lparr>m_mem := m'\<rparr>)"
    using m'(1) by (simp add: urun_stores)
  have bump: "urun [UAddI arm_from arm_from 40] (s\<lparr>m_mem := m'\<rparr>) = Inr ?s1" by simp
  have restore: "urun (loads arm_to ?xs) ?s1 = Inr (?s1\<lparr>m_reg := ?V\<rparr>)"
    by (rule urun_loads)
      (use v(1) in \<open>auto simp: saved_at_def arm_layout_def arm_low_layout_def\<close>)
  have jump: "urun [UAddI arm_to arm_to 40, UJumpEven (ArmR 15) 0] (?s1\<lparr>m_reg := ?V\<rparr>)
      = Inr (set_reg arm_to (?to + 40) (?s1\<lparr>m_reg := ?V\<rparr>)\<lparr>m_pc := pc\<rparr>)"
    by (simp add: v(2) set_reg_def arm_low_layout_def)
  have "arm_co_swap s = Inr (set_reg arm_to (?to + 40) (?s1\<lparr>m_reg := ?V\<rparr>)\<lparr>m_pc := pc\<rparr>)"
    by (simp only: arm_co_swap_ops arm_ops_def urun_append save bump restore jump bindR.simps)
  moreover have "arm_holds m' ?from (m_reg s) (m_reg s arm_lr AND NOT 1)"
    using m'(3) unfolding arm_holds_def by (intro exI [of _ "?R arm_lr"]) simp
  ultimately show ?thesis
    using m'(2,4) by (simp add: arm_saved_regs_def arm_low_layout_def set_reg_def)
qed

interpretation arm: context_switch arm_co_swap arm_to arm_from arm_saved_regs arm_ready arm_holds
    "\<lambda>m. arm_block" arm_block m_reg "\<lambda>s. m_reg s arm_lr AND NOT 1"
  by unfold_locales (use arm_swap arm_holds_frame in blast)+

subsection \<open>\<open>co_active\<close>, \<open>co_derive\<close> and \<open>co_switch\<close>\<close>

text \<open>
  The variable \<open>co_active_handle\<close> starts as null; both \<open>co_active\<close> and \<open>co_derive\<close> first let
  it point to the static buffer, whose address is the parameter \<open>buffer\<close>.
\<close>

definition arm_co_active :: "32 word \<Rightarrow> 32 word \<Rightarrow> 32 word" where
  "arm_co_active buffer co_active_handle = (if co_active_handle = 0 then buffer else co_active_handle)"

definition arm_co_derive ::
    "32 word \<Rightarrow> 32 memory \<times> 32 word \<Rightarrow> 32 word \<Rightarrow> 32 word \<Rightarrow> 32 word \<Rightarrow>
     fault + (32 memory \<times> 32 word) \<times> 32 word" where
  "arm_co_derive buffer = (\<lambda>(m, co_active_handle) memory sz entrypoint.
     let active = arm_co_active buffer co_active_handle in
     if memory = 0 then Inr ((m, active), memory)
     else
       let offset = sz AND NOT 15; p = memory + offset in
       bindR (write_words m [(memory + 4 * 8, p), (memory + 4 * 9, entrypoint)])
         (\<lambda>m'. Inr ((m', active), memory)))"

definition arm_co_switch ::
    "32 word \<Rightarrow> (arm_reg, 32 word) mach \<times> 32 word \<Rightarrow> fault + (arm_reg, 32 word) mach \<times> 32 word" where
  "arm_co_switch = co_switch_by arm_co_swap arm_to arm_from"

lemma arm_block_within: "b \<in> arm_block h \<Longrightarrow> inside b h 40"
  unfolding arm_block_def
  using block_bytes_within [of 0 40 arm_layout b h]
  by (simp add: arm_layout_def arm_low_layout_def)

lemma arm_co_derive_ok:
  assumes "mapped m memory n" and "64 \<le> n" and "n < 2 ^ 32" and "memory \<noteq> 0"
  shows "\<exists>m'. arm_co_derive buffer (m, active) memory sz entry
      = Inr ((m', arm_co_active buffer active), memory) \<and>
    block_writes m memory n [(memory + 32, memory + (sz AND NOT 15)), (memory + 36, entry)] m'"
proof -
  let ?ws = "[(memory + 32, memory + (sz AND NOT 15)), (memory + 36, entry)]"
  have blk: "in_block memory n (memory + of_nat i)" if "i + 4 \<le> n" for i
    using that by (auto simp: in_block_def)
  have "\<forall>a \<in> set (map fst ?ws). in_block memory n a" using blk [of 32] blk [of 36] assms(2) by simp
  moreover have "all_apart (map fst ?ws)" by (simp add: apart_def)
  ultimately obtain m' where "write_words m ?ws = Inr m'" "block_writes m memory n ?ws m'"
    using write_words_in_block [of m memory n ?ws] assms(1,3) by auto
  then show ?thesis using assms(4) by (simp add: arm_co_derive_def Let_def)
qed

lemma arm_derived_holds:
  assumes "mapped m memory n" and "64 \<le> n" and "n < 2 ^ 32" and "memory \<noteq> 0"
    and "arm_co_derive buffer (m, active) memory sz entry = Inr ((m', active'), h)"
  shows "\<exists>V. arm_holds m' h V (entry AND NOT 1) \<and> V arm_sp = memory + (sz AND NOT 15)"
proof -
  have h: "h = memory"
    and bw: "block_writes m memory n [(memory + 32, memory + (sz AND NOT 15)), (memory + 36, entry)] m'"
    using arm_co_derive_ok [OF assms(1-4), of buffer active sz entry] assms(5) by auto
  have mp: "mapped m' memory n" using assms(1) bw mapped_dom [of m' m] by (simp add: block_writes_def)
  have "mapped m' (memory + of_nat i) 4" if "i + 4 \<le> 64" for i
    by (rule mapped_sub [OF mp]) (use that assms(2) in linarith)
  from this [of 0] this [of 4] this [of 8] this [of 12] this [of 16] this [of 20] this [of 24] this [of 28]
    this [of 32] this [of 36]
  have "block_mapped m' memory arm_layout"
    by (simp add: block_mapped_def arm_layout_def arm_low_layout_def)
  moreover have "distinct (map fst arm_layout)" by (simp add: arm_layout_def arm_low_layout_def)
  ultimately obtain V where V: "saved_at m' memory arm_layout V" using saved_at_exists by blast
  then have "V arm_sp = memory + (sz AND NOT 15)" "V arm_lr = entry"
    using bw by (simp_all add: saved_at_def arm_layout_def arm_low_layout_def block_writes_def)
  with V show ?thesis
    unfolding arm_holds_def h by (intro exI [of _ V] conjI exI [of _ entry]) (auto simp: fun_upd_idem)
qed

lemma arm_holds_cong:
  "(\<And>r. r \<in> arm_saved_regs \<Longrightarrow> V r = V' r) \<Longrightarrow> arm_holds m h V pc = arm_holds m h V' pc"
  unfolding arm_holds_def saved_at_def arm_layout_def by (simp add: arm_saved_regs_def arm_low_layout_def)

subsection \<open>An example\<close>

definition arm_demo :: "(arm_reg, 32 word) mach" where
  "arm_demo = \<lparr>m_reg = (\<lambda>_. 0)(arm_to := 0x2000, arm_from := 0x4000, arm_lr := 0x100, ArmR 4 := 7),
     m_mem = zero_memory, m_pc = 0\<rparr>"

lemma arm_demo_apart: "arm_block 0x2000 \<inter> arm_block 0x4000 = {}"
proof (rule ranges_disjoint [OF arm_block_within arm_block_within])
  show "apart (0x2000 :: 32 word) 40 0x4000 40" by (simp add: apart_def)
qed

subsection \<open>Properties\<close>

text \<open>
  C10: 32-bit ARM: \<open>co_swap\<close> is a function call that returns. The switch goes on in the
  context of its target with that context's callee-saved registers; and whenever later a
  context switches back, with the bytes of the caller's context unchanged, execution goes
  on at the caller's return address with its callee-saved registers and stack pointer.
\<close>

theorem arm_switch_returns:
  assumes "arm_ready s" and "arm_holds (m_mem s) (m_reg s arm_to) V pc"
    and "arm_block (m_reg s arm_to) \<inter> arm_block (m_reg s arm_from) = {}"
  shows "\<exists>s1. arm_co_swap s = Inr s1 \<and> m_pc s1 = pc \<and> (\<forall>r \<in> arm_saved_regs. m_reg s1 r = V r) \<and>
    dom (m_mem s1) = dom (m_mem s) \<and>
    (\<forall>s2. arm_ready s2 \<and> m_reg s2 arm_to = m_reg s arm_from \<and>
       (\<forall>b \<in> arm_block (m_reg s arm_from). m_mem s2 b = m_mem s1 b) \<and>
       arm_block (m_reg s2 arm_to) \<inter> arm_block (m_reg s2 arm_from) = {} \<longrightarrow>
       (\<exists>s3. arm_co_swap s2 = Inr s3 \<and> m_pc s3 = m_reg s arm_lr AND NOT 1 \<and>
         (\<forall>r \<in> arm_saved_regs. m_reg s3 r = m_reg s r)))"
  using arm.swap_switches [OF assms] arm.away_and_back [OF assms] by fastforce

theorem arm_switch_returns_witness:
  "\<exists>s1 s3. arm_co_swap arm_demo = Inr s1 \<and> m_pc s1 = 0 \<and>
    arm_co_swap (set_reg arm_to 0x4000 (set_reg arm_from 0x2000 s1)) = Inr s3 \<and> m_pc s3 = 0x100 \<and>
    m_reg s3 (ArmR 4) = 7"
proof -
  have "(\<lambda>_. 0 :: 32 word)(arm_lr := 0) = (\<lambda>_. 0)" by auto
  then have "arm_ready arm_demo" "arm_holds (m_mem arm_demo) (m_reg arm_demo arm_to) (\<lambda>_. 0) 0"
    by (auto simp: arm_ready_def arm_demo_def block_mapped_zero_memory arm_holds_def saved_at_zero_memory
        intro!: exI [of _ 0])
  from arm_switch_returns [OF this] arm_demo_apart obtain s1 where
    s1: "arm_co_swap arm_demo = Inr s1" "m_pc s1 = 0" "dom (m_mem s1) = UNIV"
    and again: "\<And>s2. arm_ready s2 \<Longrightarrow> m_reg s2 arm_to = 0x4000 \<Longrightarrow> m_mem s2 = m_mem s1 \<Longrightarrow>
      m_reg s2 arm_from = 0x2000 \<Longrightarrow> \<exists>s3. arm_co_swap s2 = Inr s3 \<and> m_pc s3 = 0x100 \<and> m_reg s3 (ArmR 4) = 7"
    by (fastforce simp: arm_demo_def arm_saved_regs_def arm_low_layout_def zero_memory_def)
  have "arm_ready (set_reg arm_to 0x4000 (set_reg arm_from 0x2000 s1))"
    using s1(3) by (simp add: arm_ready_def block_mapped_UNIV)
  from again [OF this] s1(1,2) show ?thesis by auto
qed

text \<open>
  32-bit ARM: a cothread derived on a mapped stack, switched to for the first time,
  starts at the client's entry point itself, with the stack pointer just above its stack.
  Nothing is prepared for its return: the link register is still the one with which the
  caller of the switch returns, so an entry point that returns goes on in the caller's
  code, on the stack of the cothread.
\<close>

theorem arm_first_switch:
  assumes "mapped m memory n" and "64 \<le> n" and "n < 2 ^ 32" and "memory \<noteq> 0"
    and "arm_co_derive buffer (m, act) memory sz entry = Inr ((m', active), h)"
    and "\<forall>b. inside b memory n \<longrightarrow> m_mem s b = m' b"
    and "arm_ready (set_reg arm_from active s)"
    and "\<forall>b \<in> arm_block active. \<not> inside b memory n"
  shows "\<exists>s'. arm_co_switch h (s, active) = Inr (s', h) \<and> m_pc s' = entry AND NOT 1 \<and>
    m_reg s' arm_sp = memory + (sz AND NOT 15) \<and> m_reg s' arm_lr = m_reg s arm_lr \<and>
    arm_holds (m_mem s') active (m_reg s) (m_reg s arm_lr AND NOT 1)"
proof -
  let ?s = "set_reg arm_from active (set_reg arm_to h s)"
  have h: "h = memory" using arm_co_derive_ok [OF assms(1-4), of buffer act sz entry] assms(5) by auto
  obtain V where V: "arm_holds m' h V (entry AND NOT 1)" "V arm_sp = memory + (sz AND NOT 15)"
    using arm_derived_holds [OF assms(1-5)] by blast
  have within: "inside b memory n" if "b \<in> arm_block h" for b
    using arm_block_within [OF that] assms(2) by (simp add: h inside_def)
  have "arm_ready ?s" using assms(7) by (simp add: arm_ready_def)
  moreover have "arm_holds (m_mem ?s) (m_reg ?s arm_to) V (entry AND NOT 1)"
    using arm_holds_frame [OF V(1)] within assms(6) by simp
  moreover have "arm_block (m_reg ?s arm_to) \<inter> arm_block (m_reg ?s arm_from) = {}"
    using within assms(8) by auto
  ultimately obtain s' where s': "arm_co_swap ?s = Inr s'" "m_pc s' = entry AND NOT 1"
    "\<forall>r \<in> arm_saved_regs. m_reg s' r = V r" "m_reg s' arm_lr = m_reg ?s arm_lr"
    "arm_holds (m_mem s') active (m_reg ?s) (m_reg ?s arm_lr AND NOT 1)"
    using arm_swap [of ?s V "entry AND NOT 1"] by (simp del: bit.compl_one) blast
  have "arm_holds (m_mem s') active (m_reg s) (m_reg s arm_lr AND NOT 1)"
    using s'(5) by (subst arm_holds_cong [of _ "m_reg ?s"]) (auto simp: arm_saved_regs_def arm_low_layout_def)
  moreover have "m_reg s' arm_sp = memory + (sz AND NOT 15)"
    using s'(3) V(2) by (simp add: arm_saved_regs_def arm_low_layout_def)
  ultimately show ?thesis using s'(1,2,4) by (simp add: arm_co_switch_def co_switch_by_def)
qed

theorem arm_first_switch_example:
  "\<exists>m' s'. arm_co_derive 0x4000 (zero_memory, 0) 0x10000 0x1000 0x8000 = Inr ((m', 0x4000), 0x10000) \<and>
    arm_co_switch 0x10000 (arm_demo\<lparr>m_mem := m'\<rparr>, 0x4000) = Inr (s', 0x10000) \<and>
    m_pc s' = 0x8000 \<and> m_reg s' arm_sp = 0x11000 \<and> m_reg s' arm_lr = 0x100"
proof -
  have mp: "mapped zero_memory (0x10000 :: 32 word) 0x1000" by (rule mapped_zero_memory)
  obtain m' where m': "arm_co_derive 0x4000 (zero_memory, 0) 0x10000 0x1000 0x8000 = Inr ((m', 0x4000), 0x10000)"
    and dom: "dom m' = UNIV"
    using arm_co_derive_ok [OF mp, of "0x4000" 0 "0x1000" "0x8000"]
    by (auto simp: block_writes_def zero_memory_def arm_co_active_def)
  have ready: "arm_ready (set_reg arm_from 0x4000 (arm_demo\<lparr>m_mem := m'\<rparr>))"
    using dom by (simp add: arm_ready_def block_mapped_UNIV)
  have "\<not> inside b 0x10000 0x1000" if "b \<in> arm_block 0x4000" for b
  proof (rule apart_not_inside [OF _ arm_block_within [OF that]])
    show "apart (0x4000 :: 32 word) 40 0x10000 0x1000" by (simp add: apart_def)
  qed
  from arm_first_switch [OF mp _ _ _ m' _ ready] this m' show ?thesis
    by (fastforce simp: arm_demo_def)
qed

end
