(* ===== verification/ContextTurns.thy ===== *)
theory ContextTurns
  imports Aarch64Switch RiscvSwitch ArmSwitch
begin

text \<open>
  Many contexts on one kernel thread. Between two switches the running cothread computes
  whatever it likes, as long as it leaves the saved contexts of the others alone; a switch
  goes to any parked context. The steps carry along what every parked cothread had when it
  called \<open>co_switch\<close>, and the invariant says that memory still holds it. This is what lets
  the model of the scheduler (\<open>co_switch\<close> in \<open>CoScheduler\<close>) speak of the active handle only:
  the bytes that \<open>co_swap\<close> writes are those of the caller's context, and they come back.
\<close>

subsection \<open>Steps\<close>

type_synonym ('r, 'w) contexts = "'w word \<rightharpoonup> ('r \<Rightarrow> 'w word) \<times> 'w word"

type_synonym ('r, 'w) turn_state = "('r, 'w word) mach \<times> 'w word \<times> ('r, 'w) contexts"

text \<open>
  A state is the machine, the variable \<open>co_active_handle\<close>, and for every parked handle the
  registers and the address with which its cothread expects to return from \<open>co_switch\<close>.
\<close>

inductive co_turn ::
    "('w::len word \<Rightarrow> ('r, 'w word) mach \<times> 'w word \<Rightarrow> fault + ('r, 'w word) mach \<times> 'w word) \<Rightarrow>
     ('w word \<Rightarrow> 'w word set) \<Rightarrow> (('r, 'w word) mach \<Rightarrow> 'r \<Rightarrow> 'w word) \<Rightarrow>
     (('r, 'w word) mach \<Rightarrow> 'w word) \<Rightarrow> ('r, 'w) turn_state \<Rightarrow> ('r, 'w) turn_state \<Rightarrow> bool"
  for switch block expects returns_to where
  worked: "dom (m_mem s') = dom (m_mem s) \<Longrightarrow>
    \<forall>h \<in> dom ctx. \<forall>b \<in> block h. m_mem s' b = m_mem s b \<Longrightarrow>
    co_turn switch block expects returns_to (s, active, ctx) (s', active, ctx)"
| switched: "ctx h = Some (V, pc) \<Longrightarrow> switch h (s, active) = Inr (s', h) \<Longrightarrow>
    co_turn switch block expects returns_to (s, active, ctx)
      (s', h, (ctx(h := None))(active \<mapsto> (expects s, returns_to s)))"

inductive_cases co_turnE: "co_turn switch block expects returns_to (s, active, ctx) t"

text \<open>
  The invariant: the contexts, the one of the running cothread included, have room in
  memory and share no byte, and memory holds what the parked cothreads left.
\<close>

definition contexts_apart :: "('w word \<Rightarrow> 'w word set) \<Rightarrow> 'w word set \<Rightarrow> bool" where
  "contexts_apart block H \<longleftrightarrow> (\<forall>h \<in> H. \<forall>k \<in> H. h \<noteq> k \<longrightarrow> block h \<inter> block k = {})"

fun turns_ok ::
    "('w::len memory \<Rightarrow> 'w word \<Rightarrow> ('r \<Rightarrow> 'w word) \<Rightarrow> 'w word \<Rightarrow> bool) \<Rightarrow> ('w word \<Rightarrow> 'w word set) \<Rightarrow>
     ('w memory \<Rightarrow> 'w word \<Rightarrow> bool) \<Rightarrow> 'r set \<Rightarrow> ('r, 'w) turn_state \<Rightarrow> bool" where
  "turns_ok holds block room saved (s, active, ctx) \<longleftrightarrow>
     active \<notin> dom ctx \<and> contexts_apart block (insert active (dom ctx)) \<and>
     (\<forall>h \<in> insert active (dom ctx). room (m_mem s) h) \<and>
     (\<forall>h V pc. ctx h = Some (V, pc) \<longrightarrow>
        (\<exists>W. holds (m_mem s) h W pc \<and> (\<forall>r \<in> saved. W r = V r)))"

declare turns_ok.simps [simp del]

lemma turns_okD:
  assumes "turns_ok holds block room saved (s, active, ctx)"
  shows "active \<notin> dom ctx" and "contexts_apart block (insert active (dom ctx))"
    and "\<And>h. h = active \<or> h \<in> dom ctx \<Longrightarrow> room (m_mem s) h"
    and "\<And>h V pc. ctx h = Some (V, pc) \<Longrightarrow> \<exists>W. holds (m_mem s) h W pc \<and> (\<forall>r \<in> saved. W r = V r)"
  using assms by (auto simp: turns_ok.simps)

lemma contexts_apartD:
  "contexts_apart block H \<Longrightarrow> h \<in> H \<Longrightarrow> k \<in> H \<Longrightarrow> h \<noteq> k \<Longrightarrow> block h \<inter> block k = {}"
  by (simp add: contexts_apart_def)

subsection \<open>The invariant\<close>

text \<open>
  A switch whose contexts are fixed blocks of memory: whether one can be saved depends on
  which addresses are mapped, and the two argument registers are not among the saved.
\<close>

locale block_switch = context_switch swap to_reg from_reg saved ready holds "\<lambda>m. block" block
    expects returns_to
  for swap :: "('r, 'w::len word) mach \<Rightarrow> fault + ('r, 'w word) mach"
    and to_reg from_reg saved ready holds block expects returns_to +
  fixes room :: "'w memory \<Rightarrow> 'w word \<Rightarrow> bool"
  assumes room_ready: "room (m_mem s) (m_reg s from_reg) \<Longrightarrow> ready s"
    and room_dom: "dom m' = dom m \<Longrightarrow> room m h \<Longrightarrow> room m' h"
    and arguments: "to_reg \<noteq> from_reg"
    and expects_args: "r \<in> saved \<Longrightarrow> expects (set_reg from_reg v (set_reg to_reg w s)) r = expects s r"
    and returns_args: "returns_to (set_reg from_reg v (set_reg to_reg w s)) = returns_to s"
begin

text \<open>In a state that satisfies the invariant the switch to any parked context succeeds.\<close>

lemma switch_resumes:
  assumes "turns_ok holds block room saved (s, active, ctx)" and "ctx h = Some (V, pc)"
  shows "\<exists>s'. co_switch_by swap to_reg from_reg h (s, active) = Inr (s', h) \<and> m_pc s' = pc \<and>
    (\<forall>r \<in> saved. m_reg s' r = V r) \<and> (\<forall>b. b \<notin> block active \<longrightarrow> m_mem s' b = m_mem s b) \<and>
    dom (m_mem s') = dom (m_mem s) \<and>
    (\<exists>W. holds (m_mem s') active W (returns_to s) \<and> (\<forall>r \<in> saved. W r = expects s r))"
proof -
  note ok = turns_okD [OF assms(1)]
  let ?s = "set_reg from_reg active (set_reg to_reg h s)"
  have s: "m_mem ?s = m_mem s" "m_reg ?s to_reg = h" "m_reg ?s from_reg = active"
    using arguments by simp_all
  obtain W where W: "holds (m_mem ?s) (m_reg ?s to_reg) W pc" "\<forall>r \<in> saved. W r = V r"
    using ok(4) [OF assms(2)] s by auto
  have "ready ?s" using ok(3) [of active] s by (intro room_ready) simp
  moreover have "block (m_reg ?s to_reg) \<inter> block (m_reg ?s from_reg) = {}"
    unfolding s using ok(1) assms(2) by (intro contexts_apartD [OF ok(2)]) auto
  ultimately obtain s' where s': "swap ?s = Inr s'" "m_pc s' = pc" "\<forall>r \<in> saved. m_reg s' r = W r"
    "holds (m_mem s') active (expects ?s) (returns_to ?s)" "dom (m_mem s') = dom (m_mem s)"
    "\<forall>b. b \<notin> block active \<longrightarrow> m_mem s' b = m_mem s b"
    using swap_switches [OF _ W(1)] s by auto
  then have "\<exists>W. holds (m_mem s') active W (returns_to s) \<and> (\<forall>r \<in> saved. W r = expects s r)"
    using expects_args returns_args by metis
  with s' W(2) show ?thesis by (auto simp: co_switch_by_def)
qed

lemma turn_keeps:
  assumes t: "co_turn (co_switch_by swap to_reg from_reg) block expects returns_to (s, active, ctx) t"
    and ok: "turns_ok holds block room saved (s, active, ctx)"
  shows "turns_ok holds block room saved t"
  using t
proof (cases rule: co_turn.cases)
  case (worked s')
  have "\<exists>W. holds (m_mem s') h W pc \<and> (\<forall>r \<in> saved. W r = V r)" if "ctx h = Some (V, pc)" for h V pc
    using turns_okD(4) [OF ok that] holds_frame [of "m_mem s" h _ pc "m_mem s'"] worked(3) that by blast
  with turns_okD(1-3) [OF ok] room_dom [OF worked(2)] show ?thesis
    unfolding worked(1) by (auto simp: turns_ok.simps)
next
  case (switched h V pc s')
  note old = turns_okD [OF ok]
  obtain keep: "\<forall>b. b \<notin> block active \<longrightarrow> m_mem s' b = m_mem s b" and d: "dom (m_mem s') = dom (m_mem s)"
    and own: "\<exists>W. holds (m_mem s') active W (returns_to s) \<and> (\<forall>r \<in> saved. W r = expects s r)"
    using switch_resumes [OF ok switched(2)] switched(3) by auto
  let ?ctx = "(ctx(h := None))(active \<mapsto> (expects s, returns_to s))"
  have h: "h \<in> dom ctx" "h \<noteq> active" using switched(2) old(1) by auto
  then have all: "insert h (dom ?ctx) = insert active (dom ctx)" by auto
  have "\<exists>W. holds (m_mem s') k W q \<and> (\<forall>r \<in> saved. W r = U r)" if k: "?ctx k = Some (U, q)" for k U q
  proof (cases "k = active")
    case True
    then show ?thesis using own k by auto
  next
    case False
    then have c: "ctx k = Some (U, q)" using k by (auto split: if_splits)
    have "block k \<inter> block active = {}" using c False by (intro contexts_apartD [OF old(2)]) auto
    then have "\<forall>b \<in> block k. m_mem s' b = m_mem s b" using keep by blast
    then show ?thesis using old(4) [OF c] holds_frame by blast
  qed
  moreover have "h \<notin> dom ?ctx" using h(2) by simp
  moreover have "\<forall>k \<in> insert h (dom ?ctx). room (m_mem s') k"
    unfolding all using old(3) room_dom [OF d] by blast
  ultimately show ?thesis
    unfolding switched(1) using old(2) all by (auto simp: turns_ok.simps)
qed

lemma turns_keep:
  assumes "(co_turn (co_switch_by swap to_reg from_reg) block expects returns_to)\<^sup>*\<^sup>* t t'"
    and "turns_ok holds block room saved t"
  shows "turns_ok holds block room saved t'"
  using assms
proof (induction rule: rtranclp_induct)
  case (step t1 t2)
  then show ?case by (cases t1) (use turn_keeps in blast)
qed

text \<open>
  However the cothreads take turns, a switch to a parked one goes on where it called, with
  its registers, and writes the caller's context only.
\<close>

lemma turns_resume:
  assumes "turns_ok holds block room saved t"
    and "(co_turn (co_switch_by swap to_reg from_reg) block expects returns_to)\<^sup>*\<^sup>* t (s, active, ctx)"
    and "ctx h = Some (V, pc)"
  shows "\<exists>s'. co_switch_by swap to_reg from_reg h (s, active) = Inr (s', h) \<and> m_pc s' = pc \<and>
    (\<forall>r \<in> saved. m_reg s' r = V r) \<and> (\<forall>b. b \<notin> block active \<longrightarrow> m_mem s' b = m_mem s b)"
  using switch_resumes [OF turns_keep [OF assms(2,1)] assms(3)] by blast

end

subsection \<open>The three architectures with contexts of their own\<close>

text \<open>On AMD64 part of a context is the return address on the cothread's stack.\<close>

definition a64_room :: "64 memory \<Rightarrow> addr \<Rightarrow> bool" where
  "a64_room m h \<longleftrightarrow> block_mapped m h a64_layout"

lemma a64_room_dom: "dom m' = dom m \<Longrightarrow> a64_room m h \<Longrightarrow> a64_room m' h"
  unfolding a64_room_def using block_mapped_dom by blast

lemma a64_args_kept:
  "r \<in> a64_saved_regs \<Longrightarrow> m_reg (set_reg a64_x1 v (set_reg a64_x0 w s)) r = m_reg s r"
  by (auto simp: a64_saved_regs_def a64_moved_def)

interpretation a64_turns: block_switch a64_co_swap a64_x0 a64_x1 a64_saved_regs a64_ready a64_holds
    a64_block m_reg "\<lambda>s. m_reg s a64_lr" a64_room
  by unfold_locales ((rule a64_room_dom; assumption) | (rule a64_args_kept; assumption)
      | simp add: a64_room_def a64_ready_def)+

definition rv_room :: "bool \<Rightarrow> 64 memory \<Rightarrow> addr \<Rightarrow> bool" where
  "rv_room fl m h \<longleftrightarrow> rv_low fl h \<and>
     block_mapped m (rv_base fl h) (rv_layout fl @ [(rv_ra, rv_pc_offset fl)])"

lemma rv_room_dom: "dom m' = dom m \<Longrightarrow> rv_room fl m h \<Longrightarrow> rv_room fl m' h"
  unfolding rv_room_def using block_mapped_dom by blast

lemma rv_args_kept:
  "r \<in> set (rv_saved_regs fl) \<Longrightarrow> m_reg (set_reg rv_a1 v (set_reg rv_a0 w s)) r = m_reg s r"
  using rv_saved_regs_not_arg [of fl] by (auto simp: rv_saved_regs_not_arg set_reg_def)

interpretation rv_turns: block_switch "rv_co_swap fl" rv_a0 rv_a1 "set (rv_saved_regs fl)" "rv_ready fl"
    "rv_holds fl" "rv_block fl" m_reg "\<lambda>s. m_reg s rv_ra AND NOT 1" "rv_room fl" for fl
  by unfold_locales ((rule rv_room_dom; assumption) | (rule rv_args_kept; assumption)
      | simp add: rv_room_def rv_ready_def)+

definition arm_room :: "32 memory \<Rightarrow> 32 word \<Rightarrow> bool" where
  "arm_room m h \<longleftrightarrow> block_mapped m h arm_layout"

lemma arm_room_dom: "dom m' = dom m \<Longrightarrow> arm_room m h \<Longrightarrow> arm_room m' h"
  unfolding arm_room_def using block_mapped_dom by blast

lemma arm_args_kept:
  "r \<in> arm_saved_regs \<Longrightarrow> m_reg (set_reg arm_from v (set_reg arm_to w s)) r = m_reg s r"
  by (auto simp: arm_saved_regs_def arm_low_layout_def)

interpretation arm_turns: block_switch arm_co_swap arm_to arm_from arm_saved_regs arm_ready arm_holds
    arm_block m_reg "\<lambda>s. m_reg s arm_lr AND NOT 1" arm_room
  by unfold_locales ((rule arm_room_dom; assumption) | (rule arm_args_kept; assumption)
      | simp add: arm_room_def arm_ready_def)+

subsection \<open>Properties\<close>

text \<open>The example: the context at \<open>0x4000\<close> runs, the one at \<open>0x2000\<close> is parked with zeros.\<close>

definition a64_demo_turns :: "(a64_reg, 64) turn_state" where
  "a64_demo_turns = (a64_demo, 0x4000, [0x2000 \<mapsto> (\<lambda>_. 0, 0)])"

lemma a64_demo_turns_ok: "turns_ok a64_holds a64_block a64_room a64_saved_regs a64_demo_turns"
proof -
  have "(\<lambda>_. 0 :: addr)(a64_ip0 := 0, a64_lr := 0) = (\<lambda>_. 0)" by auto
  then have "a64_holds zero_memory 0x2000 (\<lambda>_. 0) 0" by (simp add: a64_holds_def saved_at_zero_memory)
  moreover have "contexts_apart a64_block {0x4000, 0x2000}"
    using a64_demo_apart by (auto simp: contexts_apart_def)
  moreover have "m_mem a64_demo = zero_memory" by (simp add: a64_demo_def)
  ultimately show ?thesis
    unfolding a64_demo_turns_def turns_ok.simps
    by (auto simp: a64_room_def block_mapped_zero_memory)
qed

text \<open>
  C14: AArch64, any number of cothreads whose contexts are mapped and share no byte: however they
  compute and switch to each other, as long as none writes to the saved context of another
  or changes what is mapped, a switch to a parked one always succeeds
  and goes on at the address and with the callee-saved registers and the stack pointer with
  which that cothread called \<open>co_switch\<close>; of the memory it changes only the caller's context.
\<close>

theorem a64_turns_resume:
  assumes "turns_ok a64_holds a64_block a64_room a64_saved_regs t"
    and "(co_turn a64_co_switch a64_block m_reg (\<lambda>s. m_reg s a64_lr))\<^sup>*\<^sup>* t (s, active, ctx)"
    and "ctx h = Some (V, pc)"
  shows "\<exists>s'. a64_co_switch h (s, active) = Inr (s', h) \<and> m_pc s' = pc \<and>
    (\<forall>r \<in> a64_saved_regs. m_reg s' r = V r) \<and> (\<forall>b. b \<notin> a64_block active \<longrightarrow> m_mem s' b = m_mem s b)"
  using a64_turns.turns_resume [where ctx = ctx and h = h and V = V, OF assms(1) _ assms(3)] assms(2)
  unfolding a64_co_switch_def by blast

theorem a64_turns_resume_witness:
  "\<exists>s1 s3. a64_co_switch 0x2000 (a64_demo, 0x4000) = Inr (s1, 0x2000) \<and>
    a64_co_switch 0x4000 (s1\<lparr>m_reg := \<lambda>_. 5, m_pc := 0x500\<rparr>, 0x2000) = Inr (s3, 0x4000) \<and>
    m_pc s3 = 0x100 \<and> m_reg s3 (A64X 19) = 7"
proof -
  let ?turn = "co_turn a64_co_switch a64_block m_reg (\<lambda>s. m_reg s a64_lr)"
  note resume = a64_turns_resume [OF a64_demo_turns_ok]
  obtain s1 where s1: "a64_co_switch 0x2000 (a64_demo, 0x4000) = Inr (s1, 0x2000)"
    using resume [of a64_demo "0x4000" "[0x2000 \<mapsto> (\<lambda>_. 0, 0)]" "0x2000" "\<lambda>_. 0" 0]
    by (auto simp: a64_demo_turns_def)
  let ?ctx = "[0x4000 \<mapsto> (m_reg a64_demo, 0x100)]" and ?s2 = "s1\<lparr>m_reg := \<lambda>_. 5, m_pc := 0x500\<rparr>"
  have "?turn a64_demo_turns (s1, 0x2000, ?ctx)"
    using switched [where ctx = "[0x2000 \<mapsto> (\<lambda>_. 0, 0)]" and block = a64_block and expects = m_reg
      and switch = a64_co_switch and h = "0x2000" and returns_to = "\<lambda>s. m_reg s a64_lr", OF _ s1]
    by (simp add: a64_demo_turns_def a64_demo_def)
  moreover have "?turn (s1, 0x2000, ?ctx) (?s2, 0x2000, ?ctx)" by (rule worked) simp_all
  ultimately have "?turn\<^sup>*\<^sup>* a64_demo_turns (?s2, 0x2000, ?ctx)"
    by (blast intro: rtranclp.rtrancl_into_rtrancl)
  from resume [OF this, of "0x4000" "m_reg a64_demo" "0x100"] show ?thesis
    using s1 by (auto simp: a64_saved_regs_def a64_moved_def a64_demo_def)
qed

end
