(* ===== verification/Amd64Switch.thy ===== *)
theory Amd64Switch
  imports LibcoAmd64 ContextSwitch
begin

text \<open>
  The machine code of \<open>co_swap\<close> in \<open>libco/amd64.c\<close>: decoder, code bytes, and the proof that
  they meet the contract of a context switch. Here the return address of a parked context
  stays on its stack, so that the bytes a context depends on include that word.
\<close>

subsection \<open>Instructions\<close>

datatype amd64_reg = GPR nat

abbreviation amd64_rax :: amd64_reg where "amd64_rax \<equiv> GPR 0"
abbreviation amd64_rsp :: amd64_reg where "amd64_rsp \<equiv> GPR 4"
abbreviation amd64_rsi :: amd64_reg where "amd64_rsi \<equiv> GPR 6"
abbreviation amd64_rdi :: amd64_reg where "amd64_rdi \<equiv> GPR 7"

text \<open>
  The first instruction of a byte sequence and its length less one: 64-bit \<open>mov\<close> between a
  register and memory with no or an 8-bit displacement, \<open>pop\<close> and an indirect \<open>jmp\<close>. Forms
  with a SIB byte or relative to the instruction pointer are left out.
\<close>

definition byte_at :: "nat list \<Rightarrow> nat \<Rightarrow> nat" where
  "byte_at bs i = (if i < length bs then bs ! i else 0)"

definition amd64_mov :: "nat \<Rightarrow> nat \<Rightarrow> nat \<Rightarrow> nat \<Rightarrow> (amd64_reg uop list \<times> nat) option" where
  "amd64_mov rex opcode modrm disp8 =
     (let md = modrm div 64; rm = modrm mod 8; disp = (if md = 1 then sext 8 disp8 else 0);
          reg = modrm div 8 mod 8 + (if rex = 0x4c then 8 else 0) in
      if 1 < md \<or> rm = 4 \<or> md = 0 \<and> rm = 5 then None
      else Some ([if opcode = 0x89 then UStore (GPR reg) (GPR rm) disp else ULoad (GPR reg) (GPR rm) disp],
        if md = 1 then 3 else 2))"

definition amd64_next :: "nat list \<Rightarrow> (amd64_reg uop list \<times> nat) option" where
  "amd64_next bs =
     (let b0 = byte_at bs 0; b1 = byte_at bs 1 in
      if b0 \<in> {0x48, 0x4c} \<and> b1 \<in> {0x89, 0x8b} then amd64_mov b0 b1 (byte_at bs 2) (byte_at bs 3)
      else if 0x58 \<le> b0 \<and> b0 < 0x60 \<and> b0 \<noteq> 0x5c then
        Some ([ULoad (GPR (b0 - 0x58)) amd64_rsp 0, UAddI amd64_rsp amd64_rsp 8], 0)
      else if b0 = 0xff \<and> b1 div 8 = 28 then Some ([UJump (GPR (b1 mod 8))], 1)
      else None)"

function amd64_decode :: "nat list \<Rightarrow> amd64_reg uop list option" where
  "amd64_decode bs =
     (if bs = [] then Some []
      else case amd64_next bs of
          None \<Rightarrow> None
        | Some (ops, n) \<Rightarrow> map_option ((@) ops) (amd64_decode (drop (Suc n) bs)))"
  by pat_completeness auto
termination
  by (relation "measure length") auto

declare amd64_decode.simps [simp del]

text \<open>The initialised bytes; the zeroes that fill the array come after the jump.\<close>

definition amd64_co_swap_function :: "nat list" where
  "amd64_co_swap_function =
     [0x48, 0x89, 0x26, 0x48, 0x8b, 0x27, 0x58, 0x48, 0x89, 0x6e, 0x08, 0x48,
      0x89, 0x5e, 0x10, 0x4c, 0x89, 0x66, 0x18, 0x4c, 0x89, 0x6e, 0x20, 0x4c,
      0x89, 0x76, 0x28, 0x4c, 0x89, 0x7e, 0x30, 0x48, 0x8b, 0x6f, 0x08, 0x48,
      0x8b, 0x5f, 0x10, 0x4c, 0x8b, 0x67, 0x18, 0x4c, 0x8b, 0x6f, 0x20, 0x4c,
      0x8b, 0x77, 0x28, 0x4c, 0x8b, 0x7f, 0x30, 0xff, 0xe0]"

definition amd64_co_swap :: "(amd64_reg, 64 word) mach \<Rightarrow> fault + (amd64_reg, 64 word) mach" where
  "amd64_co_swap s = (case amd64_decode amd64_co_swap_function of
      None \<Rightarrow> Inl IllegalInstruction
    | Some ops \<Rightarrow> urun (until_jump ops) s)"

subsection \<open>What the code is\<close>

text \<open>\<open>rbp\<close>, \<open>rbx\<close> and \<open>r12\<close> to \<open>r15\<close> follow the stack pointer in the context.\<close>

definition amd64_layout :: "(amd64_reg \<times> int) list" where
  "amd64_layout = [(GPR 5, 8), (GPR 3, 16), (GPR 12, 24), (GPR 13, 32), (GPR 14, 40), (GPR 15, 48)]"

definition amd64_saved_regs :: "amd64_reg set" where
  "amd64_saved_regs = {amd64_rsp, GPR 5, GPR 3, GPR 12, GPR 13, GPR 14, GPR 15}"

definition amd64_ops :: "amd64_reg uop list" where
  "amd64_ops = [UStore amd64_rsp amd64_rsi 0, ULoad amd64_rsp amd64_rdi 0,
       ULoad amd64_rax amd64_rsp 0, UAddI amd64_rsp amd64_rsp 8]
     @ stores amd64_rsi amd64_layout @ loads amd64_rdi amd64_layout @ [UJump amd64_rax]"

lemma amd64_decode_step:
  "bs \<noteq> [] \<Longrightarrow> amd64_next bs = Some (ops, n) \<Longrightarrow>
    amd64_decode bs = map_option ((@) ops) (amd64_decode (drop (Suc n) bs))"
  by (subst amd64_decode.simps) simp

lemma amd64_decoded: "amd64_decode amd64_co_swap_function = Some amd64_ops"
  by code_simp

lemma amd64_co_swap_ops: "amd64_co_swap s = urun amd64_ops s"
  by (simp add: amd64_co_swap_def amd64_decoded) (simp add: amd64_ops_def)

subsection \<open>The contract of \<open>co_swap\<close>\<close>

definition amd64_context :: "(amd64_reg \<times> int) list" where
  "amd64_context = (amd64_rsp, 0) # amd64_layout"

definition amd64_block :: "addr \<Rightarrow> addr set" where
  "amd64_block h = block_bytes h amd64_context"

text \<open>The context and the return address on top of the parked stack.\<close>

definition amd64_foot :: "64 memory \<Rightarrow> addr \<Rightarrow> addr set" where
  "amd64_foot m h = amd64_block h \<union>
     (case load_word m h of None \<Rightarrow> {} | Some sp \<Rightarrow> word_range sp)"

definition amd64_holds :: "64 memory \<Rightarrow> addr \<Rightarrow> (amd64_reg \<Rightarrow> addr) \<Rightarrow> addr \<Rightarrow> bool" where
  "amd64_holds m h V pc \<longleftrightarrow>
     (\<exists>sp. saved_at m h amd64_context (V(amd64_rsp := sp)) \<and> load_word m sp = Some pc \<and> V amd64_rsp = sp + 8)"

text \<open>What a function called with the return address on the stack returns to, and with.\<close>

definition amd64_returns_to :: "(amd64_reg, 64 word) mach \<Rightarrow> addr" where
  "amd64_returns_to s = (case load_word (m_mem s) (m_reg s amd64_rsp) of None \<Rightarrow> 0 | Some pc \<Rightarrow> pc)"

definition amd64_expects :: "(amd64_reg, 64 word) mach \<Rightarrow> amd64_reg \<Rightarrow> addr" where
  "amd64_expects s = (m_reg s)(amd64_rsp := m_reg s amd64_rsp + 8)"

definition amd64_ready :: "(amd64_reg, 64 word) mach \<Rightarrow> bool" where
  "amd64_ready s \<longleftrightarrow> block_mapped (m_mem s) (m_reg s amd64_rsi) amd64_context \<and>
     mapped (m_mem s) (m_reg s amd64_rsp) 8 \<and>
     word_range (m_reg s amd64_rsp) \<inter> amd64_block (m_reg s amd64_rsi) = {}"

lemma amd64_holds_frame:
  assumes "amd64_holds m h V pc" and "\<forall>b \<in> amd64_foot m h. m' b = m b"
  shows "amd64_holds m' h V pc"
proof -
  obtain sp where sp: "saved_at m h amd64_context (V(amd64_rsp := sp))" "load_word m sp = Some pc"
    "V amd64_rsp = sp + 8"
    using assms(1) by (auto simp: amd64_holds_def)
  have "load_word m h = Some sp" using sp(1) by (simp add: saved_at_def amd64_context_def)
  then have "\<forall>b \<in> word_range sp. m' b = m b" "\<forall>b \<in> block_bytes h amd64_context. m' b = m b"
    using assms(2) by (auto simp: amd64_foot_def amd64_block_def)
  with sp show ?thesis using saved_at_frame load_word_frame unfolding amd64_holds_def by metis
qed

lemma amd64_layout_fst:
  "fst ` set amd64_layout = {GPR 5, GPR 3, GPR 12, GPR 13, GPR 14, GPR 15}"
  by (simp add: amd64_layout_def)

text \<open>
  Saving happens in two steps: the stack pointer before the target's is loaded, the other
  registers after it. In between, memory outside the context is unchanged.
\<close>

lemma amd64_save:
  assumes "amd64_ready s"
  shows "\<exists>m1 m'. write_word (m_mem s) (m_reg s amd64_rsi) (m_reg s amd64_rsp) = Inr m1 \<and>
    (\<forall>b. b \<notin> amd64_block (m_reg s amd64_rsi) \<longrightarrow> m1 b = m_mem s b) \<and>
    write_words m1 (store_list (m_reg s) (m_reg s amd64_rsi) amd64_layout) = Inr m' \<and>
    amd64_holds m' (m_reg s amd64_rsi) (amd64_expects s) (amd64_returns_to s) \<and> dom m' = dom (m_mem s) \<and>
    (\<forall>b. b \<notin> amd64_block (m_reg s amd64_rsi) \<longrightarrow> m' b = m_mem s b)"
proof -
  let ?h = "m_reg s amd64_rsi" and ?R = "m_reg s"
  have "spaced 8 (map snd amd64_context)" by (simp add: amd64_context_def amd64_layout_def)
  then obtain m' where m': "write_words (m_mem s) (store_list ?R ?h amd64_context) = Inr m'"
    "dom m' = dom (m_mem s)" "saved_at m' ?h amd64_context ?R"
    "\<forall>b. b \<notin> amd64_block ?h \<longrightarrow> m' b = m_mem s b"
    using save_block [of "m_mem s" ?h amd64_context ?R] assms
    by (auto simp: amd64_ready_def amd64_block_def)
  then obtain m1 where m1: "write_word (m_mem s) ?h (?R amd64_rsp) = Inr m1"
    "write_words m1 (store_list ?R ?h amd64_layout) = Inr m'"
    by (auto simp: amd64_context_def store_list_def bindR_Inr_iff)
  have "m1 b = m_mem s b" if "b \<notin> amd64_block ?h" for b
    using write_words_other [of "m_mem s" "[(?h, ?R amd64_rsp)]" m1 b] m1(1) that
    by (simp add: amd64_block_def block_bytes_def amd64_context_def word_range_def)
  moreover have "load_word m' (?R amd64_rsp) = load_word (m_mem s) (?R amd64_rsp)"
    using assms m'(4) by (intro load_word_frame) (auto simp: amd64_ready_def)
  moreover have "\<exists>pc. load_word (m_mem s) (?R amd64_rsp) = Some pc"
    using assms by (simp add: amd64_ready_def load_word_Some_iff)
  moreover have "(amd64_expects s)(amd64_rsp := ?R amd64_rsp) = ?R" by (auto simp: amd64_expects_def)
  ultimately have "amd64_holds m' ?h (amd64_expects s) (amd64_returns_to s)"
    using m'(3) unfolding amd64_holds_def
    by (intro exI [of _ "?R amd64_rsp"]) (auto simp: amd64_returns_to_def amd64_expects_def)
  with m1 m'(2,4) \<open>\<And>b. b \<notin> amd64_block ?h \<Longrightarrow> m1 b = m_mem s b\<close> show ?thesis by blast
qed

lemma amd64_swap:
  assumes "amd64_ready s" and "amd64_holds (m_mem s) (m_reg s amd64_rdi) V pc"
    and "amd64_foot (m_mem s) (m_reg s amd64_rdi) \<inter> amd64_block (m_reg s amd64_rsi) = {}"
  shows "\<exists>s'. amd64_co_swap s = Inr s' \<and> m_pc s' = pc \<and> (\<forall>r \<in> amd64_saved_regs. m_reg s' r = V r) \<and>
    amd64_holds (m_mem s') (m_reg s amd64_rsi) (amd64_expects s) (amd64_returns_to s) \<and>
    dom (m_mem s') = dom (m_mem s) \<and>
    (\<forall>b. b \<notin> amd64_block (m_reg s amd64_rsi) \<longrightarrow> m_mem s' b = m_mem s b) \<and>
    m_reg s' amd64_rdi = m_reg s amd64_rdi"
proof -
  let ?from = "m_reg s amd64_rsi" and ?to = "m_reg s amd64_rdi"
  obtain sp where sp: "saved_at (m_mem s) ?to amd64_context (V(amd64_rsp := sp))"
    "load_word (m_mem s) sp = Some pc" "V amd64_rsp = sp + 8"
    using assms(2) by (auto simp: amd64_holds_def)
  have at: "load_word (m_mem s) ?to = Some sp" using sp(1) by (simp add: saved_at_def amd64_context_def)
  obtain m1 m' where m1: "write_word (m_mem s) ?from (m_reg s amd64_rsp) = Inr m1"
    "\<forall>b. b \<notin> amd64_block ?from \<longrightarrow> m1 b = m_mem s b"
    and m': "write_words m1 (store_list (m_reg s) ?from amd64_layout) = Inr m'"
    "amd64_holds m' ?from (amd64_expects s) (amd64_returns_to s)" "dom m' = dom (m_mem s)"
    "\<forall>b. b \<notin> amd64_block ?from \<longrightarrow> m' b = m_mem s b"
    using amd64_save [OF assms(1)] by blast
  have foot: "\<forall>b \<in> amd64_block ?to \<union> word_range sp. b \<notin> amd64_block ?from"
    using assms(3) at by (auto simp: amd64_foot_def)
  have "word_range ?to \<subseteq> amd64_block ?to"
    by (simp add: amd64_block_def block_bytes_def amd64_context_def)
  then have "load_word m1 ?to = Some sp" "load_word m1 sp = Some pc"
    using load_word_frame [of ?to m1 "m_mem s"] load_word_frame [of sp m1 "m_mem s"] foot m1(2) at sp(2)
    by auto
  moreover have "saved_at m' ?to amd64_layout V"
  proof -
    have "saved_at m' ?to amd64_context (V(amd64_rsp := sp))"
      using saved_at_frame [of ?to amd64_context m' "m_mem s"] sp(1) foot m'(4)
      by (auto simp: amd64_block_def)
    then show ?thesis by (simp add: saved_at_def amd64_context_def amd64_layout_def)
  qed
  ultimately have loads: "load_word m1 ?to = Some sp" "load_word m1 sp = Some pc"
    "saved_at m' ?to amd64_layout V" by blast+
  let ?s1 = "set_reg amd64_rsp (sp + 8) (set_reg amd64_rax pc s)"
  let ?V = "\<lambda>r. if r \<in> fst ` set amd64_layout then V r else m_reg ?s1 r"
  let ?head = "[UStore amd64_rsp amd64_rsi 0, ULoad amd64_rsp amd64_rdi 0,
       ULoad amd64_rax amd64_rsp 0, UAddI amd64_rsp amd64_rsp 8]"
  have head: "urun ?head s = Inr (?s1\<lparr>m_mem := m1\<rparr>)"
    using m1(1) loads(1,2) by (simp add: read_word_Some set_reg_def fun_upd_twist)
  have "store_list (m_reg ?s1) ?from amd64_layout = store_list (m_reg s) ?from amd64_layout"
    by (rule store_list_cong) (auto simp: amd64_layout_fst)
  with m'(1) have save: "urun (stores amd64_rsi amd64_layout) (?s1\<lparr>m_mem := m1\<rparr>) = Inr (?s1\<lparr>m_mem := m'\<rparr>)"
    by (simp add: urun_stores)
  have restore: "urun (loads amd64_rdi amd64_layout) (?s1\<lparr>m_mem := m'\<rparr>)
      = Inr (?s1\<lparr>m_mem := m', m_reg := ?V\<rparr>)"
    by (subst urun_loads [where V = V]) (use loads(3) in \<open>auto simp: saved_at_def amd64_layout_fst cong: if_cong\<close>)
  have jump: "urun [UJump amd64_rax] (?s1\<lparr>m_mem := m', m_reg := ?V\<rparr>)
      = Inr (?s1\<lparr>m_mem := m', m_reg := ?V, m_pc := pc\<rparr>)"
    by (simp add: amd64_layout_fst)
  have "amd64_co_swap s = Inr (?s1\<lparr>m_mem := m', m_reg := ?V, m_pc := pc\<rparr>)"
    by (simp only: amd64_co_swap_ops amd64_ops_def urun_append head save restore jump bindR.simps)
  then show ?thesis using m'(2-4) sp(3) by (auto simp: amd64_saved_regs_def amd64_layout_fst)
qed

interpretation amd64: context_switch amd64_co_swap amd64_rdi amd64_rsi amd64_saved_regs amd64_ready
    amd64_holds amd64_foot amd64_block amd64_expects amd64_returns_to
proof unfold_locales
  fix s V pc
  assume "amd64_ready s" "amd64_holds (m_mem s) (m_reg s amd64_rdi) V pc"
    "amd64_foot (m_mem s) (m_reg s amd64_rdi) \<inter> amd64_block (m_reg s amd64_rsi) = {}"
  from amd64_swap [OF this] show "\<exists>s'. amd64_co_swap s = Inr s' \<and> m_pc s' = pc \<and>
      (\<forall>r \<in> amd64_saved_regs. m_reg s' r = V r) \<and>
      amd64_holds (m_mem s') (m_reg s amd64_rsi) (amd64_expects s) (amd64_returns_to s) \<and>
      dom (m_mem s') = dom (m_mem s) \<and>
      (\<forall>b. b \<notin> amd64_block (m_reg s amd64_rsi) \<longrightarrow> m_mem s' b = m_mem s b)"
    by blast
qed (rule amd64_holds_frame)

subsection \<open>\<open>co_switch\<close> and the entry of a derived context\<close>

definition amd64_co_switch ::
    "addr \<Rightarrow> (amd64_reg, 64 word) mach \<times> addr \<Rightarrow> fault + (amd64_reg, 64 word) mach \<times> addr" where
  "amd64_co_switch = co_switch_by amd64_co_swap amd64_rdi amd64_rsi"

text \<open>
  \<open>co_entrypoint\<close> takes the handle from the first argument register, which the switch has
  left alone, and calls what the second word of the context holds.
\<close>

definition amd64_co_entrypoint :: "64 memory \<Rightarrow> addr \<Rightarrow> fault + addr" where
  "amd64_co_entrypoint m handle = read_word m (handle + 8)"

lemma amd64_block_within: "b \<in> amd64_block h \<Longrightarrow> inside b h 56"
  unfolding amd64_block_def
  using block_bytes_within [of 0 56 amd64_context b h]
  by (simp add: amd64_context_def amd64_layout_def)

lemma amd64_derived_holds:
  assumes "mapped m memory (unat sz)" and "64 \<le> unat sz" and "memory \<noteq> 0"
    and "amd64_co_derive ce m memory sz entry = Inr (m', h)"
  shows "\<exists>V. amd64_holds m' h V ce \<and> V amd64_rsp = memory + ucast (amd64_offset sz) - 8"
    and "load_word m' (memory + ucast (amd64_offset sz) - 8) = Some 0"
    and "amd64_co_entrypoint m' h = Inr entry"
    and "b \<in> amd64_foot m' h \<Longrightarrow> inside b memory (unat sz)"
proof -
  let ?p = "memory + ucast (amd64_offset sz)"
  have h: "h = memory" and bw: "block_writes m memory (unat sz) (amd64_initial ce memory sz entry) m'"
    using amd64_co_derive_ok [OF assms(1-3), of ce entry] assms(4) by auto
  then have writes: "load_word m' (?p - 8) = Some 0" "load_word m' (?p - 16) = Some ce"
    "load_word m' memory = Some (?p - 16)" "load_word m' (memory + 8) = Some entry"
    by (simp_all add: block_writes_def amd64_initial_def Let_def)
  have mp: "mapped m' memory (unat sz)"
    using assms(1) bw mapped_dom [of m' m] by (simp add: block_writes_def)
  have "mapped m' (memory + of_nat i) 8" if "i + 8 \<le> 64" for i
    by (rule mapped_sub [OF mp]) (use that assms(2) in linarith)
  from this [of 0] this [of 8] this [of 16] this [of 24] this [of 32] this [of 40] this [of 48]
  have "block_mapped m' memory amd64_context"
    by (simp add: block_mapped_def amd64_context_def amd64_layout_def)
  moreover have "distinct (map fst amd64_context)" by (simp add: amd64_context_def amd64_layout_def)
  ultimately obtain V where V: "saved_at m' memory amd64_context V" using saved_at_exists by blast
  then have "V amd64_rsp = ?p - 16" using writes(3) by (simp add: saved_at_def amd64_context_def)
  then have "V = (V(amd64_rsp := ?p - 8))(amd64_rsp := ?p - 16)" by auto
  with V have "saved_at m' memory amd64_context ((V(amd64_rsp := ?p - 8))(amd64_rsp := ?p - 16))" by simp
  with writes(2) show "\<exists>V. amd64_holds m' h V ce \<and> V amd64_rsp = ?p - 8"
    unfolding amd64_holds_def h
    by (intro exI [of _ "V(amd64_rsp := ?p - 8)"] conjI exI [of _ "?p - 16"]) simp_all
  show "load_word m' (?p - 8) = Some 0" by (rule writes(1))
  show "amd64_co_entrypoint m' h = Inr entry"
    using writes(4) by (simp add: amd64_co_entrypoint_def h read_word_Some)
  show "inside b memory (unat sz)" if "b \<in> amd64_foot m' h"
  proof -
    define k where "k = 16 * (unat sz div 16) - 32"
    have "4 \<le> unat sz div 16" "16 * (unat sz div 16) \<le> unat sz" using assms(2) by simp_all
    then have k: "32 \<le> k" "k + 32 \<le> unat sz" unfolding k_def by linarith+
    have "?p - 16 = memory + of_nat (k - 16)"
      using unat_amd64_offset [of sz] assms(2) k(1) unfolding k_def ucast32_of_nat
      by (simp add: of_nat_diff)
    moreover have "in_block memory (unat sz) (memory + of_nat (k - 16))"
      unfolding in_block_def by (intro exI [of _ "k - 16"]) (use k in simp)
    ultimately have "in_block memory (unat sz) (?p - 16)" by (simp only:)
    moreover have "b \<in> amd64_block memory \<or> b \<in> word_range (?p - 16)"
      using that writes(3) by (auto simp: amd64_foot_def h)
    ultimately show ?thesis
      using amd64_block_within [of b memory] in_block_range [of memory "unat sz" "?p - 16" b]
        assms(2) unat_word32 [of sz] by (auto simp: inside_def)
  qed
qed

lemma amd64_entry_sp:
  assumes "64 \<le> unat sz"
  shows "(memory + ucast (amd64_offset sz)) AND 0xF = memory AND (0xF :: addr)"
    and "in_block memory (unat sz) (memory + ucast (amd64_offset sz) - 8)"
    and "inside (memory + ucast (amd64_offset sz) - 8) memory (unat sz)"
proof -
  define j where "j = unat sz div 16 - 2"
  have "4 \<le> unat sz div 16" "16 * (unat sz div 16) \<le> unat sz" using assms by simp_all
  then have j: "2 \<le> j" "16 * j + 32 \<le> unat sz" "16 * (unat sz div 16) - 32 = 16 * j"
    unfolding j_def by linarith+
  have off: "ucast (amd64_offset sz) = (of_nat (16 * j) :: addr)"
    using unat_amd64_offset [of sz] assms j(3) unfolding ucast32_of_nat by simp
  have "unat (take_bit 4 (memory + of_nat (16 * j))) = unat (take_bit 4 memory)"
    by (simp add: unsigned_take_bit_eq take_bit_eq_mod unat_word_ariths mod_mod_cancel
        unat_of_nat mod_add_right_eq mod_mult_right_eq)
  then have "take_bit 4 (memory + of_nat (16 * j)) = take_bit 4 memory" by (simp only: word_unat_eq_iff)
  moreover have "(0xF :: addr) = mask 4" by (simp add: mask_eq_exp_minus_1)
  ultimately show "(memory + ucast (amd64_offset sz)) AND 0xF = memory AND (0xF :: addr)"
    unfolding off by (simp only: take_bit_eq_mask [symmetric])
  have "memory + ucast (amd64_offset sz) - 8 = memory + of_nat (16 * j - 8)"
    using j(1) unfolding off by (simp add: of_nat_diff)
  then show "in_block memory (unat sz) (memory + ucast (amd64_offset sz) - 8)"
    unfolding in_block_def by (intro exI [of _ "16 * j - 8"]) (use j(1,2) in simp)
  have "memory + ucast (amd64_offset sz) - 8 = memory + of_nat (16 * j - 8)"
    using j(1) unfolding off by (simp add: of_nat_diff)
  moreover have "unat (of_nat (16 * j - 8) :: addr) = 16 * j - 8"
    using j(2) unat_word32 [of sz] by (simp add: unat_of_nat)
  ultimately show "inside (memory + ucast (amd64_offset sz) - 8) memory (unat sz)"
    using j by (simp add: inside_def)
qed

lemma amd64_holds_cong:
  "(\<And>r. r \<in> amd64_saved_regs \<Longrightarrow> V r = V' r) \<Longrightarrow> amd64_holds m h V pc = amd64_holds m h V' pc"
  unfolding amd64_holds_def saved_at_def amd64_context_def amd64_layout_def
  by (simp add: amd64_saved_regs_def)

subsection \<open>An example\<close>

text \<open>
  The context at \<open>0x2000\<close> is parked with stack pointer 0, the caller has its stack at
  \<open>0x9000\<close>; \<open>rbx\<close> is 7.
\<close>

definition amd64_demo :: "(amd64_reg, 64 word) mach" where
  "amd64_demo = \<lparr>m_reg = (\<lambda>_. 0)(amd64_rdi := 0x2000, amd64_rsi := 0x4000, amd64_rsp := 0x9000, GPR 3 := 7),
     m_mem = zero_memory, m_pc = 0\<rparr>"

lemma word_range_apart: "apart a 8 h 56 \<Longrightarrow> word_range (a :: addr) \<inter> amd64_block h = {}"
  using amd64_block_within apart_not_inside unfolding word_range_def by fastforce

lemma amd64_blocks_apart: "apart h 56 k 56 \<Longrightarrow> amd64_block h \<inter> amd64_block k = {}"
  by (rule ranges_disjoint [OF amd64_block_within amd64_block_within])

lemma amd64_demo_apart:
  "word_range 0x9000 \<inter> amd64_block 0x4000 = {}" "word_range 0 \<inter> amd64_block 0x4000 = {}"
  "word_range 0x9000 \<inter> amd64_block 0x2000 = {}" "word_range 8 \<inter> amd64_block 0x2000 = {}"
  "amd64_block 0x2000 \<inter> amd64_block 0x4000 = {}" "amd64_block 0x4000 \<inter> amd64_block 0x2000 = {}"
  by (rule word_range_apart amd64_blocks_apart; simp add: apart_def)+

lemma amd64_demo_ready: "amd64_ready amd64_demo"
  using amd64_demo_apart(1)
  by (simp add: amd64_ready_def amd64_demo_def block_mapped_zero_memory mapped_zero_memory)

lemma amd64_demo_holds: "amd64_holds zero_memory 0x2000 ((\<lambda>_. 0)(amd64_rsp := 8)) 0"
proof -
  have "((\<lambda>_. 0 :: addr)(amd64_rsp := 8))(amd64_rsp := 0) = (\<lambda>_. 0)" by auto
  then show ?thesis
    unfolding amd64_holds_def
    by (intro exI [of _ 0]) (simp add: saved_at_zero_memory load_zero_memory)
qed

subsection \<open>Properties\<close>

text \<open>
  C9: x86-64: \<open>co_swap\<close> is a function call that returns. The switch goes on in the context
  of its target with that context's callee-saved registers; and whenever later a context
  switches back, with the bytes of the caller's context and its return address unchanged,
  execution goes on there, with its callee-saved registers and the return address popped.
\<close>

theorem amd64_switch_returns:
  assumes "amd64_ready s" and "amd64_holds (m_mem s) (m_reg s amd64_rdi) V pc"
    and "amd64_foot (m_mem s) (m_reg s amd64_rdi) \<inter> amd64_block (m_reg s amd64_rsi) = {}"
  shows "\<exists>s1. amd64_co_swap s = Inr s1 \<and> m_pc s1 = pc \<and> (\<forall>r \<in> amd64_saved_regs. m_reg s1 r = V r) \<and>
    dom (m_mem s1) = dom (m_mem s) \<and>
    (\<forall>s2. amd64_ready s2 \<and> m_reg s2 amd64_rdi = m_reg s amd64_rsi \<and>
       (\<forall>b \<in> amd64_foot (m_mem s1) (m_reg s amd64_rsi). m_mem s2 b = m_mem s1 b) \<and>
       amd64_foot (m_mem s2) (m_reg s2 amd64_rdi) \<inter> amd64_block (m_reg s2 amd64_rsi) = {} \<longrightarrow>
       (\<exists>s3. amd64_co_swap s2 = Inr s3 \<and> m_pc s3 = amd64_returns_to s \<and>
         m_reg s3 amd64_rsp = m_reg s amd64_rsp + 8 \<and>
         (\<forall>r \<in> amd64_saved_regs - {amd64_rsp}. m_reg s3 r = m_reg s r)))"
proof -
  obtain s1 where s1: "amd64_co_swap s = Inr s1" "m_pc s1 = pc" "\<forall>r \<in> amd64_saved_regs. m_reg s1 r = V r"
    "dom (m_mem s1) = dom (m_mem s)"
    using amd64.swap_switches [OF assms] by blast
  have "\<exists>s3. amd64_co_swap s2 = Inr s3 \<and> m_pc s3 = amd64_returns_to s \<and>
      m_reg s3 amd64_rsp = m_reg s amd64_rsp + 8 \<and>
      (\<forall>r \<in> amd64_saved_regs - {amd64_rsp}. m_reg s3 r = m_reg s r)"
    if "amd64_ready s2" "m_reg s2 amd64_rdi = m_reg s amd64_rsi"
      "\<forall>b \<in> amd64_foot (m_mem s1) (m_reg s amd64_rsi). m_mem s2 b = m_mem s1 b"
      "amd64_foot (m_mem s2) (m_reg s2 amd64_rdi) \<inter> amd64_block (m_reg s2 amd64_rsi) = {}" for s2
  proof -
    have "amd64_rsp \<in> amd64_saved_regs" by (simp add: amd64_saved_regs_def)
    with amd64.away_and_back [OF assms s1(1) that] show ?thesis by (auto simp: amd64_expects_def)
  qed
  with s1 show ?thesis by blast
qed

theorem amd64_switch_returns_witness:
  "\<exists>s1. amd64_co_swap amd64_demo = Inr s1 \<and> m_pc s1 = 0 \<and> m_reg s1 amd64_rsp = 8"
proof -
  have "amd64_foot (m_mem amd64_demo) (m_reg amd64_demo amd64_rdi) \<inter> amd64_block (m_reg amd64_demo amd64_rsi) = {}"
    using amd64_demo_apart by (simp add: amd64_foot_def amd64_demo_def load_zero_memory Int_Un_distrib2)
  from amd64_switch_returns [OF amd64_demo_ready _ this, of "(\<lambda>_. 0)(amd64_rsp := 8)" 0] amd64_demo_holds
  show ?thesis by (auto simp: amd64_demo_def amd64_saved_regs_def)
qed

text \<open>
  C13: x86-64: a cothread derived on a mapped stack, switched to for the first time, starts
  at \<open>co_entrypoint\<close> with its own handle as the argument, and \<open>co_entrypoint\<close> calls the
  client's entry point. The stack pointer lies in its stack, aligned to 16 bytes but for
  the return address when the stack is, and that return address is null.
\<close>

theorem amd64_first_switch:
  assumes "mapped m memory (unat sz)" and "64 \<le> unat sz" and "memory \<noteq> 0"
    and "amd64_co_derive ce m memory sz entry = Inr (m', h)"
    and "\<forall>b. inside b memory (unat sz) \<longrightarrow> m_mem s b = m' b"
    and "amd64_ready (set_reg amd64_rsi active s)"
    and "\<forall>b \<in> amd64_block active. \<not> inside b memory (unat sz)"
  shows "\<exists>s'. amd64_co_switch h (s, active) = Inr (s', h) \<and> m_pc s' = ce \<and> m_reg s' amd64_rdi = h \<and>
    inside (m_reg s' amd64_rsp) memory (unat sz) \<and> (m_reg s' amd64_rsp + 8) AND 0xF = memory AND 0xF \<and>
    load_word (m_mem s') (m_reg s' amd64_rsp) = Some 0 \<and>
    amd64_co_entrypoint (m_mem s') (m_reg s' amd64_rdi) = Inr entry \<and>
    amd64_holds (m_mem s') active (amd64_expects s) (amd64_returns_to s)"
proof -
  let ?s = "set_reg amd64_rsi active (set_reg amd64_rdi h s)"
  let ?p = "memory + ucast (amd64_offset sz)"
  have h: "h = memory"
    using amd64_co_derive_ok [OF assms(1-3), of ce entry] assms(4) by auto
  obtain V where V: "amd64_holds m' h V ce" "V amd64_rsp = ?p - 8"
    using amd64_derived_holds(1) [OF assms(1-4)] by blast
  have same: "\<forall>b \<in> amd64_foot m' h. m_mem ?s b = m' b"
    using amd64_derived_holds(4) [OF assms(1-4)] assms(5) by simp
  have "load_word (m_mem s) h = load_word m' h"
    by (rule load_word_frame)
      (use same in \<open>auto simp: amd64_foot_def amd64_block_def block_bytes_def amd64_context_def\<close>)
  then have foot: "amd64_foot (m_mem ?s) (m_reg ?s amd64_rdi) \<inter> amd64_block (m_reg ?s amd64_rsi) = {}"
    using amd64_derived_holds(4) [OF assms(1-4)] assms(7) by (auto simp: amd64_foot_def)
  have "amd64_ready ?s" using assms(6) by (simp add: amd64_ready_def)
  moreover have "amd64_holds (m_mem ?s) (m_reg ?s amd64_rdi) V ce"
    using amd64_holds_frame [OF V(1) same] by simp
  ultimately obtain s' where s': "amd64_co_swap ?s = Inr s'" "m_pc s' = ce"
    "\<forall>r \<in> amd64_saved_regs. m_reg s' r = V r" "m_reg s' amd64_rdi = h"
    "amd64_holds (m_mem s') active (amd64_expects ?s) (amd64_returns_to ?s)"
    "\<forall>b. b \<notin> amd64_block active \<longrightarrow> m_mem s' b = m_mem s b"
    using amd64_swap [of ?s V ce] foot by auto
  have "amd64_holds (m_mem s') active (amd64_expects s) (amd64_returns_to s)"
    using s'(5) by (subst amd64_holds_cong [of _ "amd64_expects ?s"])
      (auto simp: amd64_saved_regs_def amd64_expects_def amd64_returns_to_def)
  moreover have kept: "load_word (m_mem s') a = load_word m' a" if "in_block memory (unat sz) a" for a
  proof (rule load_word_frame)
    show "\<forall>b \<in> word_range a. m_mem s' b = m' b"
      using in_block_range [OF that] unat_word32 [of sz] s'(6) assms(5,7) by fastforce
  qed
  moreover have "m_reg s' amd64_rsp = ?p - 8" using s'(3) V(2) by (simp add: amd64_saved_regs_def)
  moreover have "in_block memory (unat sz) (?p - 8)" by (rule amd64_entry_sp(2) [OF assms(2)])
  moreover have "in_block memory (unat sz) (memory + 8)"
    unfolding in_block_def by (intro exI [of _ 8]) (use assms(2) in simp)
  ultimately show ?thesis
    using s'(1,2,4) amd64_derived_holds(2,3) [OF assms(1-4)] amd64_entry_sp [OF assms(2)] h
    by (simp add: amd64_co_switch_def co_switch_by_def amd64_co_entrypoint_def read_word_def
        cong: option.case_cong)
qed

theorem amd64_first_switch_witness:
  "\<exists>m' s'. amd64_co_derive 0x400000 zero_memory 0x10000 0x1000 0x401000 = Inr (m', 0x10000) \<and>
    amd64_co_switch 0x10000 (amd64_demo\<lparr>m_mem := m'\<rparr>, 0x4000) = Inr (s', 0x10000) \<and>
    m_pc s' = 0x400000 \<and> (m_reg s' amd64_rsp + 8) AND 0xF = 0 \<and>
    amd64_co_entrypoint (m_mem s') 0x10000 = Inr 0x401000"
proof -
  have mp: "mapped zero_memory (0x10000 :: addr) (unat (0x1000 :: 32 word))"
    by (rule mapped_zero_memory)
  obtain m' where m': "amd64_co_derive 0x400000 zero_memory 0x10000 0x1000 0x401000 = Inr (m', 0x10000)"
    and dom: "dom m' = UNIV"
    using amd64_co_derive_ok [OF mp, where ce = "0x400000" and entry = "0x401000"]
    by (auto simp: block_writes_def zero_memory_def)
  have "mapped m' (0x9000 :: addr) 8" using dom by (auto simp: mapped_def dom_def)
  then have ready: "amd64_ready (set_reg amd64_rsi 0x4000 (amd64_demo\<lparr>m_mem := m'\<rparr>))"
    using dom amd64_demo_apart(1) by (simp add: amd64_ready_def block_mapped_UNIV amd64_demo_def)
  have "\<not> inside b 0x10000 (unat (0x1000 :: 32 word))" if "b \<in> amd64_block 0x4000" for b
  proof (rule apart_not_inside [OF _ amd64_block_within [OF that]])
    show "apart (0x4000 :: addr) 56 0x10000 (unat (0x1000 :: 32 word))" by (simp add: apart_def)
  qed
  from amd64_first_switch [OF mp _ _ m' _ ready] this m' show ?thesis by fastforce
qed

end
