(* ===== verification/CString.thy ===== *)
theory CString
  imports PdMemory
begin

text \<open>
  The string functions of the Codis example (\<open>include/string.h\<close>) on byte memory: the search
  and length functions that test eight bytes at a time with \<open>HASZERO\<close>, and the copying
  functions. Loops that a missing terminator keeps running are partial functions, whose
  value is \<open>None\<close> when they do not return.
\<close>

subsection \<open>\<open>HASZERO\<close>\<close>

text \<open>\<open>SS\<close> and \<open>ALIGN\<close> are 8, \<open>ONES\<close> is \<open>(size_t) -1 / 255\<close>.\<close>

definition ONES :: addr where
  "ONES = (- 1) div 255"

definition HIGHS :: addr where
  "HIGHS = ONES * (255 div 2 + 1)"

definition HASZERO :: "addr \<Rightarrow> bool" where
  "HASZERO x \<longleftrightarrow> (x - ONES) AND NOT x AND HIGHS \<noteq> 0"

lemma ONES_value: "ONES = 0x0101010101010101"
  by (simp add: ONES_def)

lemma HIGHS_value: "HIGHS = 0x8080808080808080"
  by (simp add: HIGHS_def ONES_value)

text \<open>
  The test on integers of \<open>n\<close> bytes: a high bit that appears when one is taken from every
  byte was borrowed for a byte that is zero.
\<close>

fun int_ones :: "nat \<Rightarrow> int" where
  "int_ones 0 = 0"
| "int_ones (Suc n) = 1 + 256 * int_ones n"

definition int_haszero :: "nat \<Rightarrow> int \<Rightarrow> bool" where
  "int_haszero n x \<longleftrightarrow> (\<exists>i<n. bit (x - int_ones n) (8 * i + 7) \<and> \<not> bit x (8 * i + 7))"

definition int_byte :: "int \<Rightarrow> nat \<Rightarrow> int" where
  "int_byte x i = x div 256 ^ i mod 256"

lemma bit_split_256:
  fixes b z :: int
  assumes "0 \<le> b" and "b < 256"
  shows "bit (b + 256 * z) (k + 8) = bit z k" and "k < 8 \<Longrightarrow> bit (b + 256 * z) k = bit b k"
proof -
  define x where "x = b + 256 * z"
  have "drop_bit 8 x = z" using assms by (simp add: drop_bit_eq_div x_def)
  moreover have "bit (drop_bit 8 x) k = bit x (8 + k)" by (simp add: bit_drop_bit_eq)
  ultimately show "bit (b + 256 * z) (k + 8) = bit z k" by (simp add: x_def add.commute)
  have "take_bit 8 x = take_bit 8 b" by (simp add: take_bit_eq_mod x_def)
  moreover have "bit (take_bit 8 v) k = bit v k" if "k < 8" for v :: int
    using that by (simp add: bit_take_bit_iff)
  ultimately show "bit (b + 256 * z) k = bit b k" if "k < 8" using that unfolding x_def by metis
qed

lemma bit_7_byte: "0 \<le> b \<Longrightarrow> b < 256 \<Longrightarrow> bit b 7 \<longleftrightarrow> 128 \<le> (b :: int)"
proof -
  assume b: "0 \<le> b" "b < 256"
  have "b div 128 = (if b < 128 then 0 else 1)"
  proof (cases "b < 128")
    case False
    have "b div 128 = (b - 128 + 128) div 128" by simp
    also have "\<dots> = (b - 128) div 128 + 1" by (rule div_add_self2) simp
    finally show ?thesis using b False by simp
  qed (use b in simp)
  then show ?thesis by (simp add: bit_iff_odd)
qed

lemma int_haszero_iff: "int_haszero n x \<longleftrightarrow> (\<exists>i<n. int_byte x i = 0)"
proof (induction n arbitrary: x)
  case 0
  then show ?case by (simp add: int_haszero_def)
next
  case (Suc n)
  define b where "b = x mod 256"
  define y where "y = x div 256"
  have b: "0 \<le> b" "b < 256" and x: "x = b + 256 * y" by (simp_all add: b_def y_def)
  have all: "(\<exists>i<Suc n. P i) \<longleftrightarrow> P 0 \<or> (\<exists>i<n. P (Suc i))" for P by (metis Ex_less_Suc2)
  have bytes: "(\<exists>i<Suc n. int_byte x i = 0) \<longleftrightarrow> b = 0 \<or> (\<exists>i<n. int_byte y i = 0)"
    unfolding all by (simp add: int_byte_def b_def y_def div_mult2_eq [symmetric] zdiv_zmult2_eq)
  show ?case
  proof (cases "b = 0")
    case True
    then have "x - int_ones (Suc n) = 255 + 256 * (y - int_ones n - 1)" by (simp add: x)
    moreover have "bit (255 + 256 * z) 7" for z :: int using bit_split_256(2) [of 255 7 z] bit_7_byte [of 255] by simp
    ultimately have "bit (x - int_ones (Suc n)) 7" by (simp only:)
    moreover have "\<not> bit x 7" using bit_split_256(2) [of 0 7 y] by (simp add: x True)
    ultimately have "int_haszero (Suc n) x" unfolding int_haszero_def by (intro exI [of _ 0]) simp
    then show ?thesis using True bytes by simp
  next
    case False
    then have lo: "0 \<le> b - 1" "b - 1 < 256" using b by auto
    have diff: "x - int_ones (Suc n) = (b - 1) + 256 * (y - int_ones n)" by (simp add: x algebra_simps)
    have "bit (x - int_ones (Suc n)) 7 \<longleftrightarrow> 128 \<le> b - 1"
      unfolding diff by (simp only: bit_split_256(2) [OF lo] bit_7_byte [OF lo])
    moreover have "bit x 7 \<longleftrightarrow> 128 \<le> b"
      unfolding x by (simp only: bit_split_256(2) [OF b] bit_7_byte [OF b])
    ultimately have zero: "\<not> (bit (x - int_ones (Suc n)) 7 \<and> \<not> bit x 7)" by simp
    have "bit (x - int_ones (Suc n)) (8 * Suc i + 7) = bit (y - int_ones n) (8 * i + 7)"
      "bit x (8 * Suc i + 7) = bit y (8 * i + 7)" for i
      using bit_split_256(1) [OF lo, of "y - int_ones n" "8 * i + 7"] bit_split_256(1) [OF b, of y "8 * i + 7"]
      unfolding diff by (simp_all add: x algebra_simps)
    with zero have "int_haszero (Suc n) x \<longleftrightarrow> int_haszero n y" unfolding int_haszero_def all by auto
    then show ?thesis using Suc.IH [of y] bytes False by simp
  qed
qed

lemma bit_HIGHS: "k < 64 \<Longrightarrow> bit HIGHS k \<longleftrightarrow> k mod 8 = 7"
proof -
  have "list_all (\<lambda>k. bit HIGHS k \<longleftrightarrow> k mod 8 = 7) [0..<64]"
    unfolding HIGHS_value by code_simp
  then show "k < 64 \<Longrightarrow> bit HIGHS k \<longleftrightarrow> k mod 8 = 7" by (simp add: list_all_iff)
qed

lemma HASZERO_bits:
  "HASZERO x \<longleftrightarrow> (\<exists>i<8. bit (x - ONES) (8 * i + 7) \<and> \<not> bit x (8 * i + 7))"
proof -
  have "HASZERO x \<longleftrightarrow> (\<exists>k<64. bit (x - ONES) k \<and> \<not> bit x k \<and> bit HIGHS k)"
    unfolding HASZERO_def bit_eq_iff
    by (auto simp: bit_and_iff bit_not_iff dest: bit_imp_le_length [of HIGHS])
  also have "\<dots> \<longleftrightarrow> (\<exists>k<64. k mod 8 = 7 \<and> bit (x - ONES) k \<and> \<not> bit x k)"
    using bit_HIGHS by blast
  also have "\<dots> \<longleftrightarrow> (\<exists>i<8. bit (x - ONES) (8 * i + 7) \<and> \<not> bit x (8 * i + 7))"
  proof safe
    fix k :: nat assume "k < 64" "k mod 8 = 7" "bit (x - ONES) k" "\<not> bit x k"
    moreover from this have "k = 8 * (k div 8) + 7" "k div 8 < 8" by (metis mult_div_mod_eq, simp)
    ultimately show "\<exists>i<8. bit (x - ONES) (8 * i + 7) \<and> \<not> bit x (8 * i + 7)" by metis
  next
    fix i :: nat assume "i < 8" "bit (x - ONES) (8 * i + 7)" "\<not> bit x (8 * i + 7)"
    then show "\<exists>k<64. k mod 8 = 7 \<and> bit (x - ONES) k \<and> \<not> bit x k"
      by (intro exI [of _ "8 * i + 7"]) simp
  qed
  finally show ?thesis .
qed

lemma uint_byte_of: "uint (byte_of i x) = int_byte (uint (x :: addr)) i"
proof -
  have "take_bit 64 (uint x) = uint x" 
    by (rule take_bit_int_eq_self) (use unsigned_less [where ?'a = int, of x] in simp_all)
  then show ?thesis
    unfolding byte_of_def int_byte_def unsigned_ucast_eq unsigned_drop_bit_eq
    by (simp add: drop_bit_eq_div take_bit_eq_mod power_mult)
qed

text \<open>\<open>HASZERO\<close> holds exactly when one of the eight bytes is zero.\<close>

lemma HASZERO_iff: "HASZERO x \<longleftrightarrow> (\<exists>i<8. byte_of i x = 0)"
proof -
  have "int_ones 8 = 0x0101010101010101" by code_simp
  then have "uint ONES = int_ones 8" by (simp add: ONES_value)
  then have diff: "x - ONES = word_of_int (uint x - int_ones 8)"
    by (metis word_of_int_uint wi_hom_sub)
  have "bit (x - ONES) (8 * i + 7) = bit (uint x - int_ones 8) (8 * i + 7)" if "i < 8" for i
    unfolding diff using that by (simp only: bit_word_of_int_iff) simp
  moreover have "bit x (8 * i + 7) = bit (uint x) (8 * i + 7)" if "i < 8" for i
    using that by (simp add: bit_uint_iff)
  ultimately have "HASZERO x \<longleftrightarrow> int_haszero 8 (uint x)"
    unfolding HASZERO_bits int_haszero_def by blast
  also have "\<dots> \<longleftrightarrow> (\<exists>i<8. byte_of i x = 0)"
    unfolding int_haszero_iff uint_byte_of [symmetric] by (simp add: uint_0_iff)
  finally show ?thesis .
qed

subsection \<open>Bytes of memory\<close>

definition load_byte :: "'w::len memory \<Rightarrow> 'w word \<Rightarrow> fault + 8 word" where
  "load_byte m a = (case m a of None \<Rightarrow> Inl (VMFault (ucast a)) | Some b \<Rightarrow> Inr b)"

definition store_byte :: "'w::len memory \<Rightarrow> 'w word \<Rightarrow> 8 word \<Rightarrow> fault + 'w memory" where
  "store_byte m a b = (if m a = None then Inl (VMFault (ucast a)) else Inr (m(a \<mapsto> b)))"

lemma load_byte_Some [simp]: "m a = Some b \<Longrightarrow> load_byte m a = Inr b"
  by (simp add: load_byte_def)

lemma store_byte_mapped [simp]: "m a \<noteq> None \<Longrightarrow> store_byte m a b = Inr (m(a \<mapsto> b))"
  by (simp add: store_byte_def)

lemma mapped_tl: "mapped m a (Suc n) \<longleftrightarrow> m a \<noteq> None \<and> mapped m (a + 1) n"
proof -
  have "(\<forall>i<Suc n. m (a + of_nat i) \<noteq> None) \<longleftrightarrow> m a \<noteq> None \<and> (\<forall>i<n. m (a + of_nat (Suc i)) \<noteq> None)"
    by (auto simp: less_Suc_eq_0_disj)
  then show ?thesis by (simp add: mapped_def add.assoc)
qed

text \<open>The bytes of a loaded word are those in memory.\<close>

lemma byte_of_load:
  fixes a :: addr
  assumes "load_word m a = Some v" and "i < 8"
  shows "m (a + of_nat i) = Some (byte_of i v)"
proof -
  have mp: "mapped m a 8" and v: "v = word_rcat (rev (map (\<lambda>i. the (m (a + of_nat i))) [0..<8]))"
    using assms(1) by (auto simp: load_word_def split: if_splits)
  have "byte_of i v = the (m (a + of_nat i))"
    using assms(2) unfolding v
    by (intro bit_word_eqI) (auto simp: byte_of_def bit_ucast_iff bit_drop_bit_eq word_rcat_def
        bit_word_of_int_iff bit_horner_bytes)
  moreover have "m (a + of_nat i) \<noteq> None" using mp assms(2) by (simp add: mapped_def)
  ultimately show ?thesis by simp
qed

lemma byte_of_xor: "byte_of i (x XOR y) = byte_of i x XOR byte_of i y"
  by (rule bit_word_eqI) (auto simp: byte_of_def bit_ucast_iff bit_drop_bit_eq bit_xor_iff)

lemma int_byte_ones:
  "0 \<le> c \<Longrightarrow> c < 256 \<Longrightarrow> i < n \<Longrightarrow> int_byte (int_ones n * c) i = c"
proof (induction n arbitrary: i)
  case (Suc n)
  have "int_ones (Suc n) * c = c + 256 * (int_ones n * c)" by (simp add: algebra_simps)
  then have split: "int_ones (Suc n) * c mod 256 = c" "int_ones (Suc n) * c div 256 = int_ones n * c"
    using Suc.prems by simp_all
  show ?case
  proof (cases i)
    case 0
    then show ?thesis using split(1) by (simp add: int_byte_def del: int_ones.simps)
  next
    case (Suc j)
    have "int_byte (int_ones (Suc n) * c) i = int_byte (int_ones n * c) j"
      unfolding int_byte_def Suc split(2) [symmetric] by (simp add: zdiv_zmult2_eq)
    then show ?thesis using Suc.IH [of j] Suc.prems Suc by simp
  qed
qed simp

lemma byte_of_ones:
  fixes c :: "8 word"
  assumes "i < 8"
  shows "byte_of i (ONES * ucast c) = c"
proof -
  have c: "0 \<le> uint c" "uint c < 256" using unsigned_less [where ?'a = int, of c] by simp_all
  have ones: "int_ones 8 = 0x0101010101010101" by code_simp
  have "uint (ONES * ucast c) = int_ones 8 * uint c"
    unfolding ones using c
    by (simp add: ONES_value uint_word_ariths unsigned_ucast_eq take_bit_int_eq_self)
  then have "uint (byte_of i (ONES * ucast c)) = uint c"
    unfolding uint_byte_of by (simp only: int_byte_ones [OF c assms])
  then show ?thesis by (simp only: word_uint_eq_iff)
qed

lemma xor_zero_iff: "a XOR b = 0 \<longleftrightarrow> a = (b :: 'w::len word)"
proof
  assume "a XOR b = 0"
  then have "(a XOR b) XOR b = b" by simp
  then show "a = b" by (simp add: xor.assoc)
qed simp

lemma HASZERO_search:
  fixes a :: addr
  assumes "load_word m a = Some v"
  shows "HASZERO (v XOR (ONES * ucast c)) \<longleftrightarrow> (\<exists>i<8. m (a + of_nat i) = Some c)"
  unfolding HASZERO_iff using byte_of_load [OF assms] by (auto simp: byte_of_xor byte_of_ones xor_zero_iff)

subsection \<open>\<open>memcpy\<close>\<close>

function memcpy_loop :: "'w::len memory \<Rightarrow> 'w word \<Rightarrow> 'w word \<Rightarrow> nat \<Rightarrow> nat \<Rightarrow> fault + 'w memory" where
  "memcpy_loop m destination source i n =
     (if i < n then
        bindR (load_byte m (source + of_nat i)) (\<lambda>b.
        bindR (store_byte m (destination + of_nat i) b) (\<lambda>m.
        memcpy_loop m destination source (Suc i) n))
      else Inr m)"
  by pat_completeness auto
termination
  by (relation "measure (\<lambda>(m, d, s, i, n). n - i)") auto

declare memcpy_loop.simps [simp del]

definition memcpy :: "'w::len memory \<Rightarrow> 'w word \<Rightarrow> 'w word \<Rightarrow> 'w word \<Rightarrow> fault + ('w memory \<times> 'w word)" where
  "memcpy m dest src n = bindR (memcpy_loop m dest src 0 (unat n)) (\<lambda>m. Inr (m, dest))"

subsection \<open>\<open>memchr\<close> and \<open>strnlen\<close>\<close>

text \<open>
  \<open>memchr\<close> has three loops: by bytes while bit 3 of the address is set (\<open>s & ALIGN\<close>), by
  words, and by bytes to the end. The count is the remaining \<open>n\<close>.
\<close>

fun scan_bytes :: "(addr \<Rightarrow> bool) \<Rightarrow> 64 memory \<Rightarrow> 8 word \<Rightarrow> nat \<Rightarrow> addr \<Rightarrow> fault + (addr \<times> nat)" where
  "scan_bytes go m c 0 s = Inr (s, 0)"
| "scan_bytes go m c (Suc n) s =
     (if go s then
        bindR (load_byte m s) (\<lambda>b. if b \<noteq> c then scan_bytes go m c n (s + 1) else Inr (s, Suc n))
      else Inr (s, Suc n))"

function scan_words :: "64 memory \<Rightarrow> addr \<Rightarrow> nat \<Rightarrow> addr \<Rightarrow> fault + (addr \<times> nat)" where
  "scan_words m k n w =
     (if 8 \<le> n then
        bindR (read_word m w) (\<lambda>x. if \<not> HASZERO (x XOR k) then scan_words m k (n - 8) (w + 8) else Inr (w, n))
      else Inr (w, n))"
  by pat_completeness auto
termination
  by (relation "measure (\<lambda>(m, k, n, w). n)") auto

declare scan_words.simps [simp del]

definition memchr :: "64 memory \<Rightarrow> addr \<Rightarrow> 32 word \<Rightarrow> nat \<Rightarrow> fault + addr" where
  "memchr m src c n =
     (let c = (ucast c :: 8 word) in
      bindR (scan_bytes (\<lambda>s. s AND 8 \<noteq> 0) m c n src) (\<lambda>(s, n).
      if n = 0 then Inr 0
      else bindR (load_byte m s) (\<lambda>b.
        if b \<noteq> c then
          bindR (scan_words m (ONES * ucast c) n s) (\<lambda>(w, n).
          bindR (scan_bytes (\<lambda>_. True) m c n w) (\<lambda>(s, n).
          Inr (if n \<noteq> 0 then s else 0)))
        else Inr s)))"

definition strnlen :: "64 memory \<Rightarrow> addr \<Rightarrow> nat \<Rightarrow> fault + nat" where
  "strnlen m s n = bindR (memchr m s 0 n) (\<lambda>p. Inr (if p \<noteq> 0 then unat (p - s) else n))"

text \<open>What the searching loops return, on a mapped range.\<close>

lemma scan_bytes_spec:
  assumes "mapped m s n"
  shows "\<exists>k\<le>n. scan_bytes go m c n s = Inr (s + of_nat k, n - k) \<and>
    (\<forall>j<k. m (s + of_nat j) \<noteq> Some c) \<and>
    (k = n \<or> \<not> go (s + of_nat k) \<or> m (s + of_nat k) = Some c)"
  using assms
proof (induction n arbitrary: s)
  case 0
  then show ?case by simp
next
  case (Suc n)
  then obtain b where b: "m s = Some b" and mp: "mapped m (s + 1) n" by (auto simp: mapped_tl)
  show ?case
  proof (cases "go s \<and> b \<noteq> c")
    case True
    from Suc.IH [OF mp] obtain k where k: "k \<le> n" "scan_bytes go m c n (s + 1) = Inr (s + 1 + of_nat k, n - k)"
      "\<forall>j<k. m (s + 1 + of_nat j) \<noteq> Some c"
      "k = n \<or> \<not> go (s + 1 + of_nat k) \<or> m (s + 1 + of_nat k) = Some c" by blast
    have "m (s + of_nat j) \<noteq> Some c" if "j < Suc k" for j
      using that k(3) True b by (cases j) (auto simp: add.assoc)
    with k True b show ?thesis by (intro exI [of _ "Suc k"]) (auto simp: add.assoc)
  next
    case False
    with b show ?thesis by (intro exI [of _ 0]) auto
  qed
qed

lemma scan_words_spec:
  assumes "mapped m s n"
  shows "\<exists>k\<le>n. scan_words m (ONES * ucast c) n s = Inr (s + of_nat k, n - k) \<and>
    (\<forall>j<k. m (s + of_nat j) \<noteq> Some c)"
  using assms
proof (induction n arbitrary: s rule: less_induct)
  case (less n)
  show ?case
  proof (cases "8 \<le> n")
    case False
    then show ?thesis by (intro exI [of _ 0]) (simp add: scan_words.simps)
  next
    case n: True
    have "mapped m s 8" using less.prems n by (rule mapped_mono)
    then obtain v where v: "load_word m s = Some v" using load_word_Some_iff [of m s] by auto
    show ?thesis
    proof (cases "HASZERO (v XOR (ONES * ucast c))")
      case True
      with v n show ?thesis
        by (intro exI [of _ 0]) (simp add: scan_words.simps [of m _ n] read_word_def)
    next
      case False
      have "mapped m (s + of_nat 8) (n - 8)" by (rule mapped_sub [OF less.prems]) (use n in simp)
      then obtain k where k: "k \<le> n - 8" "scan_words m (ONES * ucast c) (n - 8) (s + 8)
          = Inr (s + 8 + of_nat k, n - 8 - k)" "\<forall>j<k. m (s + 8 + of_nat j) \<noteq> Some c"
        using less.IH [of "n - 8" "s + 8"] n by auto
      have "m (s + of_nat j) \<noteq> Some c" if "j < k + 8" for j
      proof (cases "j < 8")
        case True
        then show ?thesis using False HASZERO_search [OF v] by blast
      next
        case False
        then have "s + of_nat j = s + 8 + of_nat (j - 8)" by (simp add: of_nat_diff)
        moreover have "j - 8 < k" using that False by linarith
        ultimately show ?thesis using k(3) by metis
      qed
      with k v n False show ?thesis
        by (intro exI [of _ "k + 8"]) (simp add: scan_words.simps [of m _ n] read_word_def add_ac)
    qed
  qed
qed

text \<open>
  \<open>memchr\<close> finds the first byte \<open>c\<close> among the \<open>n\<close> bytes, whatever their alignment.
\<close>

lemma memchr_spec:
  assumes "mapped m s n" and "c = ucast ch"
  shows "\<exists>k\<le>n. memchr m s ch n = Inr (if k = n then 0 else s + of_nat k) \<and>
    (\<forall>j<k. m (s + of_nat j) \<noteq> Some c) \<and> (k < n \<longrightarrow> m (s + of_nat k) = Some c)"
proof -
  obtain k1 where k1: "k1 \<le> n" "scan_bytes (\<lambda>s. s AND 8 \<noteq> 0) m c n s = Inr (s + of_nat k1, n - k1)"
    "\<forall>j<k1. m (s + of_nat j) \<noteq> Some c"
    using scan_bytes_spec [OF assms(1), of "\<lambda>s. s AND 8 \<noteq> 0" c] by blast
  have sub: "mapped m (s + of_nat i) (n - i)" if "i \<le> n" for i
    by (rule mapped_sub [OF assms(1)]) (use that in simp)
  show ?thesis
  proof (cases "k1 = n")
    case True
    then show ?thesis using k1 assms(2) by (intro exI [of _ n]) (simp add: memchr_def Let_def)
  next
    case False
    then have "k1 < n" using k1(1) by simp
    then obtain b where b: "m (s + of_nat k1) = Some b"
      using assms(1) unfolding mapped_def by blast
    show ?thesis
    proof (cases "b = c")
      case True
      then show ?thesis using k1 False b assms(2) by (intro exI [of _ k1]) (simp add: memchr_def Let_def)
    next
      case ne: False
      obtain k2 where k2: "k2 \<le> n - k1"
        "scan_words m (ONES * ucast c) (n - k1) (s + of_nat k1) = Inr (s + of_nat k1 + of_nat k2, n - k1 - k2)"
        "\<forall>j<k2. m (s + of_nat k1 + of_nat j) \<noteq> Some c"
        using scan_words_spec [OF sub [OF k1(1)], of c] by blast
      have "mapped m (s + of_nat k1 + of_nat k2) (n - k1 - k2)"
        using sub [of "k1 + k2"] k1(1) k2(1) by (simp add: add.assoc)
      then obtain k3 where k3: "k3 \<le> n - k1 - k2"
        "scan_bytes (\<lambda>_. True) m c (n - k1 - k2) (s + of_nat k1 + of_nat k2)
          = Inr (s + of_nat k1 + of_nat k2 + of_nat k3, n - k1 - k2 - k3)"
        "\<forall>j<k3. m (s + of_nat k1 + of_nat k2 + of_nat j) \<noteq> Some c"
        "k3 = n - k1 - k2 \<or> m (s + of_nat k1 + of_nat k2 + of_nat k3) = Some c"
        using scan_bytes_spec [of m _ _ "\<lambda>_. True" c] by blast
      let ?k = "k1 + k2 + k3"
      have "m (s + of_nat j) \<noteq> Some c" if "j < ?k" for j
      proof -
        have "j < k1 \<or> k1 \<le> j \<and> j - k1 < k2 \<or> k1 + k2 \<le> j \<and> j - k1 - k2 < k3"
          using that by linarith
        then consider "j < k1" | "k1 \<le> j" "j - k1 < k2" | "k1 + k2 \<le> j" "j - k1 - k2 < k3" by blast
        then show ?thesis
        proof cases
          case 2
          then have "s + of_nat j = s + of_nat k1 + of_nat (j - k1)" by (simp add: of_nat_diff)
          with 2 show ?thesis using k2(3) by metis
        next
          case 3
          then have "s + of_nat j = s + of_nat k1 + of_nat k2 + of_nat (j - k1 - k2)"
            by (simp add: of_nat_diff)
          with 3 show ?thesis using k3(3) by metis
        qed (use k1(3) in blast)
      qed
      moreover have le: "?k \<le> n" using k1(1) k2(1) k3(1) by linarith
      moreover have "memchr m s ch n = Inr (if ?k = n then 0 else s + of_nat ?k)"
        using k1 k2 k3 False ne b assms(2) le by (simp add: memchr_def Let_def add.assoc)
      moreover have "m (s + of_nat ?k) = Some c" if "?k < n"
      proof -
        have "k3 \<noteq> n - k1 - k2" using that by linarith
        then show ?thesis using k3(4) by (simp add: add.assoc)
      qed
      ultimately show ?thesis by blast
    qed
  qed
qed

subsection \<open>Terminated strings\<close>

definition cstring :: "'w::len memory \<Rightarrow> 'w word \<Rightarrow> 8 word list \<Rightarrow> bool" where
  "cstring m a bs \<longleftrightarrow>
     (\<forall>i<length bs. m (a + of_nat i) = Some (bs ! i)) \<and> 0 \<notin> set bs \<and> m (a + of_nat (length bs)) = Some 0"

lemma cstring_simps:
  "cstring m a [] \<longleftrightarrow> m a = Some 0"
  "cstring m a (b # bs) \<longleftrightarrow> m a = Some b \<and> b \<noteq> 0 \<and> cstring m (a + 1) bs"
proof -
  have "(\<forall>i<length (b # bs). m (a + of_nat i) = Some ((b # bs) ! i)) \<longleftrightarrow>
      m a = Some b \<and> (\<forall>i<length bs. m (a + 1 + of_nat i) = Some (bs ! i))"
    by (auto simp: less_Suc_eq_0_disj add.assoc)
  then show "cstring m a (b # bs) \<longleftrightarrow> m a = Some b \<and> b \<noteq> 0 \<and> cstring m (a + 1) bs"
    by (auto simp: cstring_def add.assoc)
qed (simp add: cstring_def)

lemma cstring_cong:
  assumes "\<And>i. i \<le> length bs \<Longrightarrow> m' (a + of_nat i) = m (a + of_nat i)"
  shows "cstring m' a bs = cstring m a bs"
  using assms by (auto simp: cstring_def)

lemma cstring_mapped: "cstring m a bs \<Longrightarrow> mapped m a (Suc (length bs))"
  by (auto simp: cstring_def mapped_def less_Suc_eq)

lemma cstring_append:
  "cstring m (a + of_nat (length xs)) ys \<Longrightarrow> (\<forall>i<length xs. m (a + of_nat i) = Some (xs ! i)) \<Longrightarrow>
    0 \<notin> set xs \<Longrightarrow> cstring m a (xs @ ys)"
proof (induction xs arbitrary: a)
  case Nil
  then show ?case by simp
next
  case (Cons x xs)
  have "m (a + 1 + of_nat i) = Some (xs ! i)" if "i < length xs" for i
    using Cons.prems(2) [rule_format, of "Suc i"] that by (simp add: add.assoc)
  moreover have "m a = Some x" using Cons.prems(2) [rule_format, of 0] by simp
  ultimately show ?case using Cons.prems(1,3) Cons.IH [of "a + 1"] by (simp add: cstring_simps add.assoc)
qed

text \<open>\<open>strnlen\<close> returns the length of a string that ends within the bound.\<close>

lemma strnlen_spec:
  assumes "mapped m s n" and "s \<noteq> 0" and "unat s + n < 2 ^ 64"
  shows "\<exists>k\<le>n. strnlen m s n = Inr k \<and> (\<forall>j<k. m (s + of_nat j) \<noteq> Some 0) \<and>
    (k < n \<longrightarrow> m (s + of_nat k) = Some 0)"
proof -
  obtain k where k: "k \<le> n" "memchr m s 0 n = Inr (if k = n then 0 else s + of_nat k)"
    "\<forall>j<k. m (s + of_nat j) \<noteq> Some 0" "k < n \<longrightarrow> m (s + of_nat k) = Some 0"
    using memchr_spec [OF assms(1), of 0 0] by auto
  have "unat (s + of_nat k) = unat s + k"
    using assms(3) k(1) by (simp add: unat_word_ariths unat_of_nat)
  then have "s + of_nat k \<noteq> 0" using assms(2) by (metis add_is_0 unat_0 unat_eq_zero)
  moreover have "unat (s + of_nat k - s) = k" using assms(3) k(1) by (intro unat_offset) simp
  ultimately have "strnlen m s n = Inr k" using k(1,2) by (auto simp: strnlen_def)
  with k show ?thesis by blast
qed

lemma strnlen_cstring:
  assumes "cstring m s bs" and "mapped m s n" and "s \<noteq> 0" and "unat s + n < 2 ^ 64"
  shows "strnlen m s n = Inr (min (length bs) n)"
proof -
  obtain k where k: "k \<le> n" "strnlen m s n = Inr k" "\<forall>j<k. m (s + of_nat j) \<noteq> Some 0"
    "k < n \<longrightarrow> m (s + of_nat k) = Some 0" using strnlen_spec [OF assms(2-4)] by blast
  have zero: "m (s + of_nat (length bs)) = Some 0" and bytes: "\<forall>i<length bs. m (s + of_nat i) \<noteq> Some 0"
    using assms(1) by (auto simp: cstring_def) (metis nth_mem)
  have "k \<le> length bs" using k(3) zero not_le by blast
  moreover have "k = length bs" if "k < n" using that k(4) bytes \<open>k \<le> length bs\<close> by (meson le_neq_implies_less)
  ultimately show ?thesis using k(1,2) by (cases "k < n") (auto simp: min_def)
qed

subsection \<open>Copying strings\<close>

partial_function (option) strcpy_loop ::
    "'w::len memory \<Rightarrow> 'w word \<Rightarrow> 'w word \<Rightarrow> (fault + 'w memory) option" where
  "strcpy_loop m d s =
     (case bindR (load_byte m s) (\<lambda>b. bindR (store_byte m d b) (\<lambda>m. Inr (m, b))) of
        Inl e \<Rightarrow> Some (Inl e)
      | Inr (m, b) \<Rightarrow> if b \<noteq> 0 then strcpy_loop m (d + 1) (s + 1) else Some (Inr m))"

definition strcpy ::
    "'w::len memory \<Rightarrow> 'w word \<Rightarrow> 'w word \<Rightarrow> (fault + ('w memory \<times> 'w word)) option" where
  "strcpy m dest src = bindP (strcpy_loop m dest src) (\<lambda>m. Some (Inr (m, dest)))"

text \<open>
  \<open>strncpy\<close> compares its counter \<open>i\<close> with the bound but never increments it: the counter is
  handed on unchanged.
\<close>

partial_function (option) strncpy_loop ::
    "'w::len memory \<Rightarrow> 'w word \<Rightarrow> 'w word \<Rightarrow> nat \<Rightarrow> nat \<Rightarrow> (fault + 'w memory) option" where
  "strncpy_loop m d s i max_len =
     (case bindR (load_byte m s) (\<lambda>b. bindR (store_byte m d b) (\<lambda>m. Inr (m, b))) of
        Inl e \<Rightarrow> Some (Inl e)
      | Inr (m, b) \<Rightarrow> if b \<noteq> 0 \<and> i < max_len then strncpy_loop m (d + 1) (s + 1) i max_len else Some (Inr m))"

definition strncpy ::
    "'w::len memory \<Rightarrow> 'w word \<Rightarrow> 'w word \<Rightarrow> nat \<Rightarrow> (fault + ('w memory \<times> 'w word)) option" where
  "strncpy m dest src max_len =
     bindP (strncpy_loop m dest src 0 max_len) (\<lambda>m. Some (Inr (m, dest)))"

lemma strncpy_loop_eq:
  assumes "i < n"
  shows "strncpy_loop m d s i n = strcpy_loop m d s"
proof -
  have 1: "i < n \<longrightarrow> strcpy_loop m d s = Some y" if "strncpy_loop m d s i n = Some y" for y
    using that
  proof (induction rule: strncpy_loop.raw_induct [rotated 1, consumes 1])
    case (1 f m d s i n y)
    show ?case
    proof
      assume "i < n"
      with 1 show "strcpy_loop m d s = Some y"
        unfolding strncpy_loop.simps [of m d s i n] strcpy_loop.simps [of m d s]
        by (auto split: sum.splits if_splits)
    qed
  qed
  have 2: "strncpy_loop m d s i n = Some y" if "strcpy_loop m d s = Some y" for y
    using that
  proof (induction rule: strcpy_loop.raw_induct [rotated 1, consumes 1])
    case (1 f m d s y)
    then show ?case
      using assms unfolding strncpy_loop.simps [of m d s i n] strcpy_loop.simps [of m d s]
      by (auto split: sum.splits if_splits)
  qed
  show ?thesis
    using 1 2 assms by (cases "strcpy_loop m d s"; cases "strncpy_loop m d s i n") auto
qed

lemma strncpy_eq: "0 < max_len \<Longrightarrow> strncpy m dest src max_len = strcpy m dest src"
  by (simp add: strncpy_def strcpy_def strncpy_loop_eq)

text \<open>The memory after a list of bytes was written.\<close>

definition overwrite :: "'w::len memory \<Rightarrow> 'w word \<Rightarrow> 8 word list \<Rightarrow> 'w memory" where
  "overwrite m a bs = (\<lambda>b. if inside b a (length bs) then Some (bs ! unat (b - a)) else m b)"

lemma overwrite_Nil [simp]: "overwrite m a [] = m"
  by (simp add: overwrite_def inside_def)

lemma overwrite_Cons:
  fixes a :: "'w::len word"
  assumes "length (b # bs) \<le> 2 ^ LENGTH('w)"
  shows "overwrite (m(a \<mapsto> b)) (a + 1) bs = overwrite m a (b # bs)"
proof
  fix x
  have top: "unat (- 1 :: 'w word) = 2 ^ LENGTH('w) - 1" using unat_uminus [of "1 :: 'w word"] by simp
  show "overwrite (m(a \<mapsto> b)) (a + 1) bs x = overwrite m a (b # bs) x"
  proof (cases "x = a")
    case True
    have "a - (a + 1) = - 1" by simp
    moreover have "\<not> 2 ^ LENGTH('w) - Suc 0 < length bs" using assms by simp
    ultimately show ?thesis using top True by (simp add: overwrite_def inside_def)
  next
    case False
    then have "unat (x - (a + 1)) = unat (x - a) - 1" using unat_minus_one [of "x - a"] by (simp add: diff_diff_eq)
    moreover have "unat (x - a) \<noteq> 0" using False by (simp add: unat_eq_zero)
    ultimately show ?thesis using False by (auto simp: overwrite_def inside_def nth_Cons')
  qed
qed

lemma inside_Suc:
  fixes a x :: "'w::len word"
  assumes "inside x (a + 1) n" and "Suc n \<le> 2 ^ LENGTH('w)"
  shows "inside x a (Suc n)"
proof -
  obtain i where "i < n" "x = a + 1 + of_nat i" using assms inside_iff [of n x "a + 1"] by auto
  then have "x = a + of_nat (Suc i)" "Suc i < Suc n" by (simp_all add: add.assoc)
  then show ?thesis using assms(2) inside_iff [of "Suc n" x a] by blast
qed

text \<open>
  \<open>strcpy\<close> of a terminated string to a mapped range that does not overlap it returns, and has
  written the string and its terminator.
\<close>

lemma strcpy_loop_spec:
  fixes d s :: "'w::len word"
  assumes "cstring m s bs" and "mapped m d (Suc (length bs))" and "Suc (length bs) < 2 ^ LENGTH('w)"
    and "\<forall>i\<le>length bs. \<not> inside (s + of_nat i) d (Suc (length bs))"
  shows "strcpy_loop m d s = Some (Inr (overwrite m d (bs @ [0])))"
  using assms
proof (induction bs arbitrary: m d s)
  case Nil
  have "overwrite m d [0] = m(d \<mapsto> 0)" using overwrite_Cons [of 0 "[]" m d] by simp
  with Nil show ?case by (subst strcpy_loop.simps) (simp add: cstring_simps mapped_tl)
next
  case (Cons b bs)
  let ?m = "m(d \<mapsto> b)" and ?n = "Suc (length bs)"
  have b: "m s = Some b" "b \<noteq> 0" "cstring m (s + 1) bs" and d: "m d \<noteq> None" "mapped m (d + 1) ?n"
    using Cons.prems(1,2) by (simp_all add: cstring_simps mapped_tl)
  have sep: "\<not> inside (s + 1 + of_nat i) d (Suc ?n)" if "i \<le> length bs" for i
    using Cons.prems(4) [rule_format, of "Suc i"] that by (simp add: add.assoc)
  have "d \<noteq> s + 1 + of_nat i" if "i \<le> length bs" for i
    using sep [OF that] by (auto simp: inside_def)
  then have c: "cstring ?m (s + 1) bs" using b(3) by (subst cstring_cong [of bs ?m _ m]) auto
  have mp: "mapped ?m (d + 1) ?n" using d(2) by (auto simp: mapped_def)
  have apart: "\<forall>i\<le>length bs. \<not> inside (s + 1 + of_nat i) (d + 1) ?n"
    using sep inside_Suc Cons.prems(3) by fastforce
  have "strcpy_loop ?m (d + 1) (s + 1) = Some (Inr (overwrite ?m (d + 1) (bs @ [0])))"
    by (rule Cons.IH [OF c mp _ apart]) (use Cons.prems(3) in simp)
  moreover have "strcpy_loop m d s = strcpy_loop ?m (d + 1) (s + 1)"
    using b d(1) by (subst strcpy_loop.simps) simp
  ultimately show ?case using overwrite_Cons [of b "bs @ [0]" m d] Cons.prems(3) by simp
qed

subsection \<open>\<open>strlen\<close> and \<open>strcat\<close>\<close>

text \<open>
  \<open>strlen\<close> goes by bytes to a multiple of 8, by words to the one with the terminator, and by
  bytes to the terminator. The first loop says with a flag whether it found the end.
\<close>

function strlen_head :: "64 memory \<Rightarrow> addr \<Rightarrow> fault + (addr \<times> bool)" where
  "strlen_head m s =
     (if s mod 8 \<noteq> 0 then
        bindR (load_byte m s) (\<lambda>b. if b = 0 then Inr (s, True) else strlen_head m (s + 1))
      else Inr (s, False))"
  by pat_completeness auto
termination
proof (relation "measure (\<lambda>(m, s). if s = 0 then 0 else 2 ^ 64 - unat s)")
  fix m :: "64 memory" and s :: addr and b :: "8 word"
  assume "s mod 8 \<noteq> 0"
  then have s: "s \<noteq> 0" by auto
  have "unat (s + 1) = unat s + 1" if "s + 1 \<noteq> 0"
  proof -
    have "unat (s + 1) \<noteq> 0" using that by (simp only: unat_eq_zero not_False_eq_True)
    then show ?thesis
      using unat_plus_if' [of s 1] unsigned_less [where ?'a = nat, of s] by (auto split: if_splits)
  qed
  then show "((m, s + 1), (m, s)) \<in> measure (\<lambda>(m, s). if s = 0 then 0 else 2 ^ 64 - unat s)"
    using s unsigned_less [where ?'a = nat, of s] by auto
qed simp

declare strlen_head.simps [simp del]

partial_function (option) strlen_words :: "64 memory \<Rightarrow> addr \<Rightarrow> (fault + addr) option" where
  "strlen_words m w =
     (case read_word m w of
        Inl e \<Rightarrow> Some (Inl e)
      | Inr x \<Rightarrow> if \<not> HASZERO x then strlen_words m (w + 8) else Some (Inr w))"

partial_function (option) strlen_tail :: "64 memory \<Rightarrow> addr \<Rightarrow> (fault + addr) option" where
  "strlen_tail m s =
     (case load_byte m s of
        Inl e \<Rightarrow> Some (Inl e)
      | Inr b \<Rightarrow> if b \<noteq> 0 then strlen_tail m (s + 1) else Some (Inr s))"

definition strlen :: "64 memory \<Rightarrow> addr \<Rightarrow> (fault + nat) option" where
  "strlen m a =
     (case strlen_head m a of
        Inl e \<Rightarrow> Some (Inl e)
      | Inr (s, True) \<Rightarrow> Some (Inr (unat (s - a)))
      | Inr (s, False) \<Rightarrow>
          bindP (strlen_words m s) (\<lambda>w. bindP (strlen_tail m w) (\<lambda>s. Some (Inr (unat (s - a))))))"

definition strcat :: "64 memory \<Rightarrow> addr \<Rightarrow> addr \<Rightarrow> (fault + (64 memory \<times> addr)) option" where
  "strcat m dest src =
     bindP (strlen m dest) (\<lambda>n.
     bindP (strcpy m (dest + of_nat n) src) (\<lambda>(m, _). Some (Inr (m, dest))))"

text \<open>Pages consist of whole words, so that the word with a mapped first byte is mapped.\<close>

definition words_mapped :: "64 memory \<Rightarrow> bool" where
  "words_mapped m \<longleftrightarrow> (\<forall>w. w mod 8 = 0 \<and> m w \<noteq> None \<longrightarrow> mapped m w 8)"

lemma cstring_drop:
  assumes "cstring m a bs" and "k \<le> length bs"
  shows "cstring m (a + of_nat k) (drop k bs)"
  using assms
proof (induction k arbitrary: a bs)
  case (Suc k)
  then obtain b cs where "bs = b # cs" by (cases bs) auto
  with Suc.prems Suc.IH [of "a + 1" cs] show ?case by (simp add: cstring_simps add.assoc)
qed simp

lemma strlen_head_spec:
  assumes "cstring m s bs"
  shows "\<exists>k f. strlen_head m s = Inr (s + of_nat k, f) \<and> k \<le> length bs \<and>
    (if f then k = length bs else (s + of_nat k) mod 8 = 0)"
  using assms
proof (induction bs arbitrary: s)
  case Nil
  then show ?case
    by (intro exI [of _ 0] exI [of _ "s mod 8 \<noteq> 0"]) (simp add: strlen_head.simps [of m s] cstring_simps)
next
  case (Cons b bs)
  show ?case
  proof (cases "s mod 8 = 0")
    case True
    then show ?thesis by (intro exI [of _ 0] exI [of _ False]) (simp add: strlen_head.simps [of m s])
  next
    case False
    with Cons.prems have "strlen_head m s = strlen_head m (s + 1)"
      by (simp add: strlen_head.simps [of m s] cstring_simps)
    moreover have "cstring m (s + 1) bs" using Cons.prems by (simp add: cstring_simps)
    from Cons.IH [OF this] obtain k f where "strlen_head m (s + 1) = Inr (s + 1 + of_nat k, f)"
      "k \<le> length bs" "if f then k = length bs else (s + 1 + of_nat k) mod 8 = 0"
      by (elim exE conjE)
    ultimately show ?thesis
      by (intro exI [of _ "Suc k"] exI [of _ f]) (cases f; simp add: add.assoc)
  qed
qed

lemma strlen_tail_spec: "cstring m s bs \<Longrightarrow> strlen_tail m s = Some (Inr (s + of_nat (length bs)))"
  by (induction bs arbitrary: s) (subst strlen_tail.simps; simp add: cstring_simps add.assoc)+

lemma aligned_next: "(w :: addr) mod 8 = 0 \<Longrightarrow> (w + 8) mod 8 = 0"
proof -
  assume "w mod 8 = 0"
  then have "unat (w mod 8) = unat (0 :: addr)" by (simp only:)
  then have "unat w mod 8 = 0" unfolding unat_mod_distrib by simp
  then have "unat ((w + 8) mod 8) = unat (0 :: addr)"
    unfolding unat_mod_distrib by (simp add: unat_word_ariths mod_mod_cancel)
  then show "(w + 8) mod 8 = 0" by (simp only: word_unat_eq_iff)
qed

lemma strlen_words_spec:
  assumes "cstring m w bs" and "w mod 8 = 0" and "words_mapped m"
  shows "\<exists>k\<le>length bs. strlen_words m w = Some (Inr (w + of_nat k))"
  using assms
proof (induction "length bs" arbitrary: w bs rule: less_induct)
  case less
  have "m w \<noteq> None" using less.prems(1) by (cases bs) (auto simp: cstring_simps)
  then have "mapped m w 8" using less.prems(2,3) by (simp add: words_mapped_def)
  then obtain v where v: "load_word m w = Some v" using load_word_Some_iff [of m w] by auto
  show ?case
  proof (cases "HASZERO v")
    case True
    with v show ?thesis by (intro exI [of _ 0]) (simp add: strlen_words.simps [of m w] read_word_def)
  next
    case False
    have long: "8 \<le> length bs"
    proof (rule ccontr)
      assume "\<not> 8 \<le> length bs"
      then have "byte_of (length bs) v = 0"
        using byte_of_load [OF v, of "length bs"] less.prems(1) by (simp add: cstring_def)
      with False \<open>\<not> 8 \<le> length bs\<close> show False by (auto simp: HASZERO_iff)
    qed
    have rest: "cstring m (w + 8) (drop 8 bs)" using cstring_drop [OF less.prems(1) long] by simp
    have "length (drop 8 bs) < length bs" using long by simp
    from less.hyps [OF this rest aligned_next [OF less.prems(2)] less.prems(3)]
    obtain k where "k \<le> length bs - 8" "strlen_words m (w + 8) = Some (Inr (w + 8 + of_nat k))" by auto
    with v False long show ?thesis
      by (intro exI [of _ "k + 8"]) (simp add: strlen_words.simps [of m w] read_word_def add_ac)
  qed
qed

lemma strlen_spec:
  assumes "cstring m a bs" and "words_mapped m" and "length bs < 2 ^ 64"
  shows "strlen m a = Some (Inr (length bs))"
proof -
  have off: "unat (a + of_nat k - a) = k" if "k \<le> length bs" for k
    using that assms(3) by (intro unat_offset) simp
  obtain k f where k: "strlen_head m a = Inr (a + of_nat k, f)" "k \<le> length bs"
    and f: "if f then k = length bs else (a + of_nat k) mod 8 = 0"
    using strlen_head_spec [OF assms(1)] by (elim exE conjE)
  show ?thesis
  proof (cases f)
    case True
    then show ?thesis using k f off [OF k(2)] by (simp add: strlen_def)
  next
    case False
    then have al: "(a + of_nat k) mod 8 = 0" using f by simp
    obtain j where j: "j \<le> length (drop k bs)" "strlen_words m (a + of_nat k) = Some (Inr (a + of_nat k + of_nat j))"
      using strlen_words_spec [OF cstring_drop [OF assms(1) k(2)] al assms(2)] by (elim exE conjE)
    have "cstring m (a + of_nat (k + j)) (drop (k + j) bs)"
      using j(1) k(2) by (intro cstring_drop [OF assms(1)]) simp
    from strlen_tail_spec [OF this] j k(2)
    have "strlen_tail m (a + of_nat k + of_nat j) = Some (Inr (a + of_nat (length bs)))"
      by (simp add: add.assoc flip: of_nat_add)
    then show ?thesis using k(1) False j(2) off [of "length bs"] by (simp add: strlen_def)
  qed
qed

lemma overwrite_in:
  fixes a :: "'w::len word"
  assumes "i < length bs" and "length bs < 2 ^ LENGTH('w)"
  shows "overwrite m a bs (a + of_nat i) = Some (bs ! i)"
  using assms unat_offset [of i a] by (simp add: overwrite_def inside_def)

lemma overwrite_out: "\<not> inside b a (length bs) \<Longrightarrow> overwrite m a bs b = m b"
  by (simp add: overwrite_def)

lemma overwrite_dom:
  fixes a :: "'w::len word"
  assumes "mapped m a (length bs)" and "length bs \<le> 2 ^ LENGTH('w)"
  shows "dom (overwrite m a bs) = dom m"
  using assms by (auto simp: overwrite_def mapped_iff_inside split: if_splits)

lemma overwrite_cstring:
  fixes a :: "'w::len word"
  assumes "0 \<notin> set bs" and "Suc (length bs) < 2 ^ LENGTH('w)"
  shows "cstring (overwrite m a (bs @ [0])) a bs"
proof -
  have "overwrite m a (bs @ [0]) (a + of_nat i) = Some ((bs @ [0]) ! i)" if "i \<le> length bs" for i
    using overwrite_in [of i "bs @ [0]" m a] that assms(2) by simp
  then show ?thesis using assms(1) by (auto simp: cstring_def nth_append)
qed

lemma strcpy_spec:
  fixes d s :: "'w::len word"
  assumes "cstring m s bs" and "mapped m d (Suc (length bs))" and "Suc (length bs) < 2 ^ LENGTH('w)"
    and "\<forall>i\<le>length bs. \<not> inside (s + of_nat i) d (Suc (length bs))"
  shows "strcpy m d s = Some (Inr (overwrite m d (bs @ [0]), d))"
  using strcpy_loop_spec [OF assms] by (simp add: strcpy_def)

text \<open>\<open>strcat\<close> appends.\<close>

lemma strcat_spec:
  assumes "cstring m d xs" and "cstring m s ys" and "words_mapped m"
    and "mapped m (d + of_nat (length xs)) (Suc (length ys))" and "Suc (length xs + length ys) < 2 ^ 64"
    and "\<forall>i\<le>length ys. \<not> inside (s + of_nat i) (d + of_nat (length xs)) (Suc (length ys))"
  shows "strcat m d s = Some (Inr (overwrite m (d + of_nat (length xs)) (ys @ [0]), d))"
    and "cstring (overwrite m (d + of_nat (length xs)) (ys @ [0])) d (xs @ ys)"
proof -
  have "strlen m d = Some (Inr (length xs))" using strlen_spec [OF assms(1,3)] assms(5) by simp
  moreover have "strcpy m (d + of_nat (length xs)) s
      = Some (Inr (overwrite m (d + of_nat (length xs)) (ys @ [0]), d + of_nat (length xs)))"
    using strcpy_spec [OF assms(2,4) _ assms(6)] assms(5) by simp
  ultimately show "strcat m d s = Some (Inr (overwrite m (d + of_nat (length xs)) (ys @ [0]), d))"
    by (simp add: strcat_def)
  let ?m = "overwrite m (d + of_nat (length xs)) (ys @ [0])"
  have "\<not> inside (d + of_nat i) (d + of_nat (length xs)) (Suc (length ys))" if i: "i < length xs" for i
  proof
    assume "inside (d + of_nat i) (d + of_nat (length xs)) (Suc (length ys))"
    then obtain j where j: "j < Suc (length ys)" "d + of_nat i = d + of_nat (length xs) + of_nat j"
      using inside_iff [of "Suc (length ys)" "d + of_nat i" "d + of_nat (length xs)"] assms(5) by auto
    then have "(of_nat i :: addr) = of_nat (length xs + j)" by simp
    then have "unat (of_nat i :: addr) = unat (of_nat (length xs + j) :: addr)" by (simp only:)
    moreover have "unat (of_nat i :: addr) = i" using i assms(5) by (simp add: unat_of_nat)
    moreover have "unat (of_nat (length xs + j) :: addr) = length xs + j"
      unfolding unat_of_nat using j(1) assms(5) by simp
    ultimately have "i = length xs + j" by (simp only:)
    with i show False by simp
  qed
  then have "?m (d + of_nat i) = Some (xs ! i)" if "i < length xs" for i
    using that assms(1) overwrite_out [of "d + of_nat i"] by (simp add: cstring_def)
  moreover have "0 \<notin> set xs" "0 \<notin> set ys" using assms(1,2) by (simp_all add: cstring_def)
  ultimately show "cstring ?m d (xs @ ys)"
    using overwrite_cstring [of ys m "d + of_nat (length xs)"] assms(5) by (intro cstring_append) auto
qed

text \<open>Copying a string without terminator runs into the first unmapped byte.\<close>

lemma strcpy_loop_fault:
  fixes d s :: "'w::len word"
  assumes "\<forall>i<n. \<exists>b. m (s + of_nat i) = Some b \<and> b \<noteq> 0" and "m (s + of_nat n) = None"
    and "mapped m d n" and "\<forall>i<n. \<not> inside (s + of_nat i) d n" and "n < 2 ^ LENGTH('w)"
  shows "strcpy_loop m d s = Some (Inl (VMFault (ucast (s + of_nat n))))"
  using assms
proof (induction n arbitrary: m d s)
  case 0
  then show ?case by (subst strcpy_loop.simps) (simp add: load_byte_def)
next
  case (Suc n)
  obtain b where b: "m s = Some b" "b \<noteq> 0" using Suc.prems(1) [rule_format, of 0] by auto
  let ?m = "m(d \<mapsto> b)"
  have d: "m d \<noteq> None" "mapped m (d + 1) n" using Suc.prems(3) by (simp_all add: mapped_tl)
  have sep: "\<not> inside (s + 1 + of_nat i) d (Suc n)" if "i < n" for i
    using Suc.prems(4) [rule_format, of "Suc i"] that by (simp add: add.assoc)
  have ne: "d \<noteq> s + 1 + of_nat i" if "i < n" for i
    using sep [OF that] by (auto simp: inside_def)
  have 1: "\<forall>i<n. \<exists>b. ?m (s + 1 + of_nat i) = Some b \<and> b \<noteq> 0"
  proof safe
    fix i assume "i < n"
    then show "\<exists>b. ?m (s + 1 + of_nat i) = Some b \<and> b \<noteq> 0"
      using Suc.prems(1) [rule_format, of "Suc i"] ne [of i] by (auto simp: add.assoc)
  qed
  have 2: "?m (s + 1 + of_nat n) = None"
    using Suc.prems(2) d(1) by (auto simp: add.assoc)
  have 3: "mapped ?m (d + 1) n" using d(2) by (auto simp: mapped_def)
  have 4: "\<forall>i<n. \<not> inside (s + 1 + of_nat i) (d + 1) n"
    using sep inside_Suc Suc.prems(5) by fastforce
  have "strcpy_loop ?m (d + 1) (s + 1) = Some (Inl (VMFault (ucast (s + 1 + of_nat n))))"
    by (rule Suc.IH [OF 1 2 3 4]) (use Suc.prems(5) in simp)
  moreover have "strcpy_loop m d s = strcpy_loop ?m (d + 1) (s + 1)"
    using b d(1) by (subst strcpy_loop.simps) simp
  ultimately show ?case by (simp add: add.assoc)
qed

text \<open>\<open>memcpy\<close> to a range that does not overlap the source.\<close>

lemma overwrite_snoc:
  fixes d :: "'w::len word"
  assumes "i < length bs" and "length bs < 2 ^ LENGTH('w)"
  shows "(overwrite m d (take i bs))(d + of_nat i \<mapsto> bs ! i) = overwrite m d (take (Suc i) bs)"
proof
  fix x
  show "((overwrite m d (take i bs))(d + of_nat i \<mapsto> bs ! i)) x = overwrite m d (take (Suc i) bs) x"
  proof (cases "unat (x - d) = i")
    case True
    then have "of_nat i = x - d" by auto
    then have x: "x = d + of_nat i" by simp
    have "overwrite m d (take (Suc i) bs) x = Some (bs ! i)"
      using assms(1) True by (simp add: overwrite_def inside_def)
    then show ?thesis by (simp add: x)
  next
    case False
    then have "x \<noteq> d + of_nat i" using unat_offset [of i d] assms by auto
    moreover have "overwrite m d (take (Suc i) bs) x = overwrite m d (take i bs) x"
      using assms(1) False by (simp add: overwrite_def inside_def less_Suc_eq)
    ultimately show ?thesis by simp
  qed
qed

lemma memcpy_loop_spec:
  fixes d s :: "'w::len word"
  assumes "\<forall>j<length bs. m (s + of_nat j) = Some (bs ! j)" and "mapped m d (length bs)"
    and "\<forall>j<length bs. \<not> inside (s + of_nat j) d (length bs)" and "length bs < 2 ^ LENGTH('w)"
    and "i \<le> length bs"
  shows "memcpy_loop (overwrite m d (take i bs)) d s i (length bs) = Inr (overwrite m d bs)"
  using assms(5)
proof (induction "length bs - i" arbitrary: i)
  case 0
  then show ?case by (simp add: memcpy_loop.simps)
next
  case (Suc k)
  then have i: "i < length bs" by simp
  let ?m = "overwrite m d (take i bs)"
  have "?m (s + of_nat i) = Some (bs ! i)"
    using assms(1,3) i by (subst overwrite_out) (auto simp: inside_def)
  moreover have "?m (d + of_nat i) \<noteq> None"
    using assms(2,4) i unat_offset [of i d] by (auto simp: overwrite_def inside_def mapped_def)
  ultimately have "memcpy_loop ?m d s i (length bs)
      = memcpy_loop (overwrite m d (take (Suc i) bs)) d s (Suc i) (length bs)"
    using i overwrite_snoc [OF i assms(4), of m d] by (subst memcpy_loop.simps) simp
  then show ?case using Suc.hyps(1) [of "Suc i"] Suc.hyps(2) i by simp
qed

lemma memcpy_spec:
  fixes d s :: "'w::len word"
  assumes "\<forall>j<unat n. m (s + of_nat j) = Some (bs ! j)" and "mapped m d (unat n)"
    and "\<forall>j<unat n. \<not> inside (s + of_nat j) d (unat n)" and "length bs = unat n"
  shows "memcpy m d s n = Inr (overwrite m d bs, d)"
  using memcpy_loop_spec [of bs m s d 0] assms unsigned_less [where ?'a = nat, of n]
  by (simp add: memcpy_def)

subsection \<open>Property\<close>

text \<open>
  C33: \<open>strncpy\<close> does not observe its bound: with any bound but 0 it is \<open>strcpy\<close>, on every
  memory and for every source, since the counter it compares with the bound stays 0.
\<close>

theorem strncpy_ignores_bound:
  assumes "0 < max_len"
  shows "strncpy m dest src max_len = strcpy m dest src"
  using assms by (rule strncpy_eq)

theorem strncpy_ignores_bound_witness:
  "strncpy (\<lambda>_. Some 0) (0x100 :: addr) 0x200 1 = Some (Inr ((\<lambda>_. Some 0)(0x100 \<mapsto> 0), 0x100))"
  unfolding strncpy_ignores_bound [OF zero_less_one]
  by (simp add: strcpy_def strcpy_loop.simps)

end
