(* ===== verification/CodisServer.thy ===== *)
theory CodisServer
  imports CString
begin

text \<open>
  The request handler of the Codis server (\<open>example/codis/src/server/server.c\<close>): what a
  handler cothread does with one request of its client, between the notification and its
  answer. The database is a region of memory with one page per bucket and an array of
  lengths; a request lies in the page shared with the client. Output by \<open>printf\<close> is left
  out, it changes nothing the program reads.

  The second part is the contract: the handler implements a table of 255 strings.
\<close>

subsection \<open>The protocol\<close>

abbreviation (input) N_BUCKETS :: nat where "N_BUCKETS \<equiv> 0xFF"
abbreviation (input) BUCKET_SIZE :: nat where "BUCKET_SIZE \<equiv> 0x1000"

definition READ_CMD :: int where "READ_CMD = 0"
definition APPEND_CMD :: int where "APPEND_CMD = 1"
definition DELETE_CMD :: int where "DELETE_CMD = 2"
definition COMMAND_IPC_IDX :: addr where "COMMAND_IPC_IDX = 0"
definition COMMAND_BUCKET_IDX :: addr where "COMMAND_BUCKET_IDX = 1"
definition COMMAND_DATA_START_IDX :: addr where "COMMAND_DATA_START_IDX = 2"
definition APPEND_CMD_MAX_PAYLOAD_LEN :: nat where "APPEND_CMD_MAX_PAYLOAD_LEN = BUCKET_SIZE - 2"

lemmas protocol_defs = READ_CMD_def APPEND_CMD_def DELETE_CMD_def COMMAND_IPC_IDX_def
  COMMAND_BUCKET_IDX_def COMMAND_DATA_START_IDX_def APPEND_CMD_MAX_PAYLOAD_LEN_def

text \<open>\<open>char\<close> is signed on x86-64 and unsigned on AArch64 and RISC-V: the parameter \<open>csgn\<close>.\<close>

definition char_int :: "bool \<Rightarrow> 8 word \<Rightarrow> int" where
  "char_int csgn b = (if csgn then sint b else uint b)"

subsection \<open>The handler\<close>

definition bucket_to_db_vaddr :: "addr \<Rightarrow> int \<Rightarrow> addr" where
  "bucket_to_db_vaddr db bucket = word_of_int (bucket * int BUCKET_SIZE) + db"

definition data_len_at :: "int list \<Rightarrow> int \<Rightarrow> fault + int" where
  "data_len_at data_len bucket =
     (if 0 \<le> bucket \<and> bucket < int (length data_len) then Inr (data_len ! nat bucket) else Inl OutOfBounds)"

text \<open>A store through a pointer to \<open>uint16_t\<close>.\<close>

definition store_u16 :: "64 memory \<Rightarrow> addr \<Rightarrow> 16 word \<Rightarrow> fault + 64 memory" where
  "store_u16 m a v = bindR (store_byte m a (ucast v)) (\<lambda>m. store_byte m (a + 1) (ucast (drop_bit 8 v)))"

type_synonym codis_state = "64 memory \<times> int list"

definition codis_read :: "addr \<Rightarrow> addr \<Rightarrow> int \<Rightarrow> codis_state \<Rightarrow> (fault + codis_state) option" where
  "codis_read db this_client_ipc bucket = (\<lambda>(m, data_len).
     bindP (Some (data_len_at data_len bucket)) (\<lambda>len.
     bindP (strncpy m this_client_ipc (bucket_to_db_vaddr db bucket) (unat (word_of_int (len + 1) :: addr)))
       (\<lambda>(m, _). Some (Inr (m, data_len)))))"

definition codis_append :: "addr \<Rightarrow> addr \<Rightarrow> int \<Rightarrow> codis_state \<Rightarrow> (fault + codis_state) option" where
  "codis_append db this_client_ipc bucket = (\<lambda>(m, data_len).
     let ipc_data_start = this_client_ipc + COMMAND_DATA_START_IDX in
     bindP (Some (strnlen m ipc_data_start APPEND_CMD_MAX_PAYLOAD_LEN)) (\<lambda>input_len.
     bindP (Some (data_len_at data_len bucket)) (\<lambda>len.
     let new_bucket_len = len + int input_len; new_bucket_len_with_null = len + int input_len + 1 in
     if new_bucket_len_with_null > int BUCKET_SIZE then
       bindP (Some (store_u16 m this_client_ipc 0)) (\<lambda>m. Some (Inr (m, data_len)))
     else
       bindP (strcat m (bucket_to_db_vaddr db bucket) ipc_data_start) (\<lambda>(m, _).
       let data_len = data_len[nat bucket := new_bucket_len] in
       bindP (Some (store_u16 m this_client_ipc (word_of_int new_bucket_len))) (\<lambda>m.
       Some (Inr (m, data_len)))))))"

definition codis_delete :: "addr \<Rightarrow> addr \<Rightarrow> int \<Rightarrow> codis_state \<Rightarrow> (fault + codis_state) option" where
  "codis_delete db this_client_ipc bucket = (\<lambda>(m, data_len).
     bindP (Some (data_len_at data_len bucket)) (\<lambda>_.
     let data_len = data_len[nat bucket := 0] in
     bindP (Some (store_byte m (bucket_to_db_vaddr db bucket) 0)) (\<lambda>m.
     bindP (Some (store_u16 m this_client_ipc 1)) (\<lambda>m.
     Some (Inr (m, data_len))))))"

definition client_handler_request ::
    "bool \<Rightarrow> addr \<Rightarrow> addr \<Rightarrow> codis_state \<Rightarrow> (fault + codis_state) option" where
  "client_handler_request csgn db this_client_ipc = (\<lambda>(m, data_len).
     bindP (Some (load_byte m (this_client_ipc + COMMAND_IPC_IDX))) (\<lambda>c.
     bindP (Some (load_byte m (this_client_ipc + COMMAND_BUCKET_IDX))) (\<lambda>b.
     let cmd = char_int csgn c; bucket = char_int csgn b in
     if cmd = READ_CMD then codis_read db this_client_ipc bucket (m, data_len)
     else if cmd = APPEND_CMD then codis_append db this_client_ipc bucket (m, data_len)
     else if cmd = DELETE_CMD then codis_delete db this_client_ipc bucket (m, data_len)
     else Some (Inr (m, data_len)))))"

subsection \<open>The contract\<close>

text \<open>
  The table of strings, the requests and what the client finds in the shared page: a
  string, a number of 16 bits, or its own request, unknown to the server.
\<close>

datatype request = Read | Append "8 word list" | Delete | Unknown

datatype reply = Reply_string "8 word list" | Reply_u16 "16 word" | No_reply

fun codis_spec :: "nat \<Rightarrow> request \<Rightarrow> 8 word list list \<Rightarrow> 8 word list list \<times> reply" where
  "codis_spec b Read tab = (tab, Reply_string (tab ! b))"
| "codis_spec b (Append s) tab =
     (if length (tab ! b) + length s < BUCKET_SIZE
      then (tab[b := tab ! b @ s], Reply_u16 (of_nat (length (tab ! b) + length s)))
      else (tab, Reply_u16 0))"
| "codis_spec b Delete tab = (tab[b := []], Reply_u16 1)"
| "codis_spec b Unknown tab = (tab, No_reply)"

definition bucket_at :: "addr \<Rightarrow> nat \<Rightarrow> addr" where
  "bucket_at db b = db + of_nat (BUCKET_SIZE * b)"

definition db_rep :: "64 memory \<Rightarrow> addr \<Rightarrow> int list \<Rightarrow> 8 word list list \<Rightarrow> bool" where
  "db_rep m db data_len tab \<longleftrightarrow>
     length tab = N_BUCKETS \<and> data_len = map (\<lambda>s. int (length s)) tab \<and>
     (\<forall>b<N_BUCKETS. length (tab ! b) < BUCKET_SIZE \<and> cstring m (bucket_at db b) (tab ! b))"

definition requests :: "64 memory \<Rightarrow> addr \<Rightarrow> bool \<Rightarrow> nat \<Rightarrow> request \<Rightarrow> bool" where
  "requests m ipc csgn b req \<longleftrightarrow>
     m (ipc + 1) = Some (of_nat b) \<and> b < N_BUCKETS \<and> (csgn \<longrightarrow> b < 0x80) \<and>
     (case req of
        Read \<Rightarrow> m ipc = Some 0
      | Append s \<Rightarrow> m ipc = Some 1 \<and> cstring m (ipc + 2) s \<and> length s < APPEND_CMD_MAX_PAYLOAD_LEN
      | Delete \<Rightarrow> m ipc = Some 2
      | Unknown \<Rightarrow> (\<exists>c. m ipc = Some c \<and> c \<notin> {0, 1, 2}))"

definition replied :: "64 memory \<Rightarrow> 64 memory \<Rightarrow> addr \<Rightarrow> reply \<Rightarrow> bool" where
  "replied m m' ipc r \<longleftrightarrow> (case r of
      Reply_string s \<Rightarrow> cstring m' ipc s
    | Reply_u16 v \<Rightarrow> m' ipc = Some (ucast v) \<and> m' (ipc + 1) = Some (ucast (drop_bit 8 v))
    | No_reply \<Rightarrow> m' = m)"

text \<open>
  The memory map of the server: the database and the shared page are mapped and apart, and
  neither wraps around.
\<close>

definition codis_layout :: "64 memory \<Rightarrow> addr \<Rightarrow> addr \<Rightarrow> bool" where
  "codis_layout m db ipc \<longleftrightarrow>
     mapped m db (N_BUCKETS * BUCKET_SIZE) \<and> mapped m ipc BUCKET_SIZE \<and> words_mapped m \<and>
     apart ipc BUCKET_SIZE db (N_BUCKETS * BUCKET_SIZE) \<and> ipc + 2 \<noteq> 0 \<and> unat (ipc + 2) + BUCKET_SIZE < 2 ^ 64"

definition codis_frame :: "64 memory \<Rightarrow> 64 memory \<Rightarrow> addr \<Rightarrow> addr \<Rightarrow> bool" where
  "codis_frame m m' db ipc \<longleftrightarrow> dom m' = dom m \<and>
     (\<forall>x. \<not> inside x ipc BUCKET_SIZE \<and> \<not> inside x db (N_BUCKETS * BUCKET_SIZE) \<longrightarrow> m' x = m x)"

subsection \<open>Buckets\<close>

lemma char_int_bucket:
  assumes "b < N_BUCKETS" and "csgn \<longrightarrow> b < 0x80"
  shows "char_int csgn (of_nat b) = int b"
proof -
  have u: "uint (of_nat b :: 8 word) = int b" using assms(1) by (simp add: unsigned_of_nat take_bit_nat_eq_self)
  have "sint (of_nat b :: 8 word) = int b" if "b < 0x80"
    using that unfolding sint_uint u by (simp add: signed_take_bit_int_eq_self)
  with u assms(2) show ?thesis by (simp add: char_int_def)
qed

lemma bucket_vaddr: "bucket_to_db_vaddr db (int b) = bucket_at db b"
  by (simp add: bucket_to_db_vaddr_def bucket_at_def mult.commute add.commute)

lemma bucket_byte:
  fixes db :: addr
  assumes "b < N_BUCKETS" and "inside x (bucket_at db b) BUCKET_SIZE"
  shows "inside x db (N_BUCKETS * BUCKET_SIZE)"
  using assms(2) unfolding bucket_at_def
  by (rule inside_sub) (use assms(1) in auto)

lemma bucket_word:
  "i < BUCKET_SIZE \<Longrightarrow> inside (bucket_at db b + of_nat i) (bucket_at db b) BUCKET_SIZE"
  using unat_offset [of i "bucket_at db b"] by (simp add: inside_def)

lemma buckets_apart:
  assumes "b \<noteq> c" and "b < N_BUCKETS" and "c < N_BUCKETS" and "inside x (bucket_at db b) BUCKET_SIZE"
  shows "\<not> inside x (bucket_at db c) BUCKET_SIZE"
proof -
  have *: "apart (bucket_at db i) BUCKET_SIZE (bucket_at db j) BUCKET_SIZE" if "i < j" "j < N_BUCKETS" for i j
  proof -
    have "bucket_at db j = bucket_at db i + of_nat (BUCKET_SIZE * (j - i))"
      using that(1) by (simp add: bucket_at_def of_nat_diff algebra_simps)
    then show ?thesis using that by (simp only:) (rule apart_offset; simp)
  qed
  from assms(1) consider "b < c" | "c < b" by linarith
  then have "apart (bucket_at db b) BUCKET_SIZE (bucket_at db c) BUCKET_SIZE"
    by cases (use * assms(2,3) apart_sym in metis)+
  then show ?thesis using assms(4) by (rule apart_not_inside)
qed

lemma bucket_mapped:
  assumes "codis_layout m db ipc" and "b < N_BUCKETS"
  shows "mapped m (bucket_at db b) BUCKET_SIZE"
  unfolding bucket_at_def using assms
  by (intro mapped_sub [of m db "N_BUCKETS * BUCKET_SIZE"]) (auto simp: codis_layout_def)

lemma ipc_not_db:
  "codis_layout m db ipc \<Longrightarrow> inside x ipc BUCKET_SIZE \<Longrightarrow> \<not> inside x db (N_BUCKETS * BUCKET_SIZE)"
  using apart_not_inside unfolding codis_layout_def by blast

lemma db_rep_cong:
  assumes "db_rep m db data_len tab" and "\<And>x. inside x db (N_BUCKETS * BUCKET_SIZE) \<Longrightarrow> m' x = m x"
  shows "db_rep m' db data_len tab"
proof -
  have "cstring m' (bucket_at db b) (tab ! b)" if "b < N_BUCKETS" for b
  proof -
    have c: "cstring m (bucket_at db b) (tab ! b)" "length (tab ! b) < BUCKET_SIZE"
      using assms(1) that by (simp_all add: db_rep_def)
    have "m' (bucket_at db b + of_nat i) = m (bucket_at db b + of_nat i)" if "i \<le> length (tab ! b)" for i
      using that c(2) by (intro assms(2) bucket_byte [OF \<open>b < N_BUCKETS\<close>] bucket_word) simp
    then show ?thesis using c(1) cstring_cong by metis
  qed
  then show ?thesis using assms(1) by (simp add: db_rep_def)
qed

lemma db_rep_update:
  assumes "db_rep m db data_len tab" and "b < N_BUCKETS" and "length s < BUCKET_SIZE"
    and "cstring m' (bucket_at db b) s"
    and "\<And>x. inside x db (N_BUCKETS * BUCKET_SIZE) \<Longrightarrow> \<not> inside x (bucket_at db b) BUCKET_SIZE \<Longrightarrow> m' x = m x"
  shows "db_rep m' db (data_len[b := int (length s)]) (tab[b := s])"
proof -
  have "cstring m' (bucket_at db c) (tab[b := s] ! c)" "length (tab[b := s] ! c) < BUCKET_SIZE"
    if "c < N_BUCKETS" for c
  proof -
    have len: "length tab = N_BUCKETS" and c: "cstring m (bucket_at db c) (tab ! c)" "length (tab ! c) < BUCKET_SIZE"
      using assms(1) that by (simp_all add: db_rep_def)
    have "m' (bucket_at db c + of_nat i) = m (bucket_at db c + of_nat i)"
      if "i \<le> length (tab ! c)" "c \<noteq> b" for i
      using that c(2) \<open>c < N_BUCKETS\<close> assms(2)
      by (intro assms(5) bucket_byte [of c] bucket_word buckets_apart [of c b]) simp_all
    then have "c \<noteq> b \<Longrightarrow> cstring m' (bucket_at db c) (tab ! c)" using c(1) cstring_cong by metis
    then show "cstring m' (bucket_at db c) (tab[b := s] ! c)" "length (tab[b := s] ! c) < BUCKET_SIZE"
      using assms(3,4) c(2) len assms(2) by (cases "c = b"; simp)+
  qed
  then show ?thesis using assms(1) by (simp add: db_rep_def map_update)
qed

lemma data_len_in_range:
  assumes "db_rep m db data_len tab" and "b < N_BUCKETS"
  shows "data_len_at data_len (int b) = Inr (int (length (tab ! b)))"
  using assms by (simp add: data_len_at_def db_rep_def)

lemma store_u16_mapped:
  "m a \<noteq> None \<Longrightarrow> m (a + 1) \<noteq> None \<Longrightarrow>
    store_u16 m a v = Inr (m(a \<mapsto> ucast v, a + 1 \<mapsto> ucast (drop_bit 8 v)))"
  by (simp add: store_u16_def)

subsection \<open>Each request\<close>

lemma inside_mono: "inside x a n \<Longrightarrow> n \<le> k \<Longrightarrow> inside x a k"
  by (simp add: inside_def)

lemma ipc_byte:
  assumes "i < BUCKET_SIZE"
  shows "inside (ipc + of_nat i) (ipc :: addr) BUCKET_SIZE"
  using assms unat_offset [of i ipc] by (simp add: inside_def)

lemma bucket_not_ipc:
  "codis_layout m db ipc \<Longrightarrow> b < N_BUCKETS \<Longrightarrow> inside x (bucket_at db b) BUCKET_SIZE \<Longrightarrow>
    \<not> inside x ipc BUCKET_SIZE"
  using ipc_not_db bucket_byte by blast

lemma db_rep_ipc:
  assumes "codis_layout m db ipc" and "db_rep m db data_len tab"
    and "\<And>x. \<not> inside x ipc BUCKET_SIZE \<Longrightarrow> m' x = m x"
  shows "db_rep m' db data_len tab"
proof (rule db_rep_cong [OF assms(2)])
  fix x assume "inside x db (N_BUCKETS * BUCKET_SIZE)"
  then have "\<not> inside x ipc BUCKET_SIZE" using ipc_not_db [OF assms(1)] by blast
  then show "m' x = m x" by (rule assms(3))
qed

lemma codis_read_refines:
  assumes "codis_layout m db ipc" and "db_rep m db data_len tab" and "b < N_BUCKETS"
  shows "\<exists>m'. codis_read db ipc (int b) (m, data_len) = Some (Inr (m', data_len)) \<and>
    db_rep m' db data_len tab \<and> cstring m' ipc (tab ! b) \<and> codis_frame m m' db ipc"
proof -
  let ?s = "tab ! b" and ?m = "overwrite m ipc (tab ! b @ [0])"
  have s: "cstring m (bucket_at db b) ?s" "length ?s < BUCKET_SIZE"
    using assms(2,3) by (simp_all add: db_rep_def)
  have mp: "mapped m ipc (Suc (length ?s))"
    using assms(1) s(2) by (auto simp: codis_layout_def intro: mapped_mono)
  have "\<not> inside (bucket_at db b + of_nat i) ipc (Suc (length ?s))" if "i \<le> length ?s" for i
  proof -
    have "inside (bucket_at db b + of_nat i) (bucket_at db b) BUCKET_SIZE"
      using that s(2) by (intro bucket_word) simp
    from bucket_not_ipc [OF assms(1,3) this] show ?thesis using inside_mono s(2) by fastforce
  qed
  then have "strcpy m ipc (bucket_at db b) = Some (Inr (?m, ipc))"
    using strcpy_spec [OF s(1) mp] s(2) by simp
  moreover have "unat (word_of_int (int (length ?s) + 1) :: addr) = Suc (length ?s)"
  proof -
    have "word_of_int (int (length ?s) + 1) = (of_nat (Suc (length ?s)) :: addr)" by simp
    moreover have "unat (of_nat (Suc (length ?s)) :: addr) = Suc (length ?s)"
      unfolding unat_of_nat using s(2) by simp
    ultimately show ?thesis by (simp only:)
  qed
  ultimately have "codis_read db ipc (int b) (m, data_len) = Some (Inr (?m, data_len))"
    by (simp add: codis_read_def data_len_in_range [OF assms(2,3)] bucket_vaddr strncpy_eq)
  moreover have out: "?m x = m x" if "\<not> inside x ipc BUCKET_SIZE" for x
    using that s(2) by (intro overwrite_out) (auto dest: inside_mono [of x ipc _ BUCKET_SIZE])
  have "db_rep ?m db data_len tab" by (rule db_rep_ipc [OF assms(1,2) out])
  moreover have "codis_frame m ?m db ipc"
    using overwrite_dom [of m ipc "?s @ [0]"] mp s(2) out by (auto simp: codis_frame_def)
  moreover have "cstring ?m ipc ?s"
    using s by (intro overwrite_cstring) (auto simp: cstring_def)
  ultimately show ?thesis by blast
qed

text \<open>Storing the answer of 16 bits leaves the database alone.\<close>

lemma store_reply:
  assumes "codis_layout m db ipc" and "dom m1 = dom m"
  shows "\<exists>m'. store_u16 m1 ipc v = Inr m' \<and> dom m' = dom m \<and>
    m' ipc = Some (ucast v) \<and> m' (ipc + 1) = Some (ucast (drop_bit 8 v)) \<and>
    (\<forall>x. \<not> inside x ipc BUCKET_SIZE \<longrightarrow> m' x = m1 x)"
proof -
  have "inside ipc ipc BUCKET_SIZE" "inside (ipc + 1) ipc BUCKET_SIZE"
    using ipc_byte [of 0 ipc] ipc_byte [of 1 ipc] by simp_all
  moreover have "m ipc \<noteq> None" "m (ipc + 1) \<noteq> None"
    using assms(1) mapped_iff_inside [of BUCKET_SIZE m ipc] calculation by (auto simp: codis_layout_def)
  then have "ipc \<in> dom m1" "ipc + 1 \<in> dom m1" using assms(2) by auto
  ultimately show ?thesis
    using store_u16_mapped [of m1 ipc v] assms(2) by (auto simp: dom_def)
qed

lemma codis_delete_refines:
  assumes "codis_layout m db ipc" and "db_rep m db data_len tab" and "b < N_BUCKETS"
  shows "\<exists>m' data_len'. codis_delete db ipc (int b) (m, data_len) = Some (Inr (m', data_len')) \<and>
    db_rep m' db data_len' (tab[b := []]) \<and> replied m m' ipc (Reply_u16 1) \<and> codis_frame m m' db ipc"
proof -
  let ?a = "bucket_at db b" and ?m = "m(bucket_at db b \<mapsto> 0)"
  have a: "inside ?a ?a BUCKET_SIZE" using bucket_word [of 0 db b] by simp
  then have "?a \<in> dom m"
    using bucket_mapped [OF assms(1,3)] mapped_iff_inside [of BUCKET_SIZE m ?a] by auto
  then have st: "store_byte m ?a 0 = Inr ?m" and dm: "dom ?m = dom m" by auto
  obtain m' where m': "store_u16 ?m ipc 1 = Inr m'" "dom m' = dom m" "m' ipc = Some 1" "m' (ipc + 1) = Some 0"
    "\<And>x. \<not> inside x ipc BUCKET_SIZE \<Longrightarrow> m' x = ?m x"
    using store_reply [OF assms(1) dm, of 1] by auto
  have "m' ?a = Some 0" using m'(5) bucket_not_ipc [OF assms(1,3) a] by simp
  then have "cstring m' ?a []" by (simp add: cstring_simps)
  moreover have "m' x = m x"
    if "inside x db (N_BUCKETS * BUCKET_SIZE)" "\<not> inside x ?a BUCKET_SIZE" for x
  proof -
    have "x \<noteq> ?a" using that(2) a by metis
    moreover have "\<not> inside x ipc BUCKET_SIZE" using ipc_not_db [OF assms(1)] that(1) by blast
    ultimately show ?thesis using m'(5) by simp
  qed
  ultimately have "db_rep m' db (data_len[b := int (length ([] :: 8 word list))]) (tab[b := []])"
    by (intro db_rep_update [OF assms(2,3)]) auto
  moreover have "codis_frame m m' db ipc"
    using m'(2,5) bucket_byte [OF assms(3) a] by (auto simp: codis_frame_def)
  ultimately show ?thesis
    using m'(1,3,4) st data_len_in_range [OF assms(2,3)]
    by (simp add: codis_delete_def bucket_vaddr replied_def)
qed

lemma codis_append_refines:
  assumes "codis_layout m db ipc" and "db_rep m db data_len tab" and "b < N_BUCKETS"
    and "cstring m (ipc + 2) s" and "length s < APPEND_CMD_MAX_PAYLOAD_LEN"
  shows "\<exists>m' data_len'. codis_append db ipc (int b) (m, data_len) = Some (Inr (m', data_len')) \<and>
    db_rep m' db data_len' (fst (codis_spec b (Append s) tab)) \<and>
    replied m m' ipc (snd (codis_spec b (Append s) tab)) \<and> codis_frame m m' db ipc"
proof -
  let ?t = "tab ! b" and ?a = "bucket_at db b" and ?n = "length (tab ! b) + length s"
  have t: "cstring m ?a ?t" "length ?t < BUCKET_SIZE" and ls: "length s < 4094"
    using assms(2,3,5) by (simp_all add: db_rep_def APPEND_CMD_MAX_PAYLOAD_LEN_def)
  have mp: "mapped m (ipc + 2) 4094"
    using mapped_sub [of m ipc BUCKET_SIZE 2 4094] assms(1) by (simp add: codis_layout_def)
  have input: "strnlen m (ipc + 2) 4094 = Inr (length s)"
    using strnlen_cstring [OF assms(4) mp] assms(1) ls by (simp add: codis_layout_def min_def)
  show ?thesis
  proof (cases "?n < BUCKET_SIZE")
    case False
    obtain m' where m': "store_u16 m ipc 0 = Inr m'" "dom m' = dom m" "m' ipc = Some 0" "m' (ipc + 1) = Some 0"
      "\<And>x. \<not> inside x ipc BUCKET_SIZE \<Longrightarrow> m' x = m x"
      using store_reply [OF assms(1) refl, of 0] by auto
    have "db_rep m' db data_len tab" by (rule db_rep_ipc [OF assms(1,2) m'(5)])
    moreover have "codis_frame m m' db ipc" using m'(2,5) by (auto simp: codis_frame_def)
    ultimately show ?thesis
      using False m'(1,3,4) input data_len_in_range [OF assms(2,3)]
      by (simp add: codis_append_def Let_def COMMAND_DATA_START_IDX_def APPEND_CMD_MAX_PAYLOAD_LEN_def
          replied_def)
  next
    case True
    let ?d = "?a + of_nat (length ?t)"
    let ?m = "overwrite m ?d (s @ [0])"
    have bm: "mapped m ?a BUCKET_SIZE" by (rule bucket_mapped [OF assms(1,3)])
    have dm: "mapped m ?d (Suc (length s))" by (rule mapped_sub [OF bm]) (use True in simp)
    have in_bucket: "inside x ?a BUCKET_SIZE" if "inside x ?d (Suc (length s))" for x
      by (rule inside_sub [OF that]) (use True in simp_all)
    have "\<not> inside (ipc + 2 + of_nat i) ?d (Suc (length s))" if "i \<le> length s" for i
    proof -
      have "inside (ipc + 2 + of_nat i) ipc BUCKET_SIZE"
        using ipc_byte [of "i + 2" ipc] that ls by (simp add: add_ac)
      then show ?thesis using in_bucket bucket_not_ipc [OF assms(1,3)] by blast
    qed
    then have cat: "strcat m ?a (ipc + 2) = Some (Inr (?m, ?a))" "cstring ?m ?a (?t @ s)"
      using strcat_spec [OF t(1) assms(4) _ dm] assms(1) True by (auto simp: codis_layout_def)
    have dom: "dom ?m = dom m" using overwrite_dom [of m ?d "s @ [0]"] dm ls by simp
    obtain m' where m': "store_u16 ?m ipc (of_nat ?n) = Inr m'" "dom m' = dom m"
      "m' ipc = Some (ucast (of_nat ?n :: 16 word))"
      "m' (ipc + 1) = Some (ucast (drop_bit 8 (of_nat ?n :: 16 word)))"
      "\<And>x. \<not> inside x ipc BUCKET_SIZE \<Longrightarrow> m' x = ?m x"
      using store_reply [OF assms(1) dom, of "of_nat ?n"] by auto
    have "m' (?a + of_nat i) = ?m (?a + of_nat i)" if "i \<le> length (?t @ s)" for i
      using that True bucket_not_ipc [OF assms(1,3)] bucket_word [of i db b] by (intro m'(5)) simp
    then have "cstring m' ?a (?t @ s)" using cat(2) cstring_cong by metis
    moreover have out: "?m x = m x" if "\<not> inside x ?a BUCKET_SIZE" for x
      using that in_bucket by (intro overwrite_out) auto
    have "m' x = m x" if "inside x db (N_BUCKETS * BUCKET_SIZE)" "\<not> inside x ?a BUCKET_SIZE" for x
    proof -
      have "\<not> inside x ipc BUCKET_SIZE" using ipc_not_db [OF assms(1)] that(1) by blast
      then show ?thesis using m'(5) out [OF that(2)] by simp
    qed
    ultimately have "db_rep m' db (data_len[b := int (length (?t @ s))]) (tab[b := ?t @ s])"
      using True by (intro db_rep_update [OF assms(2,3)]) auto
    moreover have "m' x = m x" if "\<not> inside x ipc BUCKET_SIZE" "\<not> inside x db (N_BUCKETS * BUCKET_SIZE)" for x
    proof -
      have "\<not> inside x ?a BUCKET_SIZE" using bucket_byte [OF assms(3)] that(2) by blast
      then show ?thesis using m'(5) [OF that(1)] out by simp
    qed
    then have "codis_frame m m' db ipc" using m'(2) by (simp add: codis_frame_def)
    moreover have "word_of_int (int (length ?t) + int (length s)) = (of_nat ?n :: 16 word)" by simp
    ultimately show ?thesis
      using True m'(1,3,4) input cat(1) data_len_in_range [OF assms(2,3)]
      by (simp add: codis_append_def Let_def COMMAND_DATA_START_IDX_def APPEND_CMD_MAX_PAYLOAD_LEN_def
          bucket_vaddr replied_def)
  qed
qed

text \<open>One request, whichever it is.\<close>

lemma client_handler_request_refines:
  assumes "codis_layout m db ipc" and "db_rep m db data_len tab" and "requests m ipc csgn b req"
  shows "\<exists>m' data_len'. client_handler_request csgn db ipc (m, data_len) = Some (Inr (m', data_len')) \<and>
    db_rep m' db data_len' (fst (codis_spec b req tab)) \<and>
    replied m m' ipc (snd (codis_spec b req tab)) \<and> codis_frame m m' db ipc"
proof -
  have b: "b < N_BUCKETS" "m (ipc + 1) = Some (of_nat b)" and bi: "char_int csgn (of_nat b) = int b"
    using assms(3) char_int_bucket by (auto simp: requests_def)
  have small: "char_int csgn 0 = 0" "char_int csgn 1 = 1" "char_int csgn 2 = 2"
    by (simp_all add: char_int_def)
  have char_inj: "char_int csgn x = char_int csgn y \<longleftrightarrow> x = y" for x y
    unfolding char_int_def by (cases csgn) (simp_all flip: word_eq_iff_signed word_uint_eq_iff)
  note start = client_handler_request_def protocol_defs small
  show ?thesis
  proof (cases req)
    case Read
    then have "m ipc = Some 0" using assms(3) by (simp add: requests_def)
    then show ?thesis
      using codis_read_refines [OF assms(1,2) b(1)] b(2) bi Read by (auto simp: start replied_def)
  next
    case (Append s)
    then have "m ipc = Some 1" "cstring m (ipc + 2) s" "length s < APPEND_CMD_MAX_PAYLOAD_LEN"
      using assms(3) by (simp_all add: requests_def)
    then show ?thesis
      using codis_append_refines [OF assms(1,2) b(1), of s] b(2) bi Append
      by (simp add: start del: codis_spec.simps)
  next
    case Delete
    then have "m ipc = Some 2" using assms(3) by (simp add: requests_def)
    then show ?thesis
      using codis_delete_refines [OF assms(1,2) b(1)] b(2) bi Delete by (simp add: start)
  next
    case Unknown
    then obtain c where c: "m ipc = Some c" "c \<noteq> 0" "c \<noteq> 1" "c \<noteq> 2"
      using assms(3) by (auto simp: requests_def)
    then have "char_int csgn c \<noteq> 0" "char_int csgn c \<noteq> 1" "char_int csgn c \<noteq> 2"
      using char_inj [of c 0] char_inj [of c 1] char_inj [of c 2] small by auto
    then show ?thesis
      using assms(2) c(1) b(2) Unknown by (simp add: start replied_def codis_frame_def)
  qed
qed

text \<open>A memory of zeroes.\<close>

definition zero_bytes :: "addr \<Rightarrow> 8 word option" where
  "zero_bytes = (\<lambda>_. Some 0)"

subsection \<open>Requests the handler does not check\<close>

lemma char_int_255: "char_int csgn 255 < 0 \<or> char_int csgn 255 = 255"
  by (simp add: char_int_def)

lemma data_len_255:
  "length data_len = N_BUCKETS \<Longrightarrow> data_len_at data_len (char_int csgn 255) = Inl OutOfBounds"
  using char_int_255 [of csgn] by (auto simp: data_len_at_def)

subsection \<open>An example\<close>

text \<open>
  The database of zeroes is the empty table. The request at \<open>0x2011000\<close>: append a string of
  one byte to bucket 3.
\<close>

definition codis_demo_db :: addr where "codis_demo_db = 0x3000000"
definition codis_demo_ipc :: addr where "codis_demo_ipc = 0x2011000"

definition codis_demo :: "64 memory" where
  "codis_demo = zero_bytes(codis_demo_ipc \<mapsto> 1, codis_demo_ipc + 1 \<mapsto> 3, codis_demo_ipc + 2 \<mapsto> 65)"

lemma codis_demo_layout:
  assumes "dom m = UNIV"
  shows "codis_layout m codis_demo_db codis_demo_ipc"
proof -
  have "mapped m a n" for a n using assms by (auto simp: mapped_def dom_def)
  then show ?thesis
    by (simp add: codis_layout_def words_mapped_def apart_def codis_demo_db_def codis_demo_ipc_def)
qed

lemma codis_demo_rep: "db_rep codis_demo codis_demo_db (replicate N_BUCKETS 0) (replicate N_BUCKETS [])"
proof -
  have ipc: "bucket_at codis_demo_db b \<noteq> codis_demo_ipc + of_nat i" if "b < N_BUCKETS" "i < BUCKET_SIZE" for b i
    using bucket_not_ipc [OF codis_demo_layout [of "\<lambda>_. Some 0"] that(1) bucket_word [of 0]]
      ipc_byte [OF that(2), of codis_demo_ipc] by (auto simp: dom_def)
  have "codis_demo (bucket_at codis_demo_db b) = Some 0" if "b < N_BUCKETS" for b
    using ipc [OF that, of 0] ipc [OF that, of 1] ipc [OF that, of 2]
    by (simp add: codis_demo_def zero_bytes_def)
  then show ?thesis by (simp add: db_rep_def cstring_simps map_replicate_const)
qed

text \<open>
  A page full of ones, but for the bucket number 0, with an unmapped page behind it.
\<close>

definition codis_guarded :: "64 memory" where
  "codis_guarded x =
     (if unat x div 4096 = 0x2012 then None
      else if x \<noteq> codis_demo_ipc + 1 \<and> unat x div 4096 = 0x2011 then Some 1 else Some 0)"

lemma codis_guarded_page:
  "i < BUCKET_SIZE \<Longrightarrow> codis_guarded (codis_demo_ipc + of_nat i) = Some (if i = 1 then 0 else 1)"
proof -
  assume i: "i < BUCKET_SIZE"
  have "unat (codis_demo_ipc + of_nat i) = 0x2011000 + i"
    using i by (simp add: codis_demo_ipc_def unat_word_ariths unat_of_nat)
  moreover from this have "codis_demo_ipc + of_nat i = codis_demo_ipc + 1 \<longleftrightarrow> i = 1"
    by (simp add: codis_demo_ipc_def word_unat_eq_iff)
  moreover have "(0x2011000 + i) div 4096 = 0x2011" by (rule div_nat_eqI) (use i in simp_all)
  ultimately show ?thesis using i by (simp add: codis_guarded_def)
qed

lemma codis_guarded_end: "codis_guarded (codis_demo_ipc + 0x1000) = None"
  by (simp add: codis_guarded_def codis_demo_ipc_def)

lemma codis_guarded_db:
  "i < N_BUCKETS * BUCKET_SIZE \<Longrightarrow> codis_guarded (codis_demo_db + of_nat i) = Some 0"
proof -
  assume i: "i < N_BUCKETS * BUCKET_SIZE"
  have n: "unat (codis_demo_db + of_nat i) = 0x3000000 + i"
    using i by (simp add: codis_demo_db_def unat_word_ariths unat_of_nat)
  have "0x3000 \<le> (0x3000000 + i) div 4096" by simp
  then show ?thesis unfolding codis_guarded_def n by simp
qed

lemma codis_guarded_words: "words_mapped codis_guarded"
  unfolding words_mapped_def mapped_def
proof (intro allI impI, elim conjE, rule notI)
  fix w i assume w: "w mod 8 = 0" "codis_guarded w \<noteq> None" and i: "i < (8 :: nat)"
    and none: "codis_guarded (w + of_nat i) = None"
  have "unat (w mod 8) = unat (0 :: addr)" using w(1) by (simp only:)
  then have "unat w mod 8 = 0" unfolding unat_mod_distrib by simp
  then obtain q where q: "unat w = 8 * q" by (auto elim!: dvdE simp: mod_eq_0_iff_dvd)
  have "unat w < 2 ^ 64" using unsigned_less [where ?'a = nat, of w] by simp
  then have "8 * q + i < 2 ^ 64" using q i by simp
  then have "unat (w + of_nat i) = 8 * q + i" using q i by (simp add: unat_word_ariths unat_of_nat)
  moreover have "(8 * q + i) div 4096 = unat w div 4096"
  proof -
    have "(8 * q + i) div 4096 = (8 * q + i) div 8 div 512" by (simp flip: div_mult2_eq)
    moreover have "(8 * q + i) div 8 = q" using i by simp
    moreover have "unat w div 4096 = unat w div 8 div 512" by (simp flip: div_mult2_eq)
    ultimately show ?thesis by (simp add: q)
  qed
  ultimately show False using none w(2) by (simp add: codis_guarded_def split: if_splits)
qed

lemma codis_guarded_layout: "codis_layout codis_guarded codis_demo_db codis_demo_ipc"
  using codis_guarded_words codis_guarded_page codis_guarded_db
  by (simp add: codis_layout_def mapped_def apart_def codis_demo_db_def codis_demo_ipc_def)

lemma codis_guarded_rep:
  "db_rep codis_guarded codis_demo_db (replicate N_BUCKETS 0) (replicate N_BUCKETS [])"
proof -
  have "codis_guarded (bucket_at codis_demo_db b) = Some 0" if "b < N_BUCKETS" for b
    unfolding bucket_at_def by (rule codis_guarded_db) (use that in simp)
  then show ?thesis by (simp add: db_rep_def cstring_simps map_replicate_const)
qed

subsection \<open>Properties\<close>

text \<open>
  C31: The request handler of the Codis server implements a table of 255 strings: for every
  well-formed request in the page shared with the client it returns, with the database and
  the answer in the shared page as the table says, and no other memory changed.
\<close>

theorem server_request:
  assumes "codis_layout m db ipc" and "db_rep m db data_len tab" and "requests m ipc csgn b req"
  shows "\<exists>m' data_len'. client_handler_request csgn db ipc (m, data_len) = Some (Inr (m', data_len')) \<and>
    db_rep m' db data_len' (fst (codis_spec b req tab)) \<and>
    replied m m' ipc (snd (codis_spec b req tab)) \<and> codis_frame m m' db ipc"
  using assms by (rule client_handler_request_refines)

theorem server_request_witness:
  "\<exists>m' data_len'. client_handler_request False codis_demo_db codis_demo_ipc
      (codis_demo, replicate N_BUCKETS 0) = Some (Inr (m', data_len')) \<and>
    db_rep m' codis_demo_db data_len' ((replicate N_BUCKETS [])[3 := [65]]) \<and>
    m' codis_demo_ipc = Some 1"
proof -
  have "codis_layout codis_demo codis_demo_db codis_demo_ipc"
    by (rule codis_demo_layout) (auto simp: codis_demo_def zero_bytes_def)
  moreover have "requests codis_demo codis_demo_ipc False 3 (Append [65])"
    by (simp add: requests_def codis_demo_def zero_bytes_def cstring_simps APPEND_CMD_MAX_PAYLOAD_LEN_def
        codis_demo_ipc_def)
  ultimately show ?thesis
    using server_request [OF _ codis_demo_rep, of codis_demo_ipc False 3 "Append [65]"]
    by (auto simp: replied_def)
qed

text \<open>
  The bucket number of a request is not checked: bucket 255 of a read or delete request
  indexes the array of lengths outside its bounds, whether \<open>char\<close> is signed or not.
\<close>

theorem server_bucket_unchecked:
  assumes "length data_len = N_BUCKETS" and "m ipc = Some c" and "c \<in> {0, 2}" and "m (ipc + 1) = Some 255"
  shows "client_handler_request csgn db ipc (m, data_len) = Some (Inl OutOfBounds)"
proof -
  have "char_int csgn 0 = 0" "char_int csgn 2 = 2" by (simp_all add: char_int_def)
  then show ?thesis
    using assms data_len_255 [OF assms(1), of csgn]
    by (auto simp: client_handler_request_def protocol_defs codis_read_def codis_delete_def)
qed

theorem server_bucket_unchecked_example:
  "client_handler_request True codis_demo_db codis_demo_ipc
     (zero_bytes(codis_demo_ipc + 1 \<mapsto> 255), replicate N_BUCKETS 0) = Some (Inl OutOfBounds)"
  by (rule server_bucket_unchecked [where c = 0]) (simp_all add: zero_bytes_def)

text \<open>
  C32: A client can stop the server with a request that fills its page without a terminator:
  \<open>strnlen\<close> bounds the length that is checked, but \<open>strcat\<close> copies on to the guard page
  behind the shared page and faults there.
\<close>

theorem server_unterminated_append:
  assumes "codis_layout m db ipc" and "db_rep m db data_len tab" and "tab ! b = []"
    and "m ipc = Some 1" and "m (ipc + 1) = Some (of_nat b)" and "b < N_BUCKETS" and "csgn \<longrightarrow> b < 0x80"
    and "\<forall>i<APPEND_CMD_MAX_PAYLOAD_LEN. m (ipc + 2 + of_nat i) \<noteq> Some 0"
    and "m (ipc + of_nat BUCKET_SIZE) = None"
  shows "client_handler_request csgn db ipc (m, data_len) = Some (Inl (VMFault (ipc + of_nat BUCKET_SIZE)))"
proof -
  let ?a = "bucket_at db b"
  have mp: "mapped m (ipc + 2) 4094"
    using mapped_sub [of m ipc BUCKET_SIZE 2 4094] assms(1) by (simp add: codis_layout_def)
  obtain k where "k \<le> 4094" "strnlen m (ipc + 2) 4094 = Inr k" "k < 4094 \<longrightarrow> m (ipc + 2 + of_nat k) = Some 0"
    using strnlen_spec [OF mp] assms(1) by (auto simp: codis_layout_def)
  then have input: "strnlen m (ipc + 2) 4094 = Inr 4094"
    using assms(8) by (cases "k < 4094") (auto simp: APPEND_CMD_MAX_PAYLOAD_LEN_def)
  have "cstring m ?a []" using assms(2,3,6) by (metis db_rep_def)
  then have len: "strlen m ?a = Some (Inr 0)"
    using strlen_spec [of m ?a "[]"] assms(1) by (simp add: codis_layout_def)
  have "\<exists>b. m (ipc + 2 + of_nat i) = Some b \<and> b \<noteq> 0" if "i < 4094" for i
    using that mp assms(8) by (auto simp: mapped_def APPEND_CMD_MAX_PAYLOAD_LEN_def)
  moreover have "mapped m ?a 4094"
    by (rule mapped_mono [OF bucket_mapped [OF assms(1,6)]]) simp
  moreover have "\<not> inside (ipc + 2 + of_nat i) ?a 4094" if "i < 4094" for i
  proof -
    have "inside (ipc + 2 + of_nat i) ipc BUCKET_SIZE"
      using ipc_byte [of "i + 2" ipc] that by (simp add: add_ac)
    then show ?thesis using bucket_not_ipc [OF assms(1,6)] inside_mono [of _ ?a 4094 BUCKET_SIZE] by auto
  qed
  moreover have fin: "ipc + 2 + of_nat 4094 = ipc + of_nat BUCKET_SIZE" by simp
  ultimately have "strcpy_loop m ?a (ipc + 2) = Some (Inl (VMFault (ipc + of_nat BUCKET_SIZE)))"
    using strcpy_loop_fault [of 4094 m "ipc + 2" ?a, unfolded fin] assms(9) by simp
  then have "strcat m ?a (ipc + 2) = Some (Inl (VMFault (ipc + of_nat BUCKET_SIZE)))"
    using len by (simp add: strcat_def strcpy_def)
  moreover have "char_int csgn (of_nat b) = int b" "char_int csgn 1 = 1"
    using char_int_bucket [OF assms(6,7)] by (simp_all add: char_int_def)
  ultimately show ?thesis
    using assms(3-5) input data_len_in_range [OF assms(2,6)]
    by (simp add: client_handler_request_def protocol_defs codis_append_def bucket_vaddr)
qed

theorem server_unterminated_append_witness:
  "client_handler_request False codis_demo_db codis_demo_ipc (codis_guarded, replicate N_BUCKETS 0)
     = Some (Inl (VMFault 0x2012000))"
proof -
  have full: "codis_guarded (codis_demo_ipc + 2 + of_nat i) \<noteq> Some 0"
    if "i < APPEND_CMD_MAX_PAYLOAD_LEN" for i
    using that codis_guarded_page [of "i + 2"] by (simp add: APPEND_CMD_MAX_PAYLOAD_LEN_def add_ac)
  then show ?thesis
    using server_unterminated_append [OF codis_guarded_layout codis_guarded_rep, of 0 False]
      codis_guarded_page [of 0] codis_guarded_page [of 1] codis_guarded_end
    by (simp add: codis_demo_ipc_def)
qed

end
