(* ===== verification/CoClient.thy ===== *)
theory CoClient
  imports CoDemo CString
begin

text \<open>
  Programs that use the library. A protection domain runs one context at a time: the code
  of a cothread runs from the point where it last gave the processor away to its next call
  that may do so, and then the context the library switched to goes on. \<open>run_until_root\<close> is
  this alternation, up to the point where the root thread executes again.

  A program is a state with a \<open>pd\<close> in it, a function that runs one cothread to its next
  call, and the handlers \<open>init\<close> and \<open>notified\<close> of the Microkit, which run in the root thread.
  The locale \<open>event_loop\<close> is the contract of such a program towards its event loop.
\<close>

subsection \<open>Alternation of contexts\<close>

partial_function (option) run_until_root ::
    "('s \<Rightarrow> pd) \<Rightarrow> (microkit_cothread_ref_t \<Rightarrow> 's \<Rightarrow> (fault + 's) option) \<Rightarrow> 's \<Rightarrow> (fault + 's) option" where
  "run_until_root pd_of resume s =
     (case microkit_cothread_my_handle (pd_of s) of
        Inl e \<Rightarrow> Some (Inl e)
      | Inr h \<Rightarrow> if h = LIBMICROKITCO_ROOT_THREAD then Some (Inr s)
          else Option.bind (resume h s) (\<lambda>r. case r of
             Inl e \<Rightarrow> Some (Inl e)
           | Inr s' \<Rightarrow> run_until_root pd_of resume s'))"

lemma run_root:
  assumes "refines cfg a (pd_of s)" and "sp_running a = 0"
  shows "run_until_root pd_of resume s = Some (Inr s)"
  using my_handle_refines [OF assms(1)] assms(2) by (subst run_until_root.simps) simp

lemma run_cothread:
  assumes "refines cfg a (pd_of s)" and "sp_running a \<noteq> 0" and "resume (sp_running a) s = Some (Inr s')"
  shows "run_until_root pd_of resume s = run_until_root pd_of resume s'"
  using my_handle_refines [OF assms(1)] assms(2,3) by (subst run_until_root.simps) simp

subsection \<open>Programs and their event loop\<close>

fun run_events :: "('e \<Rightarrow> 's \<Rightarrow> (fault + 's) option) \<Rightarrow> 'e list \<Rightarrow> 's \<Rightarrow> (fault + 's) option" where
  "run_events handle [] s = Some (Inr s)"
| "run_events handle (e # es) s = bindP (handle e s) (run_events handle es)"

text \<open>
  A program is idle when the root thread is in the event loop and every cothread blocked.
  From there every event that may occur is handled, and the program is idle again.
\<close>

locale event_loop =
  fixes idle :: "'a \<Rightarrow> 's \<Rightarrow> bool"
    and may_occur :: "'a \<Rightarrow> 'e \<Rightarrow> bool"
    and effect :: "'e \<Rightarrow> 'a \<Rightarrow> 'a"
    and handle :: "'e \<Rightarrow> 's \<Rightarrow> (fault + 's) option"
  assumes handled: "idle a s \<Longrightarrow> may_occur a e \<Longrightarrow> \<exists>s'. handle e s = Some (Inr s') \<and> idle (effect e a) s'"
begin

lemma events_handled:
  "idle a s \<Longrightarrow> run_allowed may_occur effect es a \<Longrightarrow>
    \<exists>s'. run_events handle es s = Some (Inr s') \<and> idle (run_spec effect es a) s'"
proof (induction es arbitrary: a s)
  case Nil
  then show ?case by simp
next
  case (Cons e es)
  then obtain s1 where "handle e s = Some (Inr s1)" "idle (effect e a) s1"
    using handled [of a s e] by auto
  with Cons.IH [of "effect e a" s1] Cons.prems(2) show ?case by simp
qed

text \<open>Nothing else happens: whatever the handlers return is the one idle state.\<close>

lemma events_determined:
  assumes "idle a s" and "run_allowed may_occur effect es a" and "run_events handle es s = r"
  obtains s' where "r = Some (Inr s')" "idle (run_spec effect es a) s'"
  using events_handled [OF assms(1,2)] assms(3) by blast

end

subsection \<open>Memory of the program\<close>

text \<open>
  The program may write its memory, the library keeps working; the calls that switch leave
  it alone.
\<close>

lemma refines_mem:
  assumes "refines cfg a s" and "dom m = dom (pd_mem s)"
  shows "refines cfg a (s\<lparr>pd_mem := m\<rparr>)"
proof -
  obtain c where c: "spec_ok (max_cothreads cfg) a" "co_controller s = Some c" "ctl_rel cfg a c"
    "sems_rel cfg a s c" "stacks_ok cfg (pd_mem s) c" "handles_ok cfg a c"
    "co_active_handle s = co_handle (tcb c (running c))" using refinesE [OF assms(1)] by blast
  have "sems_rel cfg a (s\<lparr>pd_mem := m\<rparr>) c"
    using c(4) by (simp add: sems_rel_def sem_view_def cong: sem_ptr.case_cong)
  moreover have "stacks_ok cfg m c"
    by (rule stacks_ok_cong [OF c(5) _ assms(2)]) (simp add: same_core_def)
  ultimately show ?thesis using c by (auto simp: refines_def)
qed

lemma call_scheduling:
  assumes "refines cfg a s" and "allowed cfg a call"
    and "\<forall>e x. call \<noteq> Call_spawn e x" and "\<forall>h x. call \<noteq> Call_set_arg h x"
  shows "\<exists>s'. api cfg call s = Inr s' \<and> refines cfg (spec_api call a) s' \<and> same_world s s'"
  using api_refines [OF assms(1,2)] same_world_call [OF _ assms(3,4)] by blast

lemma same_world_stacks:
  assumes "same_world s s'" and "stacks_are cfg sz sts s" and "refines cfg a s"
  shows "stacks_are cfg sz sts s'"
proof -
  obtain c where c: "co_controller s = Some c" "unat (co_stack_size c) = unat sz"
    "\<forall>h. 1 \<le> h \<and> h < int (max_cothreads cfg) \<longrightarrow> local_storage (tcb c h) = sts ! (nat h - 1)"
    using assms(2) by (auto simp: stacks_are_def)
  obtain d where "co_controller s = Some d" "ctl_rel cfg a d" using refinesE [OF assms(3)] by blast
  then have rel: "ctl_rel cfg a c" using c(1) by simp
  obtain c' where c': "co_controller s' = Some c'" "co_stack_size c' = co_stack_size c"
    using assms(1) c(1) by (auto simp: same_world_def pd_cores_def cores_def)
  have "local_storage (tcb c' h) = local_storage (tcb c h)" if h: "1 \<le> h" "h < int (max_cothreads cfg)" for h
  proof -
    have "valid_ref c h" using h by (simp add: ctl_rel_valid [OF rel])
    from same_world_tcb [OF assms(1) c(1) this] have "core (tcb c' h) = core (tcb c h)"
      using c(1) c'(1) by (simp add: pd_tcb_def)
    from core_eqD(1) [OF this] show ?thesis .
  qed
  then show ?thesis using c c' by (auto simp: stacks_are_def)
qed

text \<open>The arguments of the cothreads outlive every scheduling call.\<close>

lemma ready_handle:
  assumes "refines cfg a s" and "h \<in> set (sp_running a # sp_ready a)"
  shows "0 \<le> h \<and> h < int (max_cothreads cfg)"
proof -
  have "spec_ok (max_cothreads cfg) a" using refinesE [OF assms(1)] by blast
  moreover have "h \<in> set (placed a)" using assms(2) by (auto simp: placed_def)
  ultimately show ?thesis by (rule spec_ok_range(1))
qed

lemma same_world_arg:
  assumes "refines cfg a s" and "same_world s s'" and "0 \<le> h \<and> h < int (max_cothreads cfg)"
  shows "private_arg (pd_tcb s' h) = private_arg (pd_tcb s h)"
proof -
  obtain c where c: "co_controller s = Some c" "ctl_rel cfg a c" using refinesE [OF assms(1)] by blast
  have "valid_ref c h" using assms(3) by (simp add: ctl_rel_valid [OF c(2)])
  from core_eqD(4) [OF same_world_tcb [OF assms(2) c(1) this]] show ?thesis .
qed

subsection \<open>Spawning\<close>

definition in_stacks :: "addr \<Rightarrow> addr list \<Rightarrow> addr \<Rightarrow> bool" where
  "in_stacks sz sts x \<longleftrightarrow> (\<exists>st\<in>set sts. inside x st (unat sz))"

lemma spawn_frame:
  assumes "spawned cfg entry arg h s s'" and "stacks_are cfg sz sts s" and "1 \<le> h" "h < int (max_cothreads cfg)"
    and "length sts = max_cothreads cfg - 1"
  shows "stacks_are cfg sz sts s'" and "\<not> in_stacks sz sts x \<Longrightarrow> pd_mem s' x = pd_mem s x"
proof -
  obtain c c' where c: "co_controller s = Some c" "co_controller s' = Some c'"
    "local_storage (tcb c' h) = local_storage (tcb c h)" "co_stack_size c' = co_stack_size c"
    "\<forall>k\<ge>0. k \<noteq> h \<longrightarrow> tcb c' k = tcb c k"
    "\<forall>b. \<not> inside b (local_storage (tcb c h)) (unat (co_stack_size c)) \<longrightarrow> pd_mem s' b = pd_mem s b"
    using assms(1) by (auto simp: spawned_def)
  have st: "unat (co_stack_size c) = unat sz"
    "\<forall>h. 1 \<le> h \<and> h < int (max_cothreads cfg) \<longrightarrow> local_storage (tcb c h) = sts ! (nat h - 1)"
    using assms(2) c(1) by (auto simp: stacks_are_def)
  have "local_storage (tcb c' k) = local_storage (tcb c k)" if "1 \<le> k" for k
    using that c(3,5) by (cases "k = h") simp_all
  then show "stacks_are cfg sz sts s'" using st c(2,4) by (simp add: stacks_are_def)
  show "pd_mem s' x = pd_mem s x" if "\<not> in_stacks sz sts x"
  proof -
    have "sts ! (nat h - 1) \<in> set sts" using assms(3-5) by (intro nth_mem) linarith
    then show ?thesis using that c(6) st assms(3,4) by (auto simp: in_stacks_def)
  qed
qed

text \<open>\<open>spawn\<close> with a free handle, for the program: its handle, argument and memory.\<close>

lemma spawn_in_program:
  assumes "refines cfg a s" and "sp_free a = h # hs" and "entry \<noteq> 0" and "stacks_are cfg sz sts s"
    and "length sts = max_cothreads cfg - 1"
  shows "\<exists>s'. microkit_cothread_spawn cfg entry arg s = Inr (s', h) \<and>
    refines cfg (a\<lparr>sp_free := hs, sp_ready := sp_ready a @ [h]\<rparr>) s' \<and> stacks_are cfg sz sts s' \<and>
    private_arg (pd_tcb s' h) = arg \<and> (\<forall>k\<ge>0. k \<noteq> h \<longrightarrow> pd_tcb s' k = pd_tcb s k) \<and>
    dom (pd_mem s') = dom (pd_mem s) \<and> (\<forall>x. \<not> in_stacks sz sts x \<longrightarrow> pd_mem s' x = pd_mem s x)"
proof -
  obtain s' where s': "microkit_cothread_spawn cfg entry arg s = Inr (s', h)"
    "refines cfg (fst (spec_spawn a)) s'" "spawned cfg entry arg h s s'"
    using spawn_refines [OF assms(1-3)] by blast
  have ok: "spec_ok (max_cothreads cfg) a" using refinesE [OF assms(1)] by blast
  have "h \<noteq> 0" using spec_okD(1,7) [OF ok] assms(2) by (auto simp: placed_def)
  moreover have "0 \<le> h \<and> h < int (max_cothreads cfg)"
    using spec_ok_range(1) [OF ok, of h] assms(2) by (simp add: placed_def)
  ultimately have h: "1 \<le> h" "h < int (max_cothreads cfg)" by linarith+
  note frame = spawn_frame [OF s'(3) assms(4) h assms(5)]
  have "private_arg (pd_tcb s' h) = arg" "\<forall>k\<ge>0. k \<noteq> h \<longrightarrow> pd_tcb s' k = pd_tcb s k"
    "dom (pd_mem s') = dom (pd_mem s)"
    using s'(3) by (auto simp: spawned_def pd_tcb_def)
  then show ?thesis using s'(1,2) frame assms(2) by (simp add: spec_spawn_def)
qed

subsection \<open>The memory \<open>init\<close> writes\<close>

lemma memzero_loop_frame:
  assumes "memzero_loop m dst i n = Inr m'" and "\<not> inside x dst n" and "n \<le> 2 ^ LENGTH('w)"
  shows "m' (x :: 'w::len word) = m x"
  using assms
proof (induction m dst i n rule: memzero_loop.induct)
  case (1 m dst i n)
  show ?case
  proof (cases "i < n")
    case True
    then have x: "x \<noteq> dst + of_nat i" using "1.prems"(2,3) unat_offset [of i dst] by (auto simp: inside_def)
    have rest: "m (dst + of_nat i) \<noteq> None" "i \<noteq> INT_MAX"
      "memzero_loop (m(dst + of_nat i \<mapsto> 0)) dst (Suc i) n = Inr m'"
      using "1.prems"(1) True by (auto simp: memzero_loop.simps [of m dst i n] split: if_splits)
    from "1.IH" [OF True rest "1.prems"(2,3)] show ?thesis using x by simp
  next
    case False
    then show ?thesis using "1.prems"(1) by (simp add: memzero_loop.simps)
  qed
qed

lemma memzero_frame:
  assumes "memzero m dst n = Inr m'" and "\<not> inside x dst (unat n)"
  shows "m' x = m x"
  using memzero_loop_frame [OF assms(1) [unfolded memzero_def] assms(2)] unsigned_less [of n]
  by (simp add: less_imp_le)

lemma write_byte_frame: "write_byte m a v = Inr m' \<Longrightarrow> x \<noteq> a \<Longrightarrow> m' x = m x"
  by (auto simp: write_byte_def split: if_splits)

lemma init_stacks_frame:
  assumes "init_stacks sz sts is c m = Inr (c', m')" and "\<not> in_stacks sz sts x" and "0 < unat sz"
    and "\<forall>i\<in>set is. 1 \<le> i"
  shows "m' x = m x"
  using assms
proof (induction "is" arbitrary: c m)
  case Nil
  then show ?case by simp
next
  case (Cons i "is")
  let ?st = "sts ! (i - 1)"
  obtain c1 m1 m2 where m: "write_byte m ?st 0 = Inr m1" "write_byte m1 (?st + (sz - 1)) 0 = Inr m2"
    "init_stacks sz sts is c1 m2 = Inr (c', m')" "i - 1 < length sts"
    using Cons.prems(1) by (auto simp: bindR_Inr_iff Let_def split: if_splits)
  have out: "\<not> inside x ?st (unat sz)" using Cons.prems(2) m(4) by (auto simp: in_stacks_def)
  have "x \<noteq> ?st" using out Cons.prems(3) by (auto simp: inside_def)
  moreover have "x \<noteq> ?st + (sz - 1)"
  proof -
    have "sz \<noteq> 0" using Cons.prems(3) by auto
    then have "unat (sz - 1) < unat sz" using unat_minus_one [of sz] Cons.prems(3) by simp
    then show ?thesis using out by (auto simp: inside_def)
  qed
  ultimately have "m2 x = m x" using write_byte_frame [OF m(1)] write_byte_frame [OF m(2)] by simp
  with Cons.IH [OF m(3)] Cons.prems show ?case by simp
qed

lemma init_frame:
  assumes "microkit_cothread_init cfg cmem sz sts s = Inr s'"
    and "\<not> inside x cmem (LIBMICROKITCO_CONTROLLER_SIZE cfg)" and "\<not> in_stacks sz sts x"
    and "LIBMICROKITCO_CONTROLLER_SIZE cfg \<le> INT_MAX"
  shows "pd_mem s' x = pd_mem s x"
proof -
  have size: "unat (of_nat (LIBMICROKITCO_CONTROLLER_SIZE cfg) :: addr) = LIBMICROKITCO_CONTROLLER_SIZE cfg"
    using assms(4) by (simp add: unat_of_nat)
  have sz: "0x1000 \<le> sz" using assms(1) by (auto simp: microkit_cothread_init_def split: if_splits)
  obtain m c0 c1 m1 where m: "memzero (pd_mem s) cmem (of_nat (LIBMICROKITCO_CONTROLLER_SIZE cfg)) = Inr m"
    "init_stacks sz sts [1..<max_cothreads cfg] c0 m = Inr (c1, m1)" "pd_mem s' = m1"
    using assms(1)
    by (auto simp: microkit_cothread_init_def bindR_Inr_iff co_active_def Let_def put_ctl_def split: if_splits)
  have "m x = pd_mem s x" using memzero_frame [OF m(1)] assms(2) by (simp add: size)
  moreover have "m1 x = m x"
    by (rule init_stacks_frame [OF m(2) assms(3)]) (use sz in \<open>simp_all add: word_le_nat_alt\<close>)
  ultimately show ?thesis by (simp add: m(3))
qed

end
