(* ===== verification/CodisSystem.thy ===== *)
theory CodisSystem
  imports CodisServer CoClient
begin

text \<open>
  The Codis server as a program of the library (\<open>example/codis/src/server/server.c\<close>): \<open>init\<close>
  spawns a handler cothread per client, each of which waits on the channel of its client;
  \<open>notified\<close> hands every notification to the library, which wakes the handler; the handler
  answers the request in the shared page, notifies the client and waits again.

  The database, the request pages, the controller and the stacks lie in one memory. The
  arguments of the handlers are local variables of \<open>init\<close>: they exist until it returns.
\<close>

subsection \<open>The program\<close>

record arg_t =
  arg_channel :: microkit_channel
  arg_ipc :: addr

definition CLIENT1_CHANNEL :: microkit_channel where "CLIENT1_CHANNEL = 0"
definition CLIENT2_CHANNEL :: microkit_channel where "CLIENT2_CHANNEL = 1"
definition CLIENT3_CHANNEL :: microkit_channel where "CLIENT3_CHANNEL = 2"

text \<open>
  The variables the system description sets, the address of \<open>client_handler\<close>, the
  addresses of the variables \<open>arg1\<close> to \<open>arg3\<close> and whether \<open>char\<close> is signed.
\<close>

record server_vars =
  db :: addr
  co_mem :: addr
  stack1 :: addr
  stack2 :: addr
  stack3 :: addr
  client1_ipc :: addr
  client2_ipc :: addr
  client3_ipc :: addr
  addr_client_handler :: addr
  addr_arg1 :: addr
  addr_arg2 :: addr
  addr_arg3 :: addr
  char_signed :: bool

text \<open>
  Where a handler goes on: at its entry, or behind \<open>microkit_cothread_wait_on_channel\<close> with
  its two local variables. A notification is recorded with the memory at that moment.
\<close>

datatype handler_pc = Handler_entry | Handler_waits microkit_channel addr

record codis_server =
  srv_pd :: pd
  srv_data_len :: "int list"
  arg_objs :: "addr \<Rightarrow> arg_t option"
  handler_pcs :: "microkit_cothread_ref_t \<Rightarrow> handler_pc"
  srv_ntfns :: "(microkit_channel \<times> 64 memory) list"

definition handler_wait ::
    "config \<Rightarrow> microkit_cothread_ref_t \<Rightarrow> microkit_channel \<Rightarrow> addr \<Rightarrow> codis_server \<Rightarrow>
     (fault + codis_server) option" where
  "handler_wait cfg h this_client_channel this_client_ipc S =
     bindP (Some (microkit_cothread_wait_on_channel cfg this_client_channel (srv_pd S))) (\<lambda>s.
     Some (Inr (S\<lparr>srv_pd := s,
       handler_pcs := (handler_pcs S)(h := Handler_waits this_client_channel this_client_ipc)\<rparr>)))"

definition srv_notify :: "microkit_channel \<Rightarrow> codis_server \<Rightarrow> codis_server" where
  "srv_notify ch S = S\<lparr>srv_ntfns := srv_ntfns S @ [(ch, pd_mem (srv_pd S))]\<rparr>"

text \<open>
  \<open>client_handler\<close>, executed by cothread \<open>h\<close>: from its entry to the first wait, or once
  around the loop.
\<close>

definition client_handler ::
    "config \<Rightarrow> server_vars \<Rightarrow> microkit_cothread_ref_t \<Rightarrow> codis_server \<Rightarrow> (fault + codis_server) option" where
  "client_handler cfg v h S = (case handler_pcs S h of
     Handler_entry \<Rightarrow>
       bindP (Some (microkit_cothread_my_arg (srv_pd S))) (\<lambda>arg_ptr.
       case arg_objs S arg_ptr of
         None \<Rightarrow> Some (Inl OutOfBounds)
       | Some my_owned_args \<Rightarrow> handler_wait cfg h (arg_channel my_owned_args) (arg_ipc my_owned_args) S)
   | Handler_waits this_client_channel this_client_ipc \<Rightarrow>
       bindP (client_handler_request (char_signed v) (db v) this_client_ipc
                (pd_mem (srv_pd S), srv_data_len S)) (\<lambda>(m, data_len).
       handler_wait cfg h this_client_channel this_client_ipc
         (srv_notify this_client_channel (S\<lparr>srv_pd := (srv_pd S)\<lparr>pd_mem := m\<rparr>, srv_data_len := data_len\<rparr>))))"

text \<open>One of the three spawns of \<open>init\<close>; without a handle it loops for ever.\<close>

definition spawn_handler ::
    "config \<Rightarrow> server_vars \<Rightarrow> addr \<Rightarrow> arg_t \<Rightarrow> codis_server \<Rightarrow> (fault + codis_server) option" where
  "spawn_handler cfg v arg_ptr arg S =
     (let S = S\<lparr>arg_objs := (arg_objs S)(arg_ptr \<mapsto> arg)\<rparr> in
      bindP (Some (microkit_cothread_spawn cfg (addr_client_handler v) arg_ptr (srv_pd S))) (\<lambda>(s, h).
      if h = LIBMICROKITCO_NULL_HANDLE then None
      else Some (Inr (S\<lparr>srv_pd := s, handler_pcs := (handler_pcs S)(h := Handler_entry)\<rparr>))))"

definition server_init :: "config \<Rightarrow> server_vars \<Rightarrow> codis_server \<Rightarrow> (fault + codis_server) option" where
  "server_init cfg v S =
     bindP (Some (memzero (pd_mem (srv_pd S)) (db v) (of_nat (N_BUCKETS * BUCKET_SIZE)))) (\<lambda>m.
     bindP (Some (microkit_cothread_init cfg (co_mem v) 0x2000 [stack1 v, stack2 v, stack3 v]
                    ((srv_pd S)\<lparr>pd_mem := m\<rparr>))) (\<lambda>s.
     bindP (spawn_handler cfg v (addr_arg1 v)
              \<lparr>arg_channel = CLIENT1_CHANNEL, arg_ipc = client1_ipc v\<rparr> (S\<lparr>srv_pd := s\<rparr>)) (\<lambda>S.
     bindP (spawn_handler cfg v (addr_arg2 v)
              \<lparr>arg_channel = CLIENT2_CHANNEL, arg_ipc = client2_ipc v\<rparr> S) (\<lambda>S.
     bindP (spawn_handler cfg v (addr_arg3 v)
              \<lparr>arg_channel = CLIENT3_CHANNEL, arg_ipc = client3_ipc v\<rparr> S) (\<lambda>S.
     bindP (Some (microkit_cothread_yield (srv_pd S))) (\<lambda>s.
     bindP (run_until_root srv_pd (client_handler cfg v) (S\<lparr>srv_pd := s\<rparr>)) (\<lambda>S.
     Some (Inr (S\<lparr>arg_objs := (\<lambda>_. None)\<rparr>)))))))))"

definition server_notified ::
    "config \<Rightarrow> server_vars \<Rightarrow> microkit_channel \<Rightarrow> codis_server \<Rightarrow> (fault + codis_server) option" where
  "server_notified cfg v channel S =
     bindP (Some (microkit_cothread_recv_ntfn cfg channel (srv_pd S))) (\<lambda>s.
     run_until_root srv_pd (client_handler cfg v) (S\<lparr>srv_pd := s\<rparr>))"

subsection \<open>The handlers start\<close>

abbreviation arg_sem :: "arg_t \<Rightarrow> sem_ptr" where
  "arg_sem arg \<equiv> ChannelSem (unat (arg_channel arg))"

lemma wait_on_channel_blocks:
  assumes "refines cfg a s" and "sp_running a \<noteq> 0" and "sp_sems a (ChannelSem (unat ch)) = Some (False, ws)"
    and "sp_ready a = k # ks"
  shows "\<exists>s'. microkit_cothread_wait_on_channel cfg ch s = Inr s' \<and> same_world s s' \<and>
    refines cfg (a\<lparr>sp_running := k, sp_ready := ks,
      sp_sems := (sp_sems a)(ChannelSem (unat ch) \<mapsto> (False, ws @ [sp_running a]))\<rparr>) s'"
proof -
  have "allowed cfg a (Call_wait_on_channel ch)" using assms(2,3) by simp
  then obtain s' where "microkit_cothread_wait_on_channel cfg ch s = Inr s'"
    "refines cfg (spec_wait (ChannelSem (unat ch)) a) s'" "same_world s s'"
    using call_scheduling [OF assms(1)] by fastforce
  moreover have "spec_wait (ChannelSem (unat ch)) a = a\<lparr>sp_running := k, sp_ready := ks,
      sp_sems := (sp_sems a)(ChannelSem (unat ch) \<mapsto> (False, ws @ [sp_running a]))\<rparr>"
    using assms(3,4) by (simp add: spec_wait_def spec_dispatch_def)
  ultimately show ?thesis by auto
qed

lemma handler_enters:
  assumes "refines cfg a (srv_pd S)" and "sp_running a = h" and "h \<noteq> 0" and "sp_ready a = k # ks"
    and "handler_pcs S h = Handler_entry" and "arg_objs S (private_arg (pd_tcb (srv_pd S) h)) = Some arg"
    and "sp_sems a (arg_sem arg) = Some (False, ws)"
  shows "\<exists>s. client_handler cfg v h S = Some (Inr (S\<lparr>srv_pd := s,
      handler_pcs := (handler_pcs S)(h := Handler_waits (arg_channel arg) (arg_ipc arg))\<rparr>)) \<and>
    same_world (srv_pd S) s \<and>
    refines cfg (a\<lparr>sp_running := k, sp_ready := ks, sp_sems := (sp_sems a)(arg_sem arg \<mapsto> (False, ws @ [h]))\<rparr>) s"
proof -
  have "microkit_cothread_my_arg (srv_pd S) = Inr (private_arg (pd_tcb (srv_pd S) h))"
    using my_arg_refines [OF assms(1)] assms(2,3) by simp
  then show ?thesis
    using wait_on_channel_blocks [OF assms(1) _ assms(7,4)] assms(2,3,5,6)
    by (auto simp: client_handler_def handler_wait_def)
qed

text \<open>All handlers that are at their entry run up to their first wait, in turn.\<close>

lemma handlers_enter:
  assumes "refines cfg a (srv_pd S)" and "sp_running a # sp_ready a = hs @ [0]" and "0 \<notin> set hs"
    and "distinct hs" and "inj_on (\<lambda>h. arg_sem (args h)) (set hs)"
    and "\<forall>h\<in>set hs. handler_pcs S h = Handler_entry \<and>
      arg_objs S (private_arg (pd_tcb (srv_pd S) h)) = Some (args h) \<and>
      sp_sems a (arg_sem (args h)) = Some (False, [])"
  shows "\<exists>S' a'. run_until_root srv_pd (client_handler cfg v) S = Some (Inr S') \<and>
    refines cfg a' (srv_pd S') \<and> same_world (srv_pd S) (srv_pd S') \<and>
    sp_running a' = 0 \<and> sp_ready a' = [] \<and> sp_free a' = sp_free a \<and>
    (\<forall>h\<in>set hs. sp_sems a' (arg_sem (args h)) = Some (False, [h]) \<and>
      handler_pcs S' h = Handler_waits (arg_channel (args h)) (arg_ipc (args h))) \<and>
    (\<forall>p. (\<forall>h\<in>set hs. p \<noteq> arg_sem (args h)) \<longrightarrow> sp_sems a' p = sp_sems a p) \<and>
    (\<forall>j. j \<notin> set hs \<longrightarrow> handler_pcs S' j = handler_pcs S j) \<and>
    srv_data_len S' = srv_data_len S \<and> srv_ntfns S' = srv_ntfns S"
  using assms
proof (induction hs arbitrary: a S)
  case Nil
  then have "run_until_root srv_pd (client_handler cfg v) S = Some (Inr S)"
    by (intro run_root [where a = a]) simp_all
  with Nil show ?case by (intro exI [of _ S] exI [of _ a]) (simp add: same_world_def)
next
  case (Cons h hs)
  let ?arg = "args h"
  have h: "sp_running a = h" "h \<noteq> 0" "sp_ready a = hs @ [0]" using Cons.prems(2,3) by auto
  then obtain k ks where k: "sp_ready a = k # ks" by (cases hs) auto
  have at_h: "handler_pcs S h = Handler_entry" "arg_objs S (private_arg (pd_tcb (srv_pd S) h)) = Some ?arg"
    "sp_sems a (arg_sem ?arg) = Some (False, [])" using Cons.prems(6) by simp_all
  let ?pcs = "(handler_pcs S)(h := Handler_waits (arg_channel ?arg) (arg_ipc ?arg))"
  let ?a = "a\<lparr>sp_running := k, sp_ready := ks, sp_sems := (sp_sems a)(arg_sem ?arg \<mapsto> (False, [h]))\<rparr>"
  obtain s where s: "client_handler cfg v h S = Some (Inr (S\<lparr>srv_pd := s, handler_pcs := ?pcs\<rparr>))"
    "same_world (srv_pd S) s" "refines cfg ?a s"
    using handler_enters [OF Cons.prems(1) h(1,2) k at_h] by auto
  let ?S = "S\<lparr>srv_pd := s, handler_pcs := ?pcs\<rparr>"
  have run: "run_until_root srv_pd (client_handler cfg v) S = run_until_root srv_pd (client_handler cfg v) ?S"
    by (rule run_cothread [where pd_of = srv_pd, OF Cons.prems(1)]) (use h s(1) in simp_all)
  have other: "arg_sem (args j) \<noteq> arg_sem ?arg" if "j \<in> set hs" for j
    using Cons.prems(4,5) that by (auto simp: inj_on_def)
  have "private_arg (pd_tcb s j) = private_arg (pd_tcb (srv_pd S) j)" if "j \<in> set hs" for j
    using same_world_arg [OF Cons.prems(1) s(2)] ready_handle [OF Cons.prems(1), of j] that h(3) by simp
  then have "\<forall>j\<in>set hs. handler_pcs ?S j = Handler_entry \<and>
      arg_objs ?S (private_arg (pd_tcb (srv_pd ?S) j)) = Some (args j) \<and>
      sp_sems ?a (arg_sem (args j)) = Some (False, [])"
    using Cons.prems(4,6) other by auto
  moreover have "sp_running ?a # sp_ready ?a = hs @ [0]" using k h(3) by simp
  ultimately obtain S' a' where S': "run_until_root srv_pd (client_handler cfg v) ?S = Some (Inr S')"
    "refines cfg a' (srv_pd S')" "same_world s (srv_pd S')" "sp_running a' = 0" "sp_ready a' = []"
    "sp_free a' = sp_free a"
    "\<forall>h\<in>set hs. sp_sems a' (arg_sem (args h)) = Some (False, [h]) \<and>
      handler_pcs S' h = Handler_waits (arg_channel (args h)) (arg_ipc (args h))"
    "\<forall>p. (\<forall>h\<in>set hs. p \<noteq> arg_sem (args h)) \<longrightarrow> sp_sems a' p = sp_sems ?a p"
    "\<forall>j. j \<notin> set hs \<longrightarrow> handler_pcs S' j = ?pcs j"
    "srv_data_len S' = srv_data_len S" "srv_ntfns S' = srv_ntfns S"
    using Cons.IH [of ?a ?S] s(3) Cons.prems(3-5) by auto
  have "\<forall>j\<in>set hs. arg_sem ?arg \<noteq> arg_sem (args j)" using other by metis
  then have "sp_sems a' (arg_sem ?arg) = Some (False, [h])"
    using S'(8) [rule_format, of "arg_sem ?arg"] by simp
  moreover have "\<forall>p. (\<forall>j\<in>set (h # hs). p \<noteq> arg_sem (args j)) \<longrightarrow> sp_sems a' p = sp_sems a p"
    using S'(8) by simp
  moreover have "h \<notin> set hs" using Cons.prems(4) by simp
  ultimately show ?case
    using S' run same_world_trans [OF s(2) S'(3)]
    by (intro exI [of _ S'] exI [of _ a']) (simp add: fun_upd_apply)
qed

subsection \<open>The idle server\<close>

text \<open>The shared page of client \<open>ch\<close>, and the two bytes and the string a client writes there.\<close>

definition ipc_of :: "server_vars \<Rightarrow> nat \<Rightarrow> addr" where
  "ipc_of v ch = [client1_ipc v, client2_ipc v, client3_ipc v] ! ch"

abbreviation srv_mem :: "codis_server \<Rightarrow> 64 memory" where
  "srv_mem S \<equiv> pd_mem (srv_pd S)"

text \<open>
  Between two notifications the root thread runs, nobody is ready or free, handler \<open>ch + 1\<close>
  waits on channel \<open>ch\<close> with the page of its client, and the database holds the table.
\<close>

definition handlers_wait :: "config \<Rightarrow> server_vars \<Rightarrow> sched \<Rightarrow> (microkit_cothread_ref_t \<Rightarrow> handler_pc) \<Rightarrow> bool" where
  "handlers_wait cfg v a pcs \<longleftrightarrow> sp_running a = 0 \<and> sp_ready a = [] \<and> sp_free a = [] \<and>
     (\<forall>ch<3. sp_sems a (ChannelSem ch) = Some (False, [int ch + 1]) \<and>
        pcs (int ch + 1) = Handler_waits (of_nat ch) (ipc_of v ch)) \<and>
     (\<forall>ch. 3 \<le> ch \<and> ch < max_channels cfg \<longrightarrow> (\<exists>f. sp_sems a (ChannelSem ch) = Some (f, [])))"

definition server_idle :: "config \<Rightarrow> server_vars \<Rightarrow> 8 word list list \<Rightarrow> codis_server \<Rightarrow> bool" where
  "server_idle cfg v tab S \<longleftrightarrow>
     (\<exists>a. refines cfg a (srv_pd S) \<and> handlers_wait cfg v a (handler_pcs S)) \<and>
     db_rep (srv_mem S) (db v) (srv_data_len S) tab \<and>
     (\<forall>ch<3. codis_layout (srv_mem S) (db v) (ipc_of v ch))"

lemma codis_layout_dom:
  assumes "dom m' = dom m"
  shows "codis_layout m' d ipc = codis_layout m d ipc"
proof -
  have "m' w \<noteq> None \<longleftrightarrow> m w \<noteq> None" for w using assms by (auto simp: dom_def)
  then show ?thesis by (simp only: codis_layout_def words_mapped_def mapped_dom [OF assms])
qed

lemma recv_ntfn_wakes:
  assumes "refines cfg a s" and "sp_running a = 0" and "sp_sems a (ChannelSem (unat ch)) = Some (f, ws)"
  shows "\<exists>s'. microkit_cothread_recv_ntfn cfg ch s = Inr s' \<and> same_world s s' \<and>
    refines cfg (spec_signal (ChannelSem (unat ch)) a) s'"
proof -
  have "allowed cfg a (Call_recv_ntfn ch)" using assms(2,3) by simp
  from call_scheduling [OF assms(1) this] show ?thesis by auto
qed

text \<open>One notification of a client with a well-formed request.\<close>

lemma notified_request:
  assumes "server_idle cfg v tab S" and "ch < 3"
    and "requests (srv_mem S) (ipc_of v ch) (char_signed v) b req"
  shows "\<exists>S'. server_notified cfg v (of_nat ch) S = Some (Inr S') \<and>
    server_idle cfg v (fst (codis_spec b req tab)) S' \<and>
    srv_ntfns S' = srv_ntfns S @ [(of_nat ch, srv_mem S')] \<and>
    replied (srv_mem S) (srv_mem S') (ipc_of v ch) (snd (codis_spec b req tab)) \<and>
    codis_frame (srv_mem S) (srv_mem S') (db v) (ipc_of v ch)"
proof -
  obtain a where a: "refines cfg a (srv_pd S)" "handlers_wait cfg v a (handler_pcs S)"
    and rep: "db_rep (srv_mem S) (db v) (srv_data_len S) tab"
    and lay: "\<forall>ch<3. codis_layout (srv_mem S) (db v) (ipc_of v ch)"
    using assms(1) by (auto simp: server_idle_def)
  have u: "unat (of_nat ch :: microkit_channel) = ch" using assms(2) by (simp add: unat_of_nat)
  have w: "sp_running a = 0" "sp_ready a = []" "sp_free a = []"
    "sp_sems a (ChannelSem ch) = Some (False, [int ch + 1])"
    "handler_pcs S (int ch + 1) = Handler_waits (of_nat ch) (ipc_of v ch)"
    using a(2) assms(2) by (simp_all add: handlers_wait_def)
  let ?a1 = "a\<lparr>sp_running := int ch + 1, sp_ready := [0], sp_sems := (sp_sems a)(ChannelSem ch \<mapsto> (False, []))\<rparr>"
  have sig: "spec_signal (ChannelSem ch) a = ?a1" using w by (simp add: spec_signal_def)
  obtain s1 where s1: "microkit_cothread_recv_ntfn cfg (of_nat ch) (srv_pd S) = Inr s1"
    "same_world (srv_pd S) s1" "refines cfg ?a1 s1"
    using recv_ntfn_wakes [OF a(1) w(1), of "of_nat ch"] w(4) sig by (auto simp: u)
  have mem1: "pd_mem s1 = srv_mem S" using s1(2) by (simp add: same_world_def)
  obtain m' dl' where req: "client_handler_request (char_signed v) (db v) (ipc_of v ch)
      (srv_mem S, srv_data_len S) = Some (Inr (m', dl'))"
    "db_rep m' (db v) dl' (fst (codis_spec b req tab))"
    "replied (srv_mem S) m' (ipc_of v ch) (snd (codis_spec b req tab))"
    "codis_frame (srv_mem S) m' (db v) (ipc_of v ch)"
    using client_handler_request_refines [OF _ rep assms(3)] lay assms(2) by blast
  have dom': "dom m' = dom (srv_mem S)" using req(4) by (simp add: codis_frame_def)
  let ?s2 = "s1\<lparr>pd_mem := m'\<rparr>"
  have r2: "refines cfg ?a1 ?s2" by (rule refines_mem [OF s1(3)]) (simp add: mem1 dom')
  let ?a3 = "?a1\<lparr>sp_running := 0, sp_ready := [], sp_sems := (sp_sems ?a1)(ChannelSem ch \<mapsto> (False, [int ch + 1]))\<rparr>"
  obtain s3 where s3: "microkit_cothread_wait_on_channel cfg (of_nat ch) ?s2 = Inr s3"
    "same_world ?s2 s3" "refines cfg ?a3 s3"
    using wait_on_channel_blocks [OF r2, of "of_nat ch" "[]" 0 "[]"] by (auto simp: u)
  have mem3: "pd_mem s3 = m'" using s3(2) by (simp add: same_world_def)
  let ?S1 = "S\<lparr>srv_pd := s1\<rparr>"
  let ?S3 = "S\<lparr>srv_pd := s3, srv_data_len := dl', srv_ntfns := srv_ntfns S @ [(of_nat ch, m')],
    handler_pcs := (handler_pcs S)(int ch + 1 := Handler_waits (of_nat ch) (ipc_of v ch))\<rparr>"
  have r3: "refines cfg ?a3 (srv_pd ?S3)" using s3(3) by simp
  have "client_handler cfg v (int ch + 1) ?S1 = Some (Inr ?S3)"
    using w(5) req(1) s3(1) by (simp add: client_handler_def mem1 handler_wait_def srv_notify_def)
  then have "run_until_root srv_pd (client_handler cfg v) ?S1 = run_until_root srv_pd (client_handler cfg v) ?S3"
    by (intro run_cothread [where pd_of = srv_pd and a = ?a1 and cfg = cfg]) (simp_all add: s1(3))
  also have "\<dots> = Some (Inr ?S3)" by (rule run_root [where pd_of = srv_pd, OF r3]) simp
  finally have "server_notified cfg v (of_nat ch) S = Some (Inr ?S3)" by (simp add: server_notified_def s1(1))
  moreover have "handlers_wait cfg v ?a3 (handler_pcs ?S3)"
    using a(2) assms(2) by (auto simp: handlers_wait_def)
  then have "server_idle cfg v (fst (codis_spec b req tab)) ?S3"
    using s3(3) req(2) lay codis_layout_dom [OF dom'] by (auto simp: server_idle_def mem3)
  ultimately show ?thesis using req(3,4) by (intro exI [of _ ?S3]) (simp add: mem3)
qed

text \<open>A notification on a channel without a handler is kept by the library and has no effect.\<close>

lemma notified_stray:
  assumes "server_idle cfg v tab S" and "3 \<le> unat ch" and "unat ch < max_channels cfg"
  shows "\<exists>S'. server_notified cfg v ch S = Some (Inr S') \<and> server_idle cfg v tab S' \<and>
    srv_ntfns S' = srv_ntfns S \<and> srv_mem S' = srv_mem S"
proof -
  obtain a where a: "refines cfg a (srv_pd S)" "handlers_wait cfg v a (handler_pcs S)"
    and rep: "db_rep (srv_mem S) (db v) (srv_data_len S) tab"
    and lay: "\<forall>ch<3. codis_layout (srv_mem S) (db v) (ipc_of v ch)"
    using assms(1) by (auto simp: server_idle_def)
  obtain f where f: "sp_sems a (ChannelSem (unat ch)) = Some (f, [])"
    using a(2) assms(2,3) by (auto simp: handlers_wait_def)
  have root: "sp_running a = 0" using a(2) by (simp add: handlers_wait_def)
  let ?a1 = "spec_signal (ChannelSem (unat ch)) a"
  obtain s1 where s1: "microkit_cothread_recv_ntfn cfg ch (srv_pd S) = Inr s1" "same_world (srv_pd S) s1"
    "refines cfg ?a1 s1"
    using recv_ntfn_wakes [OF a(1) root f] by blast
  have "run_until_root srv_pd (client_handler cfg v) (S\<lparr>srv_pd := s1\<rparr>) = Some (Inr (S\<lparr>srv_pd := s1\<rparr>))"
    using s1(3) f root by (intro run_root [where a = ?a1 and cfg = cfg]) (simp_all add: spec_signal_def split: bool.splits)
  moreover have "handlers_wait cfg v ?a1 (handler_pcs S)"
    using a(2) f assms(2) by (auto simp: handlers_wait_def spec_signal_def split: bool.splits)
  moreover have "pd_mem s1 = srv_mem S" using s1(2) by (simp add: same_world_def)
  ultimately show ?thesis using s1(1,3) rep lay by (auto simp: server_notified_def server_idle_def)
qed

subsection \<open>Boot\<close>

abbreviation server_stacks :: "server_vars \<Rightarrow> addr list" where
  "server_stacks v \<equiv> [stack1 v, stack2 v, stack3 v]"

text \<open>What the system description and the loader provide.\<close>

definition server_setup :: "config \<Rightarrow> server_vars \<Rightarrow> codis_server \<Rightarrow> bool" where
  "server_setup cfg v S \<longleftrightarrow> max_cothreads cfg = 4 \<and> 3 \<le> max_channels cfg \<and>
     init_env cfg (co_mem v) (srv_pd S) \<and> stacks_given cfg 0x2000 (server_stacks v) (srv_mem S) \<and>
     0 \<notin> set (server_stacks v) \<and> stacks_disjoint 0x2000 (server_stacks v) \<and>
     (\<forall>st\<in>set (server_stacks v). \<not> inside (root_handle cfg) st 0x2000) \<and>
     (\<forall>ch<3. codis_layout (srv_mem S) (db v) (ipc_of v ch)) \<and>
     (\<forall>x. inside x (db v) (N_BUCKETS * BUCKET_SIZE) \<longrightarrow>
        \<not> inside x (co_mem v) (LIBMICROKITCO_CONTROLLER_SIZE cfg) \<and> \<not> in_stacks 0x2000 (server_stacks v) x) \<and>
     addr_client_handler v \<noteq> 0 \<and> distinct [addr_arg1 v, addr_arg2 v, addr_arg3 v] \<and>
     srv_data_len S = replicate N_BUCKETS 0"

text \<open>Handlers spawned so far, with their arguments, from the state \<open>S0\<close> on.\<close>

definition handlers_ready ::
    "config \<Rightarrow> addr list \<Rightarrow> (microkit_cothread_ref_t \<Rightarrow> addr) \<Rightarrow> (microkit_cothread_ref_t \<Rightarrow> arg_t) \<Rightarrow>
     codis_server \<Rightarrow> sched \<Rightarrow> codis_server \<Rightarrow> bool" where
  "handlers_ready cfg sts ptr args S0 a S \<longleftrightarrow>
     refines cfg a (srv_pd S) \<and> sp_running a = 0 \<and> stacks_are cfg 0x2000 sts (srv_pd S) \<and>
     (\<forall>h\<in>set (sp_ready a). handler_pcs S h = Handler_entry \<and>
        private_arg (pd_tcb (srv_pd S) h) = ptr h \<and> arg_objs S (ptr h) = Some (args h)) \<and>
     dom (srv_mem S) = dom (srv_mem S0) \<and>
     (\<forall>x. \<not> in_stacks 0x2000 sts x \<longrightarrow> srv_mem S x = srv_mem S0 x) \<and>
     srv_data_len S = srv_data_len S0 \<and> srv_ntfns S = srv_ntfns S0"

lemma spawn_handler_ready:
  assumes "handlers_ready cfg sts ptr args S0 a S" and "sp_free a = h # hs" and "addr_client_handler v \<noteq> 0"
    and "length sts = max_cothreads cfg - 1" and "\<forall>k\<in>set (sp_ready a). ptr k \<noteq> ptr h"
  shows "\<exists>S'. spawn_handler cfg v (ptr h) (args h) S = Some (Inr S') \<and>
    handlers_ready cfg sts ptr args S0 (a\<lparr>sp_free := hs, sp_ready := sp_ready a @ [h]\<rparr>) S'"
proof -
  note R = assms(1) [unfolded handlers_ready_def]
  obtain s where s: "microkit_cothread_spawn cfg (addr_client_handler v) (ptr h) (srv_pd S) = Inr (s, h)"
    "refines cfg (a\<lparr>sp_free := hs, sp_ready := sp_ready a @ [h]\<rparr>) s" "stacks_are cfg 0x2000 sts s"
    "private_arg (pd_tcb s h) = ptr h" "\<forall>k\<ge>0. k \<noteq> h \<longrightarrow> pd_tcb s k = pd_tcb (srv_pd S) k"
    "dom (pd_mem s) = dom (srv_mem S)" "\<forall>x. \<not> in_stacks 0x2000 sts x \<longrightarrow> pd_mem s x = srv_mem S x"
    using spawn_in_program [OF _ assms(2,3) _ assms(4), where s = "srv_pd S" and arg = "ptr h" and sz = "0x2000"] R
    by blast
  have pos: "0 \<le> k" if "k \<in> set (sp_ready a @ [h])" for k
    using ready_handle [OF s(2), of k] that by simp
  have fresh: "k \<noteq> h" if "k \<in> set (sp_ready a)" for k using assms(5) that by auto
  let ?S = "S\<lparr>arg_objs := (arg_objs S)(ptr h \<mapsto> args h), srv_pd := s,
    handler_pcs := (handler_pcs S)(h := Handler_entry)\<rparr>"
  have "spawn_handler cfg v (ptr h) (args h) S = Some (Inr ?S)"
    using s(1) pos [of h] by (simp add: spawn_handler_def)
  moreover have "handlers_ready cfg sts ptr args S0 (a\<lparr>sp_free := hs, sp_ready := sp_ready a @ [h]\<rparr>) ?S"
    using R s(2-7) pos fresh assms(5) by (auto simp: handlers_ready_def)
  ultimately show ?thesis by blast
qed

lemma init_env_mem:
  assumes "init_env cfg cm s" and "dom m = dom (pd_mem s)"
  shows "init_env cfg cm (s\<lparr>pd_mem := m\<rparr>)"
  using assms(1) by (simp add: init_env_def mapped_dom [OF assms(2)])

lemma stacks_given_mem:
  assumes "dom m' = dom m"
  shows "stacks_given cfg sz sts m' = stacks_given cfg sz sts m"
  by (simp add: stacks_given_def mapped_dom [OF assms])

lemma server_library_boots:
  assumes "server_setup cfg v S"
  shows "\<exists>m s. memzero (srv_mem S) (db v) (of_nat (N_BUCKETS * BUCKET_SIZE)) = Inr m \<and>
    microkit_cothread_init cfg (co_mem v) 0x2000 (server_stacks v) ((srv_pd S)\<lparr>pd_mem := m\<rparr>) = Inr s \<and>
    refines cfg (spec_initial cfg) s \<and> stacks_are cfg 0x2000 (server_stacks v) s \<and>
    dom (pd_mem s) = dom (srv_mem S) \<and>
    (\<forall>x. inside x (db v) (N_BUCKETS * BUCKET_SIZE) \<longrightarrow> pd_mem s x = Some 0)"
proof -
  let ?n = "of_nat (N_BUCKETS * BUCKET_SIZE) :: addr"
  have n: "unat ?n = N_BUCKETS * BUCKET_SIZE" by simp
  have env: "init_env cfg (co_mem v) (srv_pd S)" using assms by (simp add: server_setup_def)
  have "codis_layout (srv_mem S) (db v) (ipc_of v 0)" using assms by (simp add: server_setup_def)
  then have mp: "mapped (srv_mem S) (db v) (unat ?n)" by (simp add: codis_layout_def)
  let ?m = "zeroed (srv_mem S) (db v) (unat ?n)"
  have zero: "memzero (srv_mem S) (db v) ?n = Inr ?m" using mp by (intro memzero_mapped) simp_all
  have dom: "dom ?m = dom (srv_mem S)" using mp by (intro zeroed_dom) simp_all
  let ?s = "(srv_pd S)\<lparr>pd_mem := ?m\<rparr>"
  have given: "stacks_given cfg 0x2000 (server_stacks v) (pd_mem ?s)"
  proof -
    have "stacks_given cfg 0x2000 (server_stacks v) (srv_mem S)" using assms by (simp add: server_setup_def)
    then have "stacks_given cfg 0x2000 (server_stacks v) ?m" by (simp only: stacks_given_mem [OF dom])
    then show ?thesis by simp
  qed
  have small: "(0x1000 :: addr) \<le> 0x2000" "unat (0x2000 :: addr) \<le> INT_MAX" by simp_all
  have side: "0 \<notin> set (server_stacks v)" "stacks_disjoint 0x2000 (server_stacks v)"
    "\<forall>st\<in>set (server_stacks v). \<not> inside (root_handle cfg) st (unat (0x2000 :: addr))"
    using assms by (simp_all add: server_setup_def)
  obtain s where s: "microkit_cothread_init cfg (co_mem v) 0x2000 (server_stacks v) ?s = Inr s"
    "refines cfg (spec_initial cfg) s" "stacks_are cfg 0x2000 (server_stacks v) s"
    "dom (pd_mem s) = dom (pd_mem ?s)"
    using init_builds [OF init_env_mem [OF env dom] small given side] by blast
  have "pd_mem s x = Some 0" if x: "inside x (db v) (N_BUCKETS * BUCKET_SIZE)" for x
  proof -
    have "\<not> inside x (co_mem v) (LIBMICROKITCO_CONTROLLER_SIZE cfg)" "\<not> in_stacks 0x2000 (server_stacks v) x"
      using assms x by (simp_all add: server_setup_def)
    from init_frame [OF s(1) this] env show ?thesis using x by (simp add: init_env_def zeroed_def)
  qed
  then show ?thesis using zero s dom by (intro exI [of _ ?m] exI [of _ s]) simp
qed

lemma zero_db_rep:
  assumes "\<forall>x. inside x d (N_BUCKETS * BUCKET_SIZE) \<longrightarrow> m x = Some 0"
  shows "db_rep m d (replicate N_BUCKETS 0) (replicate N_BUCKETS [])"
proof -
  have "m (bucket_at d b) = Some 0" if "b < N_BUCKETS" for b
    using assms bucket_byte [OF that bucket_word [of 0]] by simp
  then show ?thesis by (simp add: db_rep_def cstring_simps map_replicate_const)
qed

lemma server_boots:
  assumes "server_setup cfg v S"
  shows "\<exists>S'. server_init cfg v S = Some (Inr S') \<and> server_idle cfg v (replicate N_BUCKETS []) S' \<and>
    srv_ntfns S' = srv_ntfns S"
proof -
  let ?sts = "server_stacks v"
  have set: "max_cothreads cfg = 4" "addr_client_handler v \<noteq> 0" "distinct [addr_arg1 v, addr_arg2 v, addr_arg3 v]"
    "3 \<le> max_channels cfg" "srv_data_len S = replicate N_BUCKETS 0"
    using assms by (simp_all add: server_setup_def)
  have len: "length ?sts = max_cothreads cfg - 1" by (simp add: set(1))
  obtain m s0 where s0: "memzero (srv_mem S) (db v) (of_nat (N_BUCKETS * BUCKET_SIZE)) = Inr m"
    "microkit_cothread_init cfg (co_mem v) 0x2000 ?sts ((srv_pd S)\<lparr>pd_mem := m\<rparr>) = Inr s0"
    "refines cfg (spec_initial cfg) s0" "stacks_are cfg 0x2000 ?sts s0" "dom (pd_mem s0) = dom (srv_mem S)"
    "\<forall>x. inside x (db v) (N_BUCKETS * BUCKET_SIZE) \<longrightarrow> pd_mem s0 x = Some 0"
    using server_library_boots [OF assms] by blast
  let ?S0 = "S\<lparr>srv_pd := s0\<rparr>" and ?a0 = "spec_initial cfg"
  have a0: "sp_running ?a0 = 0" "sp_ready ?a0 = []" "sp_free ?a0 = [1, 2, 3]"
    "\<And>ch. ch < max_channels cfg \<Longrightarrow> sp_sems ?a0 (ChannelSem ch) = Some (False, [])"
    by (simp_all add: spec_initial_def set(1) upt_rec)
  define ptr where "ptr h = (if h = 1 then addr_arg1 v else if h = 2 then addr_arg2 v else addr_arg3 v)" for h :: int
  define args where "args h = (if h = 1 then \<lparr>arg_channel = CLIENT1_CHANNEL, arg_ipc = client1_ipc v\<rparr>
    else if h = 2 then \<lparr>arg_channel = CLIENT2_CHANNEL, arg_ipc = client2_ipc v\<rparr>
    else \<lparr>arg_channel = CLIENT3_CHANNEL, arg_ipc = client3_ipc v\<rparr>)" for h :: int
  let ?R = "handlers_ready cfg ?sts ptr args ?S0"
  have "?R ?a0 ?S0" using s0(3,4) a0 by (simp add: handlers_ready_def)
  note spawn = spawn_handler_ready [OF _ _ set(2) len, where ptr = ptr and args = args and ?S0.0 = ?S0]
  obtain S1 where S1: "spawn_handler cfg v (ptr 1) (args 1) ?S0 = Some (Inr S1)"
    "?R (?a0\<lparr>sp_free := [2, 3], sp_ready := [1]\<rparr>) S1"
    using spawn [OF \<open>?R ?a0 ?S0\<close> a0(3)] a0(2) by auto
  obtain S2 where S2: "spawn_handler cfg v (ptr 2) (args 2) S1 = Some (Inr S2)"
    "?R (?a0\<lparr>sp_free := [3], sp_ready := [1, 2]\<rparr>) S2"
    using spawn [OF S1(2), of 2 "[3]"] set(3) by (auto simp: ptr_def)
  obtain S3 where S3: "spawn_handler cfg v (ptr 3) (args 3) S2 = Some (Inr S3)"
    "?R (?a0\<lparr>sp_free := [], sp_ready := [1, 2, 3]\<rparr>) S3"
    using spawn [OF S2(2), of 3 "[]"] set(3) by (auto simp: ptr_def)
  let ?a3 = "?a0\<lparr>sp_free := [], sp_ready := [1, 2, 3]\<rparr>"
  note R = S3(2) [unfolded handlers_ready_def]
  have "spec_yield ?a3 = ?a3\<lparr>sp_running := 1, sp_ready := [2, 3, 0]\<rparr>"
    by (simp add: spec_yield_def spec_dispatch_def a0(1))
  then obtain s4 where s4: "microkit_cothread_yield (srv_pd S3) = Inr s4" "same_world (srv_pd S3) s4"
    "refines cfg (?a3\<lparr>sp_running := 1, sp_ready := [2, 3, 0]\<rparr>) s4"
    using call_scheduling [of cfg ?a3 "srv_pd S3" Call_yield] R by auto
  let ?a4 = "?a3\<lparr>sp_running := 1, sp_ready := [2, 3, 0]\<rparr>" and ?S4 = "S3\<lparr>srv_pd := s4\<rparr>"
  have keep: "private_arg (pd_tcb s4 h) = private_arg (pd_tcb (srv_pd S3) h)" if "h \<in> {1, 2, 3}" for h
    using same_world_arg [OF _ s4(2), of cfg ?a3 h] R that set(1) by auto
  have sem: "arg_sem (args h) = ChannelSem (nat h - 1)" "arg_ipc (args h) = ipc_of v (nat h - 1)"
    "arg_channel (args h) = of_nat (nat h - 1)" if "h \<in> {1, 2, 3}" for h
    using that by (auto simp: args_def CLIENT1_CHANNEL_def CLIENT2_CHANNEL_def CLIENT3_CHANNEL_def ipc_of_def)
  have inj: "inj_on (\<lambda>h. arg_sem (args h)) (set [1, 2, 3])" by (auto simp: inj_on_def sem)
  have at_entry: "\<forall>h\<in>set [1, 2, 3]. handler_pcs ?S4 h = Handler_entry \<and>
      arg_objs ?S4 (private_arg (pd_tcb (srv_pd ?S4) h)) = Some (args h) \<and>
      sp_sems ?a4 (arg_sem (args h)) = Some (False, [])"
    using R keep set(4) by (auto simp: sem a0(4))
  have r4: "refines cfg ?a4 (srv_pd ?S4)" using s4(3) by simp
  have order: "sp_running ?a4 # sp_ready ?a4 = [1, 2, 3] @ [0]" and zero: "0 \<notin> set [1, 2, 3 :: int]"
    and dist: "distinct [1, 2, 3 :: int]" by simp_all
  obtain S5 a5 where S5: "run_until_root srv_pd (client_handler cfg v) ?S4 = Some (Inr S5)"
    "refines cfg a5 (srv_pd S5)" "same_world (srv_pd ?S4) (srv_pd S5)" "sp_running a5 = 0" "sp_ready a5 = []"
    "sp_free a5 = sp_free ?a4"
    "\<forall>h\<in>set [1, 2, 3]. sp_sems a5 (arg_sem (args h)) = Some (False, [h]) \<and>
      handler_pcs S5 h = Handler_waits (arg_channel (args h)) (arg_ipc (args h))"
    "\<forall>p. (\<forall>h\<in>set [1, 2, 3]. p \<noteq> arg_sem (args h)) \<longrightarrow> sp_sems a5 p = sp_sems ?a4 p"
    "srv_data_len S5 = srv_data_len ?S4" "srv_ntfns S5 = srv_ntfns ?S4"
    using handlers_enter [OF r4 order zero dist inj at_entry, of v] by blast
  have waits: "sp_sems a5 (ChannelSem ch) = Some (False, [int ch + 1]) \<and>
      handler_pcs S5 (int ch + 1) = Handler_waits (of_nat ch) (ipc_of v ch)" if "ch < 3" for ch
  proof -
    have h: "int ch + 1 \<in> {1, 2, 3}" "int ch + 1 \<in> set [1, 2, 3]" "nat (int ch + 1) - 1 = ch"
      using that by auto
    have "unat (of_nat ch :: microkit_channel) = ch" using that by (simp add: unat_of_nat)
    then show ?thesis using bspec [OF S5(7) h(2)] unfolding sem [OF h(1)] h(3) by simp
  qed
  have "sp_sems a5 (ChannelSem ch) = Some (False, [])" if "3 \<le> ch" "ch < max_channels cfg" for ch
    using S5(8) sem that a0(4) by simp
  then have "handlers_wait cfg v a5 (handler_pcs S5)" using waits S5(4-6) by (auto simp: handlers_wait_def)
  moreover have mem: "srv_mem S5 = srv_mem S3" using S5(3) s4(2) by (simp add: same_world_def)
  have "srv_mem S5 x = Some 0" if x: "inside x (db v) (N_BUCKETS * BUCKET_SIZE)" for x
  proof -
    have "\<not> in_stacks 0x2000 ?sts x" using assms x by (simp add: server_setup_def)
    then show ?thesis using R s0(6) x by (simp add: mem)
  qed
  then have "db_rep (srv_mem S5) (db v) (srv_data_len S5) (replicate N_BUCKETS [])"
    using zero_db_rep R S5(9) set(5) by simp
  moreover have dom5: "dom (srv_mem S5) = dom (srv_mem S)" using R s0(5) mem by simp
  have "\<forall>ch<3. codis_layout (srv_mem S5) (db v) (ipc_of v ch)"
    using assms by (simp add: server_setup_def codis_layout_dom [OF dom5])
  ultimately have "server_idle cfg v (replicate N_BUCKETS []) (S5\<lparr>arg_objs := (\<lambda>_. None)\<rparr>)"
    using S5(2) by (auto simp: server_idle_def)
  moreover have "server_init cfg v S = Some (Inr (S5\<lparr>arg_objs := (\<lambda>_. None)\<rparr>))"
    using s0(1,2) S1(1) S2(1) S3(1) s4(1) S5(1) by (simp add: server_init_def ptr_def args_def)
  ultimately show ?thesis using S5(10) R by (intro exI [of _ "S5\<lparr>arg_objs := (\<lambda>_. None)\<rparr>"]) simp
qed

subsection \<open>Serving the clients\<close>

text \<open>
  What may happen to the idle server: a client writes a request to its page and notifies, or
  a notification arrives on another channel. The contract is the table together with the
  answers given so far.
\<close>

datatype server_event = Client_request nat nat request | Stray_notification microkit_channel

fun request_bytes :: "nat \<Rightarrow> request \<Rightarrow> 8 word list" where
  "request_bytes b Read = [0, of_nat b]"
| "request_bytes b (Append s) = [1, of_nat b] @ s @ [0]"
| "request_bytes b Delete = [2, of_nat b]"
| "request_bytes b Unknown = [3, of_nat b]"

definition client_writes :: "addr \<Rightarrow> 8 word list \<Rightarrow> codis_server \<Rightarrow> codis_server" where
  "client_writes ipc bs S = S\<lparr>srv_pd := (srv_pd S)\<lparr>pd_mem := overwrite (srv_mem S) ipc bs\<rparr>\<rparr>"

fun server_handle :: "config \<Rightarrow> server_vars \<Rightarrow> server_event \<Rightarrow> codis_server \<Rightarrow> (fault + codis_server) option" where
  "server_handle cfg v (Client_request ch b req) S =
     server_notified cfg v (of_nat ch) (client_writes (ipc_of v ch) (request_bytes b req) S)"
| "server_handle cfg v (Stray_notification ch) S = server_notified cfg v ch S"

type_synonym served = "8 word list list \<times> (nat \<times> reply) list"

fun server_may_occur :: "config \<Rightarrow> server_vars \<Rightarrow> served \<Rightarrow> server_event \<Rightarrow> bool" where
  "server_may_occur cfg v a (Client_request ch b req) \<longleftrightarrow>
     ch < 3 \<and> b < N_BUCKETS \<and> (char_signed v \<longrightarrow> b < 0x80) \<and>
     (case req of Append s \<Rightarrow> 0 \<notin> set s \<and> length s < APPEND_CMD_MAX_PAYLOAD_LEN | _ \<Rightarrow> True)"
| "server_may_occur cfg v a (Stray_notification ch) \<longleftrightarrow> 3 \<le> unat ch \<and> unat ch < max_channels cfg"

fun server_effect :: "server_event \<Rightarrow> served \<Rightarrow> served" where
  "server_effect (Client_request ch b req) (tab, log) =
     (fst (codis_spec b req tab), log @ [(ch, snd (codis_spec b req tab))])"
| "server_effect (Stray_notification ch) (tab, log) = (tab, log)"

fun answered :: "64 memory \<Rightarrow> addr \<Rightarrow> reply \<Rightarrow> bool" where
  "answered m ipc (Reply_string s) = cstring m ipc s"
| "answered m ipc (Reply_u16 n) = (m ipc = Some (ucast n) \<and> m (ipc + 1) = Some (ucast (drop_bit 8 n)))"
| "answered m ipc No_reply = True"

definition notified_with :: "server_vars \<Rightarrow> nat \<times> reply \<Rightarrow> microkit_channel \<times> 64 memory \<Rightarrow> bool" where
  "notified_with v = (\<lambda>(ch, r) (c, m). c = of_nat ch \<and> answered m (ipc_of v ch) r)"

definition server_serving :: "config \<Rightarrow> server_vars \<Rightarrow> served \<Rightarrow> codis_server \<Rightarrow> bool" where
  "server_serving cfg v = (\<lambda>(tab, log) S.
     server_idle cfg v tab S \<and> list_all2 (notified_with v) log (srv_ntfns S))"

lemma replied_answered: "replied m m' ipc r \<Longrightarrow> answered m' ipc r"
  by (cases r) (simp_all add: replied_def)

lemma page_write:
  assumes "server_idle cfg v tab S" and "ch < 3" and "length bs \<le> BUCKET_SIZE"
  shows "server_idle cfg v tab (client_writes (ipc_of v ch) bs S)"
proof -
  let ?ipc = "ipc_of v ch" and ?m = "overwrite (srv_mem S) (ipc_of v ch) bs"
  obtain a where a: "refines cfg a (srv_pd S)" "handlers_wait cfg v a (handler_pcs S)"
    and rep: "db_rep (srv_mem S) (db v) (srv_data_len S) tab"
    and lay: "\<forall>ch<3. codis_layout (srv_mem S) (db v) (ipc_of v ch)"
    using assms(1) by (auto simp: server_idle_def)
  have lay_ch: "codis_layout (srv_mem S) (db v) ?ipc" using lay assms(2) by simp
  then have "mapped (srv_mem S) ?ipc (length bs)"
    using assms(3) by (auto simp: codis_layout_def intro: mapped_mono)
  then have dom: "dom ?m = dom (srv_mem S)" using assms(3) by (intro overwrite_dom) simp_all
  have out: "?m x = srv_mem S x" if "\<not> inside x ?ipc BUCKET_SIZE" for x
    using that assms(3) by (intro overwrite_out) (auto simp: inside_def)
  show ?thesis
    using refines_mem [OF a(1) dom] a(2) db_rep_ipc [OF lay_ch rep out] lay codis_layout_dom [OF dom]
    by (auto simp: server_idle_def client_writes_def)
qed

lemma request_written:
  assumes "server_idle cfg v tab S" and "server_may_occur cfg v a (Client_request ch b req)"
  shows "server_idle cfg v tab (client_writes (ipc_of v ch) (request_bytes b req) S)"
    and "requests (srv_mem (client_writes (ipc_of v ch) (request_bytes b req) S)) (ipc_of v ch) (char_signed v) b req"
proof -
  let ?ipc = "ipc_of v ch" and ?bs = "request_bytes b req"
  let ?m = "overwrite (srv_mem S) ?ipc ?bs"
  have ev: "ch < 3" "b < N_BUCKETS" "char_signed v \<longrightarrow> b < 0x80"
    "\<And>s. req = Append s \<Longrightarrow> 0 \<notin> set s \<and> length s < APPEND_CMD_MAX_PAYLOAD_LEN"
    using assms(2) by (auto split: request.splits)
  have len: "length ?bs \<le> BUCKET_SIZE" "length ?bs < 2 ^ 64"
    using ev(4) by (cases req; auto simp: APPEND_CMD_MAX_PAYLOAD_LEN_def)+
  show "server_idle cfg v tab (client_writes ?ipc ?bs S)"
    by (rule page_write [OF assms(1) ev(1) len(1)])
  have at: "?m (?ipc + of_nat i) = Some (?bs ! i)" if "i < length ?bs" for i
    using that len(2) by (intro overwrite_in) simp_all
  have "?m ?ipc = Some (?bs ! 0)" "?m (?ipc + 1) = Some (of_nat b)"
    using at [of 0] at [of 1] by (cases req; simp)+
  moreover have "cstring ?m (?ipc + 2) s" if s: "req = Append s" for s
  proof -
    have "?m (?ipc + 2 + of_nat i) = Some ((s @ [0]) ! i)" if "i \<le> length s" for i
      using at [of "i + 2"] that s by (simp add: add_ac)
    then show ?thesis using ev(4) [OF s] by (auto simp: cstring_def nth_append)
  qed
  ultimately show "requests (srv_mem (client_writes ?ipc ?bs S)) ?ipc (char_signed v) b req"
    using ev by (cases req) (auto simp: requests_def client_writes_def)
qed

lemma server_event_handled:
  assumes "server_serving cfg v a S" and "server_may_occur cfg v a e"
  shows "\<exists>S'. server_handle cfg v e S = Some (Inr S') \<and> server_serving cfg v (server_effect e a) S'"
proof -
  obtain tab log where a: "a = (tab, log)" by (cases a)
  then have idle: "server_idle cfg v tab S" and log: "list_all2 (notified_with v) log (srv_ntfns S)"
    using assms(1) by (simp_all add: server_serving_def)
  show ?thesis
  proof (cases e)
    case (Client_request ch b req)
    note W = request_written [OF idle assms(2) [unfolded Client_request]]
    have "ch < 3" using assms(2) Client_request by simp
    from notified_request [OF W(1) this W(2)] show ?thesis
      using log replied_answered Client_request
      by (fastforce simp: a server_serving_def client_writes_def notified_with_def list_all2_appendI)
  next
    case (Stray_notification ch)
    then have "3 \<le> unat ch" "unat ch < max_channels cfg" using assms(2) by simp_all
    from notified_stray [OF idle this] show ?thesis
      using log Stray_notification by (auto simp: a server_serving_def)
  qed
qed

interpretation server: event_loop "server_serving cfg v" "server_may_occur cfg v" server_effect
    "server_handle cfg v" for cfg v
  by unfold_locales (rule server_event_handled)

subsection \<open>The system description\<close>

text \<open>The addresses of \<open>codis.system\<close>, in a memory that is mapped everywhere.\<close>

definition codis_cfg :: config where
  "codis_cfg = \<lparr>max_cothreads = 4, max_channels = 62, cfg_arch = AArch64,
     addr_co_entrypoint = 0x200100, addr_entry_wrapper = 0x200200, root_handle = 0x300000\<rparr>"

definition codis_vars :: server_vars where
  "codis_vars = \<lparr>db = 0x3000000, co_mem = 0x2000000, stack1 = 0x2004000, stack2 = 0x2007000,
     stack3 = 0x200a000, client1_ipc = 0x2011000, client2_ipc = 0x2013000, client3_ipc = 0x2015000,
     addr_client_handler = 0x200300, addr_arg1 = 0x310000, addr_arg2 = 0x310010, addr_arg3 = 0x310020,
     char_signed = False\<rparr>"

definition codis_start :: codis_server where
  "codis_start = \<lparr>srv_pd = \<lparr>co_controller = None, client_sems = (\<lambda>_. zero_sem), co_active_handle = 0x300000,
       pd_mem = zero_bytes\<rparr>,
     srv_data_len = replicate N_BUCKETS 0, arg_objs = (\<lambda>_. None), handler_pcs = (\<lambda>_. Handler_entry),
     srv_ntfns = []\<rparr>"

lemma codis_setup: "server_setup codis_cfg codis_vars codis_start"
proof -
  have all: "mapped zero_bytes a n" for a n by (simp add: mapped_def zero_bytes_def)
  have ranges: "inside x 0x3000000 0xff000 \<longleftrightarrow> 0x3000000 \<le> unat x \<and> unat x < 0x30ff000"
    "inside x 0x2000000 (LIBMICROKITCO_CONTROLLER_SIZE codis_cfg) \<longrightarrow> unat x < 0x2002000"
    "inside x 0x2004000 0x2000 \<longleftrightarrow> 0x2004000 \<le> unat x \<and> unat x < 0x2006000"
    "inside x 0x2007000 0x2000 \<longleftrightarrow> 0x2007000 \<le> unat x \<and> unat x < 0x2009000"
    "inside x 0x200a000 0x2000 \<longleftrightarrow> 0x200a000 \<le> unat x \<and> unat x < 0x200c000" for x :: addr
    by (auto simp: inside_no_wrap no_wrap_def LIBMICROKITCO_CONTROLLER_SIZE_def codis_cfg_def)
  have env: "init_env codis_cfg 0x2000000 (srv_pd codis_start)"
    using all by (simp add: init_env_def codis_start_def codis_cfg_def valid_config_def LIBMICROKITCO_CONTROLLER_SIZE_def)
  have given: "stacks_given codis_cfg 0x2000 [0x2004000, 0x2007000, 0x200a000] (srv_mem codis_start)"
    using all by (simp add: stacks_given_def codis_start_def codis_cfg_def no_wrap_def)
  have disj: "stacks_disjoint 0x2000 [0x2004000, 0x2007000, 0x200a000]"
    by (auto simp: stacks_disjoint_def ranges less_Suc_eq nth_Cons')
  have lay: "codis_layout (srv_mem codis_start) 0x3000000 (ipc_of codis_vars ch)" if "ch < 3" for ch
    using all that
    by (auto simp: codis_layout_def codis_start_def ipc_of_def codis_vars_def less_Suc_eq nth_Cons'
        apart_def words_mapped_def numeral_3_eq_3)
  have "\<not> inside x 0x2000000 (LIBMICROKITCO_CONTROLLER_SIZE codis_cfg) \<and>
      \<not> in_stacks 0x2000 [0x2004000, 0x2007000, 0x200a000] x" if "inside x 0x3000000 0xff000" for x
    using that ranges(2) [of x] by (auto simp: in_stacks_def ranges(1,3-5))
  then show ?thesis
    using env given disj lay
    by (simp add: server_setup_def codis_vars_def ranges(3-5)) (simp add: codis_cfg_def codis_start_def)
qed

subsection \<open>Property\<close>

text \<open>
  C29: The Codis server, started by \<open>init\<close>, serves its clients: every sequence of well-formed
  requests and of stray notifications is handled without a fault, a panic or a handler that
  does not come back; after it the database holds the table that the requests define in
  their order, every request was answered by one notification on the channel of its client,
  with the answer in its page, and the server is idle again.
\<close>

theorem server_serves:
  assumes "server_setup cfg v S" and "srv_ntfns S = []"
    and "run_allowed (server_may_occur cfg v) server_effect es (replicate N_BUCKETS [], [])"
  shows "\<exists>S0 S1. server_init cfg v S = Some (Inr S0) \<and>
    run_events (server_handle cfg v) es S0 = Some (Inr S1) \<and>
    server_serving cfg v (run_spec server_effect es (replicate N_BUCKETS [], [])) S1"
proof -
  obtain S0 where "server_init cfg v S = Some (Inr S0)" "server_idle cfg v (replicate N_BUCKETS []) S0"
    "srv_ntfns S0 = []"
    using server_boots [OF assms(1)] assms(2) by auto
  then show ?thesis using server.events_handled [OF _ assms(3)] by (simp add: server_serving_def)
qed

theorem server_serves_witness:
  "\<exists>S0 S1 m1 m2. server_init codis_cfg codis_vars codis_start = Some (Inr S0) \<and>
    run_events (server_handle codis_cfg codis_vars)
      [Client_request 0 3 (Append [65]), Stray_notification 7, Client_request 2 3 Read] S0 = Some (Inr S1) \<and>
    srv_ntfns S1 = [(0, m1), (2, m2)] \<and> cstring m2 0x2015000 [65]"
proof -
  let ?es = "[Client_request 0 3 (Append [65]), Stray_notification 7, Client_request 2 3 Read]"
  have start: "srv_ntfns codis_start = []" by (simp add: codis_start_def)
  have allowed: "run_allowed (server_may_occur codis_cfg codis_vars) server_effect ?es (replicate N_BUCKETS [], [])"
    by (simp add: codis_cfg_def codis_vars_def APPEND_CMD_MAX_PAYLOAD_LEN_def)
  obtain S0 S1 where S1: "server_init codis_cfg codis_vars codis_start = Some (Inr S0)"
    "run_events (server_handle codis_cfg codis_vars) ?es S0 = Some (Inr S1)"
    "server_serving codis_cfg codis_vars (run_spec server_effect ?es (replicate N_BUCKETS [], [])) S1"
    using server_serves [OF codis_setup start allowed] by blast
  then have "list_all2 (notified_with codis_vars) [(0, Reply_u16 1), (2, Reply_string [65])] (srv_ntfns S1)"
    by (simp add: server_serving_def)
  then obtain m1 m2 where "srv_ntfns S1 = [(0, m1), (2, m2)]" "answered m2 (ipc_of codis_vars 2) (Reply_string [65])"
    by (auto simp: list_all2_Cons1 notified_with_def)
  moreover have "ipc_of codis_vars 2 = 0x2015000" by (simp add: ipc_of_def codis_vars_def)
  ultimately show ?thesis using S1(1,2) by auto
qed

end
