(* ===== verification/CodisClients.thy ===== *)
theory CodisClients
  imports CodisServer CoClient
begin

text \<open>
  The three clients of Codis (\<open>example/codis/src/clients\<close>): \<open>init\<close> spawns one cothread,
  \<open>co_main\<close>, which writes a request to the page shared with the server, notifies the server
  and waits on a semaphore; \<open>notified\<close> signals the semaphore when the server answers. Clients
  1 and 2 append two texts to bucket 0 and differ only in the texts, client 3 reads it.
\<close>

subsection \<open>The programs\<close>

definition SERVER_CHANNEL :: microkit_channel where "SERVER_CHANNEL = 0"

text \<open>
  The variables the system description sets, and the linker's addresses of the semaphore, of
  \<open>co_main\<close> and of the string literals.
\<close>

record client_vars =
  cl_ipc :: addr
  cl_co_mem :: addr
  cl_co_stack :: addr
  server_async_io_sem :: addr
  addr_co_main :: addr
  literal1 :: addr
  literal2 :: addr

text \<open>Where \<open>co_main\<close> goes on: at its entry or behind the first or second wait.\<close>

datatype co_main_pc = Co_main_entry | Co_main_waits nat

record codis_client =
  cl_pd :: pd
  our_client_num :: addr
  cl_pc :: co_main_pc
  cl_ntfns :: "(microkit_channel \<times> 64 memory) list"

abbreviation cl_mem :: "codis_client \<Rightarrow> 64 memory" where
  "cl_mem S \<equiv> pd_mem (cl_pd S)"

definition cl_notify :: "codis_client \<Rightarrow> codis_client" where
  "cl_notify S = S\<lparr>cl_ntfns := cl_ntfns S @ [(SERVER_CHANNEL, cl_mem S)]\<rparr>"

definition send_append :: "client_vars \<Rightarrow> addr \<Rightarrow> codis_client \<Rightarrow> (fault + codis_client) option" where
  "send_append v text S =
     bindP (Some (store_byte (cl_mem S) (cl_ipc v + COMMAND_IPC_IDX) (of_int APPEND_CMD))) (\<lambda>m.
     bindP (Some (store_byte m (cl_ipc v + COMMAND_BUCKET_IDX) 0)) (\<lambda>m.
     bindP (strcpy m (cl_ipc v + COMMAND_DATA_START_IDX) text) (\<lambda>(m, _).
     Some (Inr (cl_notify (S\<lparr>cl_pd := (cl_pd S)\<lparr>pd_mem := m\<rparr>\<rparr>))))))"

definition send_read :: "client_vars \<Rightarrow> codis_client \<Rightarrow> (fault + codis_client) option" where
  "send_read v S =
     bindP (Some (store_byte (cl_mem S) (cl_ipc v + COMMAND_IPC_IDX) (of_int READ_CMD))) (\<lambda>m.
     bindP (Some (store_byte m (cl_ipc v + COMMAND_BUCKET_IDX) 0)) (\<lambda>m.
     Some (Inr (cl_notify (S\<lparr>cl_pd := (cl_pd S)\<lparr>pd_mem := m\<rparr>\<rparr>)))))"

definition co_main_wait :: "client_vars \<Rightarrow> nat \<Rightarrow> codis_client \<Rightarrow> (fault + codis_client) option" where
  "co_main_wait v n S =
     bindP (Some (pd_semaphore_wait (ClientSem (server_async_io_sem v)) (cl_pd S))) (\<lambda>s.
     Some (Inr (S\<lparr>cl_pd := s, cl_pc := Co_main_waits n\<rparr>)))"

definition co_main_returns :: "config \<Rightarrow> codis_client \<Rightarrow> (fault + codis_client) option" where
  "co_main_returns cfg S =
     bindP (Some (cothread_entry_wrapper_return cfg (cl_pd S))) (\<lambda>s. Some (Inr (S\<lparr>cl_pd := s\<rparr>)))"

type_synonym co_main = "config \<Rightarrow> client_vars \<Rightarrow> codis_client \<Rightarrow> (fault + codis_client) option"

definition client1_co_main :: co_main where
  "client1_co_main cfg v S = (case cl_pc S of
     Co_main_entry \<Rightarrow> bindP (send_append v (literal1 v) S) (co_main_wait v 1)
   | Co_main_waits n \<Rightarrow>
       if n = 1 then bindP (send_append v (literal2 v) S) (co_main_wait v 2) else co_main_returns cfg S)"

definition client2_co_main :: co_main where
  "client2_co_main cfg v S = (case cl_pc S of
     Co_main_entry \<Rightarrow> bindP (send_append v (literal1 v) S) (co_main_wait v 1)
   | Co_main_waits n \<Rightarrow>
       if n = 1 then bindP (send_append v (literal2 v) S) (co_main_wait v 2) else co_main_returns cfg S)"

definition client3_co_main :: co_main where
  "client3_co_main cfg v S = (case cl_pc S of
     Co_main_entry \<Rightarrow> bindP (send_read v S) (co_main_wait v 1)
   | Co_main_waits n \<Rightarrow> co_main_returns cfg S)"

text \<open>\<open>init\<close> and \<open>notified\<close>, the same in the three files but for the \<open>co_main\<close> they start.\<close>

definition client_init :: "co_main \<Rightarrow> config \<Rightarrow> client_vars \<Rightarrow> codis_client \<Rightarrow> (fault + codis_client) option" where
  "client_init co_main cfg v S =
     (let S = S\<lparr>our_client_num := and (drop_bit 12 (cl_ipc v)) 0xF\<rparr> in
      bindP (Some (microkit_cothread_init cfg (cl_co_mem v) 0x2000 [cl_co_stack v] (cl_pd S))) (\<lambda>s.
      bindP (Some (microkit_cothread_spawn cfg (addr_co_main v) 0 s)) (\<lambda>(s, h).
      if h = LIBMICROKITCO_NULL_HANDLE then None
      else
        bindP (Some (pd_semaphore_init (ClientSem (server_async_io_sem v)) s)) (\<lambda>s.
        bindP (Some (microkit_cothread_yield s)) (\<lambda>s.
        run_until_root cl_pd (\<lambda>h. co_main cfg v) (S\<lparr>cl_pd := s, cl_pc := Co_main_entry\<rparr>))))))"

definition client_notified ::
    "co_main \<Rightarrow> config \<Rightarrow> client_vars \<Rightarrow> microkit_channel \<Rightarrow> codis_client \<Rightarrow> (fault + codis_client) option" where
  "client_notified co_main cfg v channel S =
     (if channel = SERVER_CHANNEL then
        bindP (Some (pd_semaphore_signal (ClientSem (server_async_io_sem v)) (cl_pd S))) (\<lambda>s.
        run_until_root cl_pd (\<lambda>h. co_main cfg v) (S\<lparr>cl_pd := s\<rparr>))
      else Some (Inr S))"

definition client1_init :: "config \<Rightarrow> client_vars \<Rightarrow> codis_client \<Rightarrow> (fault + codis_client) option" where
  "client1_init = client_init client1_co_main"
definition client2_init :: "config \<Rightarrow> client_vars \<Rightarrow> codis_client \<Rightarrow> (fault + codis_client) option" where
  "client2_init = client_init client2_co_main"
definition client3_init :: "config \<Rightarrow> client_vars \<Rightarrow> codis_client \<Rightarrow> (fault + codis_client) option" where
  "client3_init = client_init client3_co_main"

definition client1_notified ::
    "config \<Rightarrow> client_vars \<Rightarrow> microkit_channel \<Rightarrow> codis_client \<Rightarrow> (fault + codis_client) option" where
  "client1_notified = client_notified client1_co_main"
definition client2_notified ::
    "config \<Rightarrow> client_vars \<Rightarrow> microkit_channel \<Rightarrow> codis_client \<Rightarrow> (fault + codis_client) option" where
  "client2_notified = client_notified client2_co_main"
definition client3_notified ::
    "config \<Rightarrow> client_vars \<Rightarrow> microkit_channel \<Rightarrow> codis_client \<Rightarrow> (fault + codis_client) option" where
  "client3_notified = client_notified client3_co_main"

text \<open>The texts of the literals, as bytes; the dash is three bytes of UTF-8.\<close>

definition text_bytes :: "string \<Rightarrow> 8 word list" where
  "text_bytes = map (\<lambda>c. of_nat (of_char c))"

definition client1_texts :: "8 word list list" where
  "client1_texts = [text_bytes ''About Trustworthy Systems: '',
     text_bytes ''We use rigorous formal methods to develop trustworthy software systems'' @ [0xE2, 0x80, 0x94] @
     text_bytes '' '']"

definition client2_texts :: "8 word list list" where
  "client2_texts = [text_bytes ''systems that come with provable security, '',
     text_bytes ''safety and reliability guarantees. '']"

subsection \<open>Sending a request\<close>

text \<open>
  The page is mapped; the literals are strings outside the page, the controller and the
  stack. Each text fits the page.
\<close>

definition outside_page :: "client_vars \<Rightarrow> addr \<Rightarrow> nat \<Rightarrow> bool" where
  "outside_page v a n \<longleftrightarrow> (\<forall>i\<le>n. \<not> inside (a + of_nat i) (cl_ipc v) BUCKET_SIZE)"

definition client_mem_ok :: "client_vars \<Rightarrow> 8 word list list \<Rightarrow> 64 memory \<Rightarrow> bool" where
  "client_mem_ok v texts m \<longleftrightarrow> mapped m (cl_ipc v) BUCKET_SIZE \<and> length texts \<le> 2 \<and>
     (\<forall>k<length texts. cstring m ([literal1 v, literal2 v] ! k) (texts ! k) \<and>
        length (texts ! k) < APPEND_CMD_MAX_PAYLOAD_LEN \<and>
        outside_page v ([literal1 v, literal2 v] ! k) (length (texts ! k)))"

lemma client_mem_ok_page:
  assumes "client_mem_ok v texts m" and "dom m' = dom m"
    and "\<And>x. \<not> inside x (cl_ipc v) BUCKET_SIZE \<Longrightarrow> m' x = m x"
  shows "client_mem_ok v texts m'"
proof -
  have "cstring m' ([literal1 v, literal2 v] ! k) (texts ! k)" if "k < length texts" for k
  proof -
    let ?l = "[literal1 v, literal2 v] ! k"
    have "cstring m ?l (texts ! k)" "outside_page v ?l (length (texts ! k))"
      using assms(1) that by (simp_all add: client_mem_ok_def)
    moreover from this(2) have "m' (?l + of_nat i) = m (?l + of_nat i)" if "i \<le> length (texts ! k)" for i
      using that assms(3) by (simp add: outside_page_def)
    ultimately show ?thesis using cstring_cong by metis
  qed
  then show ?thesis using assms(1) by (simp add: client_mem_ok_def mapped_dom [OF assms(2)])
qed

lemma page_bytes:
  assumes "mapped m ipc BUCKET_SIZE"
  shows "m ipc \<noteq> None" "m (ipc + 1) \<noteq> None" "mapped m (ipc + 2) 4094"
  using assms mapped_sub [OF assms, of 2 4094] by (auto simp: mapped_def dest: spec [of _ 0] spec [of _ 1])

lemma send_append_sends:
  assumes "client_mem_ok v texts (cl_mem S)" and "k < length texts"
  shows "\<exists>m. send_append v ([literal1 v, literal2 v] ! k) S =
      Some (Inr (S\<lparr>cl_pd := (cl_pd S)\<lparr>pd_mem := m\<rparr>, cl_ntfns := cl_ntfns S @ [(SERVER_CHANNEL, m)]\<rparr>)) \<and>
    dom m = dom (cl_mem S) \<and> client_mem_ok v texts m \<and> requests m (cl_ipc v) True 0 (Append (texts ! k))"
proof -
  let ?l = "[literal1 v, literal2 v] ! k" and ?t = "texts ! k" and ?ipc = "cl_ipc v" and ?old = "cl_mem S"
  let ?mid = "?old(?ipc \<mapsto> 1, ?ipc + 1 \<mapsto> 0)"
  let ?m = "overwrite ?mid (?ipc + 2) (?t @ [0])"
  have t: "cstring ?old ?l ?t" "length ?t < 4093 + 1" "outside_page v ?l (length ?t)"
    using assms by (simp_all add: client_mem_ok_def APPEND_CMD_MAX_PAYLOAD_LEN_def)
  have page: "mapped ?old ?ipc BUCKET_SIZE" using assms(1) by (simp add: client_mem_ok_def)
  note b = page_bytes [OF page]
  have in_page: "inside ?ipc ?ipc BUCKET_SIZE" "inside (?ipc + 1) ?ipc BUCKET_SIZE"
    using ipc_byte [of 0 ?ipc] ipc_byte [of 1 ?ipc] by simp_all
  have dom2: "dom ?mid = dom ?old" using b(1,2) by auto
  have mp: "mapped ?mid (?ipc + 2) (Suc (length ?t))"
    using mapped_mono [OF b(3), of "Suc (length ?t)"] t(2) by (simp add: mapped_dom [OF dom2])
  have sep: "\<not> inside (?l + of_nat i) (?ipc + 2) (Suc (length ?t))" if "i \<le> length ?t" for i
  proof
    assume "inside (?l + of_nat i) (?ipc + 2) (Suc (length ?t))"
    then have "inside (?l + of_nat i) (?ipc + of_nat 2) (Suc (length ?t))" by simp
    then have "inside (?l + of_nat i) ?ipc BUCKET_SIZE" by (rule inside_sub) (use t(2) in auto)
    then show False using t(3) that by (simp add: outside_page_def)
  qed
  have "cstring ?mid ?l ?t"
  proof (subst cstring_cong [of ?t _ _ ?old])
    fix i assume "i \<le> length ?t"
    then have "?l + of_nat i \<noteq> ?ipc" "?l + of_nat i \<noteq> ?ipc + 1"
      using t(3) in_page by (auto simp: outside_page_def)
    then show "?mid (?l + of_nat i) = ?old (?l + of_nat i)" by simp
  qed (rule t(1))
  then have cpy: "strcpy ?mid (?ipc + 2) ?l = Some (Inr (?m, ?ipc + 2))"
    using sep mp t(2) by (intro strcpy_spec) simp_all
  have dom: "dom ?m = dom ?old" using overwrite_dom [of ?mid "?ipc + 2" "?t @ [0]"] mp t(2) dom2 by simp
  have out: "?m x = ?old x" if x: "\<not> inside x ?ipc BUCKET_SIZE" for x
  proof -
    have "\<not> inside x (?ipc + of_nat 2) (Suc (length ?t))"
      using x inside_sub [of x ?ipc 2 "Suc (length ?t)" BUCKET_SIZE] t(2) by auto
    then have "?m x = ?mid x" by (intro overwrite_out) simp
    moreover have "x \<noteq> ?ipc" "x \<noteq> ?ipc + 1" using x in_page by auto
    ultimately show ?thesis by simp
  qed
  have head: "?m (?ipc + of_nat i) = ?mid (?ipc + of_nat i)" if "i < 2" for i
  proof (rule overwrite_out)
    show "\<not> inside (?ipc + of_nat i) (?ipc + 2) (length (?t @ [0]))"
    proof
      assume "inside (?ipc + of_nat i) (?ipc + 2) (length (?t @ [0]))"
      then obtain j where j: "j < Suc (length ?t)" "?ipc + of_nat i = ?ipc + of_nat (2 + j)"
        using inside_iff [of "Suc (length ?t)" "?ipc + of_nat i" "?ipc + 2"] t(2) by auto
      then have "unat (of_nat i :: addr) = unat (of_nat (2 + j) :: addr)" by simp
      moreover have "unat (of_nat i :: addr) = i" using that by (simp add: unat_of_nat)
      moreover have "unat (of_nat (2 + j) :: addr) = 2 + j" unfolding unat_of_nat using j(1) t(2) by simp
      ultimately show False using that by linarith
    qed
  qed
  have "?m ?ipc = Some 1" "?m (?ipc + 1) = Some 0" using head [of 0] head [of 1] by simp_all
  moreover have "cstring ?m (?ipc + 2) ?t"
    using t(1,2) by (intro overwrite_cstring) (simp_all add: cstring_def)
  ultimately have "requests ?m ?ipc True 0 (Append ?t)"
    using t(2) by (simp add: requests_def APPEND_CMD_MAX_PAYLOAD_LEN_def)
  moreover have "send_append v ?l S = Some (Inr (S\<lparr>cl_pd := (cl_pd S)\<lparr>pd_mem := ?m\<rparr>,
      cl_ntfns := cl_ntfns S @ [(SERVER_CHANNEL, ?m)]\<rparr>))"
    using b cpy by (simp add: send_append_def protocol_defs cl_notify_def)
  ultimately show ?thesis using dom client_mem_ok_page [OF assms(1) dom out] by blast
qed

lemma send_read_sends:
  assumes "client_mem_ok v texts (cl_mem S)"
  shows "\<exists>m. send_read v S =
      Some (Inr (S\<lparr>cl_pd := (cl_pd S)\<lparr>pd_mem := m\<rparr>, cl_ntfns := cl_ntfns S @ [(SERVER_CHANNEL, m)]\<rparr>)) \<and>
    dom m = dom (cl_mem S) \<and> client_mem_ok v texts m \<and> requests m (cl_ipc v) True 0 Read"
proof -
  let ?m = "(cl_mem S)(cl_ipc v \<mapsto> 0, cl_ipc v + 1 \<mapsto> 0)"
  have page: "mapped (cl_mem S) (cl_ipc v) BUCKET_SIZE" using assms by (simp add: client_mem_ok_def)
  note b = page_bytes [OF page]
  have "x \<noteq> cl_ipc v" "x \<noteq> cl_ipc v + 1" if "\<not> inside x (cl_ipc v) BUCKET_SIZE" for x
    using that ipc_byte [of 0 "cl_ipc v"] ipc_byte [of 1 "cl_ipc v"] by auto
  then have out: "?m x = cl_mem S x" if "\<not> inside x (cl_ipc v) BUCKET_SIZE" for x using that by simp
  have dom: "dom ?m = dom (cl_mem S)" using b(1,2) by auto
  have "requests ?m (cl_ipc v) True 0 Read" by (simp add: requests_def)
  moreover have "send_read v S = Some (Inr (S\<lparr>cl_pd := (cl_pd S)\<lparr>pd_mem := ?m\<rparr>,
      cl_ntfns := cl_ntfns S @ [(SERVER_CHANNEL, ?m)]\<rparr>))"
    using b by (simp add: send_read_def protocol_defs cl_notify_def)
  ultimately show ?thesis using dom client_mem_ok_page [OF assms dom out] by blast
qed

subsection \<open>A client that sends a list of requests\<close>

text \<open>
  The contract between the code of a client cothread and the rest of the client: with \<open>k\<close>
  answers received it sends request \<open>k\<close> of its script and waits, and after the last answer it
  returns.
\<close>

definition pc_after :: "nat \<Rightarrow> co_main_pc" where
  "pc_after k = (if k = 0 then Co_main_entry else Co_main_waits k)"

datatype client_event = Answer microkit_channel "8 word list"

fun client_handle ::
    "(config \<Rightarrow> client_vars \<Rightarrow> microkit_channel \<Rightarrow> codis_client \<Rightarrow> (fault + codis_client) option) \<Rightarrow>
     config \<Rightarrow> client_vars \<Rightarrow> client_event \<Rightarrow> codis_client \<Rightarrow> (fault + codis_client) option" where
  "client_handle notified cfg v (Answer ch bs) S =
     notified cfg v ch (S\<lparr>cl_pd := (cl_pd S)\<lparr>pd_mem := overwrite (cl_mem S) (cl_ipc v) bs\<rparr>\<rparr>)"

fun client_effect :: "client_event \<Rightarrow> nat \<Rightarrow> nat" where
  "client_effect (Answer ch bs) n = (if ch = SERVER_CHANNEL then Suc n else n)"

fun client_may_occur :: "nat \<Rightarrow> client_event \<Rightarrow> bool" where
  "client_may_occur n (Answer ch bs) \<longleftrightarrow> length bs \<le> BUCKET_SIZE"

text \<open>
  With \<open>n\<close> answers received: cothread 1 waits for the next answer, or has returned.
\<close>

definition client_waits :: "sem_ptr \<Rightarrow> nat \<Rightarrow> nat \<Rightarrow> sched \<Rightarrow> co_main_pc \<Rightarrow> bool" where
  "client_waits p len n a pc \<longleftrightarrow> sp_running a = 0 \<and> sp_ready a = [] \<and>
     (if n < len then sp_free a = [] \<and> sp_sems a p = Some (False, [1]) \<and> pc = Co_main_waits (Suc n)
      else sp_free a = [1] \<and> sp_sems a p = Some (len < n, []))"

definition request_sent :: "client_vars \<Rightarrow> request \<Rightarrow> microkit_channel \<times> 64 memory \<Rightarrow> bool" where
  "request_sent v req = (\<lambda>(c, m). c = SERVER_CHANNEL \<and> requests m (cl_ipc v) True 0 req)"

definition client_idle ::
    "8 word list list \<Rightarrow> request list \<Rightarrow> config \<Rightarrow> client_vars \<Rightarrow> nat \<Rightarrow> codis_client \<Rightarrow> bool" where
  "client_idle texts script cfg v n S \<longleftrightarrow>
     (\<exists>a. refines cfg a (cl_pd S) \<and>
       client_waits (ClientSem (server_async_io_sem v)) (length script) n a (cl_pc S)) \<and>
     client_mem_ok v texts (cl_mem S) \<and>
     list_all2 (request_sent v) (take (Suc n) script) (cl_ntfns S)"

text \<open>What a run of the client sends, once \<open>n\<close> answers have arrived: request \<open>n\<close>, if there is one.\<close>

definition client_sent :: "client_vars \<Rightarrow> request list \<Rightarrow> nat \<Rightarrow> codis_client \<Rightarrow> codis_client \<Rightarrow> bool" where
  "client_sent v script n S S' \<longleftrightarrow>
     (if n < length script
      then cl_ntfns S' = cl_ntfns S @ [(SERVER_CHANNEL, cl_mem S')] \<and> requests (cl_mem S') (cl_ipc v) True 0 (script ! n)
      else cl_ntfns S' = cl_ntfns S \<and> cl_mem S' = cl_mem S)"

definition page_written :: "client_vars \<Rightarrow> 8 word list \<Rightarrow> codis_client \<Rightarrow> codis_client" where
  "page_written v bs S = S\<lparr>cl_pd := (cl_pd S)\<lparr>pd_mem := overwrite (cl_mem S) (cl_ipc v) bs\<rparr>\<rparr>"

text \<open>The server writes the page.\<close>

lemma page_written_idle:
  assumes "client_idle texts script cfg v n S" and "length bs \<le> BUCKET_SIZE"
  shows "client_idle texts script cfg v n (page_written v bs S)"
proof -
  let ?m = "overwrite (cl_mem S) (cl_ipc v) bs"
  obtain a where a: "refines cfg a (cl_pd S)"
    "client_waits (ClientSem (server_async_io_sem v)) (length script) n a (cl_pc S)"
    and ok: "client_mem_ok v texts (cl_mem S)"
    and sent: "list_all2 (request_sent v) (take (Suc n) script) (cl_ntfns S)"
    using assms(1) by (auto simp: client_idle_def)
  have "mapped (cl_mem S) (cl_ipc v) (length bs)"
    using ok assms(2) by (auto simp: client_mem_ok_def intro: mapped_mono)
  then have dom: "dom ?m = dom (cl_mem S)" using assms(2) by (intro overwrite_dom) simp_all
  have out: "?m x = cl_mem S x" if "\<not> inside x (cl_ipc v) BUCKET_SIZE" for x
    using that assms(2) by (intro overwrite_out) (auto simp: inside_def)
  show ?thesis
    using refines_mem [OF a(1) dom] a(2) client_mem_ok_page [OF ok dom out] sent
    by (auto simp: client_idle_def page_written_def)
qed

locale requesting_client =
  fixes co_main :: co_main and texts :: "8 word list list" and script :: "request list"
  assumes some_request: "script \<noteq> []"
    and sends: "k < length script \<Longrightarrow> cl_pc S = pc_after k \<Longrightarrow> client_mem_ok v texts (cl_mem S) \<Longrightarrow>
      \<exists>m. co_main cfg v S = co_main_wait v (Suc k)
          (S\<lparr>cl_pd := (cl_pd S)\<lparr>pd_mem := m\<rparr>, cl_ntfns := cl_ntfns S @ [(SERVER_CHANNEL, m)]\<rparr>) \<and>
        dom m = dom (cl_mem S) \<and> client_mem_ok v texts m \<and> requests m (cl_ipc v) True 0 (script ! k)"
    and returns: "cl_pc S = pc_after (length script) \<Longrightarrow> co_main cfg v S = co_main_returns cfg S"
begin

abbreviation "resume cfg v \<equiv> run_until_root cl_pd (\<lambda>h. co_main cfg v)"

lemma resume_sends:
  assumes "refines cfg a (cl_pd S)" and "sp_running a = 1" and "sp_ready a = [0]" and "sp_free a = []"
    and "sp_sems a (ClientSem (server_async_io_sem v)) = Some (False, [])"
    and "k < length script" and "cl_pc S = pc_after k" and "client_mem_ok v texts (cl_mem S)"
    and "list_all2 (request_sent v) (take k script) (cl_ntfns S)"
  shows "\<exists>S'. resume cfg v S = Some (Inr S') \<and> client_idle texts script cfg v k S' \<and> client_sent v script k S S'"
proof -
  let ?p = "ClientSem (server_async_io_sem v)"
  obtain m where m: "co_main cfg v S = co_main_wait v (Suc k)
      (S\<lparr>cl_pd := (cl_pd S)\<lparr>pd_mem := m\<rparr>, cl_ntfns := cl_ntfns S @ [(SERVER_CHANNEL, m)]\<rparr>)"
    "dom m = dom (cl_mem S)" "client_mem_ok v texts m" "requests m (cl_ipc v) True 0 (script ! k)"
    using sends [OF assms(6-8)] by blast
  let ?s = "(cl_pd S)\<lparr>pd_mem := m\<rparr>"
  have r: "refines cfg a ?s" by (rule refines_mem [OF assms(1) m(2)])
  have "allowed cfg a (Call_semaphore_wait ?p)" using assms(2,5) by simp
  then obtain s where s: "pd_semaphore_wait ?p ?s = Inr s" "refines cfg (spec_wait ?p a) s" "same_world ?s s"
    using call_scheduling [OF r] by fastforce
  let ?S = "S\<lparr>cl_pd := s, cl_ntfns := cl_ntfns S @ [(SERVER_CHANNEL, m)], cl_pc := Co_main_waits (Suc k)\<rparr>"
  have step: "co_main cfg v S = Some (Inr ?S)" using s(1) by (simp add: m(1) co_main_wait_def)
  have spec: "spec_wait ?p a = a\<lparr>sp_running := 0, sp_ready := [], sp_sems := (sp_sems a)(?p \<mapsto> (False, [1]))\<rparr>"
    using assms(2,3,5) by (simp add: spec_wait_def spec_dispatch_def)
  have r': "refines cfg (spec_wait ?p a) (cl_pd ?S)" using s(2) by simp
  have "resume cfg v S = resume cfg v ?S"
    using step assms(2) by (intro run_cothread [where pd_of = cl_pd, OF assms(1)]) simp_all
  also have "\<dots> = Some (Inr ?S)" by (rule run_root [where pd_of = cl_pd, OF r']) (simp add: spec)
  finally have "resume cfg v S = Some (Inr ?S)" .
  moreover have "client_waits ?p (length script) k (spec_wait ?p a) (cl_pc ?S)"
    using assms(4,6) by (simp add: client_waits_def spec)
  moreover have "pd_mem s = m" using s(3) by (simp add: same_world_def)
  moreover have "list_all2 (request_sent v) (take (Suc k) script) (cl_ntfns ?S)"
    using assms(6,9) m(4) by (simp add: take_Suc_conv_app_nth list_all2_appendI request_sent_def)
  ultimately show ?thesis using r' m(3,4) assms(6)
    by (intro exI [of _ ?S]) (auto simp: client_idle_def client_sent_def)
qed

lemma resume_returns:
  assumes "refines cfg a (cl_pd S)" and "sp_running a = 1" and "sp_ready a = [0]" and "sp_free a = []"
    and "sp_sems a (ClientSem (server_async_io_sem v)) = Some (False, [])"
    and "cl_pc S = pc_after (length script)" and "client_mem_ok v texts (cl_mem S)"
    and "list_all2 (request_sent v) script (cl_ntfns S)"
  shows "\<exists>S'. resume cfg v S = Some (Inr S') \<and> client_idle texts script cfg v (length script) S' \<and>
    client_sent v script (length script) S S'"
proof -
  let ?p = "ClientSem (server_async_io_sem v)"
  obtain s where s: "cothread_entry_wrapper_return cfg (cl_pd S) = Inr s" "refines cfg (spec_exit a) s"
    "same_world (cl_pd S) s"
    using call_scheduling [OF assms(1), of Entry_returns] assms(2) by auto
  let ?S = "S\<lparr>cl_pd := s\<rparr>"
  have step: "co_main cfg v S = Some (Inr ?S)"
    using s(1) by (simp add: returns [OF assms(6)] co_main_returns_def)
  have spec: "spec_exit a = a\<lparr>sp_running := 0, sp_ready := [], sp_free := [1]\<rparr>"
    using assms(2-4) by (simp add: spec_exit_def spec_dispatch_def)
  have r': "refines cfg (spec_exit a) (cl_pd ?S)" using s(2) by simp
  have "resume cfg v S = resume cfg v ?S"
    using step assms(2) by (intro run_cothread [where pd_of = cl_pd, OF assms(1)]) simp_all
  also have "\<dots> = Some (Inr ?S)" by (rule run_root [where pd_of = cl_pd, OF r']) (simp add: spec)
  finally have "resume cfg v S = Some (Inr ?S)" .
  moreover have "client_waits ?p (length script) (length script) (spec_exit a) (cl_pc ?S)"
    using assms(5) by (simp add: client_waits_def spec)
  moreover have "pd_mem s = cl_mem S" using s(3) by (simp add: same_world_def)
  ultimately show ?thesis using r' assms(7,8)
    by (intro exI [of _ ?S]) (auto simp: client_idle_def client_sent_def)
qed

text \<open>The server notifies: the cothread goes on, or, when it is gone, the answer is kept.\<close>

lemma answered_client:
  assumes "client_idle texts script cfg v n S"
  shows "\<exists>S'. client_notified co_main cfg v SERVER_CHANNEL S = Some (Inr S') \<and>
    client_idle texts script cfg v (Suc n) S' \<and> client_sent v script (Suc n) S S'"
proof -
  let ?p = "ClientSem (server_async_io_sem v)"
  obtain a where a: "refines cfg a (cl_pd S)" "client_waits ?p (length script) n a (cl_pc S)"
    and ok: "client_mem_ok v texts (cl_mem S)"
    and sent: "list_all2 (request_sent v) (take (Suc n) script) (cl_ntfns S)"
    using assms(1) by (auto simp: client_idle_def)
  have root: "sp_running a = 0" "sp_ready a = []" using a(2) by (simp_all add: client_waits_def)
  have "allowed cfg a (Call_semaphore_signal ?p)"
    using a(2) by (auto simp: client_waits_def split: if_splits)
  then obtain s where s: "pd_semaphore_signal ?p (cl_pd S) = Inr s" "refines cfg (spec_signal ?p a) s"
    "same_world (cl_pd S) s"
    using call_scheduling [OF a(1)] by fastforce
  have mem: "pd_mem s = cl_mem S" using s(3) by (simp add: same_world_def)
  let ?T = "S\<lparr>cl_pd := s\<rparr>"
  have T: "client_mem_ok v texts (cl_mem ?T)" "cl_ntfns ?T = cl_ntfns S" "cl_mem ?T = cl_mem S"
    using ok by (simp_all add: mem)
  have r2: "refines cfg (spec_signal ?p a) (cl_pd ?T)" using s(2) by simp
  have "\<exists>S'. resume cfg v ?T = Some (Inr S') \<and> client_idle texts script cfg v (Suc n) S' \<and>
      client_sent v script (Suc n) ?T S'"
  proof (cases "n < length script")
    case True
    then have w: "sp_free a = []" "sp_sems a ?p = Some (False, [1])" "cl_pc S = Co_main_waits (Suc n)"
      using a(2) by (simp_all add: client_waits_def)
    then have spec: "spec_signal ?p a = a\<lparr>sp_running := 1, sp_ready := [0], sp_sems := (sp_sems a)(?p \<mapsto> (False, []))\<rparr>"
      using root by (simp add: spec_signal_def)
    have pc: "cl_pc ?T = pc_after (Suc n)" using w(3) by (simp add: pc_after_def)
    show ?thesis
    proof (cases "Suc n < length script")
      case True
      then show ?thesis
        using resume_sends [OF r2 _ _ _ _ True pc T(1)] w(1) sent by (simp add: spec)
    next
      case False
      then have n: "Suc n = length script" using \<open>n < length script\<close> by simp
      then show ?thesis
        using resume_returns [OF r2 _ _ _ _ pc [unfolded n] T(1)] w(1) sent by (simp add: spec)
    qed
  next
    case False
    then have w: "sp_free a = [1]" "sp_sems a ?p = Some (length script < n, [])"
      using a(2) by (simp_all add: client_waits_def)
    then have "client_waits ?p (length script) (Suc n) (spec_signal ?p a) pc" for pc
      using root False by (simp add: client_waits_def spec_signal_def split: bool.splits)
    moreover have "sp_running (spec_signal ?p a) = 0"
      using w root by (simp add: spec_signal_def split: bool.splits)
    then have "resume cfg v ?T = Some (Inr ?T)" by (rule run_root [where pd_of = cl_pd, OF r2])
    ultimately show ?thesis using r2 T sent False by (auto simp: client_idle_def client_sent_def)
  qed
  moreover have "client_sent v script (Suc n) ?T S' = client_sent v script (Suc n) S S'" for S'
    using T(2,3) by (simp add: client_sent_def)
  ultimately show ?thesis using s(1) by (simp add: client_notified_def)
qed

text \<open>An answer, or a notification on another channel, with the page the server has written.\<close>

lemma answer_handled:
  assumes "client_idle texts script cfg v n S" and "client_may_occur n e"
  shows "\<exists>S'. client_handle (client_notified co_main) cfg v e S = Some (Inr S') \<and>
    client_idle texts script cfg v (client_effect e n) S'"
proof -
  obtain ch bs where e: "e = Answer ch bs" by (cases e)
  have idle: "client_idle texts script cfg v n (page_written v bs S)"
    using page_written_idle [OF assms(1)] assms(2) by (simp add: e)
  show ?thesis
  proof (cases "ch = SERVER_CHANNEL")
    case True
    with answered_client [OF idle] show ?thesis by (auto simp: e page_written_def)
  next
    case False
    with idle show ?thesis by (simp add: e client_notified_def page_written_def)
  qed
qed

end

sublocale requesting_client \<subseteq> answers: event_loop "client_idle texts script cfg v" client_may_occur client_effect
    "client_handle (client_notified co_main) cfg v" for cfg v
  by unfold_locales (rule answer_handled)

subsection \<open>Boot\<close>

text \<open>
  What the system description and the loader provide: among it that the literals lie outside
  the memory of the library and the stack.
\<close>

definition client_setup :: "config \<Rightarrow> client_vars \<Rightarrow> 8 word list list \<Rightarrow> codis_client \<Rightarrow> bool" where
  "client_setup cfg v texts S \<longleftrightarrow> max_cothreads cfg = 2 \<and> init_env cfg (cl_co_mem v) (cl_pd S) \<and>
     stacks_given cfg 0x2000 [cl_co_stack v] (cl_mem S) \<and> cl_co_stack v \<noteq> 0 \<and>
     \<not> inside (root_handle cfg) (cl_co_stack v) 0x2000 \<and> addr_co_main v \<noteq> 0 \<and>
     client_mem_ok v texts (cl_mem S) \<and> cl_ntfns S = [] \<and>
     (\<forall>k<length texts. \<forall>i\<le>length (texts ! k).
        \<not> inside ([literal1 v, literal2 v] ! k + of_nat i) (cl_co_mem v) (LIBMICROKITCO_CONTROLLER_SIZE cfg) \<and>
        \<not> in_stacks 0x2000 [cl_co_stack v] ([literal1 v, literal2 v] ! k + of_nat i))"

lemma client_mem_ok_boot:
  assumes "client_setup cfg v texts S" and "dom m = dom (cl_mem S)"
    and "\<And>x. \<not> inside x (cl_co_mem v) (LIBMICROKITCO_CONTROLLER_SIZE cfg) \<Longrightarrow>
      \<not> in_stacks 0x2000 [cl_co_stack v] x \<Longrightarrow> m x = cl_mem S x"
  shows "client_mem_ok v texts m"
proof -
  have ok: "client_mem_ok v texts (cl_mem S)" using assms(1) by (simp add: client_setup_def)
  have "cstring m ([literal1 v, literal2 v] ! k) (texts ! k)" if "k < length texts" for k
  proof -
    let ?l = "[literal1 v, literal2 v] ! k"
    have "m (?l + of_nat i) = cl_mem S (?l + of_nat i)" if "i \<le> length (texts ! k)" for i
      using assms(1) that \<open>k < length texts\<close> by (intro assms(3)) (simp_all add: client_setup_def)
    moreover have "cstring (cl_mem S) ?l (texts ! k)" using ok that by (simp add: client_mem_ok_def)
    ultimately show ?thesis using cstring_cong by metis
  qed
  then show ?thesis using ok by (simp add: client_mem_ok_def mapped_dom [OF assms(2)])
qed

lemma client_library_boots:
  assumes "client_setup cfg v texts S"
  shows "\<exists>s t. microkit_cothread_init cfg (cl_co_mem v) 0x2000 [cl_co_stack v] (cl_pd S) = Inr s \<and>
    microkit_cothread_spawn cfg (addr_co_main v) 0 s = Inr (t, 1) \<and>
    refines cfg ((spec_initial cfg)\<lparr>sp_free := [], sp_ready := [1]\<rparr>) t \<and> dom (pd_mem t) = dom (cl_mem S) \<and>
    client_mem_ok v texts (pd_mem t)"
proof -
  let ?sts = "[cl_co_stack v]"
  have given: "max_cothreads cfg = 2" "init_env cfg (cl_co_mem v) (cl_pd S)"
    "stacks_given cfg 0x2000 ?sts (cl_mem S)" "0 \<notin> set ?sts" "stacks_disjoint 0x2000 ?sts"
    "\<forall>st\<in>set ?sts. \<not> inside (root_handle cfg) st (unat (0x2000 :: addr))" "addr_co_main v \<noteq> 0"
    using assms by (simp_all add: client_setup_def stacks_disjoint_def)
  have small: "(0x1000 :: addr) \<le> 0x2000" "unat (0x2000 :: addr) \<le> INT_MAX" by simp_all
  obtain s where s: "microkit_cothread_init cfg (cl_co_mem v) 0x2000 ?sts (cl_pd S) = Inr s"
    "refines cfg (spec_initial cfg) s" "stacks_are cfg 0x2000 ?sts s" "dom (pd_mem s) = dom (cl_mem S)"
    using init_builds [OF given(2) small given(3-6)] by blast
  have free: "sp_free (spec_initial cfg) = [1]" "sp_ready (spec_initial cfg) = []"
    by (simp_all add: spec_initial_def given(1) upt_rec)
  have len: "length ?sts = max_cothreads cfg - 1" by (simp add: given(1))
  obtain t where t: "microkit_cothread_spawn cfg (addr_co_main v) 0 s = Inr (t, 1)"
    "refines cfg ((spec_initial cfg)\<lparr>sp_free := [], sp_ready := sp_ready (spec_initial cfg) @ [1]\<rparr>) t"
    "dom (pd_mem t) = dom (pd_mem s)" "\<forall>x. \<not> in_stacks 0x2000 ?sts x \<longrightarrow> pd_mem t x = pd_mem s x"
    using spawn_in_program [OF s(2) free(1) given(7) s(3) len, of 0] by blast
  have "client_mem_ok v texts (pd_mem t)"
  proof (rule client_mem_ok_boot [OF assms])
    fix x assume "\<not> inside x (cl_co_mem v) (LIBMICROKITCO_CONTROLLER_SIZE cfg)" "\<not> in_stacks 0x2000 ?sts x"
    then show "pd_mem t x = cl_mem S x"
      using init_frame [OF s(1)] t(4) given(2) by (simp add: init_env_def)
  qed (simp add: t(3) s(4))
  then show ?thesis using s(1,4) t(1-3) free(2) by auto
qed

context requesting_client
begin

lemma boots:
  assumes "client_setup cfg v texts S"
  shows "\<exists>S'. client_init co_main cfg v S = Some (Inr S') \<and> client_idle texts script cfg v 0 S' \<and>
    client_sent v script 0 S S'"
proof -
  let ?p = "ClientSem (server_async_io_sem v)" and ?a = "(spec_initial cfg)\<lparr>sp_free := [], sp_ready := [1]\<rparr>"
  obtain s t where t: "microkit_cothread_init cfg (cl_co_mem v) 0x2000 [cl_co_stack v] (cl_pd S) = Inr s"
    "microkit_cothread_spawn cfg (addr_co_main v) 0 s = Inr (t, 1)" "refines cfg ?a t"
    "client_mem_ok v texts (pd_mem t)"
    using client_library_boots [OF assms] by blast
  have "allowed cfg ?a (Call_semaphore_init ?p)"
    by (simp add: valid_ptr_def waiters_def spec_initial_def)
  then obtain u where u: "pd_semaphore_init ?p t = Inr u" "refines cfg (spec_sem_init ?p ?a) u" "same_world t u"
    using call_scheduling [OF t(3)] by fastforce
  let ?b = "spec_sem_init ?p ?a"
  obtain w where w: "microkit_cothread_yield u = Inr w" "refines cfg (spec_yield ?b) w" "same_world u w"
    using call_scheduling [OF u(2), of Call_yield] by auto
  have spec: "spec_yield ?b = ?b\<lparr>sp_running := 1, sp_ready := [0]\<rparr>"
    by (simp add: spec_yield_def spec_dispatch_def spec_sem_init_def spec_initial_def)
  let ?S = "S\<lparr>our_client_num := and (drop_bit 12 (cl_ipc v)) 0xF, cl_pd := w, cl_pc := Co_main_entry\<rparr>"
  have mem: "pd_mem w = pd_mem t" using u(3) w(3) by (simp add: same_world_def)
  have r: "refines cfg (spec_yield ?b) (cl_pd ?S)" using w(2) by simp
  have "sp_sems (spec_yield ?b) ?p = Some (False, [])" "sp_free (spec_yield ?b) = []"
    unfolding spec by (simp_all add: spec_sem_init_def)
  then obtain S' where "resume cfg v ?S = Some (Inr S')" "client_idle texts script cfg v 0 S'"
    "client_sent v script 0 ?S S'"
    using resume_sends [OF r, of v 0] some_request t(4) assms mem
    by (auto simp: spec pc_after_def client_setup_def)
  moreover have "client_sent v script 0 S S'"
    using calculation(3) some_request by (simp add: client_sent_def)
  moreover have "client_init co_main cfg v S = resume cfg v ?S"
    using t(1,2) u(1) w(1) by (simp add: client_init_def)
  ultimately show ?thesis by simp
qed

text \<open>From boot on, whatever answers arrive.\<close>

lemma runs:
  assumes "client_setup cfg v texts S" and "run_allowed client_may_occur client_effect es 0"
  shows "\<exists>S0 S1. client_init co_main cfg v S = Some (Inr S0) \<and>
    run_events (client_handle (client_notified co_main) cfg v) es S0 = Some (Inr S1) \<and>
    client_idle texts script cfg v (run_spec client_effect es 0) S1"
  using boots [OF assms(1)] answers.events_handled [OF _ assms(2)] by blast

end

text \<open>The clients of Codis are such clients.\<close>

lemma two_texts:
  assumes "k < length [Append t1, Append t2]"
  shows "k < length [t1, t2]" and "[Append t1, Append t2] ! k = Append ([t1, t2] ! k)"
  using assms by (auto simp: less_Suc_eq)

interpretation client1: requesting_client client1_co_main "[t1, t2]" "[Append t1, Append t2]" for t1 t2
proof unfold_locales
  fix k S v cfg
  assume k: "k < length [Append t1, Append t2]" and pc: "cl_pc S = pc_after k"
    and ok: "client_mem_ok v [t1, t2] (cl_mem S)"
  from send_append_sends [OF ok two_texts(1) [OF k]] two_texts(2) [OF k] k pc
  show "\<exists>m. client1_co_main cfg v S = co_main_wait v (Suc k)
          (S\<lparr>cl_pd := (cl_pd S)\<lparr>pd_mem := m\<rparr>, cl_ntfns := cl_ntfns S @ [(SERVER_CHANNEL, m)]\<rparr>) \<and>
        dom m = dom (cl_mem S) \<and> client_mem_ok v [t1, t2] m \<and>
        requests m (cl_ipc v) True 0 ([Append t1, Append t2] ! k)"
    by (auto simp: client1_co_main_def pc_after_def less_Suc_eq numeral_2_eq_2)
qed (simp_all add: client1_co_main_def pc_after_def)

lemma client2_same: "client2_co_main = client1_co_main"
  by (simp add: fun_eq_iff client2_co_main_def client1_co_main_def)

interpretation client2: requesting_client client2_co_main "[t1, t2]" "[Append t1, Append t2]" for t1 t2
  unfolding client2_same by (rule client1.requesting_client_axioms)

interpretation client3: requesting_client client3_co_main "[]" "[Read]"
proof unfold_locales
  fix k S v cfg
  assume k: "k < length [Read]" and pc: "cl_pc S = pc_after k" and ok: "client_mem_ok v [] (cl_mem S)"
  from send_read_sends [OF ok] k pc
  show "\<exists>m. client3_co_main cfg v S = co_main_wait v (Suc k)
          (S\<lparr>cl_pd := (cl_pd S)\<lparr>pd_mem := m\<rparr>, cl_ntfns := cl_ntfns S @ [(SERVER_CHANNEL, m)]\<rparr>) \<and>
        dom m = dom (cl_mem S) \<and> client_mem_ok v [] m \<and> requests m (cl_ipc v) True 0 ([Read] ! k)"
    by (auto simp: client3_co_main_def pc_after_def)
qed (simp_all add: client3_co_main_def pc_after_def)

subsection \<open>Examples\<close>

text \<open>
  The memory of client 1: the addresses of \<open>codis.system\<close>, the two literals and their
  terminators in a memory of zeroes.
\<close>

definition client_cfg :: config where
  "client_cfg = \<lparr>max_cothreads = 2, max_channels = 62, cfg_arch = AArch64,
     addr_co_entrypoint = 0x200100, addr_entry_wrapper = 0x200200, root_handle = 0x300000\<rparr>"

definition client1_vars :: client_vars where
  "client1_vars = \<lparr>cl_ipc = 0x2001000, cl_co_mem = 0x2003000, cl_co_stack = 0x2005000,
     server_async_io_sem = 0x310000, addr_co_main = 0x200300, literal1 = 0x210000, literal2 = 0x210100\<rparr>"

definition client_start :: "64 memory \<Rightarrow> codis_client" where
  "client_start m = \<lparr>cl_pd = \<lparr>co_controller = None, client_sems = (\<lambda>_. zero_sem), co_active_handle = 0x300000,
       pd_mem = m\<rparr>, our_client_num = 0, cl_pc = Co_main_entry, cl_ntfns = []\<rparr>"

definition literals_mem :: "8 word list \<Rightarrow> 8 word list \<Rightarrow> 64 memory" where
  "literals_mem t1 t2 = overwrite (overwrite zero_bytes 0x210000 t1) 0x210100 t2"

lemma literals_mem_mapped: "mapped (literals_mem t1 t2) a n"
  by (simp add: mapped_def literals_mem_def overwrite_def zero_bytes_def)

lemma literals_strings:
  assumes "0 \<notin> set t1" "0 \<notin> set t2" "length t1 < 0x100" "length t2 < 0x100"
  shows "cstring (literals_mem t1 t2) 0x210000 t1" "cstring (literals_mem t1 t2) 0x210100 t2"
proof -
  have at: "literals_mem t1 t2 (0x210100 + of_nat i) = Some (if i < length t2 then t2 ! i else 0)"
    "literals_mem t1 t2 (0x210000 + of_nat i) = Some (if i < length t1 then t1 ! i else 0)"
    if "i < 0x100" for i
  proof -
    have u: "unat (0x210000 + of_nat i :: addr) = 0x210000 + i" "unat (0x210100 + of_nat i :: addr) = 0x210100 + i"
      using that by (simp_all add: unat_word_ariths unat_of_nat)
    have no: "no_wrap 0x210000 k" "no_wrap 0x210100 k" if "k < 0x100" for k using that by (simp_all add: no_wrap_def)
    note range = inside_no_wrap [OF no(1) [OF assms(3)]] inside_no_wrap [OF no(2) [OF assms(4)]]
    have "\<not> inside (0x210100 + of_nat i :: addr) 0x210000 (length t1)"
      "\<not> inside (0x210000 + of_nat i :: addr) 0x210100 (length t2)" using that assms(3) by (simp_all add: range u)
    moreover have "unat (of_nat i :: addr) = i" using that by (simp add: unat_of_nat)
    ultimately show "literals_mem t1 t2 (0x210100 + of_nat i) = Some (if i < length t2 then t2 ! i else 0)"
      "literals_mem t1 t2 (0x210000 + of_nat i) = Some (if i < length t1 then t1 ! i else 0)"
      by (auto simp: literals_mem_def overwrite_def zero_bytes_def inside_def)
  qed
  show "cstring (literals_mem t1 t2) 0x210000 t1" "cstring (literals_mem t1 t2) 0x210100 t2"
    using assms at by (auto simp: cstring_def)
qed

text \<open>The three clients lie at addresses one page apart.\<close>

definition client_image :: "nat \<Rightarrow> client_vars" where
  "client_image i = \<lparr>cl_ipc = 0x2001000 + 0x1000 * of_nat i, cl_co_mem = 0x2003000 + 0x1000 * of_nat i,
     cl_co_stack = 0x2005000 + 0x1000 * of_nat i, server_async_io_sem = 0x310000, addr_co_main = 0x200300,
     literal1 = 0x210000, literal2 = 0x210100\<rparr>"

lemma client_image_setup:
  assumes i: "i < 3" and texts: "0 \<notin> set t1" "0 \<notin> set t2" "length t1 < 0x100" "length t2 < 0x100"
  shows "client_setup client_cfg (client_image i) [t1, t2] (client_start (literals_mem t1 t2))"
proof -
  let ?v = "client_image i"
  have "i = 0 \<or> i = 1 \<or> i = 2" using i by linarith
  then have v: "?v = \<lparr>cl_ipc = a, cl_co_mem = b, cl_co_stack = c, server_async_io_sem = 0x310000,
      addr_co_main = 0x200300, literal1 = 0x210000, literal2 = 0x210100\<rparr> \<Longrightarrow>
      a \<in> {0x2001000, 0x2002000, 0x2003000} \<and> b \<in> {0x2003000, 0x2004000, 0x2005000} \<and>
      c \<in> {0x2005000, 0x2006000, 0x2007000}" for a b c
    by (auto simp: client_image_def)
  obtain a b c where image: "?v = \<lparr>cl_ipc = a, cl_co_mem = b, cl_co_stack = c, server_async_io_sem = 0x310000,
      addr_co_main = 0x200300, literal1 = 0x210000, literal2 = 0x210100\<rparr>"
    unfolding client_image_def by blast
  note abc = v [OF image]
  have high: "0x2000000 \<le> unat x" if "inside x d n" "d \<in> {a, b, c}" "n \<le> 0x2000" for x d :: addr and n
  proof -
    have "no_wrap d n" "0x2000000 \<le> unat d" using abc that(2,3) by (auto simp: no_wrap_def)
    then show ?thesis using that(1) by (simp add: inside_no_wrap)
  qed
  have u: "unat (0x210000 + of_nat k :: addr) = 0x210000 + k" "unat (0x210100 + of_nat k :: addr) = 0x210100 + k"
    if "k < 0x100" for k
    using that by (simp_all add: unat_word_ariths unat_of_nat)
  have out: "\<not> inside x a BUCKET_SIZE \<and> \<not> inside x b (LIBMICROKITCO_CONTROLLER_SIZE client_cfg) \<and>
      \<not> inside x c 0x2000" if "unat x < 0x2000000" for x :: addr
    using that high [of x a BUCKET_SIZE] high [of x c "0x2000"]
      high [of x b "LIBMICROKITCO_CONTROLLER_SIZE client_cfg"]
    by (auto simp: LIBMICROKITCO_CONTROLLER_SIZE_def client_cfg_def)
  have env: "init_env client_cfg b (cl_pd (client_start (literals_mem t1 t2)))"
    using abc by (auto simp: init_env_def client_start_def client_cfg_def valid_config_def literals_mem_mapped
        LIBMICROKITCO_CONTROLLER_SIZE_def)
  have given: "stacks_given client_cfg 0x2000 [c] (literals_mem t1 t2)"
    using abc by (auto simp: stacks_given_def client_cfg_def literals_mem_mapped no_wrap_def)
  have root: "\<not> inside (root_handle client_cfg) c 0x2000" "c \<noteq> 0"
    using out [of "0x300000"] abc by (auto simp: client_cfg_def)
  have mem: "client_mem_ok ?v [t1, t2] (literals_mem t1 t2)"
    using literals_strings [OF texts] texts(3,4) out u
    by (auto simp: client_mem_ok_def image literals_mem_mapped outside_page_def less_Suc_eq
        APPEND_CMD_MAX_PAYLOAD_LEN_def)
  show ?thesis
    using env given root mem out u texts(3,4)
    by (auto simp: client_setup_def image in_stacks_def less_Suc_eq)
      (auto simp: client_start_def client_cfg_def)
qed

lemma client_image_0: "client_image 0 = client1_vars"
  by (simp add: client_image_def client1_vars_def)

lemmas client1_setup = client_image_setup [of 0, unfolded client_image_0]

lemma client_setup_no_texts: "client_setup cfg v texts S \<Longrightarrow> client_setup cfg v [] S"
  by (simp add: client_setup_def client_mem_ok_def)

lemma client1_texts_ok:
  "client1_texts = [client1_texts ! 0, client1_texts ! 1]" "0 \<notin> set (client1_texts ! 0)" "0 \<notin> set (client1_texts ! 1)"
  "length (client1_texts ! 0) = 27" "length (client1_texts ! 1) = 74"
  by (simp_all add: client1_texts_def text_bytes_def)

subsection \<open>Properties\<close>

text \<open>
  The clients that append, from boot on and whatever notifications and answers arrive: no
  fault, no panic and no loop; they send their two texts in order, the next one only after
  an answer, each in a well-formed request that is complete in the shared page when the
  server is notified; after the second answer the cothread is gone and the root thread idle.
\<close>

theorem append_clients_run:
  assumes "(init, notified) \<in> {(client1_init, client1_notified), (client2_init, client2_notified)}"
    and "client_setup cfg v [t1, t2] S" and "run_allowed client_may_occur client_effect es 0"
  shows "\<exists>S0 S1. init cfg v S = Some (Inr S0) \<and> run_events (client_handle notified cfg v) es S0 = Some (Inr S1) \<and>
    client_idle [t1, t2] [Append t1, Append t2] cfg v (run_spec client_effect es 0) S1"
  using assms(1) client1.runs [OF assms(2,3)] client2.runs [OF assms(2,3)]
  by (auto simp: client1_init_def client1_notified_def client2_init_def client2_notified_def)

theorem append_clients_run_example:
  "\<exists>S0 S1 m1 m2.
    client1_init client_cfg client1_vars (client_start (literals_mem (client1_texts ! 0) (client1_texts ! 1))) = Some (Inr S0) \<and>
    run_events (client_handle client1_notified client_cfg client1_vars)
      [Answer 0 [27, 0], Answer 5 [], Answer 0 [101, 0], Answer 0 []] S0 = Some (Inr S1) \<and>
    cl_ntfns S1 = [(0, m1), (0, m2)] \<and> cstring m2 0x2001002 (client1_texts ! 1)"
proof -
  let ?t1 = "client1_texts ! 0" and ?t2 = "client1_texts ! 1"
  let ?es = "[Answer 0 [27, 0], Answer 5 [], Answer 0 [101, 0], Answer 0 []]"
  have "client_setup client_cfg client1_vars [?t1, ?t2] (client_start (literals_mem ?t1 ?t2))"
    by (rule client1_setup) (simp_all add: client1_texts_ok(2-5) [simplified])
  moreover have "run_allowed client_may_occur client_effect ?es 0" by simp
  ultimately obtain S0 S1 where S1:
    "client1_init client_cfg client1_vars (client_start (literals_mem ?t1 ?t2)) = Some (Inr S0)"
    "run_events (client_handle client1_notified client_cfg client1_vars) ?es S0 = Some (Inr S1)"
    "client_idle [?t1, ?t2] [Append ?t1, Append ?t2] client_cfg client1_vars (run_spec client_effect ?es 0) S1"
    using append_clients_run [of client1_init client1_notified] by blast
  then have "list_all2 (request_sent client1_vars) [Append ?t1, Append ?t2] (cl_ntfns S1)"
    by (simp add: client_idle_def SERVER_CHANNEL_def)
  then obtain m1 m2 where "cl_ntfns S1 = [(0, m1), (0, m2)]" "requests m2 (cl_ipc client1_vars) True 0 (Append ?t2)"
    by (auto simp: list_all2_Cons1 request_sent_def SERVER_CHANNEL_def)
  then show ?thesis using S1(1,2) by (auto simp: requests_def client1_vars_def)
qed

text \<open>
  The client that reads, likewise: it sends one request to read bucket 0 and returns when
  the answer arrives; a later answer changes nothing but the flag of its semaphore.
\<close>

theorem read_client_runs:
  assumes "client_setup cfg v [] S" and "run_allowed client_may_occur client_effect es 0"
  shows "\<exists>S0 S1. client3_init cfg v S = Some (Inr S0) \<and>
    run_events (client_handle client3_notified cfg v) es S0 = Some (Inr S1) \<and>
    client_idle [] [Read] cfg v (run_spec client_effect es 0) S1"
  using client3.runs [OF assms] by (simp add: client3_init_def client3_notified_def)

theorem read_client_runs_example:
  "\<exists>S0 S1 m. client3_init client_cfg client1_vars (client_start (literals_mem [] [])) = Some (Inr S0) \<and>
    run_events (client_handle client3_notified client_cfg client1_vars) [Answer 0 [65, 0], Answer 0 []] S0
      = Some (Inr S1) \<and>
    cl_ntfns S1 = [(0, m)] \<and> m 0x2001000 = Some 0"
proof -
  let ?es = "[Answer 0 [65, 0], Answer 0 []]"
  have "client_setup client_cfg client1_vars [] (client_start (literals_mem [] []))"
    by (rule client_setup_no_texts [OF client1_setup]) simp_all
  moreover have "run_allowed client_may_occur client_effect ?es 0" by simp
  ultimately obtain S0 S1 where S1:
    "client3_init client_cfg client1_vars (client_start (literals_mem [] [])) = Some (Inr S0)"
    "run_events (client_handle client3_notified client_cfg client1_vars) ?es S0 = Some (Inr S1)"
    "client_idle [] [Read] client_cfg client1_vars (run_spec client_effect ?es 0) S1"
    using read_client_runs by blast
  then have "list_all2 (request_sent client1_vars) [Read] (cl_ntfns S1)"
    by (simp add: client_idle_def SERVER_CHANNEL_def)
  then obtain m where "cl_ntfns S1 = [(0, m)]" "requests m (cl_ipc client1_vars) True 0 Read"
    by (auto simp: list_all2_Cons1 request_sent_def SERVER_CHANNEL_def)
  then show ?thesis using S1(1,2) by (auto simp: requests_def client1_vars_def)
qed

end
