(* ===== verification/Codis.thy ===== *)
theory Codis
  imports CodisSystem CodisClients
begin

text \<open>
  The whole of Codis (\<open>example/codis/codis.system\<close>): the server and its three clients, a page
  shared by the server with each client, and a channel between the server and each client.

  A protection domain runs one of its handlers at a time and to its end. The server has the
  highest priority and starts first; after that the clients start and the pending
  notifications are delivered in any order. A notification that is sent again before it is
  delivered is delivered once.
\<close>

subsection \<open>The system\<close>

record codis_images =
  srv_cfg :: config
  srv_vars :: server_vars
  cl_cfg :: "nat \<Rightarrow> config"
  cl_vars :: "nat \<Rightarrow> client_vars"

text \<open>
  Client \<open>i\<close> is \<open>client1\<close>, \<open>client2\<close> or \<open>client3\<close>, on channel \<open>i\<close> of the server. The flags tell
  which clients have started and which notifications are pending.
\<close>

record codis =
  the_server :: codis_server
  the_client :: "nat \<Rightarrow> codis_client"
  started :: "nat \<Rightarrow> bool"
  to_server :: "nat \<Rightarrow> bool"
  to_client :: "nat \<Rightarrow> bool"

definition clients_init :: "nat \<Rightarrow> config \<Rightarrow> client_vars \<Rightarrow> codis_client \<Rightarrow> (fault + codis_client) option" where
  "clients_init i = [client1_init, client2_init, client3_init] ! i"

definition clients_notified ::
    "nat \<Rightarrow> config \<Rightarrow> client_vars \<Rightarrow> microkit_channel \<Rightarrow> codis_client \<Rightarrow> (fault + codis_client) option" where
  "clients_notified i = [client1_notified, client2_notified, client3_notified] ! i"

text \<open>
  A shared page is one page of memory that two protection domains map at addresses of their
  own: what one has written when its handler ends, the other finds there.
\<close>

definition page_at :: "64 memory \<Rightarrow> addr \<Rightarrow> 8 word list" where
  "page_at m a = map (\<lambda>i. the (m (a + of_nat i))) [0..<BUCKET_SIZE]"

definition client_page :: "codis_images \<Rightarrow> nat \<Rightarrow> codis_client \<Rightarrow> 8 word list" where
  "client_page p i C = page_at (cl_mem C) (cl_ipc (cl_vars p i))"

definition server_page :: "codis_images \<Rightarrow> nat \<Rightarrow> codis_server \<Rightarrow> 8 word list" where
  "server_page p i S = page_at (srv_mem S) (ipc_of (srv_vars p) i)"

text \<open>The state after client \<open>i\<close>, or the server, has run a handler.\<close>

definition client_ran :: "codis_images \<Rightarrow> nat \<Rightarrow> codis_client \<Rightarrow> codis \<Rightarrow> codis" where
  "client_ran p i C X = X\<lparr>the_client := (the_client X)(i := C),
     the_server := client_writes (ipc_of (srv_vars p) i) (client_page p i C) (the_server X),
     to_server := (to_server X)(i := to_server X i \<or>
       SERVER_CHANNEL \<in> fst ` set (drop (length (cl_ntfns (the_client X i))) (cl_ntfns C)))\<rparr>"

definition server_ran :: "codis_images \<Rightarrow> codis_server \<Rightarrow> codis \<Rightarrow> codis" where
  "server_ran p S X = X\<lparr>the_server := S,
     the_client := (\<lambda>i. if i < 3 then page_written (cl_vars p i) (server_page p i S) (the_client X i) else the_client X i),
     to_client := (\<lambda>i. to_client X i \<or>
       i < 3 \<and> of_nat i \<in> fst ` set (drop (length (srv_ntfns (the_server X))) (srv_ntfns S)))\<rparr>"

definition codis_boot :: "codis_images \<Rightarrow> codis \<Rightarrow> (fault + codis) option" where
  "codis_boot p X = bindP (server_init (srv_cfg p) (srv_vars p) (the_server X)) (\<lambda>S.
     Some (Inr (server_ran p S X)))"

datatype codis_event = Client_starts nat | Server_notified nat | Client_notified nat

definition codis_events :: "codis_event list" where
  "codis_events = concat (map (\<lambda>i. [Client_starts i, Server_notified i, Client_notified i]) [0..<3])"

fun may_happen :: "codis \<Rightarrow> codis_event \<Rightarrow> bool" where
  "may_happen X (Client_starts i) \<longleftrightarrow> i < 3 \<and> \<not> started X i"
| "may_happen X (Server_notified i) \<longleftrightarrow> i < 3 \<and> to_server X i"
| "may_happen X (Client_notified i) \<longleftrightarrow> i < 3 \<and> started X i \<and> to_client X i"

fun codis_handle :: "codis_images \<Rightarrow> codis_event \<Rightarrow> codis \<Rightarrow> (fault + codis) option" where
  "codis_handle p (Client_starts i) X =
     bindP (clients_init i (cl_cfg p i) (cl_vars p i) (the_client X i)) (\<lambda>C.
     Some (Inr (client_ran p i C (X\<lparr>started := (started X)(i := True)\<rparr>))))"
| "codis_handle p (Server_notified i) X =
     bindP (server_notified (srv_cfg p) (srv_vars p) (of_nat i) (the_server X)) (\<lambda>S.
     Some (Inr (server_ran p S (X\<lparr>to_server := (to_server X)(i := False)\<rparr>))))"
| "codis_handle p (Client_notified i) X =
     bindP (clients_notified i (cl_cfg p i) (cl_vars p i) SERVER_CHANNEL (the_client X i)) (\<lambda>C.
     Some (Inr (client_ran p i C (X\<lparr>to_client := (to_client X)(i := False)\<rparr>))))"

text \<open>A schedule is a list of events; an event that cannot happen at its time is passed over.\<close>

definition codis_step :: "codis_images \<Rightarrow> codis_event \<Rightarrow> codis \<Rightarrow> (fault + codis) option" where
  "codis_step p e X = (if may_happen X e then codis_handle p e X else Some (Inr X))"

subsection \<open>Shared pages\<close>

lemma length_page_at [simp]: "length (page_at m a) = BUCKET_SIZE"
  by (simp add: page_at_def)

lemma nth_page_at: "i < BUCKET_SIZE \<Longrightarrow> page_at m a ! i = the (m (a + of_nat i))"
  by (simp add: page_at_def del: upt_rec_numeral)

lemma page_at_byte:
  assumes "page_at m a = page_at m' a'" and "mapped m a BUCKET_SIZE" and "mapped m' a' BUCKET_SIZE"
    and "i < BUCKET_SIZE"
  shows "m' (a' + of_nat i) = m (a + of_nat i)"
proof -
  have "the (m (a + of_nat i)) = the (m' (a' + of_nat i))"
    using nth_page_at [OF assms(4), of m a] nth_page_at [OF assms(4), of m' a'] assms(1) by simp
  then show ?thesis using assms(2-4) by (fastforce simp: mapped_def)
qed

lemma page_at_cong:
  assumes "\<And>x. inside x a BUCKET_SIZE \<Longrightarrow> m' x = m x"
  shows "page_at m' a = page_at m a"
  using assms ipc_byte by (auto simp: page_at_def simp del: upt_rec_numeral)

lemma page_at_overwrite: "length bs = BUCKET_SIZE \<Longrightarrow> page_at (overwrite m a bs) a = bs"
  by (rule nth_equalityI) (simp_all add: nth_page_at overwrite_in)

lemma overwrite_same:
  assumes "mapped m a BUCKET_SIZE"
  shows "overwrite m a (page_at m a) = m"
proof
  fix x
  show "overwrite m a (page_at m a) x = m x"
  proof (cases "inside x a BUCKET_SIZE")
    case True
    then obtain i where i: "i < BUCKET_SIZE" "x = a + of_nat i" by (subst (asm) inside_iff) auto
    have "overwrite m a (page_at m a) (a + of_nat i) = Some (page_at m a ! i)"
      using i(1) by (intro overwrite_in) simp_all
    then show ?thesis using i assms by (auto simp: nth_page_at mapped_def)
  qed (simp add: overwrite_out)
qed

lemma requests_page:
  assumes "page_at m a = page_at m' a'" and "mapped m a BUCKET_SIZE" and "mapped m' a' BUCKET_SIZE"
    and "requests m a True 0 req"
  shows "requests m' a' csgn 0 req"
proof -
  note at = page_at_byte [OF assms(1-3)]
  have "m' a' = m a" "m' (a' + 1) = m (a + 1)" using at [of 0] at [of 1] by simp_all
  moreover have "cstring m' (a' + 2) s = cstring m (a + 2) s" if "length s < APPEND_CMD_MAX_PAYLOAD_LEN" for s
  proof -
    have "m' (a' + 2 + of_nat i) = m (a + 2 + of_nat i)" if "i \<le> length s" for i
      using at [of "i + 2"] that \<open>length s < APPEND_CMD_MAX_PAYLOAD_LEN\<close>
      by (simp add: add_ac APPEND_CMD_MAX_PAYLOAD_LEN_def)
    then show ?thesis by (auto simp: cstring_def)
  qed
  ultimately show ?thesis using assms(4) by (auto simp: requests_def split: request.splits)
qed

lemma answered_page:
  assumes "page_at m a = page_at m' a'" and "mapped m a BUCKET_SIZE" and "mapped m' a' BUCKET_SIZE"
    and "answered m a r" and "\<And>s. r = Reply_string s \<Longrightarrow> length s < BUCKET_SIZE"
  shows "answered m' a' r"
proof -
  note at = page_at_byte [OF assms(1-3)]
  have "m' a' = m a" "m' (a' + 1) = m (a + 1)" using at [of 0] at [of 1] by simp_all
  moreover have "cstring m' a' s = cstring m a s" if "length s < BUCKET_SIZE" for s
    using at that by (auto simp: cstring_def)
  ultimately show ?thesis using assms(4,5) by (cases r) auto
qed

subsection \<open>The clients\<close>

definition codis_script :: "nat \<Rightarrow> 8 word list list \<Rightarrow> request list" where
  "codis_script i ts = (if i = 2 then [Read] else map Append ts)"

definition texts_for :: "nat \<Rightarrow> 8 word list list \<Rightarrow> bool" where
  "texts_for i ts \<longleftrightarrow> length ts = (if i = 2 then 0 else 2)"

lemma codis_script_length: "texts_for i ts \<Longrightarrow> length (codis_script i ts) = (if i = 2 then 1 else 2)"
  by (simp add: texts_for_def codis_script_def)

lemma client_cases:
  assumes "i < 3" and "texts_for i ts"
  obtains t1 t2 where "i = 0" "ts = [t1, t2]" | t1 t2 where "i = 1" "ts = [t1, t2]" | "i = 2" "ts = []"
proof -
  have "\<exists>t1 t2. ts = [t1, t2]" if "length ts = 2" using that by (auto simp: numeral_2_eq_2 length_Suc_conv)
  moreover have "i = 0 \<or> i = 1 \<or> i = 2" using assms(1) by linarith
  ultimately show thesis using that assms(2) by (auto simp: texts_for_def)
qed

lemma client_boots:
  assumes "i < 3" and "texts_for i ts" and "client_setup cfg v ts C"
  shows "\<exists>C'. clients_init i cfg v C = Some (Inr C') \<and> client_idle ts (codis_script i ts) cfg v 0 C' \<and>
    client_sent v (codis_script i ts) 0 C C'"
  using assms(1,2)
  by (rule client_cases)
    (use assms(3) client1.boots client2.boots client3.boots in
      \<open>simp_all add: clients_init_def client1_init_def client2_init_def client3_init_def codis_script_def\<close>)

lemma client_answered:
  assumes "i < 3" and "texts_for i ts" and "client_idle ts (codis_script i ts) cfg v n C"
  shows "\<exists>C'. clients_notified i cfg v SERVER_CHANNEL C = Some (Inr C') \<and>
    client_idle ts (codis_script i ts) cfg v (Suc n) C' \<and> client_sent v (codis_script i ts) (Suc n) C C'"
  using assms(1,2)
  by (rule client_cases)
    (use assms(3) client1.answered_client client2.answered_client client3.answered_client in
      \<open>simp_all add: clients_notified_def client1_notified_def client2_notified_def client3_notified_def codis_script_def\<close>)

subsection \<open>Progress\<close>

text \<open>
  How far the clients are and which requests were served. Client \<open>i\<close> starts at \<open>0\<close>; at \<open>2 * k + 1\<close>
  its request \<open>k\<close> is on the way, at \<open>2 * k + 2\<close> the answer; at \<open>2 * n + 1\<close> all \<open>n\<close> are answered.
\<close>

type_synonym progress = "(nat \<Rightarrow> nat) \<times> (nat \<times> request) list"

definition on_the_way :: "request list \<Rightarrow> nat \<Rightarrow> bool" where
  "on_the_way script n \<longleftrightarrow> odd n \<and> n div 2 < length script"

fun codis_enabled :: "(nat \<Rightarrow> request list) \<Rightarrow> progress \<Rightarrow> codis_event \<Rightarrow> bool" where
  "codis_enabled sc a (Client_starts i) \<longleftrightarrow> i < 3 \<and> fst a i = 0"
| "codis_enabled sc a (Server_notified i) \<longleftrightarrow> i < 3 \<and> on_the_way (sc i) (fst a i)"
| "codis_enabled sc a (Client_notified i) \<longleftrightarrow> i < 3 \<and> even (fst a i) \<and> 0 < fst a i"

fun codis_advance :: "(nat \<Rightarrow> request list) \<Rightarrow> codis_event \<Rightarrow> progress \<Rightarrow> progress" where
  "codis_advance sc (Client_starts i) (st, h) = (st(i := Suc (st i)), h)"
| "codis_advance sc (Server_notified i) (st, h) = (st(i := Suc (st i)), h @ [(i, sc i ! (st i div 2))])"
| "codis_advance sc (Client_notified i) (st, h) = (st(i := Suc (st i)), h)"

definition codis_effect :: "(nat \<Rightarrow> request list) \<Rightarrow> codis_event \<Rightarrow> progress \<Rightarrow> progress" where
  "codis_effect sc e a = (if codis_enabled sc a e then codis_advance sc e a else a)"

definition table_after :: "(nat \<times> request) list \<Rightarrow> 8 word list list" where
  "table_after h = fold (\<lambda>(i, r). fst \<circ> codis_spec 0 r) h (replicate N_BUCKETS [])"

lemma table_after_snoc: "table_after (h @ [(i, r)]) = fst (codis_spec 0 r (table_after h))"
  by (simp add: table_after_def)

text \<open>The last request of a client that was served, and its reply.\<close>

definition last_reply :: "(nat \<times> request) list \<Rightarrow> nat \<Rightarrow> reply \<Rightarrow> bool" where
  "last_reply h i rep \<longleftrightarrow> (\<exists>h1 r h2. h = h1 @ (i, r) # h2 \<and> i \<notin> fst ` set h2 \<and>
     rep = snd (codis_spec 0 r (table_after h1)))"

lemma last_reply_snoc: "last_reply (h @ [(i, r)]) i (snd (codis_spec 0 r (table_after h)))"
  unfolding last_reply_def by (rule exI [of _ h], rule exI [of _ r], rule exI [of _ "[]"]) simp

lemma last_reply_append: "last_reply h i rep \<Longrightarrow> i \<notin> fst ` set h' \<Longrightarrow> last_reply (h @ h') i rep"
  unfolding last_reply_def by fastforce

subsection \<open>The invariant\<close>

definition codis_ok :: "codis_images \<Rightarrow> (nat \<Rightarrow> 8 word list list) \<Rightarrow> bool" where
  "codis_ok p ts \<longleftrightarrow> (\<forall>i<3. texts_for i (ts i)) \<and>
     (\<forall>i<3. \<forall>j<3. i \<noteq> j \<longrightarrow> apart (ipc_of (srv_vars p) i) BUCKET_SIZE (ipc_of (srv_vars p) j) BUCKET_SIZE)"

abbreviation scripts :: "(nat \<Rightarrow> 8 word list list) \<Rightarrow> nat \<Rightarrow> request list" where
  "scripts ts \<equiv> \<lambda>i. codis_script i (ts i)"

text \<open>Where client \<open>i\<close> is, with \<open>n\<close> steps behind it and the requests \<open>h\<close> served so far.\<close>

definition client_phase ::
    "codis_images \<Rightarrow> (nat \<Rightarrow> 8 word list list) \<Rightarrow> nat \<Rightarrow> nat \<Rightarrow> (nat \<times> request) list \<Rightarrow> codis_client \<Rightarrow> bool" where
  "client_phase p ts i n h C \<longleftrightarrow> n \<le> 2 * length (scripts ts i) + 1 \<and>
     (if n = 0 then client_setup (cl_cfg p i) (cl_vars p i) (ts i) C
      else client_idle (ts i) (scripts ts i) (cl_cfg p i) (cl_vars p i) ((n - 1) div 2) C) \<and>
     (on_the_way (scripts ts i) n \<longrightarrow> requests (cl_mem C) (cl_ipc (cl_vars p i)) True 0 (scripts ts i ! (n div 2))) \<and>
     (2 \<le> n \<and> \<not> on_the_way (scripts ts i) n \<longrightarrow>
        (\<exists>rep. last_reply h i rep \<and> answered (cl_mem C) (cl_ipc (cl_vars p i)) rep))"

definition client_at :: "codis_images \<Rightarrow> (nat \<Rightarrow> 8 word list list) \<Rightarrow> progress \<Rightarrow> codis \<Rightarrow> nat \<Rightarrow> bool" where
  "client_at p ts a X i \<longleftrightarrow> client_phase p ts i (fst a i) (snd a) (the_client X i) \<and>
     started X i = (0 < fst a i) \<and> to_server X i = on_the_way (scripts ts i) (fst a i) \<and>
     to_client X i = (even (fst a i) \<and> 0 < fst a i) \<and>
     client_page p i (the_client X i) = server_page p i (the_server X)"

definition codis_inv :: "codis_images \<Rightarrow> (nat \<Rightarrow> 8 word list list) \<Rightarrow> progress \<Rightarrow> codis \<Rightarrow> bool" where
  "codis_inv p ts a X \<longleftrightarrow> codis_ok p ts \<and>
     server_idle (srv_cfg p) (srv_vars p) (table_after (snd a)) (the_server X) \<and>
     map fst (srv_ntfns (the_server X)) = map (of_nat \<circ> fst) (snd a) \<and> (\<forall>i<3. client_at p ts a X i)"

lemma may_happen_enabled:
  assumes "codis_inv p ts a X"
  shows "may_happen X e = codis_enabled (scripts ts) a e"
  using assms by (cases e) (auto simp: codis_inv_def client_at_def)

lemma phase_mapped: "client_phase p ts i n h C \<Longrightarrow> mapped (cl_mem C) (cl_ipc (cl_vars p i)) BUCKET_SIZE"
  by (auto simp: client_phase_def client_setup_def client_idle_def client_mem_ok_def split: if_splits)

lemma server_mapped: "server_idle cfg v tab S \<Longrightarrow> i < 3 \<Longrightarrow> mapped (srv_mem S) (ipc_of v i) BUCKET_SIZE"
  by (simp add: server_idle_def codis_layout_def)

text \<open>A client is not touched by what the others do.\<close>

lemma client_at_other:
  assumes "client_at p ts a X j" and "fst a' j = fst a j" and "snd a' = snd a @ h" and "j \<notin> fst ` set h"
    and "the_client Y j = the_client X j" and "started Y j = started X j" and "to_server Y j = to_server X j"
    and "to_client Y j = to_client X j" and "server_page p j (the_server Y) = server_page p j (the_server X)"
  shows "client_at p ts a' Y j"
proof -
  have "client_phase p ts j (fst a j) (snd a @ h) C" if "client_phase p ts j (fst a j) (snd a) C" for C
    using that assms(4) last_reply_append unfolding client_phase_def by meson
  then show ?thesis using assms by (simp add: client_at_def)
qed

lemma page_written_same:
  "mapped (cl_mem C) (cl_ipc v) BUCKET_SIZE \<Longrightarrow> page_written v (page_at (cl_mem C) (cl_ipc v)) C = C"
  by (simp add: page_written_def overwrite_same)

lemma client_writes_page:
  assumes "codis_ok p ts" and "i < 3" and "j < 3" and "length bs = BUCKET_SIZE"
  shows "server_page p j (client_writes (ipc_of (srv_vars p) i) bs S) = (if j = i then bs else server_page p j S)"
proof (cases "j = i")
  case True
  then show ?thesis using assms(4) by (simp add: server_page_def client_writes_def page_at_overwrite)
next
  case False
  then have "apart (ipc_of (srv_vars p) j) BUCKET_SIZE (ipc_of (srv_vars p) i) BUCKET_SIZE"
    using assms(1-3) by (simp add: codis_ok_def)
  then have "server_page p j (client_writes (ipc_of (srv_vars p) i) bs S) = server_page p j S"
    unfolding server_page_def
    by (intro page_at_cong) (simp add: client_writes_def overwrite_out assms(4) apart_not_inside)
  with False show ?thesis by simp
qed

text \<open>A client has sent its next request, or has come to its end.\<close>

lemma client_ran_inv:
  assumes inv: "codis_inv p ts (st, h) X" and i: "i < 3" and even: "even (st i)"
    and idle: "client_idle (ts i) (scripts ts i) (cl_cfg p i) (cl_vars p i) (st i div 2) C"
    and sent: "client_sent (cl_vars p i) (scripts ts i) (st i div 2) (the_client X i) C"
    and X': "the_client X' = the_client X" "the_server X' = the_server X" "to_server X' = to_server X"
      "started X' = (started X)(i := True)" "to_client X' = (to_client X)(i := False)"
  shows "codis_inv p ts (st(i := Suc (st i)), h) (client_ran p i C X')"
proof -
  let ?Y = "client_ran p i C X'" and ?sc = "scripts ts i" and ?n = "st i div 2"
  have ok: "codis_ok p ts" and srv: "server_idle (srv_cfg p) (srv_vars p) (table_after h) (the_server X)"
    using inv by (simp_all add: codis_inv_def)
  have at: "client_at p ts (st, h) X j" if "j < 3" for j using inv that by (simp add: codis_inv_def)
  have bound: "st i \<le> 2 * length ?sc" using at [OF i] even by (auto simp: client_at_def client_phase_def elim: evenE)
  have pages: "server_page p j (the_server ?Y) = (if j = i then client_page p i C else server_page p j (the_server X))"
    if "j < 3" for j
    using client_writes_page [OF ok i that, where bs = "client_page p i C" and S = "the_server X"]
    by (simp add: client_ran_def X' client_page_def)
  have "server_idle (srv_cfg p) (srv_vars p) (table_after h) (the_server ?Y)"
    using page_write [OF srv i] by (simp add: client_ran_def X' client_page_def)
  moreover have "client_at p ts (st(i := Suc (st i)), h) ?Y j" if "j < 3" "j \<noteq> i" for j
    by (rule client_at_other [OF at [OF that(1)], where h = "[]"])
      (use that pages in \<open>simp_all add: client_ran_def X'\<close>)
  moreover have "client_at p ts (st(i := Suc (st i)), h) ?Y i"
  proof -
    have way: "on_the_way ?sc (Suc (st i)) \<longleftrightarrow> ?n < length ?sc" using even by (auto simp: on_the_way_def)
    have "\<exists>rep. last_reply h i rep \<and> answered (cl_mem C) (cl_ipc (cl_vars p i)) rep"
      if "\<not> ?n < length ?sc" "2 \<le> Suc (st i)"
      using at [OF i] that sent even by (auto simp: client_at_def client_phase_def client_sent_def on_the_way_def)
    then have "client_phase p ts i (Suc (st i)) h C"
      using idle sent bound way even by (auto simp: client_phase_def client_sent_def)
    moreover have "SERVER_CHANNEL \<in> fst ` set (drop (length (cl_ntfns (the_client X i))) (cl_ntfns C)) \<longleftrightarrow> ?n < length ?sc"
      using sent by (auto simp: client_sent_def split: if_splits)
    moreover have "\<not> to_server X i" using at [OF i] even by (simp add: client_at_def on_the_way_def)
    ultimately show ?thesis
      using pages [OF i] even way by (simp add: client_at_def client_ran_def X')
  qed
  moreover have "map fst (srv_ntfns (the_server ?Y)) = map (of_nat \<circ> fst) h"
    using inv by (simp add: codis_inv_def client_ran_def X' client_writes_def)
  ultimately show ?thesis using ok by (auto simp: codis_inv_def)
qed

lemma client_starts_inv:
  assumes inv: "codis_inv p ts (st, h) X" and "codis_enabled (scripts ts) (st, h) (Client_starts i)"
  shows "\<exists>X'. codis_handle p (Client_starts i) X = Some (Inr X') \<and> codis_inv p ts (st(i := Suc (st i)), h) X'"
proof -
  have i: "i < 3" "st i = 0" using assms(2) by simp_all
  then have at: "client_at p ts (st, h) X i" and "texts_for i (ts i)"
    using inv by (auto simp: codis_inv_def codis_ok_def)
  then obtain C where C: "clients_init i (cl_cfg p i) (cl_vars p i) (the_client X i) = Some (Inr C)"
    "client_idle (ts i) (scripts ts i) (cl_cfg p i) (cl_vars p i) 0 C"
    "client_sent (cl_vars p i) (scripts ts i) 0 (the_client X i) C"
    using client_boots [OF i(1)] i(2) by (fastforce simp: client_at_def client_phase_def)
  let ?X = "X\<lparr>started := (started X)(i := True)\<rparr>"
  have "\<not> to_client X i" using at i(2) by (simp add: client_at_def)
  then have "codis_inv p ts (st(i := Suc (st i)), h) (client_ran p i C ?X)"
    using i C(2,3) by (intro client_ran_inv [OF inv]) (simp_all add: fun_upd_idem)
  then show ?thesis using C(1) by simp
qed

lemma client_notified_inv:
  assumes inv: "codis_inv p ts (st, h) X" and "codis_enabled (scripts ts) (st, h) (Client_notified i)"
  shows "\<exists>X'. codis_handle p (Client_notified i) X = Some (Inr X') \<and> codis_inv p ts (st(i := Suc (st i)), h) X'"
proof -
  have i: "i < 3" "even (st i)" "0 < st i" using assms(2) by simp_all
  then obtain k where k: "st i = Suc (Suc (2 * k))" by (auto elim!: evenE) (metis Suc_diff_1 mult_Suc_right add_2_eq_Suc)
  have at: "client_at p ts (st, h) X i" and "texts_for i (ts i)"
    using inv i(1) by (auto simp: codis_inv_def codis_ok_def)
  then obtain C where C: "clients_notified i (cl_cfg p i) (cl_vars p i) SERVER_CHANNEL (the_client X i) = Some (Inr C)"
    "client_idle (ts i) (scripts ts i) (cl_cfg p i) (cl_vars p i) (Suc k) C"
    "client_sent (cl_vars p i) (scripts ts i) (Suc k) (the_client X i) C"
    using client_answered [OF i(1)] by (fastforce simp: client_at_def client_phase_def k)
  let ?X = "X\<lparr>to_client := (to_client X)(i := False)\<rparr>"
  have "started X i" using at i(3) by (simp add: client_at_def)
  then have "codis_inv p ts (st(i := Suc (st i)), h) (client_ran p i C ?X)"
    using i C(2,3) by (intro client_ran_inv [OF inv]) (simp_all add: fun_upd_idem k)
  then show ?thesis using C(1) by simp
qed

text \<open>The server has answered a client.\<close>

lemma codis_frame_page:
  assumes "codis_frame m m' d ipc" and "codis_layout m d b" and "apart b BUCKET_SIZE ipc BUCKET_SIZE"
  shows "page_at m' b = page_at m b"
proof (rule page_at_cong)
  fix x assume "inside x b BUCKET_SIZE"
  then have "\<not> inside x ipc BUCKET_SIZE" "\<not> inside x d (N_BUCKETS * BUCKET_SIZE)"
    using apart_not_inside [OF assms(3)] ipc_not_db [OF assms(2)] by blast+
  then show "m' x = m x" using assms(1) by (simp add: codis_frame_def)
qed

lemma reply_fits:
  assumes "server_idle cfg v tab S" and "snd (codis_spec 0 r tab) = Reply_string s"
  shows "length s < BUCKET_SIZE"
  using assms by (cases r) (auto simp: server_idle_def db_rep_def split: if_splits)

lemma server_notified_inv:
  assumes inv: "codis_inv p ts (st, h) X" and "codis_enabled (scripts ts) (st, h) (Server_notified i)"
  shows "\<exists>X'. codis_handle p (Server_notified i) X = Some (Inr X') \<and>
    codis_inv p ts (codis_advance (scripts ts) (Server_notified i) (st, h)) X'"
proof -
  let ?v = "srv_vars p" and ?sc = "scripts ts i" and ?cv = "cl_vars p i"
  let ?req = "?sc ! (st i div 2)" and ?S = "the_server X" and ?C = "the_client X i"
  have i: "i < 3" "on_the_way ?sc (st i)" using assms(2) by simp_all
  have ok: "codis_ok p ts" and srv: "server_idle (srv_cfg p) ?v (table_after h) ?S"
    using inv by (simp_all add: codis_inv_def)
  have at: "client_at p ts (st, h) X j" if "j < 3" for j using inv that by (simp add: codis_inv_def)
  then have phase: "client_phase p ts j (st j) h (the_client X j)"
    and same: "client_page p j (the_client X j) = server_page p j ?S" if "j < 3" for j
    using that by (simp_all add: client_at_def)
  have "requests (srv_mem ?S) (ipc_of ?v i) (char_signed ?v) 0 ?req"
    using phase [OF i(1)] i(2) same [OF i(1)]
    by (intro requests_page [OF _ phase_mapped [OF phase [OF i(1)]] server_mapped [OF srv i(1)]])
      (simp_all add: client_page_def server_page_def client_phase_def)
  then obtain S' where S': "server_notified (srv_cfg p) ?v (of_nat i) ?S = Some (Inr S')"
    "server_idle (srv_cfg p) ?v (table_after (h @ [(i, ?req)])) S'"
    "srv_ntfns S' = srv_ntfns ?S @ [(of_nat i, srv_mem S')]"
    "replied (srv_mem ?S) (srv_mem S') (ipc_of ?v i) (snd (codis_spec 0 ?req (table_after h)))"
    "codis_frame (srv_mem ?S) (srv_mem S') (db ?v) (ipc_of ?v i)"
    using notified_request [OF srv i(1)] by (auto simp: table_after_snoc)
  let ?Y = "server_ran p S' (X\<lparr>to_server := (to_server X)(i := False)\<rparr>)"
  let ?a = "(st(i := Suc (st i)), h @ [(i, ?req)])"
  have told: "of_nat j \<in> fst ` set (drop (length (srv_ntfns ?S)) (srv_ntfns S')) \<longleftrightarrow> j = i" if "j < 3" for j
  proof -
    have "j = i" if "(of_nat j :: microkit_channel) = of_nat i"
      using arg_cong [OF that, of unat] i(1) \<open>j < 3\<close> by (simp add: unat_of_nat)
    then show ?thesis using S'(3) by auto
  qed
  have other: "client_at p ts ?a ?Y j" if "j < 3" "j \<noteq> i" for j
  proof (rule client_at_other [OF at [OF that(1)], where h = "[(i, ?req)]"])
    have "codis_layout (srv_mem ?S) (db ?v) (ipc_of ?v j)" "apart (ipc_of ?v j) BUCKET_SIZE (ipc_of ?v i) BUCKET_SIZE"
      using srv ok that i(1) by (simp_all add: server_idle_def codis_ok_def)
    then show page: "server_page p j (the_server ?Y) = server_page p j ?S"
      using codis_frame_page [OF S'(5)] by (simp add: server_ran_def server_page_def)
    show "the_client ?Y j = the_client X j"
      using that(1) page page_written_same [OF phase_mapped [OF phase [OF that(1)]]] same [OF that(1)]
      by (simp add: server_ran_def client_page_def)
    show "to_client ?Y j = to_client X j" using told [OF that(1)] that by (simp add: server_ran_def)
  qed (use that in \<open>auto simp: server_ran_def\<close>)
  moreover have "client_at p ts ?a ?Y i"
  proof -
    let ?C' = "page_written ?cv (server_page p i S') ?C" and ?rep = "snd (codis_spec 0 ?req (table_after h))"
    have odd: "odd (st i)" "st i div 2 < length ?sc" using i(2) by (simp_all add: on_the_way_def)
    then obtain k where k: "st i = Suc (2 * k)" "k < length ?sc" by (auto elim!: oddE)
    have idle: "client_idle (ts i) ?sc (cl_cfg p i) ?cv k ?C"
      using phase [OF i(1)] by (simp add: client_phase_def k(1))
    have idle': "client_idle (ts i) ?sc (cl_cfg p i) ?cv k ?C'"
      by (rule page_written_idle [OF idle]) (simp add: server_page_def)
    have page: "client_page p i ?C' = server_page p i S'"
      by (simp add: client_page_def page_written_def page_at_overwrite server_page_def)
    have mapped: "mapped (cl_mem ?C') (cl_ipc ?cv) BUCKET_SIZE"
      using idle' by (simp add: client_idle_def client_mem_ok_def)
    have "answered (cl_mem ?C') (cl_ipc ?cv) ?rep"
      using page replied_answered [OF S'(4)] reply_fits [OF srv]
      by (intro answered_page [OF _ server_mapped [OF S'(2) i(1)] mapped])
        (simp_all add: client_page_def server_page_def)
    then have "client_phase p ts i (Suc (st i)) (h @ [(i, ?req)]) ?C'"
      using idle' k last_reply_snoc [of h i ?req] by (auto simp: client_phase_def on_the_way_def)
    then show ?thesis
      using at [OF i(1)] i(1) page told [OF i(1)] k by (simp add: client_at_def server_ran_def on_the_way_def)
  qed
  moreover have "map fst (srv_ntfns (the_server ?Y)) = map (of_nat \<circ> fst) (h @ [(i, ?req)])"
    using inv S'(3) by (simp add: codis_inv_def server_ran_def)
  ultimately have "codis_inv p ts ?a ?Y" using S'(2) ok by (auto simp: codis_inv_def server_ran_def)
  then show ?thesis using S'(1) by simp
qed

lemma codis_step_inv:
  assumes "codis_inv p ts a X"
  shows "\<exists>X'. codis_step p e X = Some (Inr X') \<and> codis_inv p ts (codis_effect (scripts ts) e a) X'"
proof (cases "codis_enabled (scripts ts) a e")
  case False
  then show ?thesis using assms may_happen_enabled [OF assms] by (simp add: codis_step_def codis_effect_def)
next
  case True
  obtain st h where a: "a = (st, h)" by (cases a)
  have "\<exists>X'. codis_handle p e X = Some (Inr X') \<and> codis_inv p ts (codis_advance (scripts ts) e a) X'"
    using client_starts_inv server_notified_inv client_notified_inv assms True by (cases e) (auto simp: a)
  then show ?thesis using True may_happen_enabled [OF assms] by (simp add: codis_step_def codis_effect_def)
qed

interpretation codis: event_loop "codis_inv p ts" "\<lambda>_ _. True" "codis_effect (scripts ts)" "codis_step p" for p ts
  by unfold_locales (rule codis_step_inv)

end
