(* ===== verification/CodisRuns.thy ===== *)
theory CodisRuns
  imports Codis
begin

text \<open>
  The runs of Codis, from boot to the end: the clients' steps are bounded, so every fair
  schedule ends, and the bucket the clients share holds their texts in an order that keeps
  the order of each client.
\<close>

subsection \<open>Boot\<close>

text \<open>What the system description and the loader provide.\<close>

definition system_setup :: "codis_images \<Rightarrow> (nat \<Rightarrow> 8 word list list) \<Rightarrow> codis \<Rightarrow> bool" where
  "system_setup p ts X \<longleftrightarrow> codis_ok p ts \<and> length (concat (ts 0 @ ts 1)) < BUCKET_SIZE \<and>
     server_setup (srv_cfg p) (srv_vars p) (the_server X) \<and> srv_ntfns (the_server X) = [] \<and>
     (\<forall>i<3. client_setup (cl_cfg p i) (cl_vars p i) (ts i) (the_client X i) \<and>
        \<not> started X i \<and> \<not> to_server X i \<and> \<not> to_client X i)"

lemma client_setup_page:
  assumes "client_setup cfg v ts C" and "length bs = BUCKET_SIZE"
  shows "client_setup cfg v ts (page_written v bs C)"
proof -
  let ?m = "overwrite (cl_mem C) (cl_ipc v) bs"
  have ok: "client_mem_ok v ts (cl_mem C)" using assms(1) by (simp add: client_setup_def)
  then have dom: "dom ?m = dom (cl_mem C)"
    using assms(2) by (intro overwrite_dom) (simp_all add: client_mem_ok_def)
  have "client_mem_ok v ts ?m"
    by (rule client_mem_ok_page [OF ok dom]) (simp add: overwrite_out assms(2))
  moreover have "init_env cfg (cl_co_mem v) ((cl_pd C)\<lparr>pd_mem := ?m\<rparr>)"
    using assms(1) by (intro init_env_mem [OF _ dom]) (simp add: client_setup_def)
  moreover have "stacks_given cfg 0x2000 [cl_co_stack v] ?m"
    using assms(1) by (simp only: stacks_given_mem [OF dom]) (simp add: client_setup_def)
  ultimately show ?thesis using assms(1) by (simp add: client_setup_def page_written_def)
qed

lemma codis_boots:
  assumes "system_setup p ts X"
  shows "\<exists>Y. codis_boot p X = Some (Inr Y) \<and> codis_inv p ts (\<lambda>_. 0, []) Y"
proof -
  have "server_setup (srv_cfg p) (srv_vars p) (the_server X)" using assms by (simp add: system_setup_def)
  then obtain S where S: "server_init (srv_cfg p) (srv_vars p) (the_server X) = Some (Inr S)"
    "server_idle (srv_cfg p) (srv_vars p) (replicate N_BUCKETS []) S" "srv_ntfns S = srv_ntfns (the_server X)"
    using server_boots by blast
  let ?Y = "server_ran p S X"
  have "client_at p ts (\<lambda>_. 0, []) ?Y i" if "i < 3" for i
  proof -
    let ?C = "page_written (cl_vars p i) (server_page p i S) (the_client X i)"
    have "client_setup (cl_cfg p i) (cl_vars p i) (ts i) ?C"
      using assms that by (intro client_setup_page) (simp_all add: system_setup_def server_page_def)
    moreover have "client_page p i ?C = server_page p i S"
      by (simp add: client_page_def page_written_def page_at_overwrite server_page_def)
    ultimately show ?thesis
      using assms that S(3)
      by (simp add: client_at_def client_phase_def server_ran_def system_setup_def on_the_way_def)
  qed
  then have "codis_inv p ts (\<lambda>_. 0, []) ?Y"
    using assms S(2,3) by (simp add: codis_inv_def system_setup_def table_after_def server_ran_def)
  then show ?thesis using S(1) by (simp add: codis_boot_def)
qed

subsection \<open>Every fair schedule ends\<close>

definition progress_ok :: "(nat \<Rightarrow> request list) \<Rightarrow> progress \<Rightarrow> bool" where
  "progress_ok sc a \<longleftrightarrow> (\<forall>e\<in>set (snd a). fst e < 3) \<and>
     (\<forall>i<3. fst a i \<le> 2 * length (sc i) + 1 \<and>
        map snd (filter (\<lambda>e. fst e = i) (snd a)) = take (fst a i div 2) (sc i))"

lemma progress_effect:
  assumes "progress_ok sc a"
  shows "progress_ok sc (codis_effect sc e a)"
proof (cases "codis_enabled sc a e")
  case True
  obtain st h where a: "a = (st, h)" by (cases a)
  show ?thesis
  proof (cases e)
    case (Server_notified i)
    then have i: "i < 3" "odd (st i)" "st i div 2 < length (sc i)" using True by (simp_all add: a on_the_way_def)
    then have "take (Suc (st i) div 2) (sc i) = take (st i div 2) (sc i) @ [sc i ! (st i div 2)]"
      by (simp add: take_Suc_conv_app_nth)
    then show ?thesis using assms True i
      by (auto simp: a Server_notified codis_effect_def progress_ok_def)
  next
    case (Client_starts i)
    then show ?thesis using assms True by (auto simp: a codis_effect_def progress_ok_def)
  next
    case (Client_notified i)
    then have "Suc (st i) div 2 = st i div 2" "st i \<le> 2 * length (sc i)"
      using assms True by (auto simp: a progress_ok_def elim!: evenE)
    then show ?thesis using assms True Client_notified by (auto simp: a codis_effect_def progress_ok_def)
  qed
qed (simp add: codis_effect_def assms)

lemma progress_run: "progress_ok sc a \<Longrightarrow> progress_ok sc (run_spec (codis_effect sc) es a)"
  by (induction es arbitrary: a) (simp_all add: progress_effect)

definition steps_done :: "progress \<Rightarrow> nat" where
  "steps_done a = (\<Sum>i<3. fst a i)"

lemma steps_effect: "steps_done (codis_effect sc e a) = steps_done a + (if codis_enabled sc a e then 1 else 0)"
  by (cases a; cases e) (auto simp: codis_effect_def steps_done_def numeral_3_eq_3 less_Suc_eq)

lemma steps_run: "steps_done a \<le> steps_done (run_spec (codis_effect sc) es a)"
proof (induction es arbitrary: a)
  case (Cons e es)
  show ?case using Cons.IH [of "codis_effect sc e a"] by (simp add: steps_effect split: if_splits)
qed simp

lemma stuck_run: "(\<And>e. \<not> codis_enabled sc a e) \<Longrightarrow> run_spec (codis_effect sc) es a = a"
  by (induction es) (simp_all add: codis_effect_def)

lemma enabled_known: "codis_enabled sc a e \<Longrightarrow> e \<in> set codis_events"
  by (cases e) (auto simp: codis_events_def)

text \<open>A round offers every event; unless nothing can happen, something does.\<close>

lemma round_advances:
  assumes "codis_enabled sc a e" and "e \<in> set r"
  shows "steps_done a < steps_done (run_spec (codis_effect sc) r a)"
  using assms
proof (induction r arbitrary: a)
  case (Cons f r)
  let ?a = "codis_effect sc f a"
  have run: "run_spec (codis_effect sc) (f # r) a = run_spec (codis_effect sc) r ?a" by simp
  show ?case
  proof (cases "codis_enabled sc a f")
    case True
    then show ?thesis using steps_run [of ?a sc r] steps_effect [of sc f a] unfolding run by simp
  next
    case False
    then have "?a = a" "f \<noteq> e" using Cons.prems(1) by (auto simp: codis_effect_def)
    then show ?thesis using Cons unfolding run by simp
  qed
qed simp

definition rounds :: "nat \<Rightarrow> codis_event list \<Rightarrow> bool" where
  "rounds n es \<longleftrightarrow> (\<exists>rs. es = concat rs \<and> n \<le> length rs \<and> (\<forall>r\<in>set rs. set codis_events \<subseteq> set r))"

lemma rounds_advance:
  assumes "\<forall>r\<in>set rs. set codis_events \<subseteq> set r"
  shows "(\<forall>e. \<not> codis_enabled sc (run_spec (codis_effect sc) (concat rs) a) e) \<or>
    length rs \<le> steps_done (run_spec (codis_effect sc) (concat rs) a)"
  using assms
proof (induction rs rule: rev_induct)
  case (snoc r rs)
  let ?b = "run_spec (codis_effect sc) (concat rs) a"
  have run: "run_spec (codis_effect sc) (concat (rs @ [r])) a = run_spec (codis_effect sc) r ?b"
    by (simp add: run_spec_append)
  show ?case
  proof (cases "\<exists>e. codis_enabled sc ?b e")
    case True
    then obtain e where e: "codis_enabled sc ?b e" by blast
    moreover have "e \<in> set r" using enabled_known [OF e] snoc.prems by auto
    ultimately have "steps_done ?b < steps_done (run_spec (codis_effect sc) r ?b)" by (rule round_advances)
    moreover have "length rs \<le> steps_done ?b" using snoc e by auto
    ultimately show ?thesis unfolding run by simp
  next
    case False
    then have "run_spec (codis_effect sc) r ?b = ?b" by (intro stuck_run) simp
    then show ?thesis using False unfolding run by simp
  qed
qed simp

lemma fair_run_ends:
  assumes "progress_ok sc a" and "rounds n es" and "(\<Sum>i<3. 2 * length (sc i) + 1) \<le> n"
  shows "\<not> codis_enabled sc (run_spec (codis_effect sc) es a) e"
proof
  let ?b = "run_spec (codis_effect sc) es a"
  assume e: "codis_enabled sc ?b e"
  obtain rs where "es = concat rs" "n \<le> length rs" "\<forall>r\<in>set rs. set codis_events \<subseteq> set r"
    using assms(2) by (auto simp: rounds_def)
  then have "n \<le> steps_done ?b" using rounds_advance [of rs sc a] e by auto
  then have "n < steps_done (codis_effect sc e ?b)" using e by (simp add: steps_effect)
  moreover have "progress_ok sc (codis_effect sc e ?b)" by (intro progress_effect progress_run assms(1))
  then have "steps_done (codis_effect sc e ?b) \<le> (\<Sum>i<3. 2 * length (sc i) + 1)"
    unfolding steps_done_def by (intro sum_mono) (simp add: progress_ok_def)
  ultimately show False using assms(3) by simp
qed

lemma stuck_at_end:
  assumes "progress_ok sc a" and "\<And>e. \<not> codis_enabled sc a e" and "i < 3"
  shows "fst a i = 2 * length (sc i) + 1" and "map snd (filter (\<lambda>e. fst e = i) (snd a)) = sc i"
proof -
  have "fst a i \<noteq> 0" "\<not> on_the_way (sc i) (fst a i)" "\<not> (even (fst a i) \<and> 0 < fst a i)"
    using assms(3) assms(2) [of "Client_starts i"] assms(2) [of "Server_notified i"]
      assms(2) [of "Client_notified i"] by auto
  moreover have "fst a i \<le> 2 * length (sc i) + 1" using assms(1,3) by (simp add: progress_ok_def)
  ultimately show *: "fst a i = 2 * length (sc i) + 1" by (auto simp: on_the_way_def elim!: oddE)
  show "map snd (filter (\<lambda>e. fst e = i) (snd a)) = sc i" using assms(1,3) * by (simp add: progress_ok_def)
qed

subsection \<open>The shared bucket\<close>

definition appended :: "request list \<Rightarrow> 8 word list list" where
  "appended rs = concat (map (\<lambda>r. case r of Append s \<Rightarrow> [s] | _ \<Rightarrow> []) rs)"

lemma appended_simps [simp]:
  "appended [] = []" "appended (Append s # rs) = s # appended rs" "appended (Read # rs) = appended rs"
  "appended (rs @ rs') = appended rs @ appended rs'" "appended (map Append ts) = ts"
  by (simp_all add: appended_def) (induction ts, simp_all)

definition bucket_of :: "8 word list \<Rightarrow> 8 word list list" where
  "bucket_of s = (replicate N_BUCKETS [])[0 := s]"

lemma bucket_of_simps [simp]: "bucket_of s ! 0 = s" "(bucket_of s)[0 := t] = bucket_of t"
  by (simp_all add: bucket_of_def)

lemma table_after_texts:
  assumes "\<forall>e\<in>set h. snd e = Read \<or> (\<exists>s. snd e = Append s)"
    and "length (concat (appended (map snd h))) < BUCKET_SIZE"
  shows "table_after h = bucket_of (concat (appended (map snd h)))"
  using assms
proof (induction h rule: rev_induct)
  case Nil
  show ?case
    by (simp add: table_after_def bucket_of_def) (metis list_update_id nth_replicate zero_less_numeral)
next
  case (snoc e h)
  obtain i r where e: "e = (i, r)" by (cases e)
  then have "r = Read \<or> (\<exists>s. r = Append s)" using snoc.prems(1) by auto
  moreover have "table_after h = bucket_of (concat (appended (map snd h)))" using snoc by simp
  ultimately show ?case using snoc.prems(2) by (auto simp: e table_after_snoc)
qed

lemma length_concat_shuffles:
  "zs \<in> shuffles xs ys \<Longrightarrow> length (concat zs) = length (concat xs) + length (concat ys)"
  by (induction xs ys arbitrary: zs rule: shuffles.induct) auto

lemma appended_shuffles:
  fixes h :: "(nat \<times> request) list"
  assumes "\<forall>e\<in>set h. fst e < 3 \<and> (fst e = 2 \<longrightarrow> snd e = Read)"
    and "\<forall>e\<in>set h. snd e = Read \<or> (\<exists>s. snd e = Append s)"
  shows "appended (map snd h) \<in>
    shuffles (appended (map snd (filter (\<lambda>e. fst e = 0) h))) (appended (map snd (filter (\<lambda>e. fst e = 1) h)))"
  using assms
proof (induction h)
  case (Cons e h)
  obtain i r where e: "e = (i, r)" by (cases e)
  then have "i = 0 \<or> i = 1 \<or> i = 2" "i = 2 \<longrightarrow> r = Read" "r = Read \<or> (\<exists>s. r = Append s)"
    using Cons.prems by auto
  with Cons show ?case by (auto simp: e intro: Cons_in_shuffles_leftI Cons_in_shuffles_rightI)
qed simp

text \<open>What the clients have done in the end.\<close>

lemma end_history:
  assumes "progress_ok (scripts ts) a" and "\<And>e. \<not> codis_enabled (scripts ts) a e"
    and "\<forall>i<3. texts_for i (ts i)"
  shows "appended (map snd (snd a)) \<in> shuffles (ts 0) (ts 1)"
    and "\<forall>e\<in>set (snd a). snd e = Read \<or> (\<exists>s. snd e = Append s)"
    and "(2, r) \<in> set (snd a) \<Longrightarrow> r = Read"
proof -
  let ?h = "snd a"
  note only = stuck_at_end(2) [OF assms(1,2)]
  have mem: "r \<in> set (scripts ts i)" "i < 3" if "(i, r) \<in> set ?h" for i r
  proof -
    show "i < 3" using assms(1) that by (auto simp: progress_ok_def)
    have "r \<in> set (map snd (filter (\<lambda>e. fst e = i) ?h))" using that by force
    then show "r \<in> set (scripts ts i)" using only [OF \<open>i < 3\<close>] by simp
  qed
  show read: "r = Read" if "(2, r) \<in> set ?h" for r using mem(1) [OF that] by (simp add: codis_script_def)
  show kinds: "\<forall>e\<in>set ?h. snd e = Read \<or> (\<exists>s. snd e = Append s)"
    using mem(1) by (fastforce simp: codis_script_def split: if_splits)
  have "\<forall>e\<in>set ?h. fst e < 3 \<and> (fst e = 2 \<longrightarrow> snd e = Read)" using mem(2) read by auto
  from appended_shuffles [OF this kinds] show "appended (map snd ?h) \<in> shuffles (ts 0) (ts 1)"
    using only [of 0] only [of 1] by (simp add: codis_script_def)
qed

text \<open>
  The texts that the appending clients have sent when the server has notified its clients in
  the order \<open>cs\<close>: the server notifies a client once for each of its requests.
\<close>

fun served_texts :: "(nat \<Rightarrow> 8 word list list) \<Rightarrow> microkit_channel list \<Rightarrow> 8 word list list" where
  "served_texts ts [] = []"
| "served_texts ts (c # cs) =
     (case ts (unat c) of [] \<Rightarrow> served_texts ts cs | t # us \<Rightarrow> t # served_texts (ts(unat c := us)) cs)"

text \<open>
  The end of Codis: the cothreads of the clients are gone and the server has notified each
  client once for each of its requests. Bucket 0 holds all texts in the order in which they
  were served, those of a client in its order, the other buckets are empty; the page of
  client 3 holds the texts that were served before its read.
\<close>

definition codis_done :: "codis_images \<Rightarrow> (nat \<Rightarrow> 8 word list list) \<Rightarrow> codis \<Rightarrow> bool" where
  "codis_done p ts X \<longleftrightarrow>
     (let served = map fst (srv_ntfns (the_server X)); texts = served_texts ts served in
      (\<forall>i<3. length (filter (\<lambda>c. c = of_nat i) served) = length (codis_script i (ts i))) \<and>
      texts \<in> shuffles (ts 0) (ts 1) \<and>
      server_idle (srv_cfg p) (srv_vars p) ((replicate N_BUCKETS [])[0 := concat texts]) (the_server X) \<and>
      cstring (cl_mem (the_client X 2)) (cl_ipc (cl_vars p 2))
        (concat (served_texts ts (takeWhile (\<lambda>c. c \<noteq> 2) served)))) \<and>
     (\<forall>i<3. client_idle (ts i) (codis_script i (ts i)) (cl_cfg p i) (cl_vars p i)
        (length (codis_script i (ts i))) (the_client X i))"

lemma channel_eq:
  assumes "i < 3" and "j < 3"
  shows "(of_nat i :: microkit_channel) = of_nat j \<longleftrightarrow> i = j"
proof
  assume "(of_nat i :: microkit_channel) = of_nat j"
  from arg_cong [OF this, of unat] show "i = j" using assms by (simp add: unat_of_nat)
qed simp

lemma served_history:
  assumes "\<forall>e\<in>set h. fst e < 3" and "\<forall>i<3. \<exists>k. map snd (filter (\<lambda>e. fst e = i) h) = take k (scripts ts i)"
    and "ts 2 = []"
  shows "served_texts ts (map (\<lambda>e. of_nat (fst e)) h) = appended (map snd h)"
  using assms
proof (induction h arbitrary: ts)
  case (Cons e h)
  obtain i r where e: "e = (i, r)" by (cases e)
  have i: "i < 3" "unat (of_nat i :: microkit_channel) = i" using Cons.prems(1) by (simp_all add: e unat_of_nat)
  obtain k where k: "r # map snd (filter (\<lambda>e. fst e = i) h) = take k (scripts ts i)"
    using Cons.prems(2) i(1) by (auto simp: e)
  have rest: "\<exists>k. map snd (filter (\<lambda>e. fst e = j) h) = take k (scripts ts j)" if "j < 3" "j \<noteq> i" for j
    using Cons.prems(2) [rule_format, OF that(1)] that(2) by (simp add: e)
  show ?case
  proof (cases "i = 2")
    case True
    then have "r = Read" "map snd (filter (\<lambda>e. fst e = i) h) = take 0 (scripts ts i)"
      using k by (cases k; simp add: codis_script_def)+
    then have "served_texts ts (map (\<lambda>e. of_nat (fst e)) h) = appended (map snd h)"
      using Cons.IH [of ts] Cons.prems(1,3) rest by (metis list.set_intros(2))
    then show ?thesis using \<open>r = Read\<close> i(2) Cons.prems(3) True by (simp add: e)
  next
    case False
    then obtain s us where us: "ts i = s # us" "r = Append s" "map snd (filter (\<lambda>e. fst e = i) h) = take (k - 1) (map Append us)"
      using k by (cases k; cases "ts i") (auto simp: codis_script_def)
    have "\<exists>k. map snd (filter (\<lambda>e. fst e = j) h) = take k (scripts (ts(i := us)) j)" if "j < 3" for j
      using rest [of j] us(3) that False by (cases "j = i") (auto simp: codis_script_def)
    then have "served_texts (ts(i := us)) (map (\<lambda>e. of_nat (fst e)) h) = appended (map snd h)"
      using Cons.prems(1,3) False by (intro Cons.IH) auto
    then show ?thesis using i(2) by (simp add: e us(1,2))
  qed
qed simp

lemma codis_ends:
  assumes "codis_inv p ts a X" and "progress_ok (scripts ts) a" and stuck: "\<And>e. \<not> codis_enabled (scripts ts) a e"
    and "length (concat (ts 0 @ ts 1)) < BUCKET_SIZE"
  shows "codis_done p ts X"
proof -
  let ?h = "snd a"
  let ?xs = "appended (map snd ?h)"
  have ok: "\<forall>i<3. texts_for i (ts i)" using assms(1) by (simp add: codis_inv_def codis_ok_def)
  note final = stuck_at_end [OF assms(2) stuck] and hist = end_history [OF assms(2) stuck ok]
  have fits: "length (concat ?xs) < BUCKET_SIZE" using length_concat_shuffles [OF hist(1)] assms(4) by simp
  have at: "client_phase p ts i (2 * length (scripts ts i) + 1) ?h (the_client X i)" if "i < 3" for i
  proof -
    have "client_at p ts a X i" using assms(1) that by (simp add: codis_inv_def)
    then show ?thesis using final(1) [OF that] by (simp add: client_at_def)
  qed
  let ?log = "map fst (srv_ntfns (the_server X))"
  have log: "?log = map (\<lambda>e. of_nat (fst e)) ?h" using assms(1) by (simp add: codis_inv_def comp_def)
  have known: "\<forall>e\<in>set ?h. fst e < 3" using assms(2) by (simp add: progress_ok_def)
  have ts2: "ts 2 = []" using ok [rule_format, of 2] by (simp add: texts_for_def)
  have texts: "served_texts ts ?log = ?xs"
    unfolding log
  proof (rule served_history [of ?h ts])
    show "\<forall>i<3. \<exists>k. map snd (filter (\<lambda>e. fst e = i) ?h) = take k (scripts ts i)"
      using final(2) by (metis order_refl take_all)
  qed (rule known, rule ts2)
  have counts: "length (filter (\<lambda>c. c = of_nat i) ?log) = length (scripts ts i)" if "i < 3" for i
  proof -
    have "(of_nat (fst e) :: microkit_channel) = of_nat i \<longleftrightarrow> fst e = i" if "e \<in> set ?h" for e
      using known that \<open>i < 3\<close> channel_eq by auto
    then have "filter (\<lambda>c. c = of_nat i) ?log = map (\<lambda>e. of_nat (fst e)) (filter (\<lambda>e. fst e = i) ?h)"
      unfolding log by (simp add: filter_map comp_def cong: filter_cong)
    moreover have "length (filter (\<lambda>e. fst e = i) ?h) = length (scripts ts i)"
      using arg_cong [OF final(2) [OF that], of length] by simp
    ultimately show ?thesis by simp
  qed
  have bucket: "server_idle (srv_cfg p) (srv_vars p) (bucket_of (concat ?xs)) (the_server X)"
    using assms(1) table_after_texts [OF hist(2) fits] by (simp add: codis_inv_def)
  have page: "cstring (cl_mem (the_client X 2)) (cl_ipc (cl_vars p 2))
      (concat (served_texts ts (takeWhile (\<lambda>c. c \<noteq> 2) ?log)))"
  proof -
    obtain rep where rep: "last_reply ?h 2 rep" "answered (cl_mem (the_client X 2)) (cl_ipc (cl_vars p 2)) rep"
      using at [of 2] codis_script_length ok by (auto simp: client_phase_def on_the_way_def)
    then obtain h1 r h2 where h: "?h = h1 @ (2, r) # h2" "rep = snd (codis_spec 0 r (table_after h1))"
      by (auto simp: last_reply_def)
    then have r: "r = Read" using hist(3) [of r] by simp
    have xs: "?xs = appended (map snd h1) @ appended (map snd h2)" by (simp add: h(1) r)
    have "table_after h1 = bucket_of (concat (appended (map snd h1)))"
      using hist(2) fits by (intro table_after_texts) (simp_all add: xs h(1))
    then have "rep = Reply_string (concat (appended (map snd h1)))" by (simp add: h(2) r)
    moreover have "filter (\<lambda>e. fst e = 2) h1 = []"
      using final(2) [of 2] by (simp add: h(1) codis_script_def append_eq_Cons_conv)
    then have "fst e \<noteq> 2" if "e \<in> set h1" for e using that by (auto simp: filter_empty_conv)
    then have "(of_nat (fst e) :: microkit_channel) \<noteq> 2" if "e \<in> set h1" for e
      using known channel_eq [of "fst e" 2] that by (simp add: h(1))
    then have "takeWhile (\<lambda>c. c \<noteq> 2) ?log = map (\<lambda>e. of_nat (fst e)) h1"
      unfolding log h(1) map_append by (subst takeWhile_append2) auto
    moreover have "served_texts ts (map (\<lambda>e. of_nat (fst e)) h1) = appended (map snd h1)"
    proof (rule served_history [of h1 ts])
      show "\<forall>i<3. \<exists>k. map snd (filter (\<lambda>e. fst e = i) h1) = take k (scripts ts i)"
      proof (intro allI impI)
        fix i :: nat assume "i < 3"
        from final(2) [OF this] have "map snd (filter (\<lambda>e. fst e = i) h1) @
            map snd (filter (\<lambda>e. fst e = i) ((2, r) # h2)) = scripts ts i"
          by (simp add: h(1) split: if_splits)
        then show "\<exists>k. map snd (filter (\<lambda>e. fst e = i) h1) = take k (scripts ts i)"
          by (metis append_eq_conv_conj)
      qed
    qed (use known h(1) ts2 in auto)
    ultimately show ?thesis using rep(2) by simp
  qed
  have "client_idle (ts i) (codis_script i (ts i)) (cl_cfg p i) (cl_vars p i)
      (length (codis_script i (ts i))) (the_client X i)" if "i < 3" for i
    using at [OF that] by (simp add: client_phase_def)
  then show ?thesis
    using counts hist(1) bucket page unfolding codis_done_def Let_def texts bucket_of_def by blast
qed

subsection \<open>The system description\<close>

text \<open>The addresses of \<open>codis.system\<close> and the texts of the sources.\<close>

definition codis_image :: codis_images where
  "codis_image = \<lparr>srv_cfg = codis_cfg, srv_vars = codis_vars, cl_cfg = (\<lambda>_. client_cfg), cl_vars = client_image\<rparr>"

definition codis_texts :: "nat \<Rightarrow> 8 word list list" where
  "codis_texts i = (if i = 0 then client1_texts else if i = 1 then client2_texts else [])"

definition codis_system :: codis where
  "codis_system = \<lparr>the_server = codis_start,
     the_client = (\<lambda>i. client_start (if i = 0 then literals_mem (client1_texts ! 0) (client1_texts ! 1)
       else literals_mem (client2_texts ! 0) (client2_texts ! 1))),
     started = (\<lambda>_. False), to_server = (\<lambda>_. False), to_client = (\<lambda>_. False)\<rparr>"

lemma client2_texts_ok:
  "client2_texts = [client2_texts ! 0, client2_texts ! 1]" "0 \<notin> set (client2_texts ! 0)" "0 \<notin> set (client2_texts ! 1)"
  "length (client2_texts ! 0) = 42" "length (client2_texts ! 1) = 35"
  by (simp_all add: client2_texts_def text_bytes_def)

lemma codis_system_setup: "system_setup codis_image codis_texts codis_system"
proof -
  have "apart (ipc_of codis_vars i) BUCKET_SIZE (ipc_of codis_vars j) BUCKET_SIZE" if "i < 3" "j < 3" "i \<noteq> j" for i j
    using that by (auto simp: ipc_of_def codis_vars_def less_Suc_eq nth_Cons' apart_def numeral_3_eq_3)
  moreover have "texts_for i (codis_texts i)" if "i < 3" for i
    using that by (auto simp: texts_for_def codis_texts_def client1_texts_def client2_texts_def)
  ultimately have ok: "codis_ok codis_image codis_texts" by (simp add: codis_ok_def codis_image_def)
  have short: "length (concat (codis_texts 0 @ codis_texts 1)) < BUCKET_SIZE"
    by (simp add: codis_texts_def client1_texts_def client2_texts_def text_bytes_def)
  have setup1: "client_setup client_cfg (client_image i) client1_texts
      (client_start (literals_mem (client1_texts ! 0) (client1_texts ! 1)))" if "i < 3" for i
    by (subst client1_texts_ok(1), rule client_image_setup [OF that])
      (simp_all add: client1_texts_ok(2-5) [simplified])
  have setup2: "client_setup client_cfg (client_image i) client2_texts
      (client_start (literals_mem (client2_texts ! 0) (client2_texts ! 1)))" if "i < 3" for i
    by (subst client2_texts_ok(1), rule client_image_setup [OF that])
      (simp_all add: client2_texts_ok(2-5) [simplified])
  have "client_setup client_cfg (client_image i) (codis_texts i) (the_client codis_system i)" if "i < 3" for i
    using setup1 [OF that] setup2 [OF that] client_setup_no_texts [OF setup2 [OF that]]
    by (auto simp: codis_texts_def codis_system_def)
  then show ?thesis
    using ok short codis_setup
    by (simp add: system_setup_def codis_image_def) (simp add: codis_system_def codis_start_def)
qed

subsection \<open>Property\<close>

text \<open>
  C28: Codis as a whole, after the boot of the server: in whatever order the clients start and the
  pending notifications are delivered, no handler fails, panics or fails to come back; and a
  schedule that offers every event 13 times brings the system to its end, where nothing is
  pending, the cothreads of the clients are gone, bucket 0 holds all texts of clients 1 and 2,
  those of a client in their order and all in the order in which the server served them (it
  notifies a client once per request), and client 3 has in its page exactly the texts that
  were served before its read. A handler runs without interruption by another protection
  domain, and a shared page is exchanged when a handler ends.
\<close>

theorem codis_completes:
  assumes "system_setup p ts X"
  shows "\<exists>Y. codis_boot p X = Some (Inr Y) \<and>
    (\<forall>es. \<exists>Z. run_events (codis_step p) es Y = Some (Inr Z) \<and>
       (rounds 13 es \<longrightarrow> (\<forall>e. \<not> may_happen Z e) \<and> codis_done p ts Z))"
proof -
  let ?a = "(\<lambda>_. 0, []) :: progress" and ?run = "\<lambda>es. run_spec (codis_effect (scripts ts)) es (\<lambda>_. 0, [])"
  have texts: "\<forall>i<3. texts_for i (ts i)" "length (concat (ts 0 @ ts 1)) < BUCKET_SIZE"
    using assms by (simp_all add: system_setup_def codis_ok_def)
  then have bound: "(\<Sum>i<3. 2 * length (scripts ts i) + 1) \<le> 13"
    by (simp add: numeral_3_eq_3 codis_script_length)
  have start: "progress_ok (scripts ts) ?a" by (simp add: progress_ok_def)
  obtain Y where Y: "codis_boot p X = Some (Inr Y)" "codis_inv p ts ?a Y" using codis_boots [OF assms] by blast
  have "\<exists>Z. run_events (codis_step p) es Y = Some (Inr Z) \<and>
      (rounds 13 es \<longrightarrow> (\<forall>e. \<not> may_happen Z e) \<and> codis_done p ts Z)" for es
  proof -
    have "run_allowed (\<lambda>_ _. True) eff es a" for eff :: "codis_event \<Rightarrow> progress \<Rightarrow> progress" and a
      by (induction es arbitrary: a) simp_all
    then obtain Z where Z: "run_events (codis_step p) es Y = Some (Inr Z)" "codis_inv p ts (?run es) Z"
      using codis.events_handled [OF Y(2)] by blast
    have "(\<forall>e. \<not> may_happen Z e) \<and> codis_done p ts Z" if "rounds 13 es"
    proof -
      note stuck = fair_run_ends [OF start that bound]
      then show ?thesis
        using codis_ends [OF Z(2) progress_run [OF start] stuck texts(2)] may_happen_enabled [OF Z(2)] by simp
    qed
    then show ?thesis using Z(1) by blast
  qed
  then show ?thesis using Y(1) by blast
qed

theorem codis_completes_witness:
  "\<exists>Y Z xs. codis_boot codis_image codis_system = Some (Inr Y) \<and>
    run_events (codis_step codis_image) (concat (replicate 13 codis_events)) Y = Some (Inr Z) \<and>
    xs \<in> shuffles client1_texts client2_texts \<and>
    server_idle codis_cfg codis_vars ((replicate N_BUCKETS [])[0 := concat xs]) (the_server Z)"
proof -
  obtain Y where Y: "codis_boot codis_image codis_system = Some (Inr Y)"
    "\<forall>es. \<exists>Z. run_events (codis_step codis_image) es Y = Some (Inr Z) \<and>
       (rounds 13 es \<longrightarrow> (\<forall>e. \<not> may_happen Z e) \<and> codis_done codis_image codis_texts Z)"
    using codis_completes [OF codis_system_setup] by blast
  have "rounds 13 (concat (replicate 13 codis_events))"
    unfolding rounds_def by (intro exI [of _ "replicate 13 codis_events"]) simp
  then obtain Z where "run_events (codis_step codis_image) (concat (replicate 13 codis_events)) Y = Some (Inr Z)"
    "codis_done codis_image codis_texts Z"
    using Y(2) by blast
  moreover have "codis_texts 0 = client1_texts" "codis_texts 1 = client2_texts"
    "srv_cfg codis_image = codis_cfg" "srv_vars codis_image = codis_vars"
    by (simp_all add: codis_texts_def codis_image_def)
  ultimately show ?thesis using Y(1) unfolding codis_done_def Let_def by metis
qed

end
