(* ===== verification/SimpleClient.thy ===== *)
theory SimpleClient
  imports CoClient
begin

text \<open>
  The example \<open>example/simple/client.c\<close>: \<open>init\<close> starts the library for three cothreads, spawns
  three of them, checks that a fourth is refused, lets them run to their end, and does the
  same once more. Of the output, the messages that depend on what the library does are kept
  as a trace.
\<close>

subsection \<open>The program\<close>

definition COSTACK_SIZE :: addr where "COSTACK_SIZE = 0x1000"

record simple_vars =
  co_control_mem :: addr
  simple_stack1 :: addr
  simple_stack2 :: addr
  simple_stack3 :: addr
  addr_co_entry :: addr

datatype message =
    Co_hello addr
  | Too_many_spawned
  | Limit_test_passed
  | First_exited

record simple_client =
  si_pd :: pd
  si_out :: "message list"

definition printf_msg :: "message \<Rightarrow> simple_client \<Rightarrow> simple_client" where
  "printf_msg msg S = S\<lparr>si_out := si_out S @ [msg]\<rparr>"

text \<open>\<open>co_entry\<close> runs to its end, back into the wrapper of the library.\<close>

definition co_entry :: "config \<Rightarrow> microkit_cothread_ref_t \<Rightarrow> simple_client \<Rightarrow> (fault + simple_client) option" where
  "co_entry cfg h S =
     bindP (Some (microkit_cothread_my_arg (si_pd S))) (\<lambda>our_id.
     let S = printf_msg (Co_hello our_id) S in
     bindP (Some (cothread_entry_wrapper_return cfg (si_pd S))) (\<lambda>s.
     Some (Inr (S\<lparr>si_pd := s\<rparr>))))"

text \<open>Three spawns and the fourth, with whether the fourth was refused.\<close>

definition spawn_and_test ::
    "config \<Rightarrow> simple_vars \<Rightarrow> addr \<Rightarrow> addr \<Rightarrow> addr \<Rightarrow> addr \<Rightarrow> simple_client \<Rightarrow>
     (fault + (simple_client \<times> bool)) option" where
  "spawn_and_test cfg v x1 x2 x3 x4 S =
     (let spawn = microkit_cothread_spawn cfg (addr_co_entry v) in
      bindP (Some (spawn x1 (si_pd S))) (\<lambda>(s, _).
      bindP (Some (spawn x2 s)) (\<lambda>(s, _).
      bindP (Some (spawn x3 s)) (\<lambda>(s, _).
      bindP (Some (spawn x4 s)) (\<lambda>(s, h).
      Some (Inr (S\<lparr>si_pd := s\<rparr>, h = LIBMICROKITCO_NULL_HANDLE)))))))"

definition simple_yield :: "config \<Rightarrow> simple_client \<Rightarrow> (fault + simple_client) option" where
  "simple_yield cfg S =
     bindP (Some (microkit_cothread_yield (si_pd S))) (\<lambda>s.
     run_until_root si_pd (co_entry cfg) (S\<lparr>si_pd := s\<rparr>))"

definition simple_init :: "config \<Rightarrow> simple_vars \<Rightarrow> simple_client \<Rightarrow> (fault + simple_client) option" where
  "simple_init cfg v S =
     bindP (Some (microkit_cothread_init cfg (co_control_mem v) COSTACK_SIZE
              [simple_stack1 v, simple_stack2 v, simple_stack3 v] (si_pd S))) (\<lambda>s.
     bindP (simple_yield cfg (S\<lparr>si_pd := s\<rparr>)) (\<lambda>S.
     bindP (spawn_and_test cfg v 1 2 3 4 S) (\<lambda>(S, refused).
     if \<not> refused then Some (Inr (printf_msg Too_many_spawned S))
     else
       bindP (simple_yield cfg (printf_msg Limit_test_passed S)) (\<lambda>S.
       bindP (spawn_and_test cfg v 4 5 6 7 (printf_msg First_exited S)) (\<lambda>(S, refused).
       if \<not> refused then Some (Inr (printf_msg Too_many_spawned S))
       else simple_yield cfg S)))))"

definition simple_notified :: "microkit_channel \<Rightarrow> simple_client \<Rightarrow> (fault + simple_client) option" where
  "simple_notified channel S = Some (Inr S)"

subsection \<open>Cothreads that run to their end\<close>

lemma entries_run:
  assumes "refines cfg a (si_pd S)" and "sp_running a # sp_ready a = hs @ [0]" and "0 \<notin> set hs"
    and "\<forall>h\<in>set hs. private_arg (pd_tcb (si_pd S) h) = arg h"
  shows "\<exists>S' a'. run_until_root si_pd (co_entry cfg) S = Some (Inr S') \<and> refines cfg a' (si_pd S') \<and>
    same_world (si_pd S) (si_pd S') \<and> sp_running a' = 0 \<and> sp_ready a' = [] \<and> sp_free a' = sp_free a @ hs \<and>
    si_out S' = si_out S @ map (\<lambda>h. Co_hello (arg h)) hs"
  using assms
proof (induction hs arbitrary: a S)
  case Nil
  then have "run_until_root si_pd (co_entry cfg) S = Some (Inr S)"
    by (intro run_root [where a = a]) simp_all
  with Nil show ?case by (intro exI [of _ S] exI [of _ a]) (simp add: same_world_def)
next
  case (Cons h hs)
  have h: "sp_running a = h" "h \<noteq> 0" "sp_ready a = hs @ [0]" using Cons.prems(2,3) by auto
  then obtain k ks where k: "sp_ready a = k # ks" by (cases hs) auto
  obtain s where s: "cothread_entry_wrapper_return cfg (si_pd S) = Inr s" "refines cfg (spec_exit a) s"
    "same_world (si_pd S) s"
    using call_scheduling [OF Cons.prems(1), of Entry_returns] h by auto
  have spec: "spec_exit a = a\<lparr>sp_running := k, sp_ready := ks, sp_free := sp_free a @ [h]\<rparr>"
    using h(1) k by (simp add: spec_exit_def spec_dispatch_def)
  let ?S = "S\<lparr>si_pd := s, si_out := si_out S @ [Co_hello (arg h)]\<rparr>"
  have "co_entry cfg h S = Some (Inr ?S)"
    using my_arg_refines [OF Cons.prems(1)] h(1,2) Cons.prems(4) s(1) by (simp add: co_entry_def printf_msg_def)
  then have run: "run_until_root si_pd (co_entry cfg) S = run_until_root si_pd (co_entry cfg) ?S"
    using h by (intro run_cothread [where pd_of = si_pd, OF Cons.prems(1)]) simp_all
  have r: "refines cfg (spec_exit a) (si_pd ?S)" using s(2) by simp
  have "private_arg (pd_tcb s j) = private_arg (pd_tcb (si_pd S) j)" if "j \<in> set hs" for j
    using same_world_arg [OF Cons.prems(1) s(3)] ready_handle [OF Cons.prems(1), of j] that h(3) by simp
  then have args: "\<forall>j\<in>set hs. private_arg (pd_tcb (si_pd ?S) j) = arg j" using Cons.prems(4) by simp
  have order: "sp_running (spec_exit a) # sp_ready (spec_exit a) = hs @ [0]" using k h(3) by (simp add: spec)
  obtain S' a' where "run_until_root si_pd (co_entry cfg) ?S = Some (Inr S')" "refines cfg a' (si_pd S')"
    "same_world s (si_pd S')" "sp_running a' = 0" "sp_ready a' = []" "sp_free a' = sp_free (spec_exit a) @ hs"
    "si_out S' = si_out ?S @ map (\<lambda>h. Co_hello (arg h)) hs"
    using Cons.IH [OF r order _ args] Cons.prems(3) by auto
  then show ?case using run same_world_trans [OF s(3)]
    by (intro exI [of _ S'] exI [of _ a']) (simp add: spec)
qed

text \<open>The root thread with all handles free.\<close>

definition simple_idle :: "config \<Rightarrow> simple_vars \<Rightarrow> simple_client \<Rightarrow> bool" where
  "simple_idle cfg v S \<longleftrightarrow>
     (\<exists>a. refines cfg a (si_pd S) \<and> sp_running a = 0 \<and> sp_ready a = [] \<and> sp_free a = [1, 2, 3]) \<and>
     stacks_are cfg COSTACK_SIZE [simple_stack1 v, simple_stack2 v, simple_stack3 v] (si_pd S) \<and>
     max_cothreads cfg = 4 \<and> addr_co_entry v \<noteq> 0"

text \<open>A batch: three cothreads are spawned, a fourth refused; they run in the order of spawning.\<close>

lemma batch_spawns:
  assumes "simple_idle cfg v S"
  shows "\<exists>T a. spawn_and_test cfg v x1 x2 x3 x4 S = Some (Inr (T, True)) \<and> si_out T = si_out S \<and>
    refines cfg a (si_pd T) \<and> sp_running a = 0 \<and> sp_ready a = [1, 2, 3] \<and> sp_free a = [] \<and>
    stacks_are cfg COSTACK_SIZE [simple_stack1 v, simple_stack2 v, simple_stack3 v] (si_pd T) \<and>
    private_arg (pd_tcb (si_pd T) 1) = x1 \<and> private_arg (pd_tcb (si_pd T) 2) = x2 \<and>
    private_arg (pd_tcb (si_pd T) 3) = x3"
proof -
  let ?sts = "[simple_stack1 v, simple_stack2 v, simple_stack3 v]"
  obtain a where a: "refines cfg a (si_pd S)" "sp_running a = 0" "sp_ready a = []" "sp_free a = [1, 2, 3]"
    and st: "stacks_are cfg COSTACK_SIZE ?sts (si_pd S)" and c: "max_cothreads cfg = 4" "addr_co_entry v \<noteq> 0"
    using assms by (auto simp: simple_idle_def)
  have len: "length ?sts = max_cothreads cfg - 1" by (simp add: c(1))
  note spawn = spawn_in_program [OF _ _ c(2) _ len]
  obtain s1 where s1: "microkit_cothread_spawn cfg (addr_co_entry v) x1 (si_pd S) = Inr (s1, 1)"
    "refines cfg (a\<lparr>sp_free := [2, 3], sp_ready := [1]\<rparr>) s1" "stacks_are cfg COSTACK_SIZE ?sts s1"
    "private_arg (pd_tcb s1 1) = x1"
    using spawn [OF a(1,4) st, of x1] a(3) by auto
  obtain s2 where s2: "microkit_cothread_spawn cfg (addr_co_entry v) x2 s1 = Inr (s2, 2)"
    "refines cfg (a\<lparr>sp_free := [3], sp_ready := [1, 2]\<rparr>) s2" "stacks_are cfg COSTACK_SIZE ?sts s2"
    "private_arg (pd_tcb s2 2) = x2" "\<forall>k\<ge>0. k \<noteq> 2 \<longrightarrow> pd_tcb s2 k = pd_tcb s1 k"
    using spawn [OF s1(2) _ s1(3), of 2 "[3]" x2] by auto
  obtain s3 where s3: "microkit_cothread_spawn cfg (addr_co_entry v) x3 s2 = Inr (s3, 3)"
    "refines cfg (a\<lparr>sp_free := [], sp_ready := [1, 2, 3]\<rparr>) s3" "stacks_are cfg COSTACK_SIZE ?sts s3"
    "private_arg (pd_tcb s3 3) = x3" "\<forall>k\<ge>0. k \<noteq> 3 \<longrightarrow> pd_tcb s3 k = pd_tcb s2 k"
    using spawn [OF s2(2) _ s2(3), of 3 "[]" x3] by auto
  have "microkit_cothread_spawn cfg (addr_co_entry v) x4 s3 = Inr (s3, LIBMICROKITCO_NULL_HANDLE)"
    using spawn_empty [OF s3(2) _ c(2)] by simp
  then have "spawn_and_test cfg v x1 x2 x3 x4 S = Some (Inr (S\<lparr>si_pd := s3\<rparr>, True))"
    using s1(1) s2(1) s3(1) by (simp add: spawn_and_test_def Let_def)
  moreover have "private_arg (pd_tcb s3 1) = x1" "private_arg (pd_tcb s3 2) = x2"
    using s1(4) s2(4,5) s3(5) by simp_all
  ultimately show ?thesis using s3(2-4) a(2)
    by (intro exI [of _ "S\<lparr>si_pd := s3\<rparr>"] exI [of _ "a\<lparr>sp_free := [], sp_ready := [1, 2, 3]\<rparr>"]) simp
qed

lemma batch_runs:
  assumes "refines cfg a (si_pd T)" and "sp_running a = 0" and "sp_ready a = [1, 2, 3]" and "sp_free a = []"
    and "stacks_are cfg COSTACK_SIZE [simple_stack1 v, simple_stack2 v, simple_stack3 v] (si_pd T)"
    and "max_cothreads cfg = 4" and "addr_co_entry v \<noteq> 0"
  shows "\<exists>S'. simple_yield cfg T = Some (Inr S') \<and> simple_idle cfg v S' \<and>
    si_out S' = si_out T @ map (\<lambda>h. Co_hello (private_arg (pd_tcb (si_pd T) h))) [1, 2, 3]"
proof -
  let ?arg = "\<lambda>h. private_arg (pd_tcb (si_pd T) h)" and ?b = "a\<lparr>sp_running := 1, sp_ready := [2, 3, 0]\<rparr>"
  have "spec_yield a = ?b" using assms(2,3) by (simp add: spec_yield_def spec_dispatch_def)
  then obtain s where s: "microkit_cothread_yield (si_pd T) = Inr s" "refines cfg ?b s" "same_world (si_pd T) s"
    using call_scheduling [OF assms(1), of Call_yield] by auto
  let ?T = "T\<lparr>si_pd := s\<rparr>"
  have r: "refines cfg ?b (si_pd ?T)" using s(2) by simp
  have order: "sp_running ?b # sp_ready ?b = [1, 2, 3] @ [0]" and zero: "0 \<notin> set [1, 2, 3 :: int]" by simp_all
  have args: "\<forall>h\<in>set [1, 2, 3]. private_arg (pd_tcb (si_pd ?T) h) = ?arg h"
    using same_world_arg [OF assms(1) s(3)] assms(6) by simp
  obtain S' a' where S': "run_until_root si_pd (co_entry cfg) ?T = Some (Inr S')" "refines cfg a' (si_pd S')"
    "same_world (si_pd ?T) (si_pd S')" "sp_running a' = 0" "sp_ready a' = []"
    "sp_free a' = sp_free ?b @ [1, 2, 3]"
    "si_out S' = si_out ?T @ map (\<lambda>h. Co_hello (?arg h)) [1, 2, 3]"
    using entries_run [OF r order zero args] by blast
  have "same_world (si_pd T) (si_pd S')" using same_world_trans [OF s(3)] S'(3) by simp
  from same_world_stacks [OF this assms(5,1)] have "simple_idle cfg v S'"
    using S'(2,4-6) assms(4,6,7) by (auto simp: simple_idle_def)
  then show ?thesis using s(1) S'(1,7) by (simp add: simple_yield_def)
qed

text \<open>A yield with nobody else ready returns to its caller.\<close>

lemma lonely_yield:
  assumes "simple_idle cfg v S"
  shows "\<exists>S'. simple_yield cfg S = Some (Inr S') \<and> simple_idle cfg v S' \<and> si_out S' = si_out S"
proof -
  obtain a where a: "refines cfg a (si_pd S)" "sp_running a = 0" "sp_ready a = []" "sp_free a = [1, 2, 3]"
    using assms by (auto simp: simple_idle_def)
  have "spec_yield a = a" using a(2,3) by (simp add: spec_yield_def spec_dispatch_def)
  then obtain s where s: "microkit_cothread_yield (si_pd S) = Inr s" "refines cfg a s" "same_world (si_pd S) s"
    using call_scheduling [OF a(1), of Call_yield] by auto
  let ?S = "S\<lparr>si_pd := s\<rparr>"
  have r: "refines cfg a (si_pd ?S)" using s(2) by simp
  have "simple_yield cfg S = Some (Inr ?S)"
    using s(1) run_root [where pd_of = si_pd, OF r a(2)] by (simp add: simple_yield_def)
  moreover have "simple_idle cfg v ?S"
    using assms a s(2) same_world_stacks [OF s(3) _ a(1)] by (auto simp: simple_idle_def)
  ultimately show ?thesis by simp
qed

subsection \<open>Boot\<close>

abbreviation simple_stacks :: "simple_vars \<Rightarrow> addr list" where
  "simple_stacks v \<equiv> [simple_stack1 v, simple_stack2 v, simple_stack3 v]"

definition simple_setup :: "config \<Rightarrow> simple_vars \<Rightarrow> simple_client \<Rightarrow> bool" where
  "simple_setup cfg v S \<longleftrightarrow> max_cothreads cfg = 4 \<and> init_env cfg (co_control_mem v) (si_pd S) \<and>
     stacks_given cfg COSTACK_SIZE (simple_stacks v) (pd_mem (si_pd S)) \<and> 0 \<notin> set (simple_stacks v) \<and>
     stacks_disjoint COSTACK_SIZE (simple_stacks v) \<and>
     (\<forall>st\<in>set (simple_stacks v). \<not> inside (root_handle cfg) st (unat COSTACK_SIZE)) \<and>
     addr_co_entry v \<noteq> 0"

lemma simple_boots:
  assumes "simple_setup cfg v S"
  shows "\<exists>s. microkit_cothread_init cfg (co_control_mem v) COSTACK_SIZE (simple_stacks v) (si_pd S) = Inr s \<and>
    simple_idle cfg v (S\<lparr>si_pd := s\<rparr>)"
proof -
  have small: "0x1000 \<le> COSTACK_SIZE" "unat COSTACK_SIZE \<le> INT_MAX" by (simp_all add: COSTACK_SIZE_def)
  have set: "max_cothreads cfg = 4" "init_env cfg (co_control_mem v) (si_pd S)"
    "stacks_given cfg COSTACK_SIZE (simple_stacks v) (pd_mem (si_pd S))" "0 \<notin> set (simple_stacks v)"
    "stacks_disjoint COSTACK_SIZE (simple_stacks v)"
    "\<forall>st\<in>set (simple_stacks v). \<not> inside (root_handle cfg) st (unat COSTACK_SIZE)" "addr_co_entry v \<noteq> 0"
    using assms by (simp_all add: simple_setup_def)
  obtain s where s: "microkit_cothread_init cfg (co_control_mem v) COSTACK_SIZE (simple_stacks v) (si_pd S) = Inr s"
    "refines cfg (spec_initial cfg) s" "stacks_are cfg COSTACK_SIZE (simple_stacks v) s"
    using init_builds [OF set(2) small set(3-6)] by blast
  have "sp_running (spec_initial cfg) = 0" "sp_ready (spec_initial cfg) = []" "sp_free (spec_initial cfg) = [1, 2, 3]"
    by (simp_all add: spec_initial_def set(1) upt_rec)
  then show ?thesis using s set(1,7) by (auto simp: simple_idle_def)
qed

lemma simple_idle_out: "simple_idle cfg v (S\<lparr>si_out := out\<rparr>) = simple_idle cfg v S"
  by (simp add: simple_idle_def)

text \<open>A batch from spawning to the end of the three, with what is printed in between.\<close>

lemma batch:
  assumes "simple_idle cfg v S"
  shows "\<exists>T. spawn_and_test cfg v x1 x2 x3 x4 S = Some (Inr (T, True)) \<and> si_out T = si_out S \<and>
    (\<forall>out. \<exists>S'. simple_yield cfg (T\<lparr>si_out := out\<rparr>) = Some (Inr S') \<and> simple_idle cfg v S' \<and>
      si_out S' = out @ [Co_hello x1, Co_hello x2, Co_hello x3])"
proof -
  have c: "max_cothreads cfg = 4" "addr_co_entry v \<noteq> 0" using assms by (simp_all add: simple_idle_def)
  obtain T a where T: "spawn_and_test cfg v x1 x2 x3 x4 S = Some (Inr (T, True))" "si_out T = si_out S"
    "refines cfg a (si_pd T)" "sp_running a = 0" "sp_ready a = [1, 2, 3]" "sp_free a = []"
    "stacks_are cfg COSTACK_SIZE (simple_stacks v) (si_pd T)"
    "private_arg (pd_tcb (si_pd T) 1) = x1" "private_arg (pd_tcb (si_pd T) 2) = x2"
    "private_arg (pd_tcb (si_pd T) 3) = x3"
    using batch_spawns [OF assms] by blast
  have "\<exists>S'. simple_yield cfg (T\<lparr>si_out := out\<rparr>) = Some (Inr S') \<and> simple_idle cfg v S' \<and>
      si_out S' = out @ [Co_hello x1, Co_hello x2, Co_hello x3]" for out
    using batch_runs [of cfg a "T\<lparr>si_out := out\<rparr>" v] T(3-10) c by simp
  with T(1,2) show ?thesis by blast
qed

subsection \<open>An instance\<close>

definition simple_cfg :: config where
  "simple_cfg = \<lparr>max_cothreads = 4, max_channels = 62, cfg_arch = AArch64,
     addr_co_entrypoint = 0x200100, addr_entry_wrapper = 0x200200, root_handle = 0x300000\<rparr>"

definition simple_vars0 :: simple_vars where
  "simple_vars0 = \<lparr>co_control_mem = 0x400000, simple_stack1 = 0x410000, simple_stack2 = 0x411000,
     simple_stack3 = 0x412000, addr_co_entry = 0x200300\<rparr>"

definition simple_start :: simple_client where
  "simple_start = \<lparr>si_pd = \<lparr>co_controller = None, client_sems = (\<lambda>_. zero_sem), co_active_handle = 0x300000,
     pd_mem = (\<lambda>_. Some 0)\<rparr>, si_out = []\<rparr>"

lemma simple_start_setup: "simple_setup simple_cfg simple_vars0 simple_start"
proof -
  have all: "mapped (\<lambda>_. Some 0) a n" for a n by (simp add: mapped_def)
  have ranges: "inside x 0x410000 0x1000 \<longleftrightarrow> 0x410000 \<le> unat x \<and> unat x < 0x411000"
    "inside x 0x411000 0x1000 \<longleftrightarrow> 0x411000 \<le> unat x \<and> unat x < 0x412000"
    "inside x 0x412000 0x1000 \<longleftrightarrow> 0x412000 \<le> unat x \<and> unat x < 0x413000" for x :: addr
    by (auto simp: inside_no_wrap no_wrap_def)
  have env: "init_env simple_cfg 0x400000 (si_pd simple_start)"
    by (simp add: init_env_def simple_start_def simple_cfg_def valid_config_def all LIBMICROKITCO_CONTROLLER_SIZE_def)
  have given: "stacks_given simple_cfg 0x1000 [0x410000, 0x411000, 0x412000] (pd_mem (si_pd simple_start))"
    by (simp add: stacks_given_def simple_start_def simple_cfg_def all no_wrap_def)
  have disj: "stacks_disjoint 0x1000 [0x410000, 0x411000, 0x412000]"
    by (auto simp: stacks_disjoint_def ranges less_Suc_eq nth_Cons')
  show ?thesis using env given disj
    by (simp add: simple_setup_def simple_vars0_def COSTACK_SIZE_def ranges) (simp add: simple_cfg_def)
qed

subsection \<open>Property\<close>

text \<open>
  C30: The simple client runs to the end of \<open>init\<close>: both times exactly three cothreads can be
  spawned and the fourth is refused, they run to their end in the order of spawning, each
  with its own argument, and their handles are free again; the error message is not
  printed. Channels do not matter.
\<close>

theorem simple_client_runs:
  assumes "simple_setup cfg v S"
  shows "\<exists>S'. simple_init cfg v S = Some (Inr S') \<and> simple_idle cfg v S' \<and>
    si_out S' = si_out S @ [Limit_test_passed, Co_hello 1, Co_hello 2, Co_hello 3,
      First_exited, Co_hello 4, Co_hello 5, Co_hello 6] \<and> simple_notified ch S' = Some (Inr S')"
proof -
  obtain s where s: "microkit_cothread_init cfg (co_control_mem v) COSTACK_SIZE (simple_stacks v) (si_pd S) = Inr s"
    "simple_idle cfg v (S\<lparr>si_pd := s\<rparr>)" using simple_boots [OF assms] by blast
  obtain S1 where S1: "simple_yield cfg (S\<lparr>si_pd := s\<rparr>) = Some (Inr S1)" "simple_idle cfg v S1" "si_out S1 = si_out S"
    using lonely_yield [OF s(2)] by auto
  obtain T where T: "spawn_and_test cfg v 1 2 3 4 S1 = Some (Inr (T, True))" "si_out T = si_out S1"
    "\<forall>out. \<exists>S'. simple_yield cfg (T\<lparr>si_out := out\<rparr>) = Some (Inr S') \<and> simple_idle cfg v S' \<and>
      si_out S' = out @ [Co_hello 1, Co_hello 2, Co_hello 3]" using batch [OF S1(2)] by blast
  obtain S2 where S2: "simple_yield cfg (printf_msg Limit_test_passed T) = Some (Inr S2)" "simple_idle cfg v S2"
    "si_out S2 = si_out S @ [Limit_test_passed, Co_hello 1, Co_hello 2, Co_hello 3]"
    using T(3) [rule_format, of "si_out T @ [Limit_test_passed]"] T(2) S1(3) by (auto simp: printf_msg_def)
  have "simple_idle cfg v (printf_msg First_exited S2)" using S2(2) by (simp add: printf_msg_def simple_idle_out)
  then obtain U where U: "spawn_and_test cfg v 4 5 6 7 (printf_msg First_exited S2) = Some (Inr (U, True))"
    "si_out U = si_out S2 @ [First_exited]"
    "\<forall>out. \<exists>S'. simple_yield cfg (U\<lparr>si_out := out\<rparr>) = Some (Inr S') \<and> simple_idle cfg v S' \<and>
      si_out S' = out @ [Co_hello 4, Co_hello 5, Co_hello 6]"
    using batch [of cfg v "printf_msg First_exited S2" 4 5 6 7] by (auto simp: printf_msg_def)
  have "U\<lparr>si_out := si_out U\<rparr> = U" by simp
  then obtain S3 where "simple_yield cfg U = Some (Inr S3)" "simple_idle cfg v S3"
    "si_out S3 = si_out U @ [Co_hello 4, Co_hello 5, Co_hello 6]" using U(3) by metis
  then show ?thesis using s(1) S1(1) T(1) S2(1,3) U(1,2) by (simp add: simple_init_def simple_notified_def)
qed

theorem simple_client_runs_witness:
  "\<exists>S'. simple_init simple_cfg simple_vars0 simple_start = Some (Inr S') \<and>
    si_out S' = [Limit_test_passed, Co_hello 1, Co_hello 2, Co_hello 3,
      First_exited, Co_hello 4, Co_hello 5, Co_hello 6]"
  using simple_client_runs [OF simple_start_setup] by (auto simp: simple_start_def)

end
