(* ===== verification/PrintfCore.thy ===== *)
theory PrintfCore
  imports CString
begin

text \<open>
  The formatted output the examples link (\<open>printf.c\<close>, the same file in both): output functions,
  the conversion of integers, and the interpreter of format strings. Format, string
  arguments and the buffer of \<open>snprintf\<close> are in one memory, from which the format is read
  while the buffer is written. This theory has the output functions and the conversion of
  integers.
\<close>

subsection \<open>Constants\<close>

abbreviation (input) PRINTF_NTOA_BUFFER_SIZE :: nat where "PRINTF_NTOA_BUFFER_SIZE \<equiv> 32"

definition FLAGS_ZEROPAD :: "32 word" where "FLAGS_ZEROPAD = 1"
definition FLAGS_LEFT :: "32 word" where "FLAGS_LEFT = 2"
definition FLAGS_PLUS :: "32 word" where "FLAGS_PLUS = 4"
definition FLAGS_SPACE :: "32 word" where "FLAGS_SPACE = 8"
definition FLAGS_HASH :: "32 word" where "FLAGS_HASH = 16"
definition FLAGS_UPPERCASE :: "32 word" where "FLAGS_UPPERCASE = 32"
definition FLAGS_CHAR :: "32 word" where "FLAGS_CHAR = 64"
definition FLAGS_SHORT :: "32 word" where "FLAGS_SHORT = 128"
definition FLAGS_LONG :: "32 word" where "FLAGS_LONG = 256"
definition FLAGS_LONG_LONG :: "32 word" where "FLAGS_LONG_LONG = 512"
definition FLAGS_PRECISION :: "32 word" where "FLAGS_PRECISION = 1024"
definition FLAGS_ADAPT_EXP :: "32 word" where "FLAGS_ADAPT_EXP = 2048"

lemmas flags_defs = FLAGS_ZEROPAD_def FLAGS_LEFT_def FLAGS_PLUS_def FLAGS_SPACE_def FLAGS_HASH_def
  FLAGS_UPPERCASE_def FLAGS_CHAR_def FLAGS_SHORT_def FLAGS_LONG_def FLAGS_LONG_LONG_def
  FLAGS_PRECISION_def FLAGS_ADAPT_EXP_def

definition flag_set :: "32 word \<Rightarrow> 32 word \<Rightarrow> bool" where
  "flag_set flags f \<longleftrightarrow> and flags f \<noteq> 0"

definition flag_clear :: "32 word \<Rightarrow> 32 word \<Rightarrow> 32 word" where
  "flag_clear flags f = and flags (not f)"

text \<open>Characters, by their ASCII codes.\<close>

abbreviation (input) ch_percent :: "8 word" where "ch_percent \<equiv> 0x25"
abbreviation (input) ch_space :: "8 word" where "ch_space \<equiv> 0x20"
abbreviation (input) ch_hash :: "8 word" where "ch_hash \<equiv> 0x23"
abbreviation (input) ch_star :: "8 word" where "ch_star \<equiv> 0x2a"
abbreviation (input) ch_plus :: "8 word" where "ch_plus \<equiv> 0x2b"
abbreviation (input) ch_minus :: "8 word" where "ch_minus \<equiv> 0x2d"
abbreviation (input) ch_dot :: "8 word" where "ch_dot \<equiv> 0x2e"
abbreviation (input) ch_0 :: "8 word" where "ch_0 \<equiv> 0x30"
abbreviation (input) ch_9 :: "8 word" where "ch_9 \<equiv> 0x39"
abbreviation (input) ch_A :: "8 word" where "ch_A \<equiv> 0x41"
abbreviation (input) ch_E :: "8 word" where "ch_E \<equiv> 0x45"
abbreviation (input) ch_F :: "8 word" where "ch_F \<equiv> 0x46"
abbreviation (input) ch_G :: "8 word" where "ch_G \<equiv> 0x47"
abbreviation (input) ch_X :: "8 word" where "ch_X \<equiv> 0x58"
abbreviation (input) ch_a :: "8 word" where "ch_a \<equiv> 0x61"
abbreviation (input) ch_b :: "8 word" where "ch_b \<equiv> 0x62"
abbreviation (input) ch_c :: "8 word" where "ch_c \<equiv> 0x63"
abbreviation (input) ch_d :: "8 word" where "ch_d \<equiv> 0x64"
abbreviation (input) ch_e :: "8 word" where "ch_e \<equiv> 0x65"
abbreviation (input) ch_f :: "8 word" where "ch_f \<equiv> 0x66"
abbreviation (input) ch_g :: "8 word" where "ch_g \<equiv> 0x67"
abbreviation (input) ch_h :: "8 word" where "ch_h \<equiv> 0x68"
abbreviation (input) ch_i :: "8 word" where "ch_i \<equiv> 0x69"
abbreviation (input) ch_j :: "8 word" where "ch_j \<equiv> 0x6a"
abbreviation (input) ch_l :: "8 word" where "ch_l \<equiv> 0x6c"
abbreviation (input) ch_o :: "8 word" where "ch_o \<equiv> 0x6f"
abbreviation (input) ch_p :: "8 word" where "ch_p \<equiv> 0x70"
abbreviation (input) ch_s :: "8 word" where "ch_s \<equiv> 0x73"
abbreviation (input) ch_t :: "8 word" where "ch_t \<equiv> 0x74"
abbreviation (input) ch_u :: "8 word" where "ch_u \<equiv> 0x75"
abbreviation (input) ch_x :: "8 word" where "ch_x \<equiv> 0x78"
abbreviation (input) ch_z :: "8 word" where "ch_z \<equiv> 0x7a"

subsection \<open>Output functions\<close>

text \<open>The memory and what went to the debug console.\<close>

record io =
  io_mem :: "64 memory"
  io_console :: "8 word list"

text \<open>
  An output function with its buffer and \<open>maxlen\<close> applied: it gets the character and the index.
\<close>

type_synonym out_fct = "8 word \<Rightarrow> 64 word \<Rightarrow> io \<Rightarrow> fault + io"

definition out_buffer :: "addr \<Rightarrow> 64 word \<Rightarrow> out_fct" where
  "out_buffer buffer maxlen character idx st =
     (if idx < maxlen
      then bindR (store_byte (io_mem st) (buffer + idx) character) (\<lambda>m. Inr (st\<lparr>io_mem := m\<rparr>))
      else Inr st)"

definition out_null :: out_fct where
  "out_null character idx st = Inr st"

definition putchar_console :: "8 word \<Rightarrow> io \<Rightarrow> io" where
  "putchar_console character st = st\<lparr>io_console := io_console st @ [character]\<rparr>"

definition out_char :: out_fct where
  "out_char character idx st = Inr (if character \<noteq> 0 then putchar_console character st else st)"

text \<open>\<open>out_fct_wrap_type\<close> with its function, given by the caller, applied to its argument.\<close>

definition out_fct_wrap :: "(8 word \<Rightarrow> io \<Rightarrow> fault + io) \<Rightarrow> out_fct" where
  "out_fct_wrap fct character idx st = (if character \<noteq> 0 then fct character st else Inr st)"

text \<open>Sending one character, and the loops that send many.\<close>

type_synonym out_state = "64 word \<times> io"

definition send :: "out_fct \<Rightarrow> 8 word \<Rightarrow> out_state \<Rightarrow> fault + out_state" where
  "send out c = (\<lambda>(idx, st). bindR (out c idx st) (\<lambda>st. Inr (idx + 1, st)))"

fun send_all :: "out_fct \<Rightarrow> 8 word list \<Rightarrow> out_state \<Rightarrow> fault + out_state" where
  "send_all out [] s = Inr s"
| "send_all out (c # cs) s = bindR (send out c s) (send_all out cs)"

abbreviation send_spaces :: "out_fct \<Rightarrow> nat \<Rightarrow> out_state \<Rightarrow> fault + out_state" where
  "send_spaces out n \<equiv> send_all out (replicate n ch_space)"

subsection \<open>Reading numbers and strings\<close>

definition is_digit :: "8 word \<Rightarrow> bool" where
  "is_digit ch \<longleftrightarrow> ch_0 \<le> ch \<and> ch \<le> ch_9"

function strnlen_s_loop :: "64 memory \<Rightarrow> addr \<Rightarrow> nat \<Rightarrow> fault + addr" where
  "strnlen_s_loop m s maxsize =
     bindR (load_byte m s) (\<lambda>b.
     if b = 0 \<or> maxsize = 0 then Inr s else strnlen_s_loop m (s + 1) (maxsize - 1))"
  by pat_completeness auto
termination
  by (relation "measure (\<lambda>(m, s, n). n)") auto

declare strnlen_s_loop.simps [simp del]

definition strnlen_s :: "64 memory \<Rightarrow> addr \<Rightarrow> nat \<Rightarrow> fault + 32 word" where
  "strnlen_s m str maxsize = bindR (strnlen_s_loop m str maxsize) (\<lambda>s. Inr (ucast (s - str)))"

partial_function (option) atoi_loop :: "64 memory \<Rightarrow> 32 word \<Rightarrow> addr \<Rightarrow> (fault + (32 word \<times> addr)) option" where
  "atoi_loop m i str =
     (case load_byte m str of
        Inl e \<Rightarrow> Some (Inl e)
      | Inr b \<Rightarrow> if is_digit b then atoi_loop m (i * 10 + ucast (b - ch_0)) (str + 1) else Some (Inr (i, str)))"

definition atoi :: "64 memory \<Rightarrow> addr \<Rightarrow> (fault + (32 word \<times> addr)) option" where
  "atoi m str = atoi_loop m 0 str"

subsection \<open>Integers\<close>

text \<open>
  The conversion buffer is the list of the characters in it, in the order of their indices,
  that is with the last character of the output first.
\<close>

definition out_rev :: "out_fct \<Rightarrow> 8 word list \<Rightarrow> 32 word \<Rightarrow> 32 word \<Rightarrow> out_state \<Rightarrow> fault + out_state" where
  "out_rev out buf width flags s =
     bindR (if \<not> flag_set flags FLAGS_LEFT \<and> \<not> flag_set flags FLAGS_ZEROPAD
            then send_spaces out (unat width - length buf) s else Inr s) (\<lambda>s'.
     bindR (send_all out (rev buf) s') (\<lambda>s'.
     if flag_set flags FLAGS_LEFT then send_spaces out (unat width - unat (fst s' - fst s)) s' else Inr s'))"

definition push_char :: "8 word \<Rightarrow> 8 word list \<Rightarrow> 8 word list" where
  "push_char c buf = (if length buf < PRINTF_NTOA_BUFFER_SIZE then buf @ [c] else buf)"

definition pad_zeros :: "nat \<Rightarrow> 8 word list \<Rightarrow> 8 word list" where
  "pad_zeros n buf = buf @ replicate (min n PRINTF_NTOA_BUFFER_SIZE - length buf) ch_0"

definition ntoa_width :: "bool \<Rightarrow> 32 word \<Rightarrow> 32 word \<Rightarrow> 32 word" where
  "ntoa_width negative width flags =
     (if \<not> flag_set flags FLAGS_LEFT \<and> width \<noteq> 0 \<and> flag_set flags FLAGS_ZEROPAD \<and>
         (negative \<or> flag_set flags (or FLAGS_PLUS FLAGS_SPACE)) then width - 1 else width)"

definition ntoa_leading_zeros :: "8 word list \<Rightarrow> 32 word \<Rightarrow> 32 word \<Rightarrow> 32 word \<Rightarrow> 8 word list" where
  "ntoa_leading_zeros buf prec width flags =
     (if flag_set flags FLAGS_LEFT then buf
      else
        let buf = pad_zeros (unat prec) buf in
        if flag_set flags FLAGS_ZEROPAD then pad_zeros (unat width) buf else buf)"

definition ntoa_hash :: "8 word list \<Rightarrow> 32 word \<Rightarrow> 32 word \<Rightarrow> 32 word \<Rightarrow> 32 word \<Rightarrow> 8 word list" where
  "ntoa_hash buf base prec width flags =
     (if \<not> flag_set flags FLAGS_HASH then buf
      else
        let len = length buf;
            buf = (if \<not> flag_set flags FLAGS_PRECISION \<and> len \<noteq> 0 \<and> (len = unat prec \<or> len = unat width)
                   then (if butlast buf \<noteq> [] \<and> base = 16 then butlast (butlast buf) else butlast buf)
                   else buf);
            buf = (if base = 16 \<and> \<not> flag_set flags FLAGS_UPPERCASE then push_char ch_x buf
                   else if base = 16 then push_char ch_X buf
                   else if base = 2 then push_char ch_b buf else buf)
        in push_char ch_0 buf)"

definition ntoa_sign :: "8 word list \<Rightarrow> bool \<Rightarrow> 32 word \<Rightarrow> 8 word list" where
  "ntoa_sign buf negative flags =
     (if negative then push_char ch_minus buf
      else if flag_set flags FLAGS_PLUS then push_char ch_plus buf
      else if flag_set flags FLAGS_SPACE then push_char ch_space buf else buf)"

definition ntoa_format ::
    "out_fct \<Rightarrow> 8 word list \<Rightarrow> bool \<Rightarrow> 32 word \<Rightarrow> 32 word \<Rightarrow> 32 word \<Rightarrow> 32 word \<Rightarrow> out_state \<Rightarrow> fault + out_state" where
  "ntoa_format out buf negative base prec width flags s =
     (let width = ntoa_width negative width flags;
          buf = ntoa_leading_zeros buf prec width flags;
          buf = ntoa_hash buf base prec width flags;
          buf = ntoa_sign buf negative flags
      in out_rev out buf width flags s)"

text \<open>The digits of a value, least significant first, at least one.\<close>

definition ntoa_digit :: "8 word \<Rightarrow> 32 word \<Rightarrow> 8 word" where
  "ntoa_digit digit flags =
     (if digit < 10 then ch_0 + digit
      else (if flag_set flags FLAGS_UPPERCASE then ch_A else ch_a) + digit - 10)"

function ntoa_digits :: "64 word \<Rightarrow> 64 word \<Rightarrow> 32 word \<Rightarrow> 8 word list \<Rightarrow> 8 word list" where
  "ntoa_digits value base flags buf =
     (let buf = buf @ [ntoa_digit (ucast (value mod base)) flags]; value = value div base in
      if value \<noteq> 0 \<and> length buf < PRINTF_NTOA_BUFFER_SIZE then ntoa_digits value base flags buf else buf)"
  by pat_completeness auto
termination
  by (relation "measure (\<lambda>(v, b, f, buf). PRINTF_NTOA_BUFFER_SIZE - length buf)") auto

declare ntoa_digits.simps [simp del]

definition ntoa_long ::
    "out_fct \<Rightarrow> 64 word \<Rightarrow> bool \<Rightarrow> 64 word \<Rightarrow> 32 word \<Rightarrow> 32 word \<Rightarrow> 32 word \<Rightarrow> out_state \<Rightarrow> fault + out_state" where
  "ntoa_long out value negative base prec width flags s =
     (let flags = (if value = 0 then flag_clear flags FLAGS_HASH else flags);
          buf = (if \<not> flag_set flags FLAGS_PRECISION \<or> value \<noteq> 0 then ntoa_digits value base flags [] else [])
      in ntoa_format out buf negative (ucast base) prec width flags s)"

definition ntoa_long_long ::
    "out_fct \<Rightarrow> 64 word \<Rightarrow> bool \<Rightarrow> 64 word \<Rightarrow> 32 word \<Rightarrow> 32 word \<Rightarrow> 32 word \<Rightarrow> out_state \<Rightarrow> fault + out_state" where
  "ntoa_long_long out value negative base prec width flags s =
     (let flags = (if value = 0 then flag_clear flags FLAGS_HASH else flags);
          buf = (if \<not> flag_set flags FLAGS_PRECISION \<or> value \<noteq> 0 then ntoa_digits value base flags [] else [])
      in ntoa_format out buf negative (ucast base) prec width flags s)"

end
