(* ===== verification/PrintfFloat.thy ===== *)
theory PrintfFloat
  imports Complex_Main PrintfCore "HOL-Library.Signed_Division"
begin

text \<open>
  The conversions of floating-point numbers in \<open>printf.c\<close>, \<open>_ftoa\<close> for \<open>%f\<close> and \<open>_etoa\<close> for
  \<open>%e\<close> and \<open>%g\<close>. The arithmetic of the type \<open>double\<close> belongs to the compiler and the processor
  and is a parameter, a record of operations; everything the C code does with it is written out.
\<close>

subsection \<open>Arithmetic\<close>

text \<open>
  Comparisons and operations of \<open>double\<close>, the value of a literal, conversions from integers and,
  truncating, to integers (no result for a value that has no integral part), and the bits of a
  value, which \<open>_etoa\<close> reads and writes through a union.
\<close>

record 'd fp =
  fp_lt :: "'d \<Rightarrow> 'd \<Rightarrow> bool"
  fp_le :: "'d \<Rightarrow> 'd \<Rightarrow> bool"
  fp_eq :: "'d \<Rightarrow> 'd \<Rightarrow> bool"
  fp_add :: "'d \<Rightarrow> 'd \<Rightarrow> 'd"
  fp_sub :: "'d \<Rightarrow> 'd \<Rightarrow> 'd"
  fp_mul :: "'d \<Rightarrow> 'd \<Rightarrow> 'd"
  fp_div :: "'d \<Rightarrow> 'd \<Rightarrow> 'd"
  fp_neg :: "'d \<Rightarrow> 'd"
  fp_lit :: "rat \<Rightarrow> 'd"
  fp_max :: 'd
  fp_of_int :: "int \<Rightarrow> 'd"
  fp_to_int :: "'d \<Rightarrow> int option"
  fp_bits :: "'d \<Rightarrow> 64 word"
  fp_of_bits :: "64 word \<Rightarrow> 'd"

text \<open>A value of type \<open>int\<close>: a result outside its range is undefined.\<close>

definition c_int :: "int \<Rightarrow> fault + int" where
  "c_int i = (if - (2 ^ 31) \<le> i \<and> i < 2 ^ 31 then Inr i else Inl ArithFault)"

definition fp_int :: "'d fp \<Rightarrow> 'd \<Rightarrow> fault + int" where
  "fp_int fp value = (case fp_to_int fp value of None \<Rightarrow> Inl ArithFault | Some i \<Rightarrow> c_int i)"

definition fp_ulong :: "'d fp \<Rightarrow> 'd \<Rightarrow> fault + 64 word" where
  "fp_ulong fp value =
     (case fp_to_int fp value of
        None \<Rightarrow> Inl ArithFault
      | Some i \<Rightarrow> if 0 \<le> i \<and> i < 2 ^ 64 then Inr (word_of_int i) else Inl ArithFault)"

subsection \<open>\<open>_ftoa\<close>\<close>

abbreviation (input) PRINTF_FTOA_BUFFER_SIZE :: nat where "PRINTF_FTOA_BUFFER_SIZE \<equiv> 32"

definition PRINTF_DEFAULT_FLOAT_PRECISION :: "32 word" where
  "PRINTF_DEFAULT_FLOAT_PRECISION = 6"

definition PRINTF_MAX_FLOAT :: "'d fp \<Rightarrow> 'd" where
  "PRINTF_MAX_FLOAT fp = fp_lit fp (10 ^ 9)"

definition pow10 :: "int list" where
  "pow10 = [1, 10, 100, 1000, 10000, 100000, 1000000, 10000000, 100000000, 1000000000]"

text \<open>The zeros for the digits behind the ninth, and the precision that is left.\<close>

definition ftoa_precision :: "32 word \<Rightarrow> 8 word list \<times> 32 word" where
  "ftoa_precision prec =
     (let n = min PRINTF_FTOA_BUFFER_SIZE (unat prec - 9) in (replicate n ch_0, prec - of_nat n))"

text \<open>The whole part and the fraction, rounded to the precision.\<close>

definition ftoa_round :: "'d fp \<Rightarrow> 'd \<Rightarrow> 32 word \<Rightarrow> fault + (int \<times> 64 word)" where
  "ftoa_round fp value prec =
     bindR (fp_int fp value) (\<lambda>whole.
     if \<not> unat prec < length pow10 then Inl OutOfBounds
     else
       let scale = fp_of_int fp (pow10 ! unat prec); half = fp_lit fp (1 / 2);
           tmp = fp_mul fp (fp_sub fp value (fp_of_int fp whole)) scale in
       bindR (fp_ulong fp tmp) (\<lambda>fraction.
       let diff = fp_sub fp tmp (fp_of_int fp (uint fraction)) in
       bindR (if fp_lt fp half diff
              then (let fraction = fraction + 1 in
                    if fp_le fp scale (fp_of_int fp (uint fraction))
                    then bindR (c_int (whole + 1)) (\<lambda>whole. Inr (whole, 0)) else Inr (whole, fraction))
              else if fp_lt fp diff half then Inr (whole, fraction)
              else if fraction = 0 \<or> and fraction 1 \<noteq> 0 then Inr (whole, fraction + 1) else Inr (whole, fraction))
         (\<lambda>(whole, fraction).
       if prec = 0
       then (let diff = fp_sub fp value (fp_of_int fp whole) in
             if (\<not> fp_lt fp diff half \<or> fp_lt fp half diff) \<and> odd whole
             then bindR (c_int (whole + 1)) (\<lambda>whole. Inr (whole, fraction)) else Inr (whole, fraction))
       else Inr (whole, fraction))))"

text \<open>
  The digits of the fraction with the counter of the digits still to come, which is unsigned
  and wraps when there are more digits than the precision says.
\<close>

function ftoa_digits :: "64 word \<Rightarrow> 32 word \<Rightarrow> 8 word list \<Rightarrow> 32 word \<times> 8 word list" where
  "ftoa_digits fraction count buf =
     (if length buf < PRINTF_FTOA_BUFFER_SIZE
      then
        let count = count - 1; buf = buf @ [48 + ucast (fraction mod 10)]; fraction = fraction div 10 in
        if fraction = 0 then (count, buf) else ftoa_digits fraction count buf
      else (count, buf))"
  by pat_completeness auto
termination
  by (relation "measure (\<lambda>(fraction, count, buf). PRINTF_FTOA_BUFFER_SIZE - length buf)") auto

declare ftoa_digits.simps [simp del]

definition ftoa_fraction :: "64 word \<Rightarrow> 32 word \<Rightarrow> 8 word list \<Rightarrow> 8 word list" where
  "ftoa_fraction fraction prec buf =
     (if prec = 0 then buf
      else
        let (count, buf) = ftoa_digits fraction prec buf;
            buf = pad_zeros (length buf + unat count) buf
        in push_char ch_dot buf)"

function ftoa_whole :: "int \<Rightarrow> 8 word list \<Rightarrow> 8 word list" where
  "ftoa_whole whole buf =
     (if length buf < PRINTF_FTOA_BUFFER_SIZE
      then
        let buf = buf @ [word_of_int (48 + whole smod 10)]; whole = whole sdiv 10 in
        if whole = 0 then buf else ftoa_whole whole buf
      else buf)"
  by pat_completeness auto
termination
  by (relation "measure (\<lambda>(whole, buf). PRINTF_FTOA_BUFFER_SIZE - length buf)") auto

declare ftoa_whole.simps [simp del]

definition ftoa_fixed ::
    "'d fp \<Rightarrow> out_fct \<Rightarrow> 'd \<Rightarrow> 32 word \<Rightarrow> 32 word \<Rightarrow> 32 word \<Rightarrow> out_state \<Rightarrow> fault + out_state" where
  "ftoa_fixed fp out value prec width flags s =
     (let negative = fp_lt fp value (fp_of_int fp 0);
          value = (if negative then fp_sub fp (fp_of_int fp 0) value else value);
          prec = (if flag_set flags FLAGS_PRECISION then prec else PRINTF_DEFAULT_FLOAT_PRECISION);
          (buf, prec) = ftoa_precision prec in
      bindR (ftoa_round fp value prec) (\<lambda>(whole, fraction).
      let buf = ftoa_fraction fraction prec buf;
          buf = ftoa_whole whole buf;
          width = ntoa_width negative width flags;
          buf = (if \<not> flag_set flags FLAGS_LEFT \<and> flag_set flags FLAGS_ZEROPAD
                 then pad_zeros (unat width) buf else buf);
          buf = ntoa_sign buf negative flags
      in out_rev out buf width flags s))"

text \<open>The texts for values that are no numbers, reversed as they stand in the code.\<close>

definition text_nan :: "8 word list" where "text_nan = [0x6e, 0x61, 0x6e]"
definition text_fni :: "8 word list" where "text_fni = [0x66, 0x6e, 0x69]"

definition ftoa_special :: "'d fp \<Rightarrow> 'd \<Rightarrow> 32 word \<Rightarrow> 8 word list option" where
  "ftoa_special fp value flags =
     (if \<not> fp_eq fp value value then Some text_nan
      else if fp_lt fp value (fp_neg fp (fp_max fp)) then Some (text_fni @ [ch_minus])
      else if fp_lt fp (fp_max fp) value
        then Some (if flag_set flags FLAGS_PLUS then text_fni @ [ch_plus] else text_fni)
      else None)"

definition ftoa_large :: "'d fp \<Rightarrow> 'd \<Rightarrow> bool" where
  "ftoa_large fp value \<longleftrightarrow>
     fp_lt fp (PRINTF_MAX_FLOAT fp) value \<or> fp_lt fp value (fp_neg fp (PRINTF_MAX_FLOAT fp))"

subsection \<open>\<open>_etoa\<close>\<close>

text \<open>The decimal exponent of a positive value and the power of ten that belongs to it.\<close>

definition etoa_exponent :: "'d fp \<Rightarrow> 'd \<Rightarrow> fault + (int \<times> 'd)" where
  "etoa_exponent fp value =
     (let bits = fp_bits fp value;
          exp2 = uint (and (drop_bit 52 bits) 0x07FF) - 1023;
          f = fp_of_bits fp (or (and bits (push_bit 52 1 - 1)) (push_bit 52 1023)) in
      bindR (fp_int fp (fp_add fp (fp_add fp (fp_lit fp (1760912590558 / 10 ^ 13))
                                    (fp_mul fp (fp_of_int fp exp2) (fp_lit fp (301029995663981 / 10 ^ 15))))
                         (fp_mul fp (fp_sub fp f (fp_lit fp (3 / 2))) (fp_lit fp (289529654602168 / 10 ^ 15)))))
        (\<lambda>expval.
      bindR (fp_int fp (fp_add fp (fp_mul fp (fp_of_int fp expval) (fp_lit fp (3321928094887362 / 10 ^ 15)))
                                  (fp_lit fp (1 / 2)))) (\<lambda>exp2.
      let z = fp_sub fp (fp_mul fp (fp_of_int fp expval) (fp_lit fp (2302585092994046 / 10 ^ 15)))
                        (fp_mul fp (fp_of_int fp exp2) (fp_lit fp (6931471805599453 / 10 ^ 16)));
          z2 = fp_mul fp z z in
      bindR (c_int (exp2 + 1023)) (\<lambda>biased.
      let f = fp_of_bits fp (push_bit 52 (word_of_int biased));
          f = fp_mul fp f (fp_add fp (fp_of_int fp 1)
                (fp_div fp (fp_mul fp (fp_of_int fp 2) z)
                  (fp_add fp (fp_sub fp (fp_of_int fp 2) z)
                    (fp_div fp z2 (fp_add fp (fp_of_int fp 6)
                      (fp_div fp z2 (fp_add fp (fp_of_int fp 10) (fp_div fp z2 (fp_of_int fp 14)))))))))
      in
      if fp_lt fp value f
      then bindR (c_int (expval - 1)) (\<lambda>expval. Inr (expval, fp_div fp f (fp_of_int fp 10)))
      else Inr (expval, f)))))"

text \<open>Precision, flags, width of the exponent and exponent; \<open>%g\<close> may fall back to \<open>%f\<close>.\<close>

definition etoa_adapt ::
    "'d fp \<Rightarrow> 'd \<Rightarrow> 32 word \<Rightarrow> 32 word \<Rightarrow> int \<Rightarrow> fault + (32 word \<times> 32 word \<times> 32 word \<times> int)" where
  "etoa_adapt fp value prec flags expval =
     (let minwidth = (if expval < 100 \<and> - 100 < expval then 4 else 5) in
      if flag_set flags FLAGS_ADAPT_EXP
      then
        if fp_le fp (fp_lit fp (1 / 10 ^ 4)) value \<and> fp_lt fp value (fp_lit fp (10 ^ 6))
        then bindR (if expval < sint prec
                    then bindR (c_int (sint prec - expval)) (\<lambda>d.
                         bindR (c_int (d - 1)) (\<lambda>d. Inr (word_of_int d)))
                    else Inr 0) (\<lambda>prec.
             Inr (prec, or flags FLAGS_PRECISION, 0, 0))
        else Inr (if 0 < prec \<and> flag_set flags FLAGS_PRECISION then prec - 1 else prec, flags, minwidth, expval)
      else Inr (prec, flags, minwidth, expval))"

definition etoa_fwidth :: "32 word \<Rightarrow> 32 word \<Rightarrow> 32 word \<Rightarrow> 32 word" where
  "etoa_fwidth width minwidth flags =
     (let fwidth = (if minwidth < width then width - minwidth else 0) in
      if flag_set flags FLAGS_LEFT \<and> minwidth \<noteq> 0 then 0 else fwidth)"

text \<open>
  What \<open>_etoa\<close> computes before it calls \<open>_ftoa\<close>: the value, precision, width and flags of that
  call, and width and value of the exponent it writes behind.
\<close>

definition etoa_prepare ::
    "'d fp \<Rightarrow> 'd \<Rightarrow> 32 word \<Rightarrow> 32 word \<Rightarrow> 32 word \<Rightarrow>
     fault + ('d \<times> 32 word \<times> 32 word \<times> 32 word \<times> 32 word \<times> int)" where
  "etoa_prepare fp value prec width flags =
     (let negative = fp_lt fp value (fp_of_int fp 0);
          value = (if negative then fp_neg fp value else value);
          prec = (if flag_set flags FLAGS_PRECISION then prec else PRINTF_DEFAULT_FLOAT_PRECISION) in
      bindR (etoa_exponent fp value) (\<lambda>(expval, f).
      bindR (etoa_adapt fp value prec flags expval) (\<lambda>(prec, flags, minwidth, expval).
      let fwidth = etoa_fwidth width minwidth flags;
          value = (if expval \<noteq> 0 then fp_div fp value f else value)
      in Inr (if negative then fp_neg fp value else value, prec, fwidth, flags, minwidth, expval))))"

definition etoa_finish ::
    "out_fct \<Rightarrow> 32 word \<Rightarrow> 64 word \<Rightarrow> 32 word \<Rightarrow> 32 word \<Rightarrow> int \<Rightarrow> out_state \<Rightarrow> fault + out_state" where
  "etoa_finish out width start_idx flags minwidth expval s =
     (if minwidth = 0 then Inr s
      else
        bindR (send out (if flag_set flags FLAGS_UPPERCASE then ch_E else ch_e) s) (\<lambda>s.
        bindR (c_int (if expval < 0 then - expval else expval)) (\<lambda>magnitude.
        bindR (ntoa_long out (word_of_int magnitude) (expval < 0) 10 0 (minwidth - 1)
                 (or FLAGS_ZEROPAD FLAGS_PLUS) s) (\<lambda>s.
        if flag_set flags FLAGS_LEFT then send_spaces out (unat width - unat (fst s - start_idx)) s
        else Inr s))))"

text \<open>
  The two functions call each other: \<open>_ftoa\<close> for a large value, \<open>_etoa\<close> always. \<open>ftoa\<close> has the
  body of \<open>_etoa\<close> for large values written out, \<open>etoa\<close> is that body.
\<close>

partial_function (option) ftoa ::
    "'d fp \<Rightarrow> out_fct \<Rightarrow> 'd \<Rightarrow> 32 word \<Rightarrow> 32 word \<Rightarrow> 32 word \<Rightarrow> out_state \<Rightarrow> (fault + out_state) option" where
  "ftoa fp out value prec width flags s =
     (case ftoa_special fp value flags of
        Some buf \<Rightarrow> Some (out_rev out buf width flags s)
      | None \<Rightarrow>
          if ftoa_large fp value
          then (case etoa_prepare fp value prec width flags of
                  Inl e \<Rightarrow> Some (Inl e)
                | Inr (value', prec', fwidth, flags', minwidth, expval) \<Rightarrow>
                    Option.bind (ftoa fp out value' prec' fwidth (flag_clear flags' FLAGS_ADAPT_EXP) s)
                      (\<lambda>r. Some (bindR r (etoa_finish out width (fst s) flags' minwidth expval))))
          else Some (ftoa_fixed fp out value prec width flags s))"

definition etoa ::
    "'d fp \<Rightarrow> out_fct \<Rightarrow> 'd \<Rightarrow> 32 word \<Rightarrow> 32 word \<Rightarrow> 32 word \<Rightarrow> out_state \<Rightarrow> (fault + out_state) option" where
  "etoa fp out value prec width flags s =
     (if \<not> fp_eq fp value value \<or> fp_lt fp (fp_max fp) value \<or> fp_lt fp value (fp_neg fp (fp_max fp))
      then ftoa fp out value prec width flags s
      else
        case etoa_prepare fp value prec width flags of
          Inl e \<Rightarrow> Some (Inl e)
        | Inr (value', prec', fwidth, flags', minwidth, expval) \<Rightarrow>
            Option.bind (ftoa fp out value' prec' fwidth (flag_clear flags' FLAGS_ADAPT_EXP) s)
              (\<lambda>r. Some (bindR r (etoa_finish out width (fst s) flags' minwidth expval))))"

text \<open>A large value is handed to \<open>_etoa\<close>, as the code has it.\<close>

lemma ftoa_large_etoa:
  assumes "ftoa_special fp value flags = None" and "ftoa_large fp value"
  shows "ftoa fp out value prec width flags s = etoa fp out value prec width flags s"
  using assms
  by (subst ftoa.simps) (auto simp: etoa_def ftoa_special_def split: if_splits)

end
