(* ===== verification/Printf.thy ===== *)
theory Printf
  imports PrintfFloat
begin

text \<open>
  The interpreter of format strings of \<open>printf.c\<close>, \<open>_vsnprintf\<close>, and the functions of the
  \<open>printf\<close> family. Characters of the format are read from memory one by one, as the code does,
  so that running past the end of the format or of a string argument is visible.
\<close>

subsection \<open>The target and the arguments\<close>

text \<open>
  Floating-point support (\<open>None\<close> when built with \<open>PRINTF_DISABLE_SUPPORT_FLOAT\<close>, as Codis does)
  and the signedness of \<open>char\<close>.
\<close>

record 'd printf_target =
  pt_float :: "'d fp option"
  pt_char_signed :: bool

text \<open>
  The variable arguments still to be read. Reading more than there are, or with the wrong kind
  of type, is undefined.
\<close>

datatype 'd va_value = VaWord "64 word" | VaDouble 'd

type_synonym 'd va_list = "'d va_value list"

fun va_word :: "'d va_list \<Rightarrow> fault + (64 word \<times> 'd va_list)" where
  "va_word (VaWord w # va) = Inr (w, va)"
| "va_word va = Inl OutOfBounds"

fun va_double :: "'d va_list \<Rightarrow> fault + ('d \<times> 'd va_list)" where
  "va_double (VaDouble d # va) = Inr (d, va)"
| "va_double va = Inl OutOfBounds"

lemma bindP_bind:
  "bindP m k = Option.bind m (\<lambda>r. case r of Inl e \<Rightarrow> Some (Inl e) | Inr y \<Rightarrow> k y)"
  by (cases "(m, k)" rule: bindP.cases) auto

lemma bindP_Inr_iff: "bindP m f = Some (Inr y) \<longleftrightarrow> (\<exists>x. m = Some (Inr x) \<and> f x = Some (Inr y))"
  by (cases "(m, f)" rule: bindP.cases) auto

lemma bindP_mono [partial_function_mono]:
  assumes "mono_option B" and "\<And>y. mono_option (\<lambda>f. C y f)"
  shows "mono_option (\<lambda>f. bindP (B f) (\<lambda>y. C y f))"
  unfolding bindP_bind
proof (intro bind_mono assms)
  fix r
  show "mono_option (\<lambda>f. case r of Inl e \<Rightarrow> Some (Inl e) | Inr y \<Rightarrow> C y f)"
    by (cases r) (simp_all add: assms(2) option.const_mono)
qed

subsection \<open>Parsing a directive\<close>

definition flag_of :: "8 word \<Rightarrow> 32 word option" where
  "flag_of c =
     (if c = ch_0 then Some FLAGS_ZEROPAD
      else if c = ch_minus then Some FLAGS_LEFT
      else if c = ch_plus then Some FLAGS_PLUS
      else if c = ch_space then Some FLAGS_SPACE
      else if c = ch_hash then Some FLAGS_HASH
      else None)"

partial_function (option) parse_flags ::
    "64 memory \<Rightarrow> addr \<Rightarrow> 32 word \<Rightarrow> (fault + (32 word \<times> addr)) option" where
  "parse_flags m format flags =
     (case load_byte m format of
        Inl e \<Rightarrow> Some (Inl e)
      | Inr c \<Rightarrow>
          (case flag_of c of
             Some f \<Rightarrow> parse_flags m (format + 1) (or flags f)
           | None \<Rightarrow> Some (Inr (flags, format))))"

definition parse_width ::
    "64 memory \<Rightarrow> addr \<Rightarrow> 32 word \<Rightarrow> 'd va_list \<Rightarrow>
     (fault + (32 word \<times> 32 word \<times> addr \<times> 'd va_list)) option" where
  "parse_width m format flags va =
     bindP (Some (load_byte m format)) (\<lambda>c.
     if is_digit c
     then bindP (atoi m format) (\<lambda>(width, format). Some (Inr (width, flags, format, va)))
     else if c = ch_star
     then Some (bindR (va_word va) (\<lambda>(v, va).
            let w = ucast v :: 32 word in
            if sint w < 0
            then (if sint w = - (2 ^ 31) then Inl ArithFault
                  else Inr (- w, or flags FLAGS_LEFT, format + 1, va))
            else Inr (w, flags, format + 1, va)))
     else Some (Inr (0, flags, format, va)))"

definition parse_precision ::
    "64 memory \<Rightarrow> addr \<Rightarrow> 32 word \<Rightarrow> 'd va_list \<Rightarrow>
     (fault + (32 word \<times> 32 word \<times> addr \<times> 'd va_list)) option" where
  "parse_precision m format flags va =
     bindP (Some (load_byte m format)) (\<lambda>c.
     if c \<noteq> ch_dot then Some (Inr (0, flags, format, va))
     else
       let flags = or flags FLAGS_PRECISION; format = format + 1 in
       bindP (Some (load_byte m format)) (\<lambda>c.
       if is_digit c
       then bindP (atoi m format) (\<lambda>(precision, format). Some (Inr (precision, flags, format, va)))
       else if c = ch_star
       then Some (bindR (va_word va) (\<lambda>(v, va).
              let prec = ucast v :: 32 word in
              Inr (if 0 < sint prec then prec else 0, flags, format + 1, va)))
       else Some (Inr (0, flags, format, va))))"

text \<open>On 64-bit targets \<open>ptrdiff_t\<close>, \<open>intmax_t\<close> and \<open>size_t\<close> have the size of \<open>long\<close>.\<close>

definition parse_length :: "64 memory \<Rightarrow> addr \<Rightarrow> 32 word \<Rightarrow> fault + (32 word \<times> addr)" where
  "parse_length m format flags =
     bindR (load_byte m format) (\<lambda>c.
     if c = ch_l
     then bindR (load_byte m (format + 1)) (\<lambda>c.
            if c = ch_l then Inr (or (or flags FLAGS_LONG) FLAGS_LONG_LONG, format + 2)
            else Inr (or flags FLAGS_LONG, format + 1))
     else if c = ch_h
     then bindR (load_byte m (format + 1)) (\<lambda>c.
            if c = ch_h then Inr (or (or flags FLAGS_SHORT) FLAGS_CHAR, format + 2)
            else Inr (or flags FLAGS_SHORT, format + 1))
     else if c = ch_t \<or> c = ch_j \<or> c = ch_z then Inr (or flags FLAGS_LONG, format + 1)
     else Inr (flags, format))"

subsection \<open>Integer conversions\<close>

definition int_base :: "8 word \<Rightarrow> 64 word" where
  "int_base c = (if c = ch_x \<or> c = ch_X then 16 else if c = ch_o then 8 else if c = ch_b then 2 else 10)"

definition int_flags :: "8 word \<Rightarrow> 32 word \<Rightarrow> 32 word" where
  "int_flags c flags =
     (let flags = (if int_base c = 10 then flag_clear flags FLAGS_HASH else flags);
          flags = (if c = ch_X then or flags FLAGS_UPPERCASE else flags);
          flags = (if c \<noteq> ch_i \<and> c \<noteq> ch_d then flag_clear flags (or FLAGS_PLUS FLAGS_SPACE) else flags)
      in if flag_set flags FLAGS_PRECISION then flag_clear flags FLAGS_ZEROPAD else flags)"

text \<open>\<open>value > 0 ? value : 0 - value\<close>, which overflows for the smallest value.\<close>

definition magnitude :: "'a::len word \<Rightarrow> fault + 'a word" where
  "magnitude v =
     (if sint v = - (2 ^ (LENGTH('a) - 1)) then Inl ArithFault
      else Inr (if 0 < sint v then v else 0 - v))"

text \<open>The argument of type \<open>int\<close>, cut to \<open>char\<close> or \<open>short\<close> where the length says so.\<close>

definition int_argument :: "bool \<Rightarrow> 32 word \<Rightarrow> 64 word \<Rightarrow> 32 word" where
  "int_argument char_signed flags v =
     (if flag_set flags FLAGS_CHAR
      then (if char_signed then scast (ucast v :: 8 word) else ucast (ucast v :: 8 word))
      else if flag_set flags FLAGS_SHORT then scast (ucast v :: 16 word)
      else ucast v)"

definition uint_argument :: "32 word \<Rightarrow> 64 word \<Rightarrow> 32 word" where
  "uint_argument flags v =
     (if flag_set flags FLAGS_CHAR then ucast (ucast v :: 8 word)
      else if flag_set flags FLAGS_SHORT then ucast (ucast v :: 16 word)
      else ucast v)"

definition convert_int ::
    "bool \<Rightarrow> out_fct \<Rightarrow> 8 word \<Rightarrow> 32 word \<Rightarrow> 32 word \<Rightarrow> 32 word \<Rightarrow> 'd va_list \<Rightarrow> out_state \<Rightarrow>
     fault + ('d va_list \<times> out_state)" where
  "convert_int char_signed out c flags width precision va s =
     (let base = int_base c; flags = int_flags c flags in
      bindR (va_word va) (\<lambda>(v, va).
      bindR (if c = ch_i \<or> c = ch_d
             then
               if flag_set flags FLAGS_LONG_LONG
               then bindR (magnitude v) (\<lambda>u.
                      ntoa_long_long out u (sint v < 0) base precision width flags s)
               else if flag_set flags FLAGS_LONG
               then bindR (magnitude v) (\<lambda>u. ntoa_long out u (sint v < 0) base precision width flags s)
               else let w = int_argument char_signed flags v in
                    bindR (magnitude w) (\<lambda>u.
                      ntoa_long out (ucast u) (sint w < 0) base precision width flags s)
             else
               if flag_set flags FLAGS_LONG_LONG
               then ntoa_long_long out v False base precision width flags s
               else if flag_set flags FLAGS_LONG
               then ntoa_long out v False base precision width flags s
               else ntoa_long out (ucast (uint_argument flags v)) False base precision width flags s) (\<lambda>s.
      Inr (va, s))))"

subsection \<open>Characters, strings, pointers\<close>

definition convert_char ::
    "out_fct \<Rightarrow> 32 word \<Rightarrow> 32 word \<Rightarrow> 'd va_list \<Rightarrow> out_state \<Rightarrow> fault + ('d va_list \<times> out_state)" where
  "convert_char out flags width va s =
     bindR (if flag_set flags FLAGS_LEFT then Inr s else send_spaces out (unat width - 1) s) (\<lambda>s.
     bindR (va_word va) (\<lambda>(v, va).
     bindR (send out (ucast v) s) (\<lambda>s.
     bindR (if flag_set flags FLAGS_LEFT then send_spaces out (unat width - 1) s else Inr s) (\<lambda>s.
     Inr (va, s)))))"

partial_function (option) string_loop ::
    "out_fct \<Rightarrow> addr \<Rightarrow> 32 word \<Rightarrow> 32 word \<Rightarrow> out_state \<Rightarrow> (fault + out_state) option" where
  "string_loop out p flags precision s =
     (case load_byte (io_mem (snd s)) p of
        Inl e \<Rightarrow> Some (Inl e)
      | Inr c \<Rightarrow>
          if c \<noteq> 0 \<and> (\<not> flag_set flags FLAGS_PRECISION \<or> precision \<noteq> 0)
          then bindP (Some (send out c s)) (\<lambda>s.
                 string_loop out (p + 1) flags
                   (if flag_set flags FLAGS_PRECISION then precision - 1 else precision) s)
          else Some (Inr s))"

definition convert_string ::
    "out_fct \<Rightarrow> 32 word \<Rightarrow> 32 word \<Rightarrow> 32 word \<Rightarrow> 'd va_list \<Rightarrow> out_state \<Rightarrow>
     (fault + ('d va_list \<times> out_state)) option" where
  "convert_string out flags width precision va s =
     bindP (Some (va_word va)) (\<lambda>(p, va).
     bindP (Some (strnlen_s (io_mem (snd s)) p (if precision \<noteq> 0 then unat precision else 2 ^ 64 - 1))) (\<lambda>l.
     let l = (if flag_set flags FLAGS_PRECISION then min l precision else l) in
     bindP (Some (if flag_set flags FLAGS_LEFT then Inr s else send_spaces out (unat width - unat l) s)) (\<lambda>s.
     bindP (string_loop out p flags precision s) (\<lambda>s.
     bindP (Some (if flag_set flags FLAGS_LEFT then send_spaces out (unat width - unat l) s else Inr s)) (\<lambda>s.
     Some (Inr (va, s)))))))"

definition convert_pointer ::
    "out_fct \<Rightarrow> 32 word \<Rightarrow> 32 word \<Rightarrow> 'd va_list \<Rightarrow> out_state \<Rightarrow> fault + ('d va_list \<times> out_state)" where
  "convert_pointer out flags precision va s =
     bindR (va_word va) (\<lambda>(v, va).
     bindR (ntoa_long_long out v False 16 precision 16 (or flags (or FLAGS_ZEROPAD FLAGS_UPPERCASE)) s) (\<lambda>s.
     Inr (va, s)))"

definition convert_float ::
    "'d fp \<Rightarrow> out_fct \<Rightarrow> 8 word \<Rightarrow> 32 word \<Rightarrow> 32 word \<Rightarrow> 32 word \<Rightarrow> 'd va_list \<Rightarrow> out_state \<Rightarrow>
     (fault + ('d va_list \<times> out_state)) option" where
  "convert_float fp out c flags width precision va s =
     bindP (Some (va_double va)) (\<lambda>(value, va).
     bindP (if c = ch_f \<or> c = ch_F
            then ftoa fp out value precision width (if c = ch_F then or flags FLAGS_UPPERCASE else flags) s
            else
              let flags = (if c = ch_g \<or> c = ch_G then or flags FLAGS_ADAPT_EXP else flags);
                  flags = (if c = ch_E \<or> c = ch_G then or flags FLAGS_UPPERCASE else flags)
              in etoa fp out value precision width flags s) (\<lambda>s.
     Some (Inr (va, s))))"

subsection \<open>\<open>_vsnprintf\<close>\<close>

definition convert ::
    "'d printf_target \<Rightarrow> out_fct \<Rightarrow> 8 word \<Rightarrow> 32 word \<Rightarrow> 32 word \<Rightarrow> 32 word \<Rightarrow> 'd va_list \<Rightarrow> out_state \<Rightarrow>
     (fault + ('d va_list \<times> out_state)) option" where
  "convert tgt out c flags width precision va s =
     (if c = ch_d \<or> c = ch_i \<or> c = ch_u \<or> c = ch_x \<or> c = ch_X \<or> c = ch_o \<or> c = ch_b
      then Some (convert_int (pt_char_signed tgt) out c flags width precision va s)
      else if pt_float tgt \<noteq> None \<and> (c = ch_f \<or> c = ch_F \<or> c = ch_e \<or> c = ch_E \<or> c = ch_g \<or> c = ch_G)
      then convert_float (the (pt_float tgt)) out c flags width precision va s
      else if c = ch_c then Some (convert_char out flags width va s)
      else if c = ch_s then convert_string out flags width precision va s
      else if c = ch_p then Some (convert_pointer out flags precision va s)
      else Some (bindR (send out c s) (\<lambda>s. Inr (va, s))))"

text \<open>One directive behind its percent sign, up to the character behind its specifier.\<close>

definition directive ::
    "'d printf_target \<Rightarrow> out_fct \<Rightarrow> addr \<Rightarrow> 'd va_list \<Rightarrow> out_state \<Rightarrow>
     (fault + (addr \<times> 'd va_list \<times> out_state)) option" where
  "directive tgt out format va s =
     (let m = io_mem (snd s) in
      bindP (parse_flags m format 0) (\<lambda>(flags, format).
      bindP (parse_width m format flags va) (\<lambda>(width, flags, format, va).
      bindP (parse_precision m format flags va) (\<lambda>(precision, flags, format, va).
      bindP (Some (parse_length m format flags)) (\<lambda>(flags, format).
      bindP (Some (load_byte m format)) (\<lambda>c.
      bindP (convert tgt out c flags width precision va s) (\<lambda>(va, s).
      Some (Inr (format + 1, va, s)))))))))"

partial_function (option) vsnprintf_loop ::
    "'d printf_target \<Rightarrow> out_fct \<Rightarrow> addr \<Rightarrow> 'd va_list \<Rightarrow> out_state \<Rightarrow> (fault + out_state) option" where
  "vsnprintf_loop tgt out format va s =
     (case load_byte (io_mem (snd s)) format of
        Inl e \<Rightarrow> Some (Inl e)
      | Inr c \<Rightarrow>
          if c = 0 then Some (Inr s)
          else if c \<noteq> ch_percent
          then bindP (Some (send out c s)) (\<lambda>s. vsnprintf_loop tgt out (format + 1) va s)
          else bindP (directive tgt out (format + 1) va s) (\<lambda>(format, va, s).
                 vsnprintf_loop tgt out format va s))"

text \<open>
  The output function comes with buffer and \<open>maxlen\<close> applied; whether the buffer is null is
  an argument of its own.
\<close>

definition vsnprintf_internal ::
    "'d printf_target \<Rightarrow> out_fct \<Rightarrow> bool \<Rightarrow> 64 word \<Rightarrow> addr \<Rightarrow> 'd va_list \<Rightarrow> io \<Rightarrow> (fault + (32 word \<times> io)) option" where
  "vsnprintf_internal tgt out buffer_null maxlen format va st =
     (let out = (if buffer_null then out_null else out) in
      bindP (vsnprintf_loop tgt out format va (0, st)) (\<lambda>(idx, st).
      Some (bindR (out 0 (if idx < maxlen then idx else maxlen - 1) st) (\<lambda>st. Inr (ucast idx, st)))))"

subsection \<open>The functions of the family\<close>

definition printf :: "'d printf_target \<Rightarrow> addr \<Rightarrow> 'd va_list \<Rightarrow> io \<Rightarrow> (fault + (32 word \<times> io)) option" where
  "printf tgt format va st = vsnprintf_internal tgt out_char False (- 1) format va st"

definition sprintf ::
    "'d printf_target \<Rightarrow> addr \<Rightarrow> addr \<Rightarrow> 'd va_list \<Rightarrow> io \<Rightarrow> (fault + (32 word \<times> io)) option" where
  "sprintf tgt buffer format va st =
     vsnprintf_internal tgt (out_buffer buffer (- 1)) (buffer = 0) (- 1) format va st"

definition snprintf ::
    "'d printf_target \<Rightarrow> addr \<Rightarrow> 64 word \<Rightarrow> addr \<Rightarrow> 'd va_list \<Rightarrow> io \<Rightarrow> (fault + (32 word \<times> io)) option" where
  "snprintf tgt buffer count format va st =
     vsnprintf_internal tgt (out_buffer buffer count) (buffer = 0) count format va st"

definition vprintf :: "'d printf_target \<Rightarrow> addr \<Rightarrow> 'd va_list \<Rightarrow> io \<Rightarrow> (fault + (32 word \<times> io)) option" where
  "vprintf tgt format va st = vsnprintf_internal tgt out_char False (- 1) format va st"

definition vsnprintf ::
    "'d printf_target \<Rightarrow> addr \<Rightarrow> 64 word \<Rightarrow> addr \<Rightarrow> 'd va_list \<Rightarrow> io \<Rightarrow> (fault + (32 word \<times> io)) option" where
  "vsnprintf tgt buffer count format va st =
     vsnprintf_internal tgt (out_buffer buffer count) (buffer = 0) count format va st"

definition fctprintf ::
    "'d printf_target \<Rightarrow> (8 word \<Rightarrow> io \<Rightarrow> fault + io) \<Rightarrow> addr \<Rightarrow> 'd va_list \<Rightarrow> io \<Rightarrow> (fault + (32 word \<times> io)) option" where
  "fctprintf tgt fct format va st = vsnprintf_internal tgt (out_fct_wrap fct) False (- 1) format va st"

end
