(* ===== verification/PrintfOutput.thy ===== *)
theory PrintfOutput
  imports Printf
begin

text \<open>
  Nothing in \<open>printf.c\<close> depends on the output function but what that function does with its
  characters. The theory states this as a locale: when two output functions keep a relation
  between their states from character to character, whole formatted outputs keep it. Its
  interpretations compare every function of the family with one that only records.
\<close>

subsection \<open>Relating results\<close>

text \<open>Whenever the first run returns, so does the second, with a related result.\<close>

definition simR :: "('a \<Rightarrow> 'b \<Rightarrow> bool) \<Rightarrow> 'e + 'a \<Rightarrow> 'e + 'b \<Rightarrow> bool" where
  "simR Q r1 r2 \<longleftrightarrow> (\<forall>x. r1 = Inr x \<longrightarrow> (\<exists>y. r2 = Inr y \<and> Q x y))"

definition simP :: "('a \<Rightarrow> 'b \<Rightarrow> bool) \<Rightarrow> ('e + 'a) option \<Rightarrow> ('e + 'b) option \<Rightarrow> bool" where
  "simP Q r1 r2 \<longleftrightarrow> (\<forall>x. r1 = Some (Inr x) \<longrightarrow> (\<exists>y. r2 = Some (Inr y) \<and> Q x y))"

named_theorems sim_intros

lemma simR_Inr [sim_intros]: "Q x y \<Longrightarrow> simR Q (Inr x) (Inr y)"
  by (simp add: simR_def)

lemma simR_Inl [sim_intros]: "simR Q (Inl e) r"
  by (simp add: simR_def)

lemma simP_Inl [sim_intros]: "simP Q (Some (Inl e)) r"
  by (simp add: simP_def)

lemma simP_None [sim_intros]: "simP Q None r"
  by (simp add: simP_def)

lemma simP_Some [sim_intros]: "simR Q r1 r2 \<Longrightarrow> simP Q (Some r1) (Some r2)"
  by (auto simp: simR_def simP_def)

lemma simR_bind:
  "simR Q r1 r2 \<Longrightarrow> (\<And>x y. Q x y \<Longrightarrow> simR Q' (f1 x) (f2 y)) \<Longrightarrow> simR Q' (bindR r1 f1) (bindR r2 f2)"
  by (cases r1) (fastforce simp: simR_def)+

lemma simP_bind:
  "simP Q r1 r2 \<Longrightarrow> (\<And>x y. Q x y \<Longrightarrow> simP Q' (f1 x) (f2 y)) \<Longrightarrow> simP Q' (bindP r1 f1) (bindP r2 f2)"
  by (cases "(r1, f1)" rule: bindP.cases) (fastforce simp: simP_def)+

lemma simR_if [sim_intros]:
  "(b \<Longrightarrow> simR Q r1 r2) \<Longrightarrow> (\<not> b \<Longrightarrow> simR Q r1' r2') \<Longrightarrow> simR Q (if b then r1 else r1') (if b then r2 else r2')"
  by simp

lemma simP_if [sim_intros]:
  "(b \<Longrightarrow> simP Q r1 r2) \<Longrightarrow> (\<not> b \<Longrightarrow> simP Q r1' r2') \<Longrightarrow> simP Q (if b then r1 else r1') (if b then r2 else r2')"
  by simp

lemma simR_prod:
  "(\<And>x y. simR Q (f1 x y) (f2 x y)) \<Longrightarrow> simR Q (case p of (x, y) \<Rightarrow> f1 x y) (case p of (x, y) \<Rightarrow> f2 x y)"
  by (simp split: prod.splits)

lemma simP_prod:
  "(\<And>x y. simP Q (f1 x y) (f2 x y)) \<Longrightarrow> simP Q (case p of (x, y) \<Rightarrow> f1 x y) (case p of (x, y) \<Rightarrow> f2 x y)"
  by (simp split: prod.splits)

lemma simR_refl: "simR (=) r r"
  by (simp add: simR_def)

lemma simP_refl: "simP (=) r r"
  by (simp add: simP_def)

lemma simR_InrE:
  assumes "simR Q r1 r2" and "r1 = Inr x"
  obtains y where "r2 = Inr y" and "Q x y"
  using assms by (auto simp: simR_def)

lemma simPE:
  assumes "simP Q r1 r2" and "r1 = Some (Inr x)"
  obtains y where "r2 = Some (Inr y)" and "Q x y"
  using assms by (auto simp: simP_def)

subsection \<open>Reading from a larger memory\<close>

lemma load_byte_le: "m1 \<subseteq>\<^sub>m m2 \<Longrightarrow> simR (=) (load_byte m1 a) (load_byte m2 a)"
  by (auto simp: simR_def load_byte_def map_le_def dom_def split: option.splits)

lemma load_byte_le_Inr: "m1 \<subseteq>\<^sub>m m2 \<Longrightarrow> load_byte m1 a = Inr c \<Longrightarrow> load_byte m2 a = Inr c"
  using load_byte_le [of m1 m2 a] by (auto simp: simR_def)

lemma strnlen_s_loop_le:
  "m1 \<subseteq>\<^sub>m m2 \<Longrightarrow> simR (=) (strnlen_s_loop m1 s n) (strnlen_s_loop m2 s n)"
proof (induction n arbitrary: s)
  case 0
  then show ?case
    unfolding strnlen_s_loop.simps [of _ _ 0]
    by (intro simR_bind [OF load_byte_le]) (auto simp: simR_def)
next
  case (Suc n)
  then show ?case
    unfolding strnlen_s_loop.simps [of _ _ "Suc n"]
    by (intro simR_bind [OF load_byte_le]) (auto simp: simR_def)
qed

lemma strnlen_s_le: "m1 \<subseteq>\<^sub>m m2 \<Longrightarrow> simR (=) (strnlen_s m1 p n) (strnlen_s m2 p n)"
  unfolding strnlen_s_def by (intro simR_bind [OF strnlen_s_loop_le]) (auto simp: simR_def)

lemma atoi_loop_le:
  assumes "m1 \<subseteq>\<^sub>m m2"
  shows "simP (=) (atoi_loop m1 i s) (atoi_loop m2 i s)"
proof -
  have "atoi_loop m2 i s = Some (Inr x)" if "atoi_loop m1 i s = Some y" and "y = Inr x" for x y
    using that assms
  proof (induction rule: atoi_loop.raw_induct [rotated 1, consumes 1])
    case (1 f m1 i s y)
    then show ?case
      unfolding atoi_loop.simps [of m2 i s]
      by (auto split: sum.splits if_splits dest: load_byte_le_Inr simp: load_byte_le_Inr)
  qed
  then show ?thesis by (auto simp: simP_def)
qed

lemma parse_flags_le:
  assumes "m1 \<subseteq>\<^sub>m m2"
  shows "simP (=) (parse_flags m1 s flags) (parse_flags m2 s flags)"
proof -
  have "parse_flags m2 s flags = Some (Inr x)" if "parse_flags m1 s flags = Some y" and "y = Inr x" for x y
    using that assms
  proof (induction rule: parse_flags.raw_induct [rotated 1, consumes 1])
    case (1 f m1 s flags y)
    then show ?case
      unfolding parse_flags.simps [of m2 s flags]
      by (auto split: sum.splits option.splits dest: load_byte_le_Inr simp: load_byte_le_Inr)
  qed
  then show ?thesis by (auto simp: simP_def)
qed

lemma atoi_le: "m1 \<subseteq>\<^sub>m m2 \<Longrightarrow> simP (=) (atoi m1 s) (atoi m2 s)"
  unfolding atoi_def by (rule atoi_loop_le)

text \<open>Sequencing for reads, whose results are equal.\<close>

lemma simR_then: "simR (=) r1 r2 \<Longrightarrow> (\<And>x. simR Q (f1 x) (f2 x)) \<Longrightarrow> simR Q (bindR r1 f1) (bindR r2 f2)"
  by (erule simR_bind) simp

lemma simP_then: "simP (=) r1 r2 \<Longrightarrow> (\<And>x. simP Q (f1 x) (f2 x)) \<Longrightarrow> simP Q (bindP r1 f1) (bindP r2 f2)"
  by (erule simP_bind) simp

lemmas simP_load = simP_then [OF simP_Some, OF load_byte_le]
lemmas simR_load = simR_then [OF load_byte_le]
lemmas simP_atoi = simP_then [OF atoi_le]

lemma simP_case_load:
  "m1 \<subseteq>\<^sub>m m2 \<Longrightarrow> (\<And>c. simP Q (f1 c) (f2 c)) \<Longrightarrow>
   simP Q (case load_byte m1 a of Inl e \<Rightarrow> Some (Inl e) | Inr c \<Rightarrow> f1 c)
          (case load_byte m2 a of Inl e \<Rightarrow> Some (Inl e) | Inr c \<Rightarrow> f2 c)"
  by (auto split: sum.splits simp: simP_Inl dest: load_byte_le_Inr)

lemma parse_width_le:
  "m1 \<subseteq>\<^sub>m m2 \<Longrightarrow> simP (=) (parse_width m1 s flags va) (parse_width m2 s flags va)"
  unfolding parse_width_def by (rule simP_refl simP_load simP_atoi simP_if | assumption)+

lemma parse_precision_le:
  "m1 \<subseteq>\<^sub>m m2 \<Longrightarrow> simP (=) (parse_precision m1 s flags va) (parse_precision m2 s flags va)"
  unfolding parse_precision_def Let_def by (rule simP_refl simP_load simP_atoi simP_if | assumption)+

lemma parse_length_le:
  "m1 \<subseteq>\<^sub>m m2 \<Longrightarrow> simR (=) (parse_length m1 s flags) (parse_length m2 s flags)"
  unfolding parse_length_def by (rule simR_refl simR_load simR_if | assumption)+

subsection \<open>The simulation\<close>

locale output_simulation =
  fixes out1 out2 :: out_fct
    and R :: "64 word \<Rightarrow> io \<Rightarrow> io \<Rightarrow> bool"
  assumes memory: "R i st1 st2 \<Longrightarrow> io_mem st1 \<subseteq>\<^sub>m io_mem st2"
    and character: "R i st1 st2 \<Longrightarrow> simR (R (i + 1)) (out1 c i st1) (out2 c i st2)"
begin

definition S :: "out_state \<Rightarrow> out_state \<Rightarrow> bool" where
  "S s1 s2 \<longleftrightarrow> fst s1 = fst s2 \<and> R (fst s1) (snd s1) (snd s2)"

abbreviation with_S :: "'x \<times> out_state \<Rightarrow> 'x \<times> out_state \<Rightarrow> bool" where
  "with_S \<equiv> rel_prod (=) S"

lemma S_mem: "S s1 s2 \<Longrightarrow> io_mem (snd s1) \<subseteq>\<^sub>m io_mem (snd s2)"
  unfolding S_def by (blast intro: memory)

lemma S_fst: "S s1 s2 \<Longrightarrow> fst s2 = fst s1"
  by (simp add: S_def)

lemma send_sim: "S s1 s2 \<Longrightarrow> simR S (send out1 c s1) (send out2 c s2)"
  unfolding send_def
  by (cases s1; cases s2) (auto simp: S_def intro!: simR_bind [OF character] simR_Inr)

lemma send_all_sim: "S s1 s2 \<Longrightarrow> simR S (send_all out1 cs s1) (send_all out2 cs s2)"
  by (induction cs arbitrary: s1 s2) (auto intro!: simR_Inr simR_bind [OF send_sim])

lemma with_S_Pair: "S s1 s2 \<Longrightarrow> with_S (x, s1) (x, s2)"
  by simp

lemmas out_sims = simR_then [OF simR_refl] simR_prod simR_if simR_Inr with_S_Pair
  send_sim send_all_sim simR_bind [where Q = S]

lemma out_rev_sim: "S s1 s2 \<Longrightarrow> simR S (out_rev out1 buf width flags s1) (out_rev out2 buf width flags s2)"
  unfolding out_rev_def
  by (rule simR_bind [where Q = S], (rule out_sims | assumption)+, subst S_fst, assumption, subst (2) S_fst, assumption,
     (rule out_sims | assumption)+)

lemma ntoa_format_sim:
  "S s1 s2 \<Longrightarrow> simR S (ntoa_format out1 buf neg base prec width flags s1) (ntoa_format out2 buf neg base prec width flags s2)"
  unfolding ntoa_format_def Let_def by (rule out_rev_sim)

lemma ntoa_long_sim:
  "S s1 s2 \<Longrightarrow> simR S (ntoa_long out1 v neg base prec width flags s1) (ntoa_long out2 v neg base prec width flags s2)"
  unfolding ntoa_long_def Let_def by (rule ntoa_format_sim)

lemma ntoa_long_long_sim:
  "S s1 s2 \<Longrightarrow> simR S (ntoa_long_long out1 v neg base prec width flags s1) (ntoa_long_long out2 v neg base prec width flags s2)"
  unfolding ntoa_long_long_def Let_def by (rule ntoa_format_sim)

lemmas conversion_sims = ntoa_long_sim ntoa_long_long_sim out_rev_sim out_sims

lemma convert_int_sim:
  "S s1 s2 \<Longrightarrow>
   simR with_S (convert_int sg out1 c flags width precision va s1) (convert_int sg out2 c flags width precision va s2)"
  unfolding convert_int_def Let_def by (rule conversion_sims | assumption)+

lemma convert_char_sim:
  "S s1 s2 \<Longrightarrow> simR with_S (convert_char out1 flags width va s1) (convert_char out2 flags width va s2)"
  unfolding convert_char_def by (rule conversion_sims | assumption)+

lemma convert_pointer_sim:
  "S s1 s2 \<Longrightarrow> simR with_S (convert_pointer out1 flags precision va s1) (convert_pointer out2 flags precision va s2)"
  unfolding convert_pointer_def by (rule conversion_sims | assumption)+

lemma ftoa_fixed_sim:
  "S s1 s2 \<Longrightarrow> simR S (ftoa_fixed fp out1 v prec width flags s1) (ftoa_fixed fp out2 v prec width flags s2)"
  unfolding ftoa_fixed_def Let_def by (rule conversion_sims | assumption)+

lemma etoa_finish_sim:
  "S s1 s2 \<Longrightarrow>
   simR S (etoa_finish out1 width i flags minwidth expval s1) (etoa_finish out2 width i flags minwidth expval s2)"
  unfolding etoa_finish_def
  by (rule conversion_sims | assumption)+ (subst S_fst, assumption, (rule conversion_sims | assumption)+)+

lemma etoa_finish_sim':
  "S s1 s2 \<Longrightarrow> S t1 t2 \<Longrightarrow>
   simR S (etoa_finish out1 width (fst s1) flags minwidth expval t1) (etoa_finish out2 width (fst s2) flags minwidth expval t2)"
  by (simp add: S_fst etoa_finish_sim)

lemma simP_after:
  "simP Q r1 r2 \<Longrightarrow> (\<And>x y. Q x y \<Longrightarrow> simR Q' (f1 x) (f2 y)) \<Longrightarrow>
   simP Q' (Option.bind r1 (\<lambda>r. Some (bindR r f1))) (Option.bind r2 (\<lambda>r. Some (bindR r f2)))"
  by (cases r1; cases r2) (fastforce simp: simP_def simR_def result_simps)+

lemma ftoa_sim:
  assumes "S s1 s2"
  shows "simP S (ftoa fp out1 v prec width flags s1) (ftoa fp out2 v prec width flags s2)"
proof -
  have "simP S (Some y) (ftoa fp out2 v prec width flags s2)"
    if "ftoa fp out v prec width flags s1 = Some y" and "out = out1" for y out
    using that assms
  proof (induction arbitrary: s2 rule: ftoa.raw_induct [rotated 1, consumes 1])
    case (1 f fp out v prec width flags s1 y)
    have IH: "simP S (f fp out1 v' prec' width' flags' s1) (ftoa fp out2 v' prec' width' flags' s2)" for v' prec' width' flags'
      using 1(1) [of fp out1 v' prec' width' flags' s1] 1(4)
      by (cases "f fp out1 v' prec' width' flags' s1") (auto simp: simP_None)
    show ?case
      unfolding 1(2) [symmetric] ftoa.simps [of fp out2 v prec width flags s2] 1(3)
      using 1(4)
      by (auto split: option.splits sum.splits prod.splits
          intro!: simP_Some simP_Inl out_rev_sim ftoa_fixed_sim simP_after [OF IH] etoa_finish_sim')
  qed
  then show ?thesis by (cases "ftoa fp out1 v prec width flags s1") (auto simp: simP_None)
qed

lemma etoa_sim:
  assumes "S s1 s2"
  shows "simP S (etoa fp out1 v prec width flags s1) (etoa fp out2 v prec width flags s2)"
  using assms unfolding etoa_def
  by (auto split: option.splits sum.splits prod.splits
      intro!: simP_Inl ftoa_sim simP_after [OF ftoa_sim] etoa_finish_sim')

lemma string_loop_sim:
  assumes "S s1 s2"
  shows "simP S (string_loop out1 p flags precision s1) (string_loop out2 p flags precision s2)"
proof -
  have "simP S (Some y) (string_loop out2 p flags precision s2)"
    if "string_loop out p flags precision s1 = Some y" and "out = out1" for y out
    using that assms
  proof (induction arbitrary: s2 rule: string_loop.raw_induct [rotated 1, consumes 1])
    case (1 f out p flags precision s1 y)
    have IH: "simP S (f out1 p' flags' precision' s1') (string_loop out2 p' flags' precision' s2')"
      if "S s1' s2'" for p' flags' precision' s1' s2'
      using 1(1) [of out1 p' flags' precision' s1'] that
      by (cases "f out1 p' flags' precision' s1'") (auto simp: simP_None)
    show ?case
      unfolding 1(2) [symmetric] string_loop.simps [of out2 p flags precision s2] 1(3)
      by (rule simP_case_load [OF S_mem] simP_if simP_bind [OF simP_Some, OF send_sim] IH simP_Some
          simR_Inr 1(4) | assumption)+
  qed
  then show ?thesis by (cases "string_loop out1 p flags precision s1") (auto simp: simP_None)
qed

lemmas run_sims = simP_then [OF simP_refl] simP_prod simP_if simP_Inl simP_Some simR_Inr with_S_Pair
  send_sim send_all_sim simP_bind [where Q = S]

lemma convert_string_sim:
  "S s1 s2 \<Longrightarrow>
   simP with_S (convert_string out1 flags width precision va s1) (convert_string out2 flags width precision va s2)"
  unfolding convert_string_def Let_def
  by (rule simP_then [OF simP_refl] simP_prod)+
    (rule simP_then [OF simP_Some, OF strnlen_s_le], rule S_mem, assumption,
      (rule string_loop_sim simR_if run_sims | assumption)+)

lemma convert_float_sim:
  "S s1 s2 \<Longrightarrow>
   simP with_S (convert_float fp out1 c flags width precision va s1) (convert_float fp out2 c flags width precision va s2)"
  unfolding convert_float_def Let_def
  by (rule ftoa_sim etoa_sim run_sims | assumption)+

lemma convert_sim:
  "S s1 s2 \<Longrightarrow>
   simP with_S (convert tgt out1 c flags width precision va s1) (convert tgt out2 c flags width precision va s2)"
  unfolding convert_def
  by (rule convert_int_sim convert_float_sim convert_char_sim convert_string_sim convert_pointer_sim
      conversion_sims simP_if simP_Some | assumption)+

lemma directive_sim:
  "S s1 s2 \<Longrightarrow>
   simP (rel_prod (=) with_S) (directive tgt out1 format va s1) (directive tgt out2 format va s2)"
  unfolding directive_def Let_def
  by (rule simP_prod simP_load simP_then [OF parse_flags_le] simP_then [OF parse_width_le]
      simP_then [OF parse_precision_le] simP_then [OF simP_Some, OF parse_length_le] S_mem simP_bind [OF convert_sim] | assumption)+
    (auto intro!: simP_Some simR_Inr)

lemma vsnprintf_loop_sim:
  assumes "S s1 s2"
  shows "simP S (vsnprintf_loop tgt out1 format va s1) (vsnprintf_loop tgt out2 format va s2)"
proof -
  have "simP S (Some y) (vsnprintf_loop tgt out2 format va s2)"
    if "vsnprintf_loop tgt out format va s1 = Some y" and "out = out1" for y out
    using that assms
  proof (induction arbitrary: s2 rule: vsnprintf_loop.raw_induct [rotated 1, consumes 1])
    case (1 f tgt out format va s1 y)
    have IH: "simP S (f tgt out1 format' va' s1') (vsnprintf_loop tgt out2 format' va' s2')"
      if "S s1' s2'" for format' va' s1' s2'
      using 1(1) [of tgt out1 format' va' s1'] that
      by (cases "f tgt out1 format' va' s1'") (auto simp: simP_None)
    show ?case
      unfolding 1(2) [symmetric] vsnprintf_loop.simps [of tgt out2 format va s2] 1(3)
      by (rule simP_case_load [OF S_mem] simP_if simP_bind [OF simP_Some, OF send_sim] IH simP_Some
          simR_Inr simP_bind [OF directive_sim] 1(4) | assumption)+ (auto intro: IH split: prod.splits)
  qed
  then show ?thesis by (cases "vsnprintf_loop tgt out1 format va s1") (auto simp: simP_None)
qed

end

end
