(* ===== verification/PrintfText.thy ===== *)
theory PrintfText
  imports PrintfOutput
begin

text \<open>
  What the functions of the \<open>printf\<close> family deliver. The text of a format and its arguments is
  what an output function that only records gets; each function delivers that text to the
  console, to its buffer or to the function of its caller.
\<close>

subsection \<open>The text\<close>

text \<open>A recording output function for at most \<open>limit\<close> characters.\<close>

definition out_record :: "nat \<Rightarrow> out_fct" where
  "out_record limit character idx st =
     (if length (io_console st) < limit then Inr (putchar_console character st) else Inl OutOfBounds)"

definition formatted_text ::
    "nat \<Rightarrow> 'd printf_target \<Rightarrow> 64 memory \<Rightarrow> addr \<Rightarrow> 'd va_list \<Rightarrow> (fault + 8 word list) option" where
  "formatted_text limit tgt m format va =
     bindP (vsnprintf_loop tgt (out_record limit) format va (0, \<lparr>io_mem = m, io_console = []\<rparr>))
       (\<lambda>(idx, st). Some (Inr (io_console st)))"

lemma formatted_textE:
  assumes "formatted_text limit tgt m format va = Some (Inr t)"
  obtains idx st where
    "vsnprintf_loop tgt (out_record limit) format va (0, \<lparr>io_mem = m, io_console = []\<rparr>) = Some (Inr (idx, st))"
    and "io_console st = t"
  using assms that by (auto simp: formatted_text_def bindP_Inr_iff split: prod.splits)

subsection \<open>Output functions of the caller, and the console\<close>

definition to_function :: "64 memory \<Rightarrow> (8 word \<Rightarrow> io \<Rightarrow> io) \<Rightarrow> io \<Rightarrow> 64 word \<Rightarrow> io \<Rightarrow> io \<Rightarrow> bool" where
  "to_function m g st0 i st1 st2 \<longleftrightarrow>
     io_mem st1 = m \<and> io_mem st2 = m \<and> i = of_nat (length (io_console st1)) \<and>
     st2 = fold g (filter (\<lambda>c. c \<noteq> 0) (io_console st1)) st0 \<and> (\<forall>c st. io_mem (g c st) = io_mem st)"

interpretation fct: output_simulation "out_record limit" "out_fct_wrap (\<lambda>c st. Inr (g c st))" "to_function m g st0"
  for limit g m st0
proof
  show "io_mem st1 \<subseteq>\<^sub>m io_mem st2" if "to_function m g st0 i st1 st2" for i st1 st2
    using that unfolding to_function_def by (elim conjE) (simp only: map_le_refl)
  show "simR (to_function m g st0 (i + 1)) (out_record limit c i st1) (out_fct_wrap (\<lambda>c st. Inr (g c st)) c i st2)"
    if "to_function m g st0 i st1 st2" for i st1 st2 c
    using that
    by (auto simp: to_function_def out_record_def out_fct_wrap_def putchar_console_def simR_def add.commute)
qed

lemma ucast_count [simp]: "(ucast (of_nat n :: 64 word) :: 32 word) = of_nat n"
  by (simp add: word_unat_eq_iff unsigned_ucast_eq unsigned_of_nat)

lemma fctprintf_run:
  assumes out: "formatted_text limit tgt (io_mem st) format va = Some (Inr t)"
    and g: "\<And>c st. io_mem (g c st) = io_mem st"
  shows "fctprintf tgt (\<lambda>c st. Inr (g c st)) format va st =
    Some (Inr (of_nat (length t), fold g (filter (\<lambda>c. c \<noteq> 0) t) st))"
proof -
  obtain idx st' where run: "vsnprintf_loop tgt (out_record limit) format va (0, \<lparr>io_mem = io_mem st, io_console = []\<rparr>)
      = Some (Inr (idx, st'))" and t: "io_console st' = t"
    using out by (rule formatted_textE)
  have "fct.S (io_mem st) g st (0, \<lparr>io_mem = io_mem st, io_console = []\<rparr>) (0, st)"
    using g by (simp add: fct.S_def to_function_def)
  then obtain s2 where "vsnprintf_loop tgt (out_fct_wrap (\<lambda>c st. Inr (g c st))) format va (0, st) = Some (Inr s2)"
      and "fct.S (io_mem st) g st (idx, st') s2"
    using simPE [OF fct.vsnprintf_loop_sim run] by blast
  then show ?thesis
    by (cases s2) (auto simp: fctprintf_def vsnprintf_internal_def fct.S_def to_function_def t out_fct_wrap_def)
qed

lemma out_char_wrap: "out_char = out_fct_wrap (\<lambda>c st. Inr (putchar_console c st))"
  by (intro ext) (simp add: out_char_def out_fct_wrap_def)

lemma fold_putchar: "fold putchar_console t st = st\<lparr>io_console := io_console st @ t\<rparr>"
  by (induction t arbitrary: st) (simp_all add: putchar_console_def)

lemma printf_run:
  assumes "formatted_text limit tgt (io_mem st) format va = Some (Inr t)"
  shows "printf tgt format va st =
    Some (Inr (of_nat (length t), st\<lparr>io_console := io_console st @ filter (\<lambda>c. c \<noteq> 0) t\<rparr>))"
proof -
  have "printf tgt format va st = fctprintf tgt (\<lambda>c st. Inr (putchar_console c st)) format va st"
    by (simp add: printf_def fctprintf_def out_char_wrap)
  also have "\<dots> = Some (Inr (of_nat (length t), st\<lparr>io_console := io_console st @ filter (\<lambda>c. c \<noteq> 0) t\<rparr>))"
    using fctprintf_run [OF assms, of putchar_console] by (simp add: fold_putchar) (simp add: putchar_console_def)
  finally show ?thesis .
qed

subsection \<open>Buffers\<close>

text \<open>Memory without the bytes of a range.\<close>

definition without :: "64 memory \<Rightarrow> addr \<Rightarrow> nat \<Rightarrow> 64 memory" where
  "without m a n = m |` {b. \<not> inside b a n}"

definition to_buffer ::
    "64 memory \<Rightarrow> addr \<Rightarrow> 64 word \<Rightarrow> nat \<Rightarrow> 8 word list \<Rightarrow> 64 word \<Rightarrow> io \<Rightarrow> io \<Rightarrow> bool" where
  "to_buffer m buffer count limit con i st1 st2 \<longleftrightarrow>
     limit < 2 ^ 64 \<and> mapped m buffer (min (unat count) (Suc limit)) \<and>
     io_mem st1 = without m buffer (min (unat count) (Suc limit)) \<and>
     length (io_console st1) \<le> limit \<and> i = of_nat (length (io_console st1)) \<and>
     io_mem st2 = overwrite m buffer (take (unat count) (io_console st1)) \<and> io_console st2 = con"

lemma without_le_overwrite:
  "length bs \<le> n \<Longrightarrow> without m a n \<subseteq>\<^sub>m overwrite m a bs"
  by (auto simp: map_le_def without_def overwrite_def inside_def restrict_map_def dom_def)

interpretation buf: output_simulation "out_record limit" "out_buffer buffer count" "to_buffer m buffer count limit con"
  for limit buffer count m con
proof
  show "io_mem st1 \<subseteq>\<^sub>m io_mem st2" if "to_buffer m buffer count limit con i st1 st2" for i st1 st2
    using that by (auto simp: to_buffer_def intro!: without_le_overwrite)
  show "simR (to_buffer m buffer count limit con (i + 1)) (out_record limit c i st1) (out_buffer buffer count c i st2)"
    if R: "to_buffer m buffer count limit con i st1 st2" for i st1 st2 c
  proof (cases "length (io_console st1) < limit")
    case True
    let ?t = "io_console st1" and ?n = "min (unat count) (Suc limit)"
    have i: "unat i = length ?t" using R True by (simp add: to_buffer_def unat_of_nat take_bit_nat_eq_self)
    show ?thesis
    proof (cases "i < count")
      case less: True
      then have lt: "length ?t < unat count" using i by (simp add: word_less_nat_alt)
      then have "m (buffer + i) \<noteq> None"
        using R True i by (auto simp: to_buffer_def mapped_def)
      then have "io_mem st2 (buffer + i) \<noteq> None" using R by (simp add: to_buffer_def overwrite_def)
      moreover have "overwrite m buffer (take (unat count) (?t @ [c])) =
          (overwrite m buffer (take (unat count) ?t))(buffer + i \<mapsto> c)"
        using overwrite_snoc [of "length ?t" "?t @ [c]" m buffer] R True lt
        by (simp add: to_buffer_def)
      ultimately show ?thesis
        using R True less
        by (auto simp: to_buffer_def out_record_def out_buffer_def putchar_console_def simR_def add.commute)
    next
      case False
      then have "unat count \<le> length ?t" using i by (simp add: word_less_nat_alt)
      then show ?thesis
        using R True False
        by (auto simp: to_buffer_def out_record_def out_buffer_def putchar_console_def simR_def add.commute)
    qed
  qed (simp add: out_record_def simR_Inl)
qed

lemma overwrite_last:
  fixes a :: "'w::len word"
  assumes "Suc (length bs) < 2 ^ LENGTH('w)"
  shows "(overwrite m a bs)(a + of_nat (length bs) \<mapsto> c) = overwrite m a (bs @ [c])"
    and "(overwrite m a (bs @ [d]))(a + of_nat (length bs) \<mapsto> c) = overwrite m a (bs @ [c])"
proof -
  show 1: "(overwrite m a bs)(a + of_nat (length bs) \<mapsto> c) = overwrite m a (bs @ [c])" for c
    using overwrite_snoc [of "length bs" "bs @ [c]" m a] assms by simp
  show "(overwrite m a (bs @ [d]))(a + of_nat (length bs) \<mapsto> c) = overwrite m a (bs @ [c])"
    unfolding 1 [symmetric] by simp
qed

text \<open>The terminating character.\<close>

lemma terminate_buffer:
  fixes idx count :: "64 word"
  assumes idx: "unat idx = length t" and len: "length t < 2 ^ 64 - 1" and mapped: "mapped m buffer (min (unat count) (Suc (length t)))"
  shows "out_buffer buffer count 0 (if idx < count then idx else count - 1)
           (st\<lparr>io_mem := overwrite m buffer (take (unat count) t)\<rparr>) =
         Inr (st\<lparr>io_mem := if count = 0 then m else overwrite m buffer (take (unat count - 1) t @ [0])\<rparr>)"
proof -
  consider "count = 0" | "idx < count" | "count \<noteq> 0" "\<not> idx < count" by auto
  then show ?thesis
  proof cases
    case 1
    then show ?thesis by (simp add: out_buffer_def)
  next
    case 2
    then have lt: "length t < unat count" and "count \<noteq> 0" using idx by (auto simp: word_less_nat_alt)
    moreover have "idx = of_nat (length t)" by (simp flip: idx)
    moreover have "m (buffer + of_nat (length t)) \<noteq> None" using mapped lt by (simp add: mapped_def)
    moreover have "overwrite m buffer t (buffer + of_nat (length t)) \<noteq> None"
      using calculation by (simp add: overwrite_def)
    ultimately show ?thesis using len 2 by (simp add: out_buffer_def overwrite_last)
  next
    case 3
    define k where "k = unat count - 1"
    have pos: "unat count \<noteq> 0" and dec: "unat (count - 1) = k"
      using 3(1) unat_minus_one [of count] by (simp_all add: unat_eq_zero k_def)
    then have count: "unat count = Suc k" by (simp add: k_def)
    have k: "k < length t" "count - 1 < count" using 3(2) idx count dec by (auto simp: word_less_nat_alt)
    have "count - 1 = of_nat k" by (simp flip: dec)
    moreover have "take (Suc k) t = take k t @ [t ! k]" using k(1) by (simp add: take_Suc_conv_app_nth)
    moreover have "overwrite m buffer (take k t @ [t ! k]) (buffer + of_nat k) = Some (t ! k)"
      using k(1) len overwrite_in [of k "take k t @ [t ! k]" m buffer] by (simp add: nth_append)
    ultimately show ?thesis
      using 3 k len overwrite_last(2) [of "take k t" m buffer "t ! k" 0] count
      by (simp add: out_buffer_def min_absorb2)
  qed
qed

lemma buffer_run:
  assumes out: "formatted_text limit tgt (without (io_mem st) buffer (min (unat count) (Suc limit))) format va = Some (Inr t)"
    and limit: "limit < 2 ^ 64 - 1" and mapped: "mapped (io_mem st) buffer (min (unat count) (Suc limit))"
  shows "vsnprintf_internal tgt (out_buffer buffer count) False count format va st =
    Some (Inr (of_nat (length t),
      st\<lparr>io_mem := if count = 0 then io_mem st
          else overwrite (io_mem st) buffer (take (unat count - 1) t @ [0])\<rparr>))"
    and "length t \<le> limit"
proof -
  let ?m = "io_mem st" and ?n = "min (unat count) (Suc limit)"
  obtain idx st' where run: "vsnprintf_loop tgt (out_record limit) format va (0, \<lparr>io_mem = without ?m buffer ?n, io_console = []\<rparr>)
      = Some (Inr (idx, st'))" and t: "io_console st' = t"
    using out by (rule formatted_textE)
  have "buf.S ?m buffer count limit (io_console st) (0, \<lparr>io_mem = without ?m buffer ?n, io_console = []\<rparr>) (0, st)"
    using mapped limit by (simp add: buf.S_def to_buffer_def)
  then obtain s2 where run2: "vsnprintf_loop tgt (out_buffer buffer count) format va (0, st) = Some (Inr s2)"
      and S: "buf.S ?m buffer count limit (io_console st) (idx, st') s2"
    using simPE [OF buf.vsnprintf_loop_sim run] by blast
  obtain st2 where s2: "s2 = (idx, st2)" using S by (cases s2) (simp add: buf.S_def)
  have R: "to_buffer ?m buffer count limit (io_console st) idx st' st2"
    using S by (simp add: buf.S_def s2)
  then show len: "length t \<le> limit" by (simp add: to_buffer_def t)
  have idx: "idx = of_nat (length t)" "unat idx = length t"
    using R len limit by (simp_all add: to_buffer_def t unat_of_nat take_bit_nat_eq_self)
  have st2: "st2 = st\<lparr>io_mem := overwrite ?m buffer (take (unat count) t)\<rparr>"
    using R by (simp add: to_buffer_def t)
  show "vsnprintf_internal tgt (out_buffer buffer count) False count format va st =
    Some (Inr (of_nat (length t),
      st\<lparr>io_mem := if count = 0 then ?m else overwrite ?m buffer (take (unat count - 1) t @ [0])\<rparr>))"
  proof -
    have "mapped ?m buffer (min (unat count) (Suc (length t)))"
      using mapped len by (rule_tac mapped_mono) auto
    then have "out_buffer buffer count 0 (if idx < count then idx else count - 1) st2 =
        Inr (st\<lparr>io_mem := if count = 0 then ?m else overwrite ?m buffer (take (unat count - 1) t @ [0])\<rparr>)"
      using terminate_buffer [OF idx(2), of ?m buffer count st] len limit by (simp add: st2)
    moreover have "ucast idx = (of_nat (length t) :: 32 word)" by (simp add: idx(1))
    ultimately show ?thesis by (simp add: vsnprintf_internal_def run2 s2)
  qed
qed

end
