(* ===== verification/PrintfNumbers.thy ===== *)
theory PrintfNumbers
  imports PrintfText
begin

text \<open>
  The integer conversions against positional notation: the digits the conversion loop produces,
  the layout with sign, zeros and spaces, and reading a number back with \<open>_atoi\<close>.
\<close>

subsection \<open>Recorded output\<close>

definition recorded :: "8 word list \<Rightarrow> out_state \<Rightarrow> out_state" where
  "recorded cs s = (fst s + of_nat (length cs), snd s\<lparr>io_console := io_console (snd s) @ cs\<rparr>)"

definition room :: "nat \<Rightarrow> nat \<Rightarrow> out_state \<Rightarrow> bool" where
  "room limit n s \<longleftrightarrow> length (io_console (snd s)) + n \<le> limit"

lemma recorded_append [simp]: "recorded ds (recorded cs s) = recorded (cs @ ds) s"
  by (simp add: recorded_def)

lemma recorded_Nil [simp]: "recorded [] s = s"
  by (simp add: recorded_def)

lemma room_recorded [simp]: "room limit n (recorded cs s) \<longleftrightarrow> room limit (length cs + n) s"
  by (simp add: room_def recorded_def add.assoc)

lemma mem_recorded [simp]: "io_mem (snd (recorded cs s)) = io_mem (snd s)"
  by (simp add: recorded_def)

lemma send_record: "room limit 1 s \<Longrightarrow> send (out_record limit) c s = Inr (recorded [c] s)"
  by (cases s) (simp add: send_def out_record_def room_def recorded_def putchar_console_def)

lemma send_all_record:
  "room limit (length cs) s \<Longrightarrow> send_all (out_record limit) cs s = Inr (recorded cs s)"
proof (induction cs arbitrary: s)
  case (Cons c cs)
  have "room limit 1 s" using Cons.prems by (simp add: room_def)
  then show ?case using Cons.prems Cons.IH [of "recorded [c] s"] by (simp add: send_record)
qed simp

subsection \<open>Positional notation\<close>

text \<open>The digits of a number, most significant first.\<close>

fun positional :: "nat \<Rightarrow> nat \<Rightarrow> nat list" where
  "positional b n = (if b < 2 \<or> n < b then [n] else positional b (n div b) @ [n mod b])"

declare positional.simps [simp del]

lemma positional_ne [simp]: "positional b n \<noteq> []"
  by (subst positional.simps) simp

lemma positional_lt: "2 \<le> b \<Longrightarrow> d \<in> set (positional b n) \<Longrightarrow> d < b"
proof (induction b n rule: positional.induct)
  case (1 b n)
  then show ?case
    by (cases "n < b") (auto simp: positional.simps [of b n])
qed

text \<open>The number the digits stand for.\<close>

definition number :: "nat \<Rightarrow> nat list \<Rightarrow> nat" where
  "number b ds = fold (\<lambda>d n. n * b + d) ds 0"

lemma number_positional: "2 \<le> b \<Longrightarrow> number b (positional b n) = n"
proof (induction b n rule: positional.induct)
  case (1 b n)
  then show ?case
    by (cases "n < b") (auto simp: positional.simps [of b n] number_def)
qed

lemma length_positional: "2 \<le> b \<Longrightarrow> n < b ^ k \<Longrightarrow> 0 < k \<Longrightarrow> length (positional b n) \<le> k"
proof (induction b n arbitrary: k rule: positional.induct)
  case (1 b n)
  show ?case
  proof (cases "n < b")
    case False
    then obtain j where k: "k = Suc j" and "0 < j" using 1(3,4) by (cases k; cases "k - 1") auto
    then show ?thesis
      using 1 False by (simp add: positional.simps [of b n] less_mult_imp_div_less mult.commute)
  qed (use 1 in \<open>simp add: positional.simps [of b n]\<close>)
qed

definition digit_chars :: "32 word \<Rightarrow> nat list \<Rightarrow> 8 word list" where
  "digit_chars flags ds = map (\<lambda>d. ntoa_digit (of_nat d) flags) ds"

text \<open>The conversion loop produces the low digits, as many as the buffer holds.\<close>

lemma ntoa_digits_positional:
  assumes "length buf < 32" and "2 \<le> unat base" and "unat base \<le> 16"
  shows "ntoa_digits v base flags buf =
    take 32 (buf @ rev (digit_chars flags (positional (unat base) (unat v))))"
  using assms
proof (induction v base flags buf rule: ntoa_digits.induct)
  case (1 v base flags buf)
  let ?b = "unat base"
  have digit: "(ucast (v mod base) :: 8 word) = of_nat (unat v mod ?b)"
    by (simp add: word_unat_eq_iff unsigned_ucast_eq unat_mod unsigned_of_nat)
  have div: "unat (v div base) = unat v div ?b" by (simp add: unat_div)
  have zero: "v div base = 0 \<longleftrightarrow> unat v < ?b"
    using 1(3) by (simp add: div div_eq_0_iff flip: unat_eq_zero)
  let ?c = "ntoa_digit (of_nat (unat v mod ?b)) flags"
  show ?case
  proof (cases "unat v < ?b")
    case True
    then show ?thesis
      using 1 digit zero by (simp add: ntoa_digits.simps [of v] positional.simps [of ?b "unat v"] digit_chars_def Let_def)
  next
    case False
    have pos: "positional ?b (unat v) = positional ?b (unat v div ?b) @ [unat v mod ?b]"
      using False 1(3) by (simp add: positional.simps [of ?b "unat v"])
    show ?thesis
    proof (cases "length buf + 1 < 32")
      case True
      have "ntoa_digits v base flags buf = ntoa_digits (v div base) base flags (buf @ [?c])"
        using True False zero digit by (subst ntoa_digits.simps) (simp add: Let_def)
      also have "\<dots> = take 32 ((buf @ [?c]) @ rev (digit_chars flags (positional ?b (unat v div ?b))))"
        using 1(1) [OF refl refl] True False zero 1(3,4) digit div by simp
      finally show ?thesis by (simp add: pos digit_chars_def)
    next
      case full: False
      then have "ntoa_digits v base flags buf = buf @ [?c]"
        using digit by (subst ntoa_digits.simps) (simp add: Let_def)
      moreover have "length buf = 31" using full 1(2) by simp
      ultimately show ?thesis by (simp add: pos digit_chars_def)
    qed
  qed
qed

subsection \<open>Layout\<close>

text \<open>Sign, leading zeros and padding, in the order of the C standard.\<close>

definition sign_chars :: "bool \<Rightarrow> 32 word \<Rightarrow> 8 word list" where
  "sign_chars negative flags =
     (if negative then [ch_minus]
      else if flag_set flags FLAGS_PLUS then [ch_plus]
      else if flag_set flags FLAGS_SPACE then [ch_space] else [])"

definition layout :: "bool \<Rightarrow> 32 word \<Rightarrow> nat \<Rightarrow> nat \<Rightarrow> 8 word list \<Rightarrow> 8 word list" where
  "layout negative flags prec width ds =
     (let body = replicate (prec - length ds) ch_0 @ ds;
          sgn_chars = sign_chars negative flags;
          n = length sgn_chars + length body in
      if flag_set flags FLAGS_LEFT then sgn_chars @ body @ replicate (width - n) ch_space
      else if flag_set flags FLAGS_ZEROPAD then sgn_chars @ replicate (width - n) ch_0 @ body
      else replicate (width - n) ch_space @ sgn_chars @ body)"

lemma flag_set_or: "flag_set flags (or a b) \<longleftrightarrow> flag_set flags a \<or> flag_set flags b"
  by (auto simp: flag_set_def bit_eq_iff bit_simps)

lemma ntoa_sign_eq:
  "length buf < 32 \<or> sign_chars negative flags = [] \<Longrightarrow> ntoa_sign buf negative flags = buf @ sign_chars negative flags"
  by (auto simp: ntoa_sign_def sign_chars_def push_char_def split: if_splits)

lemma rev_sign_chars [simp]: "rev (sign_chars negative flags) = sign_chars negative flags"
  by (simp add: sign_chars_def)

lemma pad_zeros_rev: "n \<le> 32 \<Longrightarrow> pad_zeros n (rev ds) = rev (replicate (n - length ds) ch_0 @ ds)"
  by (simp add: pad_zeros_def)

lemma length_sign_chars: "length (sign_chars negative flags) \<le> 1"
  by (simp add: sign_chars_def)

lemma ntoa_width_eq:
  "unat (ntoa_width negative width flags) =
    (if \<not> flag_set flags FLAGS_LEFT \<and> flag_set flags FLAGS_ZEROPAD
     then unat width - length (sign_chars negative flags) else unat width)"
proof (cases "width = 0")
  case False
  then have "unat (width - 1) = unat width - 1" by (rule unat_minus_one)
  then show ?thesis by (auto simp: ntoa_width_def sign_chars_def flag_set_or)
qed (simp add: ntoa_width_def)

lemma out_rev_record:
  assumes "\<not> flag_set flags FLAGS_LEFT"
    and "cs = replicate (if flag_set flags FLAGS_ZEROPAD then 0 else unat width - length buf) ch_space @ rev buf"
    and "room limit (length cs) s"
  shows "out_rev (out_record limit) buf width flags s = Inr (recorded cs s)"
  using assms
  by (cases "flag_set flags FLAGS_ZEROPAD") (simp_all add: out_rev_def send_all_record room_def recorded_def)

lemma out_rev_record_left:
  assumes "flag_set flags FLAGS_LEFT" and "cs = rev buf @ replicate (unat width - length buf) ch_space"
    and "room limit (length cs) s" and "length buf < 2 ^ 64"
  shows "out_rev (out_record limit) buf width flags s = Inr (recorded cs s)"
proof -
  have "send_all (out_record limit) (rev buf) s = Inr (recorded (rev buf) s)"
    using assms by (intro send_all_record) (simp add: room_def)
  moreover have "unat (fst (recorded (rev buf) s) - fst s) = length buf"
    using assms(4) by (simp add: recorded_def unat_of_nat)
  ultimately show ?thesis
    using assms by (simp add: out_rev_def send_all_record)
qed

theorem ntoa_format_layout:
  assumes hash: "\<not> flag_set flags FLAGS_HASH" and ds: "length ds \<le> 31" "unat prec \<le> 31"
    and zero: "flag_set flags FLAGS_ZEROPAD \<and> \<not> flag_set flags FLAGS_LEFT \<longrightarrow> unat width \<le> 32"
    and left: "flag_set flags FLAGS_LEFT \<longrightarrow> unat prec \<le> length ds"
    and room: "room limit (length (layout negative flags (unat prec) (unat width) ds)) s"
  shows "ntoa_format (out_record limit) (rev ds) negative base prec width flags s =
    Inr (recorded (layout negative flags (unat prec) (unat width) ds) s)"
proof -
  let ?sg = "sign_chars negative flags" and ?w = "ntoa_width negative width flags"
  have sg: "length ?sg \<le> 1" by (rule length_sign_chars)
  show ?thesis
  proof (cases "flag_set flags FLAGS_LEFT")
    case True
    then have "ntoa_sign (rev ds) negative flags = rev ds @ ?sg" using ds by (simp add: ntoa_sign_eq)
    then show ?thesis
      using True hash left ntoa_width_eq [of negative width flags] room ds sg
      by (auto simp: ntoa_format_def ntoa_leading_zeros_def ntoa_hash_def layout_def Let_def
          add.commute intro!: out_rev_record_left)
  next
    case nleft: False
    let ?b = "replicate (unat prec - length ds) ch_0 @ ds"
    define z where
      "z = (if flag_set flags FLAGS_ZEROPAD then replicate (unat ?w - length ?b) ch_0 else []) @ ?b"
    have w: "unat ?w = (if flag_set flags FLAGS_ZEROPAD then unat width - length ?sg else unat width)"
      using nleft by (simp add: ntoa_width_eq)
    have zeros: "ntoa_leading_zeros (rev ds) prec ?w flags = rev z"
      using nleft zero ds w pad_zeros_rev [of "unat prec" ds] pad_zeros_rev [of "unat ?w" ?b]
      by (cases "flag_set flags FLAGS_ZEROPAD") (simp_all add: ntoa_leading_zeros_def Let_def z_def)
    have "length z < 32 \<or> ?sg = []" using w zero nleft ds sg by (cases ?sg) (auto simp: z_def)
    then have buf: "ntoa_sign (ntoa_hash (ntoa_leading_zeros (rev ds) prec ?w flags) base prec ?w flags) negative flags
        = rev (?sg @ z)"
      unfolding zeros using hash by (simp add: ntoa_hash_def ntoa_sign_eq)
    show ?thesis
      unfolding ntoa_format_def Let_def buf
      using nleft room w
      by (intro out_rev_record) (auto simp: layout_def Let_def add.commute z_def)
  qed
qed

end
