(* ===== verification/PrintfFormats.thy ===== *)
theory PrintfFormats
  imports PrintfNumbers
begin

text \<open>
  Directives: the text of an integer conversion is the positional notation of its value, laid
  out by flags, width and precision, as long as it fits the conversion buffer (\<open>int_fits\<close>), and what \<open>%u\<close> prints \<open>_atoi\<close> reads.
\<close>

subsection \<open>Flags\<close>

lemma flag_set_0 [simp]: "\<not> flag_set 0 f"
  by (simp add: flag_set_def)

lemma flag_clear_0 [simp]: "flag_clear 0 f = 0"
  by (simp add: flag_clear_def)

lemma flag_clear_unset: "\<not> flag_set flags f \<Longrightarrow> flag_clear flags f = flags"
  by (rule bit_word_eqI) (auto simp: flag_set_def flag_clear_def bit_eq_iff bit_simps)

subsection \<open>Integer conversions\<close>

text \<open>The digits that are printed: none for zero with precision zero.\<close>

definition printed_digits :: "32 word \<Rightarrow> nat \<Rightarrow> nat \<Rightarrow> 8 word list" where
  "printed_digits flags b n =
     (if flag_set flags FLAGS_PRECISION \<and> n = 0 then [] else digit_chars flags (positional b n))"

text \<open>When the text of a number fits the conversion buffer.\<close>

definition fits :: "32 word \<Rightarrow> 32 word \<Rightarrow> 32 word \<Rightarrow> 8 word list \<Rightarrow> bool" where
  "fits flags precision width ds \<longleftrightarrow>
     length ds \<le> 31 \<and> unat precision \<le> 31 \<and>
     (flag_set flags FLAGS_ZEROPAD \<and> \<not> flag_set flags FLAGS_LEFT \<longrightarrow> unat width \<le> 32) \<and>
     (flag_set flags FLAGS_LEFT \<longrightarrow> unat precision \<le> length ds)"

lemma ntoa_long_layout:
  assumes "\<not> flag_set flags FLAGS_HASH" and base: "2 \<le> unat base" "unat base \<le> 16"
    and ds: "ds = printed_digits flags (unat base) (unat v)" and fits: "fits flags precision width ds"
    and "room limit (length (layout negative flags (unat precision) (unat width) ds)) s"
  shows "ntoa_long (out_record limit) v negative base precision width flags s =
      Inr (recorded (layout negative flags (unat precision) (unat width) ds) s)"
    and "ntoa_long_long (out_record limit) v negative base precision width flags s =
      Inr (recorded (layout negative flags (unat precision) (unat width) ds) s)"
proof -
  have buf: "(if \<not> flag_set flags FLAGS_PRECISION \<or> v \<noteq> 0 then ntoa_digits v base flags [] else []) = rev ds"
    using ntoa_digits_positional [of "[]" base v flags] base fits
    by (auto simp: ds printed_digits_def fits_def unat_eq_zero split: if_splits)
  have "ntoa_format (out_record limit) (rev ds) negative (ucast base) precision width flags s =
      Inr (recorded (layout negative flags (unat precision) (unat width) ds) s)"
    using assms by (intro ntoa_format_layout) (auto simp: fits_def)
  then show "ntoa_long (out_record limit) v negative base precision width flags s =
      Inr (recorded (layout negative flags (unat precision) (unat width) ds) s)"
    and "ntoa_long_long (out_record limit) v negative base precision width flags s =
      Inr (recorded (layout negative flags (unat precision) (unat width) ds) s)"
    unfolding ntoa_long_def ntoa_long_long_def Let_def flag_clear_unset [OF assms(1)] if_cancel buf
    by simp_all
qed

lemma magnitude_spec:
  fixes w :: "'a::len word"
  assumes "sint w \<noteq> - (2 ^ (LENGTH('a) - 1))"
  obtains u where "magnitude w = Inr u" and "unat u = nat \<bar>sint w\<bar>"
proof
  let ?u = "if 0 < sint w then w else 0 - w"
  show "magnitude w = Inr ?u" using assms by (simp add: magnitude_def)
  have range: "- (2 ^ (LENGTH('a) - 1)) \<le> sint w" "sint w < 2 ^ (LENGTH('a) - 1)"
    using sint_ge sint_lt by blast+
  have "of_int (sint w) = w" by simp
  then have "?u = of_int \<bar>sint w\<bar>" by auto
  moreover have "(2::int) ^ (LENGTH('a) - 1) < 2 ^ LENGTH('a)" by (rule power_strict_increasing) simp_all
  then have "\<bar>sint w\<bar> < 2 ^ LENGTH('a)" using range by linarith
  ultimately have "uint ?u = \<bar>sint w\<bar>" by (simp add: unsigned_of_int take_bit_int_eq_self)
  then show "unat ?u = nat \<bar>sint w\<bar>" by (metis unat_eq_nat_uint)
qed

text \<open>The number an argument stands for: its type is chosen by the conversion and the length.\<close>

definition is_signed :: "8 word \<Rightarrow> bool" where
  "is_signed c \<longleftrightarrow> c = ch_d \<or> c = ch_i"

definition is_long :: "32 word \<Rightarrow> bool" where
  "is_long flags \<longleftrightarrow> flag_set flags FLAGS_LONG_LONG \<or> flag_set flags FLAGS_LONG"

definition int_value :: "bool \<Rightarrow> 8 word \<Rightarrow> 32 word \<Rightarrow> 64 word \<Rightarrow> int" where
  "int_value char_signed c flags v =
     (if is_signed c
      then (if is_long flags then sint v else sint (int_argument char_signed flags v))
      else (if is_long flags then uint v else uint (uint_argument flags v)))"

definition int_text :: "bool \<Rightarrow> 8 word \<Rightarrow> 32 word \<Rightarrow> 32 word \<Rightarrow> 32 word \<Rightarrow> 64 word \<Rightarrow> 8 word list" where
  "int_text char_signed c flags width precision v =
     (let flags = int_flags c flags; n = int_value char_signed c flags v in
      layout (n < 0) flags (unat precision) (unat width)
        (printed_digits flags (unat (int_base c)) (nat \<bar>n\<bar>)))"

lemma unat_int_base: "2 \<le> unat (int_base c)" "unat (int_base c) \<le> 16"
  by (simp_all add: int_base_def)

lemma unat_ucast_32: "unat (ucast (u :: 32 word) :: 64 word) = unat u"
  by (simp add: unsigned_ucast_eq take_bit_nat_eq_self order_less_le_trans [OF unsigned_less])

definition int_fits :: "bool \<Rightarrow> 8 word \<Rightarrow> 32 word \<Rightarrow> 32 word \<Rightarrow> 32 word \<Rightarrow> 64 word \<Rightarrow> bool" where
  "int_fits char_signed c flags width precision v \<longleftrightarrow>
     (let flags = int_flags c flags; n = int_value char_signed c flags v in
      \<not> flag_set flags FLAGS_HASH \<and>
      fits flags precision width (printed_digits flags (unat (int_base c)) (nat \<bar>n\<bar>)) \<and>
      n \<noteq> (if is_long flags then - (2 ^ 63) else - (2 ^ 31)))"

theorem convert_int_text:
  assumes int_fits: "int_fits char_signed c flags width precision v"
    and room: "room limit (length (int_text char_signed c flags width precision v)) s"
  shows "convert_int char_signed (out_record limit) c flags width precision (VaWord v # va) s =
    Inr (va, recorded (int_text char_signed c flags width precision v) s)"
proof -
  define flags' where "flags' = int_flags c flags"
  define n where "n = int_value char_signed c flags' v"
  have hash: "\<not> flag_set flags' FLAGS_HASH"
    and fits: "fits flags' precision width (printed_digits flags' (unat (int_base c)) (nat \<bar>n\<bar>))"
    and range: "n \<noteq> (if is_long flags' then - (2 ^ 63) else - (2 ^ 31))"
    using int_fits by (simp_all add: int_fits_def flags'_def n_def Let_def)
  have shown: "int_text char_signed c flags width precision v =
      layout (n < 0) flags' (unat precision) (unat width) (printed_digits flags' (unat (int_base c)) (nat \<bar>n\<bar>))"
    by (simp add: int_text_def flags'_def n_def Let_def)
  have print: "ntoa_long (out_record limit) u (n < 0) (int_base c) precision width flags' s =
      Inr (recorded (int_text char_signed c flags width precision v) s)"
    "ntoa_long_long (out_record limit) u (n < 0) (int_base c) precision width flags' s =
      Inr (recorded (int_text char_signed c flags width precision v) s)"
    if "unat u = nat \<bar>n\<bar>" for u
    using ntoa_long_layout [OF hash unat_int_base refl, where v = u] that fits room by (simp_all add: shown)
  show ?thesis
  proof (cases "is_signed c")
    case True
    show ?thesis
    proof (cases "is_long flags'")
      case long: True
      then have n: "n = sint v" using True by (simp add: n_def flags'_def int_value_def)
      then obtain u where "magnitude v = Inr u" "unat u = nat \<bar>n\<bar>"
        using magnitude_spec [of v] range long by auto
      then show ?thesis
        using True long print n
        by (auto simp: convert_int_def is_signed_def is_long_def Let_def simp flip: flags'_def)
    next
      case False
      let ?w = "int_argument char_signed flags' v"
      have n: "n = sint ?w" using True False by (simp add: n_def flags'_def int_value_def)
      then obtain u where "magnitude ?w = Inr u" "unat u = nat \<bar>n\<bar>"
        using magnitude_spec [of ?w] range False by auto
      then show ?thesis
        using True False print n
        by (auto simp: convert_int_def is_signed_def is_long_def Let_def unat_ucast_32 simp flip: flags'_def)
    qed
  next
    case False
    then have "\<not> n < 0" and "is_long flags' \<Longrightarrow> unat v = nat \<bar>n\<bar>"
      and "\<not> is_long flags' \<Longrightarrow> unat (ucast (uint_argument flags' v) :: 64 word) = nat \<bar>n\<bar>"
      by (auto simp: n_def flags'_def int_value_def unat_ucast_32)
    then show ?thesis
      using False print
      by (auto simp: convert_int_def is_signed_def is_long_def Let_def simp flip: flags'_def)
  qed
qed

subsection \<open>Directives\<close>

text \<open>A specifier that directly follows the percent sign.\<close>

definition is_specifier :: "8 word \<Rightarrow> bool" where
  "is_specifier c \<longleftrightarrow> flag_of c = None \<and> \<not> is_digit c \<and> c \<noteq> ch_star \<and> c \<noteq> ch_dot \<and>
     c \<notin> {ch_l, ch_h, ch_t, ch_j, ch_z}"

lemma directive_plain:
  assumes "io_mem (snd s) format = Some c" and "is_specifier c"
  shows "directive tgt out format va s =
    bindP (convert tgt out c 0 0 0 va s) (\<lambda>(va, s). Some (Inr (format + 1, va, s)))"
  using assms
  by (simp add: directive_def parse_flags.simps [of _ format] parse_width_def parse_precision_def
      parse_length_def is_specifier_def Let_def)

lemma loop_end: "io_mem (snd s) format = Some 0 \<Longrightarrow> vsnprintf_loop tgt out format va s = Some (Inr s)"
  by (subst vsnprintf_loop.simps) simp

lemma loop_char:
  "io_mem (snd s) format = Some c \<Longrightarrow> c \<noteq> 0 \<Longrightarrow> c \<noteq> ch_percent \<Longrightarrow>
   vsnprintf_loop tgt out format va s = bindP (Some (send out c s)) (vsnprintf_loop tgt out (format + 1) va)"
  by (subst vsnprintf_loop.simps) simp

lemma loop_directive:
  "io_mem (snd s) format = Some ch_percent \<Longrightarrow> vsnprintf_loop tgt out format va s =
   bindP (directive tgt out (format + 1) va s) (\<lambda>(format, va, s). vsnprintf_loop tgt out format va s)"
  by (subst vsnprintf_loop.simps) simp

text \<open>Characters that are no directives are copied.\<close>

lemma loop_copy:
  assumes "\<forall>i<length cs. io_mem (snd s) (format + of_nat i) = Some (cs ! i)"
    and "0 \<notin> set cs" and "ch_percent \<notin> set cs" and "room limit (length cs) s"
  shows "vsnprintf_loop tgt (out_record limit) format va s =
    vsnprintf_loop tgt (out_record limit) (format + of_nat (length cs)) va (recorded cs s)"
  using assms
proof (induction cs arbitrary: format s)
  case (Cons c cs)
  have c: "io_mem (snd s) format = Some c" using Cons.prems(1) [rule_format, of 0] by simp
  have cs: "\<forall>i<length cs. io_mem (snd s) (format + 1 + of_nat i) = Some (cs ! i)"
  proof (intro allI impI)
    fix i assume "i < length cs"
    then show "io_mem (snd s) (format + 1 + of_nat i) = Some (cs ! i)"
      using Cons.prems(1) [rule_format, of "Suc i"] by (simp add: add.assoc)
  qed
  have "room limit 1 s" using Cons.prems(4) by (simp add: room_def)
  then show ?case
    using Cons.IH [of "recorded [c] s" "format + 1"] Cons.prems cs c
    by (simp add: loop_char send_record add.assoc)
qed simp

text \<open>A specifier of an integer conversion, without flags, width and precision.\<close>

definition is_int_conversion :: "8 word \<Rightarrow> bool" where
  "is_int_conversion c \<longleftrightarrow> c \<in> {ch_d, ch_i, ch_u, ch_x, ch_X, ch_o, ch_b}"

lemma int_conversion_specifier: "is_int_conversion c \<Longrightarrow> is_specifier c"
  by (auto simp: is_int_conversion_def is_specifier_def flag_of_def is_digit_def)

subsection \<open>Reading numbers\<close>

lemma ntoa_digit_decimal: "d < 10 \<Longrightarrow> ntoa_digit (of_nat d) flags = ch_0 + of_nat d"
  by (auto simp: ntoa_digit_def word_less_nat_alt unat_of_nat take_bit_nat_eq_self)

lemma digit_char:
  fixes c :: "8 word"
  assumes "d < 10" and "c = ch_0 + of_nat d"
  shows "is_digit c" and "c - ch_0 = of_nat d" and "c \<noteq> 0"
proof -
  have "d \<in> {0..<10}" using assms(1) by simp
  then have "d = 0 \<or> d = 1 \<or> d = 2 \<or> d = 3 \<or> d = 4 \<or> d = 5 \<or> d = 6 \<or> d = 7 \<or> d = 8 \<or> d = 9" by auto
  then show "is_digit c" and "c - ch_0 = of_nat d" and "c \<noteq> 0"
    by (auto simp: assms(2) is_digit_def)
qed

text \<open>Bytes of a text in memory.\<close>

definition bytes_at :: "64 memory \<Rightarrow> addr \<Rightarrow> 8 word list \<Rightarrow> bool" where
  "bytes_at m p bs \<longleftrightarrow> (\<forall>i<length bs. m (p + of_nat i) = Some (bs ! i))"

lemma bytes_at_Nil [simp]: "bytes_at m p []"
  by (simp add: bytes_at_def)

lemma bytes_at_Cons: "bytes_at m p (b # bs) \<longleftrightarrow> m p = Some b \<and> bytes_at m (p + 1) bs"
  by (auto simp: bytes_at_def less_Suc_eq_0_disj add.assoc)

lemma bytes_at_append: "bytes_at m p (as @ bs) \<longleftrightarrow> bytes_at m p as \<and> bytes_at m (p + of_nat (length as)) bs"
  by (induction as arbitrary: p) (auto simp: bytes_at_Cons add.assoc)

lemma cstring_bytes: "cstring m p bs \<longleftrightarrow> bytes_at m p bs \<and> 0 \<notin> set bs \<and> m (p + of_nat (length bs)) = Some 0"
  by (auto simp: cstring_def bytes_at_def)

lemma atoi_loop_digits:
  assumes "bytes_at m a (digit_chars flags ds @ [x])" and "\<not> is_digit x" and "\<forall>d\<in>set ds. d < 10"
  shows "atoi_loop m (of_nat n) a =
    Some (Inr (of_nat (fold (\<lambda>d n. n * 10 + d) ds n), a + of_nat (length ds)))"
  using assms
proof (induction ds arbitrary: a n)
  case Nil
  then show ?case by (subst atoi_loop.simps) (simp add: digit_chars_def bytes_at_Cons)
next
  case (Cons d ds)
  let ?c = "ntoa_digit (of_nat d) flags"
  have c: "?c = ch_0 + of_nat d" and d: "d < 10" using Cons.prems(3) by (simp_all add: ntoa_digit_decimal)
  have m: "m a = Some ?c" and rest: "bytes_at m (a + 1) (digit_chars flags ds @ [x])"
    using Cons.prems(1) by (simp_all add: digit_chars_def bytes_at_Cons)
  have value_eq: "ucast (of_nat d :: 8 word) = (of_nat d :: 32 word)"
    using d by (simp add: word_unat_eq_iff unsigned_ucast_eq unat_of_nat take_bit_nat_eq_self)
  have "atoi_loop m (of_nat n) a = atoi_loop m (of_nat n * 10 + ucast (?c - ch_0)) (a + 1)"
    using m digit_char(1) [OF d c] by (subst atoi_loop.simps) simp
  also have "of_nat n * 10 + ucast (?c - ch_0) = (of_nat (n * 10 + d) :: 32 word)"
    by (simp add: digit_char(2) [OF d c] value_eq)
  finally show ?case using Cons.IH [OF rest Cons.prems(2), of "n * 10 + d"] Cons.prems(3) by (simp add: add.assoc)
qed

text \<open>Decimal numbers.\<close>

definition decimal :: "nat \<Rightarrow> 8 word list" where
  "decimal n = digit_chars 0 (positional 10 n)"

lemma length_decimal: "n < 10 ^ k \<Longrightarrow> 0 < k \<Longrightarrow> length (decimal n) \<le> k"
  by (simp add: decimal_def digit_chars_def length_positional)

lemma atoi_decimal:
  assumes "bytes_at m p (decimal n @ [x])" and "\<not> is_digit x"
  shows "atoi m p = Some (Inr (of_nat n, p + of_nat (length (decimal n))))"
  using atoi_loop_digits [of m p 0 "positional 10 n" x 0] assms positional_lt [of 10 _ n] number_positional [of 10 n]
  by (simp add: atoi_def decimal_def digit_chars_def number_def)

lemma decimal_digit: "c \<in> set (decimal n) \<Longrightarrow> is_digit c"
  using digit_char(1) positional_lt [of 10 _ n] by (fastforce simp: decimal_def digit_chars_def ntoa_digit_decimal)

lemma decimal_ne [simp]: "decimal n \<noteq> []"
  by (simp add: decimal_def digit_chars_def)

lemma hd_positional: "0 < n \<Longrightarrow> hd (positional 10 n) \<noteq> 0"
proof (induction "10 :: nat" n rule: positional.induct)
  case (1 n)
  then show ?case by (cases "n < 10") (auto simp: positional.simps [of 10 n] hd_append)
qed

text \<open>A positive number does not begin with the digit that is a flag.\<close>

lemma hd_decimal: "0 < n \<Longrightarrow> hd (decimal n) \<noteq> ch_0"
proof -
  assume "0 < n"
  let ?d = "hd (positional 10 n)"
  have "?d < 10" using positional_lt [of 10 ?d n] by simp
  moreover have "?d \<noteq> 0" using \<open>0 < n\<close> by (rule hd_positional)
  moreover have "?d < 10 \<Longrightarrow> ?d \<noteq> 0 \<Longrightarrow> of_nat ?d \<noteq> (0 :: 8 word)"
    by (simp add: word_unat_eq_iff unat_of_nat take_bit_nat_eq_self)
  ultimately show ?thesis by (simp add: decimal_def digit_chars_def hd_map ntoa_digit_decimal)
qed

lemma digit_chars_nonzero: "\<forall>d\<in>set ds. d < 10 \<Longrightarrow> 0 \<notin> set (digit_chars flags ds)"
  using digit_char(3) by (fastforce simp: digit_chars_def ntoa_digit_decimal)

end
