(* ===== verification/PrintfPieces.thy ===== *)
theory PrintfPieces
  imports PrintfFormats
begin

text \<open>
  A declarative reading of formats: a format as a list of pieces, and the text the pieces stand
  for given the arguments and the memory with the strings. \<open>_vsnprintf\<close> produces that text.
  A directive for an integer has flags, width, precision, the length \<open>l\<close> and the specifier.
\<close>

datatype piece =
    Literal "8 word list"
  | Integer "8 word list" "nat option" "nat option" bool "8 word"
  | Character
  | Text
  | Pointer
  | Percent

definition spelled_length :: "bool \<Rightarrow> 8 word \<Rightarrow> 8 word list" where
  "spelled_length long c = (if long then [ch_l] else []) @ [c]"

definition spelled_precision :: "nat option \<Rightarrow> 8 word list" where
  "spelled_precision precision = (case precision of None \<Rightarrow> [] | Some k \<Rightarrow> ch_dot # decimal k)"

definition spelled_width :: "nat option \<Rightarrow> 8 word list" where
  "spelled_width width = (case width of None \<Rightarrow> [] | Some k \<Rightarrow> decimal k)"

fun spelled :: "piece \<Rightarrow> 8 word list" where
  "spelled (Literal cs) = cs"
| "spelled (Integer flags width precision long c) =
    ch_percent # flags @ spelled_width width @ spelled_precision precision @ spelled_length long c"
| "spelled Character = [ch_percent, ch_c]"
| "spelled Text = [ch_percent, ch_s]"
| "spelled Pointer = [ch_percent, ch_p]"
| "spelled Percent = [ch_percent, ch_percent]"

definition flags_value :: "8 word list \<Rightarrow> 32 word \<Rightarrow> 32 word" where
  "flags_value = fold (\<lambda>c flags. or flags (the (flag_of c)))"

definition directive_flags :: "8 word list \<Rightarrow> nat option \<Rightarrow> bool \<Rightarrow> 32 word" where
  "directive_flags flags precision long =
     (let f = flags_value flags 0;
          f = (if precision = None then f else or f FLAGS_PRECISION)
      in if long then or f FLAGS_LONG else f)"

definition given :: "nat option \<Rightarrow> 32 word" where
  "given k = (case k of None \<Rightarrow> 0 | Some n \<Rightarrow> of_nat n)"

text \<open>
  The integer directives of a reading: known flags, a width that is not written as 0 (a leading
  zero is a flag), width and precision below \<open>2 ^ 32\<close> so that \<open>unsigned int\<close> holds them, a
  specifier \<open>d i u x X o b\<close>, and a text as in \<open>int_fits\<close>. That last condition leaves out: the flag
  \<open>#\<close>, unless the conversion drops it; numbers of more than 31 digits (\<open>%b\<close>); a precision above
  31, or above the number of digits under the flag \<open>-\<close>, and a width above 32 that is filled
  with zeros (the code cuts these texts to its conversion buffer, or omits the zeros); and
  the smallest \<open>int\<close> and \<open>long\<close>, whose negation overflows.
\<close>

definition below_2_32 :: "nat option \<Rightarrow> bool" where
  "below_2_32 k = (case k of None \<Rightarrow> True | Some n \<Rightarrow> n < 2 ^ 32)"

lemma unat_given: "below_2_32 k \<Longrightarrow> unat (given k) = (case k of None \<Rightarrow> 0 | Some n \<Rightarrow> n)"
  by (auto simp: given_def below_2_32_def unat_of_nat take_bit_nat_eq_self split: option.splits)

definition int_piece_ok :: "bool \<Rightarrow> piece \<Rightarrow> 64 word \<Rightarrow> bool" where
  "int_piece_ok char_signed p v =
     (case p of
        Integer flags width precision long c \<Rightarrow>
          (\<forall>f\<in>set flags. flag_of f \<noteq> None) \<and> width \<noteq> Some 0 \<and> below_2_32 width \<and> below_2_32 precision \<and>
          is_int_conversion c \<and>
          int_fits char_signed c (directive_flags flags precision long) (given width) (given precision) v
      | _ \<Rightarrow> False)"

definition int_piece_text :: "bool \<Rightarrow> piece \<Rightarrow> 64 word \<Rightarrow> 8 word list" where
  "int_piece_text char_signed p v =
     (case p of
        Integer flags width precision long c \<Rightarrow>
          int_text char_signed c (directive_flags flags precision long) (given width) (given precision) v
      | _ \<Rightarrow> [])"

text \<open>The width and the precision of that text are the numbers as written.\<close>

lemma int_piece_text_layout:
  assumes "int_piece_ok char_signed (Integer flags width precision long c) v"
    and "f = int_flags c (directive_flags flags precision long)" and "n = int_value char_signed c f v"
  shows "int_piece_text char_signed (Integer flags width precision long c) v =
    layout (n < 0) f (case precision of None \<Rightarrow> 0 | Some k \<Rightarrow> k) (case width of None \<Rightarrow> 0 | Some k \<Rightarrow> k)
      (printed_digits f (unat (int_base c)) (nat \<bar>n\<bar>))"
  using assms by (simp add: int_piece_ok_def int_piece_text_def int_text_def Let_def unat_given)

definition pointer_text :: "64 word \<Rightarrow> 8 word list" where
  "pointer_text v =
     (let ds = digit_chars FLAGS_UPPERCASE (positional 16 (unat v)) in replicate (16 - length ds) ch_0 @ ds)"

text \<open>
  \<open>renders char_signed m ps va t\<close>: with the arguments \<open>va\<close> and the strings in memory \<open>m\<close> the pieces
  \<open>ps\<close> stand for the text \<open>t\<close>. Literal text has no percent sign, an integer satisfies
  \<open>int_piece_ok\<close>, the others have no flags, width or precision.
\<close>

inductive renders :: "bool \<Rightarrow> 64 memory \<Rightarrow> piece list \<Rightarrow> 'd va_list \<Rightarrow> 8 word list \<Rightarrow> bool"
  for char_signed :: bool and m :: "64 memory"
where
  renders_Nil: "renders char_signed m [] va []"
| renders_Literal: "renders char_signed m ps va t \<Longrightarrow> ch_percent \<notin> set cs \<Longrightarrow>
    renders char_signed m (Literal cs # ps) va (cs @ t)"
| renders_Integer: "renders char_signed m ps va t \<Longrightarrow> p = Integer flags width precision long c \<Longrightarrow>
    int_piece_ok char_signed p v \<Longrightarrow>
    renders char_signed m (p # ps) (VaWord v # va) (int_piece_text char_signed p v @ t)"
| renders_Character: "renders char_signed m ps va t \<Longrightarrow>
    renders char_signed m (Character # ps) (VaWord v # va) (ucast v # t)"
| renders_Text: "renders char_signed m ps va t \<Longrightarrow> cstring m p bs \<Longrightarrow> length bs < 2 ^ 64 - 1 \<Longrightarrow>
    renders char_signed m (Text # ps) (VaWord p # va) (bs @ t)"
| renders_Pointer: "renders char_signed m ps va t \<Longrightarrow>
    renders char_signed m (Pointer # ps) (VaWord v # va) (pointer_text v @ t)"
| renders_Percent: "renders char_signed m ps va t \<Longrightarrow> renders char_signed m (Percent # ps) va (ch_percent # t)"

inductive_simps renders_simps:
  "renders char_signed m [] va t"
  "renders char_signed m (Literal cs # ps) va t"
  "renders char_signed m (Integer flags width precision long c # ps) va t"
  "renders char_signed m (Character # ps) va t"
  "renders char_signed m (Text # ps) va t"
  "renders char_signed m (Pointer # ps) va t"
  "renders char_signed m (Percent # ps) va t"

subsection \<open>Each conversion\<close>

lemma parse_flags_chars:
  assumes "bytes_at m p (cs @ [x])" and "\<forall>c\<in>set cs. flag_of c \<noteq> None" and "flag_of x = None"
  shows "parse_flags m p flags = Some (Inr (flags_value cs flags, p + of_nat (length cs)))"
  using assms
proof (induction cs arbitrary: p flags)
  case Nil
  then show ?case by (subst parse_flags.simps) (simp add: bytes_at_Cons flags_value_def)
next
  case (Cons c cs)
  then obtain f where f: "flag_of c = Some f" by auto
  have "parse_flags m p flags = parse_flags m (p + 1) (or flags f)"
    using Cons.prems f by (subst parse_flags.simps) (simp add: bytes_at_Cons)
  then show ?case using Cons f by (simp add: bytes_at_Cons flags_value_def add.assoc)
qed

lemma decimal_head:
  assumes "bytes_at m p (decimal n @ xs)"
  obtains c where "m p = Some c" and "is_digit c"
proof -
  obtain c cs where "decimal n = c # cs" by (cases "decimal n") auto
  then show thesis using assms decimal_digit [of c n] that by (simp add: bytes_at_Cons)
qed

lemma bytes_at_first: "bytes_at m p (as @ x # xs) \<Longrightarrow> bytes_at m p (as @ [x])"
  by (simp add: bytes_at_append bytes_at_Cons)

lemma parse_width_digits:
  assumes "bytes_at m p (spelled_width width @ [x])" and "\<not> is_digit x" and "x \<noteq> ch_star"
  shows "parse_width m p flags va = Some (Inr (given width, flags, p + of_nat (length (spelled_width width)), va))"
proof (cases width)
  case (Some n)
  then have "bytes_at m p (decimal n @ [x])" using assms(1) by (simp add: spelled_width_def)
  then obtain c where "m p = Some c" and "is_digit c" by (rule decimal_head)
  then show ?thesis
    using Some assms atoi_decimal [of m p n x] by (simp add: parse_width_def spelled_width_def given_def)
qed (use assms in \<open>simp add: parse_width_def spelled_width_def given_def bytes_at_Cons\<close>)

lemma parse_precision_digits:
  assumes "bytes_at m p (spelled_precision precision @ [x])" and "\<not> is_digit x" and "x \<noteq> ch_dot"
  shows "parse_precision m p flags va =
    Some (Inr (given precision, if precision = None then flags else or flags FLAGS_PRECISION,
      p + of_nat (length (spelled_precision precision)), va))"
proof (cases precision)
  case (Some n)
  then have dot: "m p = Some ch_dot" and ds: "bytes_at m (p + 1) (decimal n @ [x])"
    using assms(1) by (auto simp: spelled_precision_def bytes_at_Cons)
  obtain c where "m (p + 1) = Some c" and "is_digit c"
    using ds by (rule decimal_head)
  then show ?thesis
    using Some assms(2) dot atoi_decimal [OF ds]
    by (simp add: parse_precision_def spelled_precision_def given_def Let_def add.assoc)
qed (use assms in \<open>simp add: parse_precision_def spelled_precision_def given_def bytes_at_Cons\<close>)

lemma parse_length_long:
  assumes "bytes_at m p (spelled_length long c)" and "is_int_conversion c"
  shows "parse_length m p flags = Inr (if long then or flags FLAGS_LONG else flags, p + of_nat (if long then 1 else 0))"
    and "m (p + of_nat (if long then 1 else 0)) = Some c"
  using assms by (auto simp: parse_length_def spelled_length_def bytes_at_Cons is_int_conversion_def)

text \<open>The first character of what follows in a directive.\<close>

lemma length_head:
  assumes "is_int_conversion c"
  obtains x xs where "spelled_length long c = x # xs" and "x = ch_l \<or> x = c"
  using that by (cases long) (auto simp: spelled_length_def)

lemma int_heads:
  "is_int_conversion c \<Longrightarrow> x = ch_l \<or> x = c \<Longrightarrow> \<not> is_digit x \<and> x \<noteq> ch_star \<and> x \<noteq> ch_dot \<and> flag_of x = None"
  by (auto simp: is_int_conversion_def flag_of_def is_digit_def)

lemma digit_flag: "is_digit x \<Longrightarrow> x \<noteq> ch_0 \<Longrightarrow> flag_of x = None"
  by (auto simp: flag_of_def is_digit_def)

lemma directive_int:
  assumes m: "m = io_mem (snd s)" and bytes: "bytes_at m format (flags @ spelled_width width @ spelled_precision precision @ spelled_length long c)"
    and flags: "\<forall>f\<in>set flags. flag_of f \<noteq> None" and width: "width \<noteq> Some 0" and c: "is_int_conversion c"
  shows "directive tgt out format va s =
    bindP (convert tgt out c (directive_flags flags precision long) (given width) (given precision) va s)
      (\<lambda>(va, s). Some (Inr (format + of_nat (length (flags @ spelled_width width @ spelled_precision precision @ spelled_length long c)), va, s)))"
proof -
  let ?l = "spelled_length long c" and ?p = "spelled_precision precision" and ?w = "spelled_width width"
  obtain x xs where l: "?l = x # xs" and "x = ch_l \<or> x = c" using length_head [OF c] by blast
  then have x: "\<not> is_digit x" "x \<noteq> ch_star" "x \<noteq> ch_dot" "flag_of x = None"
    using int_heads [OF c, of x] by simp_all
  obtain y ys where pl: "?p @ ?l = y # ys" and y: "\<not> is_digit y" "y \<noteq> ch_star" "flag_of y = None"
  proof (cases precision)
    case None
    then show thesis using that [OF _ x(1,2,4)] l by (simp add: spelled_precision_def)
  next
    case (Some k)
    have "\<not> is_digit ch_dot" and "flag_of ch_dot = None" by (simp_all add: is_digit_def flag_of_def)
    then show thesis using that [of ch_dot] Some by (simp add: spelled_precision_def)
  qed
  obtain z zs where wpl: "?w @ ?p @ ?l = z # zs" and z: "flag_of z = None"
  proof (cases width)
    case (Some n)
    then obtain d ds where d: "decimal n = d # ds" by (cases "decimal n") auto
    then have "flag_of d = None"
      using decimal_digit [of d n] hd_decimal [of n] width Some by (intro digit_flag) auto
    then show thesis using that [of d] d Some by (simp add: spelled_width_def)
  qed (use that pl y in \<open>simp add: spelled_width_def\<close>)
  define p1 where "p1 = format + of_nat (length flags)"
  define p2 where "p2 = p1 + of_nat (length ?w)"
  define p3 where "p3 = p2 + of_nat (length ?p)"
  have b1: "bytes_at m p1 (?w @ ?p @ ?l)" and b2: "bytes_at m p2 (?p @ ?l)" and b3: "bytes_at m p3 ?l"
    using bytes by (simp_all add: bytes_at_append p1_def p2_def p3_def add.assoc)
  have f1: "parse_flags m format 0 = Some (Inr (flags_value flags 0, p1))"
    using bytes flags z unfolding wpl p1_def by (intro parse_flags_chars [where x = z] bytes_at_first)
  have f2: "parse_width m p1 f va = Some (Inr (given width, f, p2, va))" for f
    using b1 y unfolding pl p2_def by (intro parse_width_digits [where x = y] bytes_at_first)
  have f3: "parse_precision m p2 f va = Some (Inr (given precision, if precision = None then f else or f FLAGS_PRECISION, p3, va))" for f
    using b2 x unfolding l p3_def by (intro parse_precision_digits [where x = x] bytes_at_first)
  have last: "p3 + of_nat (if long then 1 else 0) + 1 = format + of_nat (length (flags @ ?w @ ?p @ ?l))"
    by (simp add: p1_def p2_def p3_def spelled_length_def)
  show ?thesis
    unfolding last [symmetric]
    using f1 f2 f3 parse_length_long [OF b3 c]
    by (simp add: directive_def Let_def directive_flags_def flip: m)
qed

lemma convert_int_record:
  assumes "is_int_conversion c" and "int_fits (pt_char_signed tgt) c flags width precision v"
    and "room limit (length (int_text (pt_char_signed tgt) c flags width precision v)) s"
  shows "convert tgt (out_record limit) c flags width precision (VaWord v # va) s =
    Some (Inr (va, recorded (int_text (pt_char_signed tgt) c flags width precision v) s))"
  using assms(1) convert_int_text [OF assms(2,3)] by (simp add: convert_def is_int_conversion_def disj_commute)

lemma strnlen_s_loop_cstring:
  "cstring m p bs \<Longrightarrow> length bs \<le> n \<Longrightarrow> strnlen_s_loop m p n = Inr (p + of_nat (length bs))"
proof (induction bs arbitrary: p n)
  case Nil
  then show ?case by (subst strnlen_s_loop.simps) (simp add: cstring_simps)
next
  case (Cons b bs)
  then obtain k where "n = Suc k" by (cases n) auto
  then show ?case using Cons by (subst strnlen_s_loop.simps) (simp add: cstring_simps add.assoc)
qed

lemma string_loop_record:
  assumes "cstring (io_mem (snd s)) p bs" and "room limit (length bs) s"
  shows "string_loop (out_record limit) p 0 0 s = Some (Inr (recorded bs s))"
  using assms
proof (induction bs arbitrary: p s)
  case Nil
  then show ?case by (subst string_loop.simps) (simp add: cstring_simps)
next
  case (Cons b bs)
  have "room limit 1 s" using Cons.prems by (simp add: room_def)
  then show ?case
    using Cons.prems Cons.IH [of "recorded [b] s" "p + 1"]
    by (subst string_loop.simps) (simp add: cstring_simps send_record)
qed

lemma convert_string_record:
  assumes "cstring (io_mem (snd s)) p bs" and "length bs < 2 ^ 64 - 1" and "room limit (length bs) s"
  shows "convert tgt (out_record limit) ch_s 0 0 0 (VaWord p # va) s = Some (Inr (va, recorded bs s))"
  using assms strnlen_s_loop_cstring [OF assms(1), of "2 ^ 64 - 1"]
  by (simp add: convert_def convert_string_def strnlen_s_def string_loop_record Let_def)

lemma convert_char_record:
  "room limit 1 s \<Longrightarrow>
   convert tgt (out_record limit) ch_c 0 0 0 (VaWord v # va) s = Some (Inr (va, recorded [ucast v] s))"
  by (simp add: convert_def convert_char_def send_record)

lemma convert_percent_record:
  "room limit 1 s \<Longrightarrow>
   convert tgt (out_record limit) ch_percent 0 0 0 va s = Some (Inr (va, recorded [ch_percent] s))"
  by (simp add: convert_def send_record)

lemma length_pointer_digits: "length (digit_chars flags (positional 16 (unat (v :: 64 word)))) \<le> 16"
  using length_positional [of 16 "unat v" 16] unsigned_less [where ?'a = nat, of v] by (simp add: digit_chars_def)

lemma convert_pointer_record:
  assumes "room limit (length (pointer_text v)) s"
  shows "convert tgt (out_record limit) ch_p 0 0 0 (VaWord v # va) s = Some (Inr (va, recorded (pointer_text v) s))"
proof -
  let ?f = "or FLAGS_ZEROPAD FLAGS_UPPERCASE"
  have flags: "\<not> flag_set ?f FLAGS_HASH" "\<not> flag_set ?f FLAGS_PRECISION" "\<not> flag_set ?f FLAGS_LEFT"
    "\<not> flag_set ?f FLAGS_PLUS" "\<not> flag_set ?f FLAGS_SPACE" "flag_set ?f FLAGS_ZEROPAD"
    "flag_set ?f FLAGS_UPPERCASE" "flag_set FLAGS_UPPERCASE FLAGS_UPPERCASE"
    by (simp_all add: flag_set_def flags_defs)
  have ds: "printed_digits ?f 16 n = digit_chars FLAGS_UPPERCASE (positional 16 n)" for n
    using flags by (simp add: printed_digits_def digit_chars_def ntoa_digit_def)
  have shown: "layout False ?f 0 16 (digit_chars FLAGS_UPPERCASE (positional 16 (unat v))) = pointer_text v"
    using flags by (simp add: layout_def pointer_text_def sign_chars_def Let_def)
  have "ntoa_long_long (out_record limit) v False 16 0 16 ?f s = Inr (recorded (pointer_text v) s)"
    using ntoa_long_layout(2) [of ?f 16 _ v 0 16 limit False s, OF flags(1) _ _ refl] flags assms length_pointer_digits [of FLAGS_UPPERCASE v]
    by (simp add: ds shown fits_def)
  then show ?thesis by (simp add: convert_def convert_pointer_def)
qed

subsection \<open>Whole formats\<close>

text \<open>One directive that records a text and goes on behind it.\<close>

lemma loop_directive_plain:
  assumes "cstring (io_mem (snd s)) format ([ch_percent, c] @ rest)" and "is_specifier c"
    and "convert tgt out c 0 0 0 va s = Some (Inr (va', s'))"
  shows "vsnprintf_loop tgt out format va s = vsnprintf_loop tgt out (format + 2) va' s'"
  using assms
  by (simp add: cstring_simps loop_directive directive_plain add.assoc)

lemma specifiers: "is_specifier ch_c" "is_specifier ch_s" "is_specifier ch_p" "is_specifier ch_percent"
  by (simp_all add: is_specifier_def flag_of_def is_digit_def)

lemma cstring_rest:
  "cstring m a (x # y # rest) \<Longrightarrow> cstring m (a + 2) rest"
  by (simp add: cstring_simps add.assoc)

lemma loop_renders:
  assumes "renders char_signed m ps va t" and "char_signed = pt_char_signed tgt"
    and "cstring m format (concat (map spelled ps))" and "io_mem (snd s) = m" and "room limit (length t) s"
  shows "vsnprintf_loop tgt (out_record limit) format va s = Some (Inr (recorded t s))"
  using assms
proof (induction arbitrary: format s rule: renders.induct)
  case (renders_Nil va)
  then show ?case by (simp add: cstring_simps loop_end)
next
  case (renders_Literal ps va t cs)
  have cs: "\<forall>i<length cs. io_mem (snd s) (format + of_nat i) = Some (cs ! i)" "0 \<notin> set cs"
    using renders_Literal.prems(2,3) by (auto simp: cstring_def nth_append dest: spec [where x = "_ :: nat"])
  have room: "room limit (length cs) s" using renders_Literal.prems(4) by (simp add: room_def)
  have "cstring m (format + of_nat (length cs)) (concat (map spelled ps))"
    using cstring_drop [OF renders_Literal.prems(2), of "length cs"] by simp
  then show ?case
    using renders_Literal.IH [of "format + of_nat (length cs)" "recorded cs s"] renders_Literal.prems
      loop_copy [OF cs renders_Literal.hyps(2) room, of tgt va]
    by simp
next
  case (renders_Integer ps va t p flags width precision long c v)
  let ?x = "int_piece_text char_signed p v" and ?rest = "concat (map spelled ps)"
  let ?b = "flags @ spelled_width width @ spelled_precision precision @ spelled_length long c"
  have ok: "\<forall>f\<in>set flags. flag_of f \<noteq> None" "width \<noteq> Some 0" "is_int_conversion c"
    using renders_Integer.hyps(2,3) by (simp_all add: int_piece_ok_def)
  have m: "cstring m format ((ch_percent # ?b) @ ?rest)" using renders_Integer.prems(2) renders_Integer.hyps(2) by simp
  have percent: "io_mem (snd s) format = Some ch_percent" and bytes: "bytes_at m (format + 1) ?b"
    using m renders_Integer.prems(3) by (simp_all add: cstring_bytes bytes_at_Cons bytes_at_append)
  have rest: "cstring m (format + 1 + of_nat (length ?b)) ?rest"
    using cstring_drop [OF m, of "length (ch_percent # ?b)"] by (simp add: add.assoc)
  have "convert tgt (out_record limit) c (directive_flags flags precision long) (given width) (given precision)
      (VaWord v # va) s = Some (Inr (va, recorded ?x s))"
    using convert_int_record [of c tgt _ _ _ v limit s va] renders_Integer.hyps(2,3) renders_Integer.prems(1,4)
    by (simp add: int_piece_ok_def int_piece_text_def room_def)
  then have "vsnprintf_loop tgt (out_record limit) format (VaWord v # va) s =
      vsnprintf_loop tgt (out_record limit) (format + 1 + of_nat (length ?b)) va (recorded ?x s)"
    using directive_int [OF renders_Integer.prems(3) [symmetric] bytes ok, of tgt "out_record limit" "VaWord v # va"]
    by (simp only: loop_directive [OF percent] bindP.simps prod.case)
  then show ?case
    using renders_Integer.IH [OF renders_Integer.prems(1) rest, of "recorded ?x s"] renders_Integer.prems by simp
next
  case (renders_Character ps va t v)
  have m: "cstring (io_mem (snd s)) format ([ch_percent, ch_c] @ concat (map spelled ps))"
    using renders_Character.prems by simp
  have conv: "convert tgt (out_record limit) ch_c 0 0 0 (VaWord v # va) s = Some (Inr (va, recorded ([ucast v]) s))"
    using renders_Character by (intro convert_char_record) (simp_all add: room_def)
  show ?case
    using renders_Character.IH [of "format + 2" "recorded ([ucast v]) s"] renders_Character.prems cstring_rest [OF m [simplified]]
      loop_directive_plain [OF m specifiers(1) conv]
    by simp
next
  case (renders_Text ps va t p bs)
  have m: "cstring (io_mem (snd s)) format ([ch_percent, ch_s] @ concat (map spelled ps))"
    using renders_Text.prems by simp
  have conv: "convert tgt (out_record limit) ch_s 0 0 0 (VaWord p # va) s = Some (Inr (va, recorded (bs) s))"
    using renders_Text by (intro convert_string_record) (simp_all add: room_def)
  show ?case
    using renders_Text.IH [of "format + 2" "recorded (bs) s"] renders_Text.prems cstring_rest [OF m [simplified]]
      loop_directive_plain [OF m specifiers(2) conv]
    by simp
next
  case (renders_Pointer ps va t v)
  have m: "cstring (io_mem (snd s)) format ([ch_percent, ch_p] @ concat (map spelled ps))"
    using renders_Pointer.prems by simp
  have conv: "convert tgt (out_record limit) ch_p 0 0 0 (VaWord v # va) s = Some (Inr (va, recorded (pointer_text v) s))"
    using renders_Pointer by (intro convert_pointer_record) (simp_all add: room_def)
  show ?case
    using renders_Pointer.IH [of "format + 2" "recorded (pointer_text v) s"] renders_Pointer.prems cstring_rest [OF m [simplified]]
      loop_directive_plain [OF m specifiers(3) conv]
    by simp
next
  case (renders_Percent ps va t)
  have m: "cstring (io_mem (snd s)) format ([ch_percent, ch_percent] @ concat (map spelled ps))"
    using renders_Percent.prems by simp
  have conv: "convert tgt (out_record limit) ch_percent 0 0 0 (va) s = Some (Inr (va, recorded ([ch_percent]) s))"
    using renders_Percent by (intro convert_percent_record) (simp_all add: room_def)
  show ?case
    using renders_Percent.IH [of "format + 2" "recorded ([ch_percent]) s"] renders_Percent.prems cstring_rest [OF m [simplified]]
      loop_directive_plain [OF m specifiers(4) conv]
    by simp
qed

theorem formatted_text_pieces:
  assumes "renders (pt_char_signed tgt) m ps va t" and "cstring m format (concat (map spelled ps))"
    and "length t \<le> limit"
  shows "formatted_text limit tgt m format va = Some (Inr t)"
  using loop_renders [OF assms(1) refl assms(2), of "(0, \<lparr>io_mem = m, io_console = []\<rparr>)" limit] assms(3)
  by (simp add: formatted_text_def room_def recorded_def)

end
