(* ===== verification/PrintfReturns.thy ===== *)
theory PrintfReturns
  imports PrintfText
begin

text \<open>
  Invariants of formatted output, and that every call returns or faults when not all addresses
  are mapped: format and strings are read address by address, so that a missing terminator ends
  in an unmapped page.
\<close>

subsection \<open>Invariants\<close>

locale output_invariant =
  fixes out :: out_fct and P :: "io \<Rightarrow> bool"
  assumes kept: "P st \<Longrightarrow> out c i st = Inr st' \<Longrightarrow> P st'"
begin

definition same :: "64 word \<Rightarrow> io \<Rightarrow> io \<Rightarrow> bool" where
  "same i st1 st2 \<longleftrightarrow> st1 = st2 \<and> P st1"

end

sublocale output_invariant \<subseteq> output_simulation out out same
  by unfold_locales (auto simp: same_def simR_def intro: kept)

context output_invariant
begin

lemma S_same: "S s s' \<longleftrightarrow> s = s' \<and> P (snd s)"
  by (auto simp: S_def same_def prod_eq_iff)

lemma send_kept: "P (snd s) \<Longrightarrow> send out c s = Inr s' \<Longrightarrow> P (snd s')"
  using send_sim [of s s c] by (auto simp: simR_def S_same)

lemma send_all_kept: "P (snd s) \<Longrightarrow> send_all out cs s = Inr s' \<Longrightarrow> P (snd s')"
  using send_all_sim [of s s cs] by (fastforce simp: simR_def S_same)

lemma directive_kept:
  assumes "P (snd s)" and "directive tgt out format va s = Some (Inr (format', va', s'))"
  shows "P (snd s')"
  using assms directive_sim [of s s tgt format va] by (auto simp: simP_def S_same)

lemma loop_kept:
  assumes "P (snd s)" and "vsnprintf_loop tgt out format va s = Some (Inr s')"
  shows "P (snd s')"
  using assms vsnprintf_loop_sim [of s s tgt format va] by (auto simp: simP_def S_same)

lemma internal_kept:
  assumes "P st" and "vsnprintf_internal tgt out False maxlen format va st = Some (Inr (n, st'))"
  shows "P st'"
proof -
  obtain idx st1 where loop: "vsnprintf_loop tgt out format va (0, st) = Some (Inr (idx, st1))"
    and last: "out 0 (if idx < maxlen then idx else maxlen - 1) st1 = Inr st'"
    using assms(2) by (auto simp: vsnprintf_internal_def bindP_Inr_iff result_simps)
  have "P st1" using loop_kept [OF _ loop] assms(1) by simp
  then show ?thesis using last by (rule kept)
qed

end

subsection \<open>Termination\<close>

text \<open>How far the unmapped address is ahead.\<close>

definition ahead :: "addr \<Rightarrow> addr \<Rightarrow> nat" where
  "ahead hole p = unat (hole - p)"

lemma ahead_next: "p \<noteq> hole \<Longrightarrow> ahead hole p = Suc (ahead hole (p + 1))"
proof -
  assume "p \<noteq> hole"
  then have "unat (hole - p) \<noteq> 0" and "hole - p \<noteq> 0" by (auto simp: unat_eq_zero)
  then show ?thesis using unat_minus_one [of "hole - p"] by (simp add: ahead_def diff_diff_eq)
qed

lemma read_ahead: "m hole = None \<Longrightarrow> load_byte m p = Inr c \<Longrightarrow> ahead hole p = Suc (ahead hole (p + 1))"
  by (rule ahead_next) (auto simp: load_byte_def)

text \<open>A parser returns, at a place that is not farther from the unmapped address.\<close>

definition returns_ahead :: "addr \<Rightarrow> nat \<Rightarrow> ('x \<Rightarrow> addr) \<Rightarrow> (fault + 'x) option \<Rightarrow> bool" where
  "returns_ahead hole n place r \<longleftrightarrow> (\<exists>y. r = Some y \<and> (\<forall>x. y = Inr x \<longrightarrow> ahead hole (place x) \<le> n))"

lemma atoi_loop_returns:
  assumes "m hole = None"
  shows "returns_ahead hole (ahead hole p) snd (atoi_loop m i p)"
  using assms
proof (induction "ahead hole p" arbitrary: i p rule: less_induct)
  case less
  show ?case
  proof (cases "load_byte m p")
    case (Inr c)
    note next_p = read_ahead [OF less.prems Inr]
    have "returns_ahead hole (ahead hole (p + 1)) snd (atoi_loop m j (p + 1))" for j
      using less next_p by simp
    then show ?thesis
      unfolding atoi_loop.simps [of m i p] using Inr next_p
      by (fastforce simp: returns_ahead_def)
  qed (simp add: atoi_loop.simps [of m i p] returns_ahead_def)
qed

lemma parse_flags_returns:
  assumes "m hole = None"
  shows "returns_ahead hole (ahead hole p) snd (parse_flags m p flags)"
  using assms
proof (induction "ahead hole p" arbitrary: flags p rule: less_induct)
  case less
  show ?case
  proof (cases "load_byte m p")
    case (Inr c)
    note next_p = read_ahead [OF less.prems Inr]
    have "returns_ahead hole (ahead hole (p + 1)) snd (parse_flags m (p + 1) f)" for f
      using less next_p by simp
    then show ?thesis
      unfolding parse_flags.simps [of m p flags] using Inr next_p
      by (fastforce simp: returns_ahead_def split: option.splits)
  qed (simp add: parse_flags.simps [of m p flags] returns_ahead_def)
qed

lemma returns_bind:
  "returns_ahead hole n place r \<Longrightarrow>
   (\<And>x. ahead hole (place x) \<le> n \<Longrightarrow> returns_ahead hole n place' (f x)) \<Longrightarrow> returns_ahead hole n place' (bindP r f)"
  by (cases "(r, f)" rule: bindP.cases) (auto simp: returns_ahead_def)

lemma returns_load:
  "m hole = None \<Longrightarrow>
   (\<And>c. ahead hole p = Suc (ahead hole (p + 1)) \<Longrightarrow> returns_ahead hole n place (f c)) \<Longrightarrow>
   returns_ahead hole n place (bindP (Some (load_byte m p)) f)"
  by (cases "load_byte m p") (auto simp: returns_ahead_def dest: read_ahead)

lemma returns_result:
  "(\<And>x. r = Inr x \<Longrightarrow> ahead hole (place x) \<le> n) \<Longrightarrow> returns_ahead hole n place (Some r)"
  by (simp add: returns_ahead_def)

lemma returns_mono: "returns_ahead hole k place r \<Longrightarrow> k \<le> n \<Longrightarrow> returns_ahead hole n place r"
  by (fastforce simp: returns_ahead_def)

lemma returns_if:
  "(b \<Longrightarrow> returns_ahead hole n place r) \<Longrightarrow> (\<not> b \<Longrightarrow> returns_ahead hole n place r') \<Longrightarrow>
   returns_ahead hole n place (if b then r else r')"
  by simp

lemma returns_prod:
  "(\<And>x y. returns_ahead hole n place (f x y)) \<Longrightarrow> returns_ahead hole n place (case p of (x, y) \<Rightarrow> f x y)"
  by (simp split: prod.splits)

lemma returns_pair:
  assumes "returns_ahead hole n snd r" and "\<And>x p. ahead hole p \<le> n \<Longrightarrow> returns_ahead hole n place (f x p)"
  shows "returns_ahead hole n place (bindP r (\<lambda>(x, p). f x p))"
  using assms by (intro returns_bind [where place = snd]) auto

lemma returns_atoi: "m hole = None \<Longrightarrow> ahead hole p \<le> n \<Longrightarrow> returns_ahead hole n snd (atoi m p)"
  unfolding atoi_def by (rule returns_mono [OF atoi_loop_returns])

lemmas parse_returns = returns_load returns_if returns_pair returns_atoi returns_result

lemma parse_width_returns:
  assumes "m hole = None" and "ahead hole p \<le> n"
  shows "returns_ahead hole n (\<lambda>(width, flags, format, va). format) (parse_width m p flags va)"
  unfolding parse_width_def
  by (rule parse_returns assms)+ (use assms in \<open>auto intro!: parse_returns simp: result_simps Let_def split: if_splits\<close>)

lemma parse_precision_returns:
  assumes "m hole = None" and "ahead hole p \<le> n"
  shows "returns_ahead hole n (\<lambda>(precision, flags, format, va). format) (parse_precision m p flags va)"
  unfolding parse_precision_def Let_def
  by (rule parse_returns assms)+ (use assms in \<open>auto intro!: parse_returns simp: result_simps\<close>)

lemma parse_length_returns:
  assumes "m hole = None" and "ahead hole p \<le> n"
  shows "returns_ahead hole n snd (Some (parse_length m p flags))"
proof (rule returns_result)
  fix x assume "parse_length m p flags = Inr x"
  then obtain c where c: "load_byte m p = Inr c" and
    x: "snd x = p \<or> snd x = p + 1 \<or> (\<exists>d. load_byte m (p + 1) = Inr d \<and> snd x = p + 2)"
    by (auto simp: parse_length_def result_simps split: if_splits)
  have "ahead hole (p + 1) = Suc (ahead hole (p + 2))" if "load_byte m (p + 1) = Inr d" for d
    using read_ahead [OF assms(1) that] by (simp add: add.assoc)
  then show "ahead hole (snd x) \<le> n" using x read_ahead [OF assms(1) c] assms(2) by auto
qed

text \<open>With an output function that keeps the address unmapped everything returns.\<close>

locale output_returns = output_invariant +
  fixes hole :: addr
  assumes unmapped: "P st \<Longrightarrow> io_mem st hole = None"
begin

lemma string_loop_returns:
  assumes "P (snd s)"
  shows "\<exists>r. string_loop out p flags precision s = Some r"
  using assms
proof (induction "ahead hole p" arbitrary: p precision s rule: less_induct)
  case less
  show ?case
  proof (cases "load_byte (io_mem (snd s)) p")
    case (Inr c)
    have IH: "\<exists>r. string_loop out (p + 1) flags q s' = Some r" if "P (snd s')" for q s'
      using less(1) [OF _ that] read_ahead [OF unmapped [OF less.prems] Inr] by simp
    show ?thesis
      by (subst string_loop.simps, cases "send out c s") (auto simp: Inr intro!: IH send_kept [OF less.prems])
  qed (simp add: string_loop.simps [of _ p])
qed

lemma convert_returns:
  assumes "P (snd s)" and "pt_float tgt = None"
  shows "\<exists>r. convert tgt out c flags width precision va s = Some r"
proof -
  have loop: "\<exists>r. bindP (string_loop out p flags q s') f = Some r"
    if "P (snd s')" "\<And>x. \<exists>r. f x = Some r" for p q s' and f :: "out_state \<Rightarrow> (fault + 'x) option"
    using string_loop_returns [OF that(1), of p flags q] that(2)
    by (cases "(string_loop out p flags q s', f)" rule: bindP.cases) auto
  have spaces: "P (snd s')" if "(if b then Inr s else send_all out cs s) = Inr s'" for b cs s'
    using that assms(1) send_all_kept [of s cs s'] by (simp split: if_splits)
  have bind: "\<exists>r. bindP (Some x) f = Some r" if "\<And>y. x = Inr y \<Longrightarrow> \<exists>r. f y = Some r"
    for x :: "fault + 'x" and f :: "'x \<Rightarrow> (fault + 'y) option"
    using that by (cases x) auto
  have pair: "\<exists>r. (case p of (x, y) \<Rightarrow> f x y) = Some r" if "\<And>x y. \<exists>r. f x y = Some r"
    for p :: "'x \<times> 'z" and f :: "'x \<Rightarrow> 'z \<Rightarrow> (fault + 'y) option"
    using that by (cases p) auto
  have "\<exists>r. convert_string out flags width precision va s = Some r"
    unfolding convert_string_def Let_def by (rule bind pair loop | erule spaces | simp)+
  then show ?thesis by (simp add: convert_def assms(2))
qed

lemma directive_returns:
  assumes s: "P (snd s)" and tgt: "pt_float tgt = None"
  shows "returns_ahead hole (ahead hole p) fst (directive tgt out p va s)"
proof -
  let ?m = "io_mem (snd s)" and ?n = "ahead hole p"
  have m: "?m hole = None" using s by (rule unmapped)
  have convert: "returns_ahead hole ?n fst (bindP (convert tgt out c flags width precision va s)
      (\<lambda>(va, s). Some (Inr (format + 1, va, s))))"
    if "ahead hole format = Suc (ahead hole (format + 1))" and "ahead hole format \<le> ?n" for c flags width precision va format
    using convert_returns [OF s tgt, of c flags width precision va] that
    by (elim exE) (simp only:, intro returns_bind [where place = "\<lambda>_. format + 1"] returns_prod,
        auto simp: returns_ahead_def)
  show ?thesis
    unfolding directive_def Let_def
    by (rule returns_pair [OF parse_flags_returns [of ?m hole p 0]], rule m,
        rule returns_bind [OF parse_width_returns [of ?m hole, OF m]], assumption, clarsimp,
        rule returns_bind [OF parse_precision_returns [of ?m hole, OF m]], assumption, clarsimp,
        rule returns_pair [OF parse_length_returns [of ?m hole, OF m]], assumption,
        rule returns_load [of ?m hole, OF m], rule convert, assumption+)
qed

lemma loop_returns:
  assumes "P (snd s)" and "pt_float tgt = None"
  shows "\<exists>r. vsnprintf_loop tgt out format va s = Some r"
  using assms(1)
proof (induction "ahead hole format" arbitrary: format va s rule: less_induct)
  case less
  let ?m = "io_mem (snd s)"
  show ?case
  proof (cases "load_byte ?m format")
    case (Inr c)
    note next_format = read_ahead [OF unmapped [OF less.prems] Inr]
    have IH: "\<exists>r. vsnprintf_loop tgt out f va' s' = Some r"
      if "ahead hole f \<le> ahead hole (format + 1)" and "P (snd s')" for f va' s'
      using less(1) [OF _ that(2)] that(1) next_format by simp
    have char: "\<exists>r. bindP (Some (send out c s)) (vsnprintf_loop tgt out (format + 1) va) = Some r"
      by (cases "send out c s") (auto intro!: IH send_kept [OF less.prems])
    have "\<exists>r. bindP (directive tgt out (format + 1) va s)
        (\<lambda>(format, va, s). vsnprintf_loop tgt out format va s) = Some r"
    proof -
      obtain y where y: "directive tgt out (format + 1) va s = Some y"
        and place: "\<And>x. y = Inr x \<Longrightarrow> ahead hole (fst x) \<le> ahead hole (format + 1)"
        using directive_returns [OF less.prems assms(2), of "format + 1" va] by (auto simp: returns_ahead_def)
      show ?thesis
        using y place by (cases y) (auto intro!: IH dest: directive_kept [OF less.prems])
    qed
    with char show ?thesis by (subst vsnprintf_loop.simps) (simp add: Inr)
  qed (simp add: vsnprintf_loop.simps [of _ _ format])
qed

lemma internal_returns:
  assumes "P st" and "pt_float tgt = None"
  shows "\<exists>r. vsnprintf_internal tgt out False maxlen format va st = Some r"
proof -
  obtain r where "vsnprintf_loop tgt out format va (0, st) = Some r"
    using loop_returns [of "(0, st)" tgt format va] assms by auto
  then show ?thesis by (cases r) (auto simp: vsnprintf_internal_def split: prod.splits)
qed

end

end
