(* ===== verification/PrintfFloatText.thy ===== *)
theory PrintfFloatText
  imports PrintfFormats
begin

text \<open>
  What \<open>_ftoa\<close> prints, for any arithmetic of \<open>double\<close>: the whole part, the point and the rounded
  fraction, as long as the fraction has no more digits than the precision; and the two cases
  in which it goes wrong.
\<close>

subsection \<open>Digits\<close>

lemma positional_step:
  "positional 10 n = (if n < 10 then [n] else positional 10 (n div 10) @ [n mod 10])"
  by (subst positional.simps) simp

lemma char_of_digit: "d < 10 \<Longrightarrow> (48 + of_nat d :: 8 word) = ntoa_digit (of_nat d) 0"
  by (simp add: ntoa_digit_decimal)

lemma ftoa_digits_eq:
  assumes "length buf + length (positional 10 (unat f)) \<le> 32"
  shows "ftoa_digits f count buf =
    (count - of_nat (length (positional 10 (unat f))), buf @ rev (digit_chars 0 (positional 10 (unat f))))"
  using assms
proof (induction f count buf rule: ftoa_digits.induct)
  case (1 f count buf)
  let ?c = "ntoa_digit (of_nat (unat f mod 10)) 0"
  have room: "length buf < 32"
    using 1(2) by (cases "positional 10 (unat f)") simp_all
  have "(ucast (f mod 10) :: 8 word) = of_nat (unat f mod 10)"
    by (simp add: word_unat_eq_iff unsigned_ucast_eq unat_mod unsigned_of_nat)
  then have char: "48 + ucast (f mod 10) = ?c" by (simp add: char_of_digit [symmetric])
  have div: "unat (f div 10) = unat f div 10" by (simp add: unat_div)
  have zero: "f div 10 = 0 \<longleftrightarrow> unat f < 10" by (simp add: div div_eq_0_iff flip: unat_eq_zero)
  show ?case
  proof (cases "unat f < 10")
    case True
    then have "positional 10 (unat f) = [unat f]" by (subst positional_step) simp
    then show ?thesis
      using room char zero True
      by (subst ftoa_digits.simps) (simp add: Let_def digit_chars_def)
  next
    case False
    then have pos: "positional 10 (unat f) = positional 10 (unat f div 10) @ [unat f mod 10]"
      by (subst positional_step) simp
    have "ftoa_digits f count buf = ftoa_digits (f div 10) (count - 1) (buf @ [?c])"
      using room char zero False by (subst ftoa_digits.simps) (simp add: Let_def)
    also have "\<dots> = (count - 1 - of_nat (length (positional 10 (unat f div 10))),
        (buf @ [?c]) @ rev (digit_chars 0 (positional 10 (unat f div 10))))"
      using 1(1) [OF room refl refl refl] zero False 1(2) char div pos by simp
    finally show ?thesis by (simp add: pos digit_chars_def)
  qed
qed

lemma ftoa_whole_eq:
  assumes "0 \<le> w" and "length buf + length (positional 10 (nat w)) \<le> 32"
  shows "ftoa_whole w buf = buf @ rev (digit_chars 0 (positional 10 (nat w)))"
  using assms
proof (induction w buf rule: ftoa_whole.induct)
  case (1 w buf)
  let ?c = "ntoa_digit (of_nat (nat w mod 10)) 0"
  have room: "length buf < 32" using 1(3) by (cases "positional 10 (nat w)") simp_all
  have "w smod 10 = int (nat w mod 10)" and sdiv: "w sdiv 10 = int (nat w div 10)"
    using 1(2) by (cases "w = 0"; simp add: signed_modulo_int_def signed_divide_int_def zdiv_int zmod_int)+
  then have char: "word_of_int (48 + w smod 10) = ?c"
    by (simp add: char_of_digit [symmetric])
  show ?case
  proof (cases "nat w < 10")
    case True
    then have "positional 10 (nat w) = [nat w]" by (subst positional_step) simp
    then show ?thesis
      using room char sdiv True by (subst ftoa_whole.simps) (simp add: Let_def digit_chars_def)
  next
    case False
    then have pos: "positional 10 (nat w) = positional 10 (nat w div 10) @ [nat w mod 10]"
      by (subst positional_step) simp
    have nz: "int (nat w div 10) \<noteq> 0" using False by simp
    have "ftoa_whole w buf = ftoa_whole (w sdiv 10) (buf @ [?c])"
      using room char sdiv nz by (subst ftoa_whole.simps) (simp add: Let_def)
    also have "\<dots> = (buf @ [?c]) @ rev (digit_chars 0 (positional 10 (nat w div 10)))"
      using 1(1) [OF room refl refl] sdiv nz 1(3) char pos by simp
    finally show ?thesis by (simp add: pos digit_chars_def)
  qed
qed

lemma ftoa_fraction_eq:
  assumes "0 < p" and "p \<le> 9" and "unat f < 10 ^ p"
  shows "ftoa_fraction f (of_nat p) [] =
    rev (ch_dot # replicate (p - length (positional 10 (unat f))) ch_0 @ digit_chars 0 (positional 10 (unat f)))"
proof -
  let ?ds = "positional 10 (unat f)"
  have len: "length ?ds \<le> p" using length_positional [of 10 "unat f" p] assms by simp
  have "(of_nat p :: 32 word) \<noteq> 0" using assms by (simp add: word_unat_eq_iff unat_of_nat take_bit_nat_eq_self)
  moreover have "unat ((of_nat p :: 32 word) - of_nat (length ?ds)) = p - length ?ds"
    using len assms by (simp add: unat_of_nat take_bit_nat_eq_self flip: of_nat_diff)
  moreover have "ftoa_digits f (of_nat p) [] = (of_nat p - of_nat (length ?ds), rev (digit_chars 0 ?ds))"
    using ftoa_digits_eq [of "[]" f "of_nat p"] len assms by simp
  ultimately show ?thesis
    using len assms by (simp add: ftoa_fraction_def pad_zeros_def push_char_def digit_chars_def)
qed

subsection \<open>The text\<close>

definition fixed_text :: "bool \<Rightarrow> nat \<Rightarrow> nat \<Rightarrow> nat \<Rightarrow> 8 word list" where
  "fixed_text negative whole p f =
     (if negative then [ch_minus] else []) @ decimal whole @ ch_dot # replicate (p - length (decimal f)) ch_0 @ decimal f"

lemma ftoa_fixed_text:
  assumes round: "ftoa_round fp (if negative then fp_sub fp (fp_of_int fp 0) value else value) (of_nat p) = Inr (w, f)"
    and neg: "negative = fp_lt fp value (fp_of_int fp 0)"
    and p: "0 < p" "p \<le> 9" and w: "0 \<le> w" "w < 2 ^ 31" and f: "unat f < 10 ^ p"
    and room: "room limit (length (fixed_text negative (nat w) p (unat f))) s"
  shows "ftoa_fixed fp (out_record limit) value (of_nat p) 0 FLAGS_PRECISION s =
    Inr (recorded (fixed_text negative (nat w) p (unat f)) s)"
proof -
  let ?fs = "replicate (p - length (decimal (unat f))) ch_0 @ decimal (unat f)"
  have flags: "flag_set FLAGS_PRECISION FLAGS_PRECISION" "\<not> flag_set FLAGS_PRECISION FLAGS_LEFT"
    "\<not> flag_set FLAGS_PRECISION FLAGS_ZEROPAD" "\<not> flag_set FLAGS_PRECISION FLAGS_PLUS"
    "\<not> flag_set FLAGS_PRECISION FLAGS_SPACE"
    by (simp_all add: flag_set_def flags_defs)
  have prec: "ftoa_precision (of_nat p) = ([], of_nat p)"
    using p by (simp add: ftoa_precision_def unat_of_nat take_bit_nat_eq_self)
  have fraction: "ftoa_fraction f (of_nat p) [] = rev (ch_dot # ?fs)"
    using ftoa_fraction_eq [OF p f] by (simp add: decimal_def digit_chars_def)
  have lw: "length (decimal (nat w)) \<le> 10" and lf: "length ?fs = p"
    using length_decimal [of "nat w" 10] w length_decimal [OF f p(1)] by simp_all
  have whole: "ftoa_whole w (rev (ch_dot # ?fs)) = rev (decimal (nat w) @ ch_dot # ?fs)"
    using ftoa_whole_eq [of w "rev (ch_dot # ?fs)"] w lw lf p by (simp add: decimal_def digit_chars_def)
  have width: "ntoa_width n 0 FLAGS_PRECISION = 0" for n by (simp add: ntoa_width_def)
  have sign: "ntoa_sign (rev (decimal (nat w) @ ch_dot # ?fs)) negative FLAGS_PRECISION
      = rev (fixed_text negative (nat w) p (unat f))"
    using lw lf p flags by (simp add: ntoa_sign_def push_char_def fixed_text_def)
  have out: "out_rev (out_record limit) (rev (fixed_text negative (nat w) p (unat f))) 0 FLAGS_PRECISION s =
      Inr (recorded (fixed_text negative (nat w) p (unat f)) s)"
    using room flags by (intro out_rev_record) simp_all
  define b1 where "b1 = rev (ch_dot # ?fs)"
  define b2 where "b2 = rev (decimal (nat w) @ ch_dot # ?fs)"
  define b3 where "b3 = rev (fixed_text negative (nat w) p (unat f))"
  show ?thesis
    using fraction whole sign out round flags neg
    unfolding b1_def [symmetric] b2_def [symmetric] b3_def [symmetric]
    by (simp add: ftoa_fixed_def Let_def prec width)
qed

text \<open>
  \<open>scaled\<close> is the fraction times the power of ten, \<open>k\<close> its integral part, which goes up when what is
  left is more than a half.
\<close>

definition scaled :: "'d fp \<Rightarrow> 'd \<Rightarrow> int \<Rightarrow> nat \<Rightarrow> 'd" where
  "scaled fp v w p = fp_mul fp (fp_sub fp v (fp_of_int fp w)) (fp_of_int fp (10 ^ p))"

definition rest :: "'d fp \<Rightarrow> 'd \<Rightarrow> int \<Rightarrow> 'd" where
  "rest fp t k = fp_sub fp t (fp_of_int fp k)"

lemma pow10_nth:
  assumes "p \<le> 9"
  shows "pow10 ! p = 10 ^ p"
proof -
  have "list_all (\<lambda>p. pow10 ! p = 10 ^ p) [0..<10]" by code_simp
  then show ?thesis using assms by (simp add: list_all_iff)
qed

lemma uint_of_small:
  "0 \<le> k \<Longrightarrow> k < 2 ^ 64 \<Longrightarrow> uint (word_of_int k :: 64 word) = k"
  by (simp add: unsigned_of_int take_bit_int_eq_self)

text \<open>Comparison of whole numbers that \<open>double\<close> represents is the one of integers.\<close>

definition exact_integers :: "'d fp \<Rightarrow> bool" where
  "exact_integers fp \<longleftrightarrow>
     (\<forall>a b. \<bar>a\<bar> \<le> 2 ^ 53 \<and> \<bar>b\<bar> \<le> 2 ^ 53 \<longrightarrow> fp_le fp (fp_of_int fp a) (fp_of_int fp b) = (a \<le> b))"

text \<open>The parts of a value that \<open>_ftoa\<close> computes.\<close>

definition parts :: "'d fp \<Rightarrow> 'd \<Rightarrow> nat \<Rightarrow> int \<Rightarrow> int \<Rightarrow> bool" where
  "parts fp v p w k \<longleftrightarrow>
     fp_to_int fp v = Some w \<and> 0 \<le> w \<and> w < 2 ^ 31 - 1 \<and>
     fp_to_int fp (scaled fp v w p) = Some k \<and> 0 \<le> k \<and> k < 10 ^ p"

definition above_half :: "'d fp \<Rightarrow> 'd \<Rightarrow> nat \<Rightarrow> int \<Rightarrow> int \<Rightarrow> bool" where
  "above_half fp v p w k \<longleftrightarrow> fp_lt fp (fp_lit fp (1 / 2)) (rest fp (scaled fp v w p) k)"

definition below_half :: "'d fp \<Rightarrow> 'd \<Rightarrow> nat \<Rightarrow> int \<Rightarrow> int \<Rightarrow> bool" where
  "below_half fp v p w k \<longleftrightarrow> fp_lt fp (rest fp (scaled fp v w p) k) (fp_lit fp (1 / 2))"

lemma ftoa_round_eq:
  assumes p: "0 < p" "p \<le> 9" and parts: "parts fp v p w k"
  shows "ftoa_round fp v (of_nat p) =
    (if above_half fp v p w k
     then (if fp_le fp (fp_of_int fp (10 ^ p)) (fp_of_int fp (k + 1))
           then Inr (w + 1, 0) else Inr (w, word_of_int (k + 1)))
     else if below_half fp v p w k then Inr (w, word_of_int k)
     else Inr (w, word_of_int (if k = 0 \<or> odd k then k + 1 else k)))"
proof -
  have w: "fp_to_int fp v = Some w" "0 \<le> w" "w < 2 ^ 31 - 1"
    and k: "fp_to_int fp (scaled fp v w p) = Some k" "0 \<le> k" "k < 10 ^ p"
    using parts by (simp_all add: parts_def)
  have prec: "unat (of_nat p :: 32 word) = p" "(of_nat p :: 32 word) \<noteq> 0"
    using p by (simp_all add: word_unat_eq_iff unat_of_nat take_bit_nat_eq_self)
  have "(10::int) ^ p \<le> 10 ^ 9" using p(2) by (rule power_increasing) simp
  then have k64: "k + 1 < 2 ^ 64" using k(3) by simp
  have ints: "fp_ulong fp (scaled fp v w p) = Inr (word_of_int k)" "fp_int fp v = Inr w" "c_int (w + 1) = Inr (w + 1)"
    using k w k64 by (simp_all add: fp_ulong_def fp_int_def c_int_def)
  have succ: "(word_of_int k + 1 :: 64 word) = word_of_int (k + 1)" by simp
  have words: "uint (word_of_int k :: 64 word) = k" "uint (word_of_int (k + 1) :: 64 word) = k + 1"
    using k(2) k64 by (simp_all add: uint_of_small del: of_int_add)
  have zero: "(word_of_int k :: 64 word) = 0 \<longleftrightarrow> k = 0" using words(1) by (metis uint_0_iff)
  have odd: "and 1 (word_of_int k :: 64 word) \<noteq> 0 \<longleftrightarrow> odd k"
    by (simp add: one_and_eq mod_2_eq_odd flip: bit_0) (simp add: bit_word_of_int_iff)
  have nth: "pow10 ! p = 10 ^ p" "p < length pow10" using p by (simp_all add: pow10_nth) (simp add: pow10_def)
  let ?t = "scaled fp v w p"
  have fold: "fp_mul fp (fp_sub fp v (fp_of_int fp w)) (fp_of_int fp (10 ^ p)) = ?t"
    "fp_sub fp ?t (fp_of_int fp k) = rest fp ?t k"
    by (simp_all add: scaled_def rest_def)
  show ?thesis
    unfolding above_half_def below_half_def
    by (auto simp: ftoa_round_def Let_def prec nth fold ints words succ zero odd and.commute [of _ 1] simp del: of_int_add)
qed

lemma ftoa_ordinary:
  "ftoa_special fp value flags = None \<Longrightarrow> \<not> ftoa_large fp value \<Longrightarrow>
   ftoa fp out value prec width flags s = Some (ftoa_fixed fp out value prec width flags s)"
  by (subst ftoa.simps) simp

text \<open>
  An arithmetic to apply the theorems at: numbers with three digits behind the point, counted in
  thousandths. Integers are exact in it, products are rounded down.
\<close>

definition thousandths :: "int fp" where
  "thousandths = \<lparr>fp_lt = (<), fp_le = (\<le>), fp_eq = (=), fp_add = (+), fp_sub = (-),
     fp_mul = (\<lambda>a b. a * b div 1000), fp_div = (\<lambda>a b. a * 1000 div b), fp_neg = uminus,
     fp_lit = (\<lambda>r. \<lfloor>r * 1000\<rfloor>), fp_max = 10 ^ 15, fp_of_int = (\<lambda>i. i * 1000),
     fp_to_int = (\<lambda>a. Some (if 0 \<le> a then a div 1000 else - (- a div 1000))),
     fp_bits = word_of_int, fp_of_bits = sint\<rparr>"

text \<open>
  C39: \<open>%f\<close> with a precision of one to nine digits prints the sign, the whole part, the point and
  the fraction of the multiple of the power of ten that is nearest, also when rounding carries
  into the whole part. The value has to be ordinary (a number, at most 1e9 in magnitude) and its
  scaled fraction not exactly halfway; comparison of whole numbers in \<open>double\<close> is taken to be exact.
\<close>

theorem fixed_point_text:
  assumes ordinary: "ftoa_special fp value FLAGS_PRECISION = None" "\<not> ftoa_large fp value" and exact: "exact_integers fp"
    and neg: "negative = fp_lt fp value (fp_of_int fp 0)"
    and v: "v = (if negative then fp_sub fp (fp_of_int fp 0) value else value)"
    and p: "0 < p" "p \<le> 9" and parts: "parts fp v p w k"
    and half: "above_half fp v p w k \<noteq> below_half fp v p w k"
    and n: "n = w * 10 ^ p + k + (if above_half fp v p w k then 1 else 0)"
    and room: "room limit (length (fixed_text negative (nat (n div 10 ^ p)) p (nat (n mod 10 ^ p)))) s"
  shows "ftoa fp (out_record limit) value (of_nat p) 0 FLAGS_PRECISION s =
    Some (Inr (recorded (fixed_text negative (nat (n div 10 ^ p)) p (nat (n mod 10 ^ p))) s))"
proof -
  have w: "0 \<le> w" "w < 2 ^ 31 - 1" and k: "0 \<le> k" "k < 10 ^ p" using parts by (simp_all add: parts_def)
  have pow: "(10::int) ^ p \<le> 10 ^ 9" using p(2) by (rule power_increasing) simp
  have le: "fp_le fp (fp_of_int fp (10 ^ p)) (fp_of_int fp (k + 1)) \<longleftrightarrow> 10 ^ p \<le> k + 1"
    using exact k pow by (simp add: exact_integers_def)
  have round: "ftoa_round fp v (of_nat p) = Inr (n div 10 ^ p, word_of_int (n mod 10 ^ p))"
  proof (cases "above_half fp v p w k \<and> 10 ^ p \<le> k + 1")
    case True
    then have "n = (w + 1) * 10 ^ p" using n k by (simp add: algebra_simps)
    then have "n div 10 ^ p = w + 1" "n mod 10 ^ p = 0" by simp_all
    then show ?thesis using ftoa_round_eq [OF p parts] True le by simp
  next
    case False
    define j where "j = k + (if above_half fp v p w k then 1 else 0)"
    have "0 \<le> j" "j < 10 ^ p" and nj: "n = w * 10 ^ p + j" using False n k by (auto simp: j_def)
    then have "n div 10 ^ p = w" "n mod 10 ^ p = j" by simp_all
    then show ?thesis using ftoa_round_eq [OF p parts] False le half by (auto simp: j_def)
  qed
  let ?f = "word_of_int (n mod 10 ^ p) :: 64 word"
  have mod: "0 \<le> n mod 10 ^ p" "n mod 10 ^ p < 10 ^ p" by simp_all
  have "n mod 10 ^ p < 2 ^ 64" using order_less_le_trans [OF mod(2) pow] by simp
  then have "uint ?f = n mod 10 ^ p" using mod(1) by (intro uint_of_small)
  then have f: "unat ?f = nat (n mod 10 ^ p)" by (metis unat_eq_nat_uint)
  have "nat (n mod 10 ^ p) < nat (10 ^ p)" using mod by simp
  then have flt: "unat ?f < 10 ^ p" unfolding f by (simp add: nat_power_eq)
  have "n \<le> w * 10 ^ p + 10 ^ p" "0 \<le> n" using n k w by auto
  then have "n div 10 ^ p \<le> ((w + 1) * 10 ^ p) div 10 ^ p"
    by (intro zdiv_mono1) (simp_all add: algebra_simps)
  moreover have whole: "0 \<le> n div 10 ^ p" using \<open>0 \<le> n\<close> by (simp add: pos_imp_zdiv_nonneg_iff)
  ultimately have "n div 10 ^ p < 2 ^ 31" using w by simp
  then show ?thesis
    using ftoa_fixed_text [of fp negative "value" p "n div 10 ^ p" ?f limit s] round neg p whole flt room
    by (simp add: ftoa_ordinary [OF ordinary] f v)
qed

lemma thousandths_simps:
  "fp_lt thousandths = (<)" "fp_le thousandths = (\<le>)" "fp_eq thousandths = (=)" "fp_sub thousandths = (-)"
  "fp_mul thousandths a b = a * b div 1000" "fp_neg thousandths = uminus" "fp_lit thousandths r = \<lfloor>r * 1000\<rfloor>"
  "fp_max thousandths = 10 ^ 15" "fp_of_int thousandths i = i * 1000"
  "fp_to_int thousandths a = Some (if 0 \<le> a then a div 1000 else - (- a div 1000))"
  by (simp_all add: thousandths_def)

lemma thousandths_ordinary:
  "a \<in> {- 1996, 950} \<Longrightarrow> ftoa_special thousandths a FLAGS_PRECISION = None \<and> \<not> ftoa_large thousandths a"
  by (auto simp: thousandths_simps ftoa_special_def ftoa_large_def PRINTF_MAX_FLOAT_def)

lemma thousandths_exact: "exact_integers thousandths"
  by (simp add: exact_integers_def thousandths_simps)

lemma thousandths_parts:
  "parts thousandths 1996 2 1 99" "parts thousandths 950 1 0 9"
  "above_half thousandths 1996 2 1 99" "\<not> below_half thousandths 1996 2 1 99"
  "\<not> above_half thousandths 950 1 0 9" "\<not> below_half thousandths 950 1 0 9"
  by (simp_all add: parts_def scaled_def above_half_def below_half_def rest_def thousandths_simps)

theorem fixed_point_text_witness:
  "ftoa thousandths (out_record 20) (- 1996) (of_nat 2) 0 FLAGS_PRECISION (0, \<lparr>io_mem = Map.empty, io_console = []\<rparr>) =
   Some (Inr (recorded (fixed_text True 2 2 0) (0, \<lparr>io_mem = Map.empty, io_console = []\<rparr>)))"
proof -
  have shown: "fixed_text True 2 2 0 = [0x2d, 0x32, 0x2e, 0x30, 0x30]"
    by (simp add: fixed_text_def decimal_def digit_chars_def positional.simps ntoa_digit_def)
  show ?thesis
    using fixed_point_text [of thousandths "- 1996" True 1996 2 1 99 200 20 "(0, \<lparr>io_mem = Map.empty, io_console = []\<rparr>)"]
      thousandths_ordinary thousandths_exact thousandths_parts shown
    by (simp add: thousandths_simps room_def)
qed

subsection \<open>Departures\<close>

text \<open>
  C40: \<open>%.1f\<close> of a value whose fraction times ten is exactly nine and a half, as for 0.95, prints 30
  zeros and 10: the fraction is rounded up to ten without a carry, the counter of the digits to
  come wraps, and zeros fill the conversion buffer, so that point and whole part are lost.
\<close>

theorem half_floods_buffer:
  assumes ordinary: "ftoa_special fp value FLAGS_PRECISION = None" "\<not> ftoa_large fp value"
    and neg: "\<not> fp_lt fp value (fp_of_int fp 0)" and parts: "parts fp value 1 w 9"
    and half: "\<not> above_half fp value 1 w 9" "\<not> below_half fp value 1 w 9"
    and room: "room limit 32 s"
  shows "ftoa fp (out_record limit) value 1 0 FLAGS_PRECISION s =
    Some (Inr (recorded (replicate 30 ch_0 @ [ch_0 + 1, ch_0]) s))"
proof -
  have round: "ftoa_round fp value 1 = Inr (w, 10)"
    using ftoa_round_eq [of 1 fp "value" w 9] parts half by simp
  have flags: "flag_set FLAGS_PRECISION FLAGS_PRECISION" "\<not> flag_set FLAGS_PRECISION FLAGS_LEFT"
    "\<not> flag_set FLAGS_PRECISION FLAGS_ZEROPAD" "\<not> flag_set FLAGS_PRECISION FLAGS_PLUS"
    "\<not> flag_set FLAGS_PRECISION FLAGS_SPACE"
    by (simp_all add: flag_set_def flags_defs)
  have "positional 10 10 = [1, 0]" by (simp add: positional.simps)
  then have digits: "ftoa_digits 10 1 [] = (- 1, [ch_0, ch_0 + 1])"
    using ftoa_digits_eq [of "[]" 10 1] by (simp add: digit_chars_def ntoa_digit_def)
  have wrapped: "unat (- 1 :: 32 word) = 2 ^ 32 - 1" using unat_uminus [of "1 :: 32 word"] by simp
  let ?b = "[ch_0, ch_0 + 1] @ replicate 30 ch_0"
  have fraction: "ftoa_fraction 10 1 [] = ?b"
    unfolding ftoa_fraction_def digits using wrapped by (simp add: pad_zeros_def push_char_def Let_def)
  have whole: "ftoa_whole w ?b = ?b" by (subst ftoa_whole.simps) simp
  have sign: "ntoa_sign ?b False FLAGS_PRECISION = ?b" using flags by (simp add: ntoa_sign_def)
  define b where "b = ?b"
  have out: "out_rev (out_record limit) b 0 FLAGS_PRECISION s =
      Inr (recorded (replicate 30 ch_0 @ [ch_0 + 1, ch_0]) s)"
    using room flags by (intro out_rev_record) (simp_all add: b_def)
  show ?thesis
    using fraction whole sign round neg flags out unfolding b_def [symmetric]
    by (simp add: ftoa_ordinary [OF ordinary] ftoa_fixed_def Let_def ftoa_precision_def ntoa_width_def)
qed

theorem half_floods_buffer_witness:
  "ftoa thousandths (out_record 32) 950 1 0 FLAGS_PRECISION (0, \<lparr>io_mem = Map.empty, io_console = []\<rparr>) =
   Some (Inr (recorded (replicate 30 ch_0 @ [ch_0 + 1, ch_0]) (0, \<lparr>io_mem = Map.empty, io_console = []\<rparr>)))"
  using half_floods_buffer [of thousandths 950 0 32 "(0, \<lparr>io_mem = Map.empty, io_console = []\<rparr>)"]
    thousandths_ordinary thousandths_parts
  by (simp add: thousandths_simps room_def)

text \<open>A precision of 42 and more is not brought down to nine: the table of powers is read past its end.\<close>

theorem precision_overruns_table:
  assumes "ftoa_special fp value flags = None" "\<not> ftoa_large fp value" and "flag_set flags FLAGS_PRECISION"
    and "v = (if fp_lt fp value (fp_of_int fp 0) then fp_sub fp (fp_of_int fp 0) value else value)"
    and "fp_int fp v = Inr w" and "42 \<le> unat precision"
  shows "ftoa fp out value precision width flags s = Some (Inl OutOfBounds)"
proof -
  have "ftoa_precision precision = (replicate 32 ch_0, precision - 32)"
    using assms(6) by (simp add: ftoa_precision_def Let_def)
  moreover have "\<not> unat (precision - 32) < length pow10"
    using assms(6) by (simp add: pow10_def unat_sub word_le_nat_alt)
  ultimately show ?thesis
    using assms(3,4,5) by (auto simp: ftoa_ordinary [OF assms(1,2)] ftoa_fixed_def ftoa_round_def Let_def)
qed

end
