(* ===== verification/PrintfClaims.thy ===== *)
theory PrintfClaims
  imports PrintfPieces PrintfReturns PrintfFloatText
begin

text \<open>
  What callers of the \<open>printf\<close> family rely on: a call returns, \<open>snprintf\<close> writes the text of the
  format, cut to the buffer and terminated, and nothing else; and where the code departs from
  what it means to do.
\<close>

subsection \<open>A concrete memory\<close>

text \<open>The format \<open>n=%04d\<close>, the format \<open>%u\<close>, a lone percent sign before an unmapped page, and a buffer of 12 bytes.\<close>

definition sample_memory :: "64 memory" where
  "sample_memory = [0x1000 \<mapsto> 0x6e, 0x1001 \<mapsto> 0x3d, 0x1002 \<mapsto> 0x25, 0x1003 \<mapsto> 0x30, 0x1004 \<mapsto> 0x34, 0x1005 \<mapsto> 0x64,
     0x1006 \<mapsto> 0, 0x1100 \<mapsto> 0x25, 0x1101 \<mapsto> 0x75, 0x1102 \<mapsto> 0, 0x1ffe \<mapsto> 0x25, 0x1fff \<mapsto> 0,
     0x3000 \<mapsto> 1, 0x3001 \<mapsto> 1, 0x3002 \<mapsto> 1, 0x3003 \<mapsto> 1, 0x3004 \<mapsto> 1, 0x3005 \<mapsto> 1, 0x3006 \<mapsto> 1,
     0x3007 \<mapsto> 1, 0x3008 \<mapsto> 1, 0x3009 \<mapsto> 1, 0x300a \<mapsto> 1, 0x300b \<mapsto> 1]"

definition sample_io :: io where
  "sample_io = \<lparr>io_mem = sample_memory, io_console = []\<rparr>"

definition sample_target :: "int printf_target" where
  "sample_target = \<lparr>pt_float = None, pt_char_signed = False\<rparr>"

definition sample_pieces :: "piece list" where
  "sample_pieces = [Literal [0x6e, 0x3d], Integer [ch_0] (Some 4) None False ch_d]"

definition sample_text :: "8 word list" where
  "sample_text = [0x6e, 0x3d, 0x30, 0x30, 0x34, 0x32]"

lemma sample_length: "length sample_text = 6"
  by (simp add: sample_text_def)

lemma sample_simps [simp]:
  "io_mem sample_io = sample_memory" "io_console sample_io = []" "pt_float sample_target = None" "\<not> pt_char_signed sample_target"
  by (simp_all add: sample_io_def sample_target_def)

lemma sample_spelled: "concat (map spelled sample_pieces) = [0x6e, 0x3d, 0x25, 0x30, 0x34, 0x64]"
  by (simp add: sample_pieces_def spelled_width_def spelled_precision_def spelled_length_def decimal_def
      digit_chars_def positional.simps ntoa_digit_def)

lemma sample_at:
  "sample_memory 0x1000 = Some 0x6e" "sample_memory 0x1001 = Some 0x3d" "sample_memory 0x1002 = Some 0x25"
  "sample_memory 0x1003 = Some 0x30" "sample_memory 0x1004 = Some 0x34" "sample_memory 0x1005 = Some 0x64"
  "sample_memory 0x1006 = Some 0" "sample_memory 0x1100 = Some 0x25" "sample_memory 0x1101 = Some 0x75"
  "sample_memory 0x1102 = Some 0" "sample_memory 0x1ffe = Some 0x25" "sample_memory 0x1fff = Some 0"
  "sample_memory 0x2000 = None" "sample_memory 0 = None"
  by (simp_all add: sample_memory_def)

lemma sample_buffer:
  "sample_memory 0x3000 = Some 1" "sample_memory 0x3001 = Some 1" "sample_memory 0x3002 = Some 1"
  "sample_memory 0x3003 = Some 1" "sample_memory 0x3004 = Some 1" "sample_memory 0x3005 = Some 1"
  "sample_memory 0x3006 = Some 1" "sample_memory 0x3007 = Some 1" "sample_memory 0x3008 = Some 1"
  "sample_memory 0x3009 = Some 1" "sample_memory 0x300a = Some 1"
  by (simp_all add: sample_memory_def)

lemma without_at: "without m b n a = (if inside a b n then None else m a)"
  by (simp add: without_def)

lemma sample_formats:
  "cstring sample_memory 0x1000 (concat (map spelled sample_pieces))"
  "cstring (without sample_memory 0x3000 6) 0x1000 (concat (map spelled sample_pieces))"
  "cstring sample_memory 0x1100 [ch_percent, ch_u]"
  unfolding sample_spelled by (simp_all add: cstring_simps sample_at without_at inside_def)

lemma sample_mapped: "mapped sample_memory 0x3000 11"
proof -
  have "mapped sample_memory 0x3000 (Suc (Suc (Suc (Suc (Suc (Suc (Suc (Suc (Suc (Suc (Suc 0)))))))))))"
    by (simp add: mapped_tl sample_buffer) (simp add: mapped_def)
  then show ?thesis by (simp add: eval_nat_numeral)
qed

lemma sample_renders: "renders False m sample_pieces [VaWord 42 :: int va_value] sample_text"
proof -
  let ?p = "Integer [ch_0] (Some 4) None False ch_d"
  have flags: "directive_flags [ch_0] None False = FLAGS_ZEROPAD"
    by (simp add: directive_flags_def flags_value_def flag_of_def)
  have int: "int_flags ch_d FLAGS_ZEROPAD = FLAGS_ZEROPAD" "int_base ch_d = 10"
    "int_value False ch_d FLAGS_ZEROPAD 42 = 42"
    by (simp_all add: int_flags_def int_base_def int_value_def is_signed_def is_long_def int_argument_def
        flag_set_def flag_clear_def flags_defs)
  have digits: "printed_digits FLAGS_ZEROPAD 10 42 = [0x34, 0x32]"
    by (simp add: printed_digits_def flag_set_def flags_defs digit_chars_def positional.simps ntoa_digit_def)
  have flag: "flag_set FLAGS_ZEROPAD FLAGS_ZEROPAD" "\<not> flag_set FLAGS_ZEROPAD FLAGS_LEFT" "\<not> flag_set FLAGS_ZEROPAD FLAGS_HASH"
    "\<not> flag_set FLAGS_ZEROPAD FLAGS_PLUS" "\<not> flag_set FLAGS_ZEROPAD FLAGS_SPACE" "\<not> is_long FLAGS_ZEROPAD"
    by (simp_all add: flag_set_def flags_defs is_long_def)
  have ok: "int_piece_ok False ?p 42"
    using int digits flag
    by (simp add: int_piece_ok_def below_2_32_def flags int_fits_def fits_def given_def Let_def flag_of_def is_int_conversion_def)
  have two: "replicate 2 ch_0 = [ch_0, ch_0]" by (simp add: numeral_2_eq_2)
  have shown: "int_piece_text False ?p 42 = [0x30, 0x30, 0x34, 0x32]"
    using int digits flag two
    by (simp add: int_piece_text_def flags int_text_def layout_def sign_chars_def given_def Let_def)
  show ?thesis
    using renders_Literal [OF renders_Integer [OF renders_Nil refl ok, of m "[]"], of "[0x6e, 0x3d]"]
    by (simp add: sample_pieces_def sample_text_def shown)
qed

subsection \<open>The text in the buffer\<close>

lemma cstring_apart:
  assumes "cstring m a bs" and "\<forall>i\<le>length bs. \<not> inside (a + of_nat i) b n"
  shows "cstring (without m b n) a bs"
  using assms cstring_cong [of bs "without m b n" a m] by (simp add: without_def)

lemma snprintf_writes_text:
  assumes "formatted_text limit tgt (without (io_mem st) buffer (min (unat count) (Suc limit))) format va = Some (Inr t)"
    and "limit < 2 ^ 64 - 1" and "mapped (io_mem st) buffer (min (unat count) (Suc limit))" and "buffer \<noteq> 0"
  shows "snprintf tgt buffer count format va st =
    Some (Inr (of_nat (length t),
      st\<lparr>io_mem := if count = 0 then io_mem st
          else overwrite (io_mem st) buffer (take (unat count - 1) t @ [0])\<rparr>))"
  using buffer_run(1) [OF assms(1-3)] assms(4) by (simp add: snprintf_def)

lemma printf_text_run:
  assumes "renders (pt_char_signed tgt) (io_mem st) ps va t" and "cstring (io_mem st) format (concat (map spelled ps))"
  shows "printf tgt format va st =
    Some (Inr (of_nat (length t), st\<lparr>io_console := io_console st @ filter (\<lambda>c. c \<noteq> 0) t\<rparr>))"
  using printf_run [OF formatted_text_pieces [OF assms order_refl]] .

lemma snprintf_text_run:
  fixes st buffer count t
  defines "m \<equiv> without (io_mem st) buffer (min (unat count) (Suc (length t)))"
  assumes "renders (pt_char_signed tgt) m ps va t" and "cstring m format (concat (map spelled ps))"
    and "mapped (io_mem st) buffer (min (unat count) (Suc (length t)))" and "length t < 2 ^ 64 - 1" and "buffer \<noteq> 0"
  shows "snprintf tgt buffer count format va st =
    Some (Inr (of_nat (length t),
      st\<lparr>io_mem := if count = 0 then io_mem st
          else overwrite (io_mem st) buffer (take (unat count - 1) t @ [0])\<rparr>))"
  using snprintf_writes_text [OF formatted_text_pieces [OF assms(2,3) order_refl, unfolded m_def]] assms by simp

subsection \<open>A number and back\<close>

lemma unsigned_text:
  assumes "cstring m format [ch_percent, ch_u]"
  shows "formatted_text 10 tgt m format (VaWord v # va) =
    Some (Inr (digit_chars 0 (positional 10 (unat (ucast v :: 32 word)))))"
proof -
  let ?v = "ucast v :: 32 word"
  let ?t = "digit_chars 0 (positional 10 (unat ?v))"
  have flags: "int_flags ch_u 0 = 0" and base: "int_base ch_u = 10" by (simp_all add: int_flags_def int_base_def)
  have n: "int_value (pt_char_signed tgt) ch_u 0 v = uint ?v"
    by (simp add: int_value_def is_signed_def is_long_def uint_argument_def)
  have digits: "printed_digits 0 10 (unat ?v) = ?t" by (simp add: printed_digits_def)
  have "unat ?v < 10 ^ 10" using unsigned_less [where ?'a = nat, of ?v] by simp
  then have len: "length ?t \<le> 10" using length_positional [of 10 "unat ?v" 10] by (simp add: digit_chars_def)
  have shown: "int_text (pt_char_signed tgt) ch_u 0 0 0 v = ?t"
    by (simp add: int_text_def flags base n digits layout_def sign_chars_def Let_def nat_uint_eq)
  have nonneg: "uint ?v \<noteq> - (2 ^ 31)" by (rule not_sym, rule less_imp_neq, rule less_le_trans [of _ 0]) simp_all
  have "int_fits (pt_char_signed tgt) ch_u 0 0 0 v"
    using len nonneg by (simp add: int_fits_def flags base n digits fits_def is_long_def Let_def nat_uint_eq)
  then have "renders (pt_char_signed tgt) m [Integer [] None None False ch_u] (VaWord v # va) ?t"
    using renders_Integer [OF renders_Nil refl, of "pt_char_signed tgt" "[]" None None False ch_u v m va]
    by (simp add: int_piece_ok_def below_2_32_def int_piece_text_def directive_flags_def flags_value_def given_def shown
        is_int_conversion_def)
  then show ?thesis using formatted_text_pieces [of tgt m _ "VaWord v # va" ?t format 10] assms len
    by (simp add: spelled_width_def spelled_precision_def spelled_length_def)
qed

text \<open>
  C36: What \<open>snprintf\<close> prints for an unsigned number with \<open>%u\<close> into a buffer of at least 11 bytes, \<open>_atoi\<close>
  reads back as the same number, up to the end of the text, for every 32-bit number.
\<close>

theorem number_read_back:
  assumes format: "cstring (io_mem st) format [ch_percent, ch_u]" and apart: "apart format 3 buffer 11"
    and mapped: "mapped (io_mem st) buffer 11" and count: "11 \<le> count" and buffer: "buffer \<noteq> 0"
  shows "\<exists>n m. snprintf tgt buffer count format (VaWord v # va) st = Some (Inr (n, st\<lparr>io_mem := m\<rparr>)) \<and>
    atoi m buffer = Some (Inr (ucast v, buffer + ucast n))"
proof -
  let ?v = "ucast v :: 32 word" and ?t = "digit_chars 0 (positional 10 (unat (ucast v :: 32 word)))"
  have "11 \<le> unat count" using count by (simp add: word_le_nat_alt)
  then have eleven: "min (unat count) (Suc 10) = 11" "min (unat count) 11 = 11" by simp_all
  have "\<not> inside (format + of_nat i) buffer 11" if "i \<le> 2" for i
    by (rule apart_not_inside [OF apart]) (use that in \<open>simp add: inside_def unat_of_nat take_bit_nat_eq_self\<close>)
  then have "cstring (without (io_mem st) buffer 11) format [ch_percent, ch_u]"
    by (intro cstring_apart [OF format]) simp
  note unsigned = unsigned_text [OF this, of tgt v va]
  have len: "length ?t \<le> 10"
    using buffer_run(2) [of 10 tgt st buffer count format "VaWord v # va" ?t] unsigned mapped by (simp add: eleven)
  let ?m = "overwrite (io_mem st) buffer (?t @ [0])"
  have run: "snprintf tgt buffer count format (VaWord v # va) st = Some (Inr (of_nat (length ?t), st\<lparr>io_mem := ?m\<rparr>))"
    using snprintf_writes_text [of 10 tgt st buffer count format "VaWord v # va" ?t] unsigned mapped buffer count len
      \<open>11 \<le> unat count\<close> by (auto simp: eleven)
  have ds: "\<forall>d\<in>set (positional 10 (unat ?v)). d < 10" using positional_lt [of 10 _ "unat ?v"] by simp
  have "cstring ?m buffer ?t"
    using digit_chars_nonzero [OF ds] len by (intro overwrite_cstring) simp_all
  then have "atoi ?m buffer = Some (Inr (ucast v, buffer + of_nat (length ?t)))"
    using atoi_decimal [of ?m buffer "unat ?v" 0]
    by (simp add: decimal_def is_digit_def cstring_bytes bytes_at_append bytes_at_Cons)
  moreover have "(of_nat (length ?t) :: 64 word) = ucast (of_nat (length ?t) :: 32 word)"
    using len by (simp add: word_unat_eq_iff unsigned_ucast_eq unat_of_nat take_bit_nat_eq_self)
  ultimately show ?thesis using run by metis
qed

theorem number_read_back_witness:
  "\<exists>n m. snprintf sample_target 0x3000 12 0x1100 [VaWord 0xfffffffe] sample_io = Some (Inr (n, sample_io\<lparr>io_mem := m\<rparr>)) \<and>
    atoi m 0x3000 = Some (Inr (0xfffffffe, 0x3000 + ucast n))"
  using number_read_back [of sample_io "0x1100" "0x3000" 12 sample_target "0xfffffffe" "[]"] sample_formats sample_mapped
  by (simp add: apart_def)

text \<open>
  C34: \<open>printf\<close> of a format of literal text, \<open>%%\<close>, \<open>%c\<close>, \<open>%s\<close>, \<open>%p\<close> and integers (\<open>d i u x X o b\<close>, also with \<open>l\<close>)
  writes the text of its pieces to the console and returns the length of that text. The text
  of an integer is its positional notation with sign, precision, width and padding. Covered are
  the flags \<open>0 - +\<close> and space, numbers of at most 31 digits, a precision of at most 31, under \<open>-\<close>
  at most the number of digits, and a width of at most 32 when it is filled with zeros; not
  the flag \<open>#\<close> (unless the conversion drops it), other length modifiers, and the smallest
  \<open>int\<close> and \<open>long\<close>. A NUL among the characters, which \<open>%c\<close> may produce, counts but does not reach
  the console.
\<close>

theorem printf_prints:
  assumes "renders (pt_char_signed tgt) (io_mem st) ps va t" and "cstring (io_mem st) format (concat (map spelled ps))"
  shows "printf tgt format va st =
    Some (Inr (of_nat (length t), st\<lparr>io_console := io_console st @ filter (\<lambda>c. c \<noteq> 0) t\<rparr>))"
  using assms by (rule printf_text_run)

theorem printf_prints_witness:
  "printf sample_target 0x1000 [VaWord 42] sample_io =
   Some (Inr (6, sample_io\<lparr>io_console := sample_text\<rparr>))"
  using printf_prints [of sample_target sample_io sample_pieces "[VaWord 42]" sample_text "0x1000"] sample_renders sample_formats(1)
  by (simp add: sample_text_def)

text \<open>
  C35: \<open>snprintf\<close> of a format as for \<open>printf\<close> above, with the same exclusions (\<open>renders\<close>), writes its text,
  NULs included, to the buffer, cut to \<open>count - 1\<close> characters and
  terminated, leaves all other memory as it is, and returns the length of the whole text; with
  count 0 it writes nothing. The format and its strings may lie anywhere but in the buffer.
\<close>

theorem snprintf_prints:
  assumes "renders (pt_char_signed tgt) (without (io_mem st) buffer (min (unat count) (Suc (length t)))) ps va t"
    and "cstring (without (io_mem st) buffer (min (unat count) (Suc (length t)))) format (concat (map spelled ps))"
    and "mapped (io_mem st) buffer (min (unat count) (Suc (length t)))" and "length t < 2 ^ 64 - 1" and "buffer \<noteq> 0"
  shows "snprintf tgt buffer count format va st =
    Some (Inr (of_nat (length t),
      st\<lparr>io_mem := if count = 0 then io_mem st
          else overwrite (io_mem st) buffer (take (unat count - 1) t @ [0])\<rparr>))"
  using assms by (rule snprintf_text_run)

lemma sample_snprintf:
  "renders (pt_char_signed sample_target) (without (io_mem sample_io) 0x3000 6) sample_pieces [VaWord 42 :: int va_value] sample_text"
  "cstring (without (io_mem sample_io) 0x3000 6) 0x1000 (concat (map spelled sample_pieces))"
  "mapped (io_mem sample_io) 0x3000 6"
  using sample_renders sample_formats(2) mapped_mono [OF sample_mapped, of 6] by simp_all

lemma sample_cut: "take 5 sample_text @ [0] = [0x6e, 0x3d, 0x30, 0x30, 0x34, 0]"
  by (simp add: sample_text_def)

theorem snprintf_prints_witness:
  "snprintf sample_target 0x3000 6 0x1000 [VaWord 42] sample_io =
   Some (Inr (6, sample_io\<lparr>io_mem := overwrite sample_memory 0x3000 [0x6e, 0x3d, 0x30, 0x30, 0x34, 0]\<rparr>))"
  using snprintf_prints [of sample_target sample_io "0x3000" 6 sample_text sample_pieces "[VaWord 42]" "0x1000"]
    sample_snprintf sample_length by (simp flip: sample_cut)

subsection \<open>Only the buffer changes\<close>

definition only_buffer :: "io \<Rightarrow> addr \<Rightarrow> 64 word \<Rightarrow> io \<Rightarrow> bool" where
  "only_buffer st0 buffer count st \<longleftrightarrow>
     (\<forall>a. \<not> inside a buffer (unat count) \<longrightarrow> io_mem st a = io_mem st0 a) \<and>
     dom (io_mem st) = dom (io_mem st0) \<and> io_console st = io_console st0"

lemma out_buffer_inside:
  assumes "out_buffer buffer count c i st = Inr st'" and "\<not> inside a buffer (unat count)"
  shows "io_mem st' a = io_mem st a"
proof -
  have "a = buffer + i \<Longrightarrow> inside a buffer (unat i + 1)" by (simp add: inside_def)
  then have "i < count \<Longrightarrow> a \<noteq> buffer + i" using assms(2) by (auto simp: inside_def word_less_nat_alt)
  then show ?thesis using assms(1) by (auto simp: out_buffer_def result_simps store_byte_def split: if_splits)
qed

lemma out_buffer_dom:
  "out_buffer buffer count c i st = Inr st' \<Longrightarrow> dom (io_mem st') = dom (io_mem st) \<and> io_console st' = io_console st"
  by (auto simp: out_buffer_def result_simps store_byte_def split: if_splits)

interpretation frame: output_invariant "out_buffer buffer count" "only_buffer st0 buffer count"
  for buffer count st0
proof
  show "only_buffer st0 buffer count st'"
    if "only_buffer st0 buffer count st" and "out_buffer buffer count c i st = Inr st'" for st st' c i
    using that out_buffer_inside [OF that(2)] out_buffer_dom [OF that(2)] by (simp add: only_buffer_def)
qed

lemma out_buffer_terminates:
  assumes "out_buffer buffer count 0 (if idx < count then idx else count - 1) st = Inr st'" and "count \<noteq> 0"
  shows "\<exists>k<unat count. io_mem st' (buffer + of_nat k) = Some 0"
proof -
  let ?i = "if idx < count then idx else count - 1"
  have "unat (count - 1) < unat count" using assms(2) unat_minus_one [of count] by (simp add: unat_gt_0)
  then have i: "?i < count" by (simp add: word_less_nat_alt)
  then have "io_mem st' (buffer + of_nat (unat ?i)) = Some 0"
    using assms(1) by (auto simp: out_buffer_def result_simps store_byte_def split: if_splits)
  then show ?thesis using i by (auto simp: word_less_nat_alt)
qed

lemma internal_last:
  assumes "vsnprintf_internal tgt out False maxlen format va st = Some (Inr (n, st'))"
  obtains idx st1 where "out 0 (if idx < maxlen then idx else maxlen - 1) st1 = Inr st'"
  using assms by (auto simp: vsnprintf_internal_def bindP_Inr_iff result_simps)

text \<open>
  C37: Whatever the format and the arguments are, when \<open>snprintf\<close> returns it has changed no byte outside
  the \<open>count\<close> bytes of the buffer and written nothing to the console, and the buffer holds a terminator.
\<close>

theorem snprintf_stays_inside:
  assumes "snprintf tgt buffer count format va st = Some (Inr (n, st'))" and "buffer \<noteq> 0"
  shows "(\<forall>a. \<not> inside a buffer (unat count) \<longrightarrow> io_mem st' a = io_mem st a) \<and>
    io_console st' = io_console st \<and>
    (count \<noteq> 0 \<longrightarrow> (\<exists>k<unat count. io_mem st' (buffer + of_nat k) = Some 0))"
proof -
  have run: "vsnprintf_internal tgt (out_buffer buffer count) False count format va st = Some (Inr (n, st'))"
    using assms by (simp add: snprintf_def)
  have "only_buffer st buffer count st'"
    by (rule frame.internal_kept [OF _ run]) (simp add: only_buffer_def)
  moreover obtain idx st1 where
    "out_buffer buffer count 0 (if idx < count then idx else count - 1) st1 = Inr st'"
    using run by (rule internal_last)
  ultimately show ?thesis using out_buffer_terminates by (auto simp: only_buffer_def)
qed

theorem snprintf_stays_inside_witness:
  "\<exists>n st'. snprintf sample_target 0x3000 6 0x1000 [VaWord 42] sample_io = Some (Inr (n, st')) \<and>
    io_mem st' 0x3006 = io_mem sample_io 0x3006"
proof -
  obtain n st' where run: "snprintf sample_target 0x3000 6 0x1000 [VaWord 42] sample_io = Some (Inr (n, st'))"
    using snprintf_text_run [of sample_target sample_io "0x3000" 6 sample_text sample_pieces "[VaWord 42]" "0x1000"]
      sample_snprintf sample_length by simp
  have "\<not> inside 0x3006 (0x3000 :: addr) (unat (6 :: 64 word))" by (simp add: inside_def)
  then show ?thesis using snprintf_stays_inside [OF run] run by auto
qed

subsection \<open>Every call returns\<close>

abbreviation no_page :: "addr \<Rightarrow> io \<Rightarrow> bool" where
  "no_page hole st \<equiv> io_mem st hole = None"

interpretation buffer_returns: output_returns "out_buffer buffer count" "no_page hole" hole
  for buffer count hole
proof
  show "no_page hole st'" if "no_page hole st" and "out_buffer buffer count c i st = Inr st'" for st st' c i
    using that out_buffer_dom [OF that(2)] by (metis domIff)
qed

interpretation console_returns: output_returns out_char "no_page hole" hole for hole
  by unfold_locales (auto simp: out_char_def putchar_console_def split: if_splits)

interpretation null_returns: output_returns out_null "no_page hole" hole for hole
  by unfold_locales (simp_all add: out_null_def)

lemma internal_null: "vsnprintf_internal tgt out True maxlen format va st = vsnprintf_internal tgt out_null False maxlen format va st"
  by (simp add: vsnprintf_internal_def)

text \<open>
  C38: Built without floating point, every call of \<open>snprintf\<close> and \<open>printf\<close> ends, with a result or a fault,
  for any format and arguments, provided some address is unmapped: no loop runs for ever.
\<close>

theorem printing_returns:
  assumes hole: "io_mem st hole = None" and tgt: "pt_float tgt = None"
  shows "(\<exists>r. snprintf tgt buffer count format va st = Some r) \<and> (\<exists>r. printf tgt format va st = Some r)"
  using buffer_returns.internal_returns [OF hole tgt, of buffer count count format va]
    console_returns.internal_returns [OF hole tgt, of "- 1" format va]
    null_returns.internal_returns [OF hole tgt, of count format va]
  by (cases "buffer = 0") (simp_all add: snprintf_def printf_def internal_null)

theorem printing_returns_witness:
  "(\<exists>r. snprintf sample_target 0x3000 6 0x1000 [VaWord 42] sample_io = Some r) \<and>
   (\<exists>r. printf sample_target 0x1ffe [] sample_io = Some r)"
  using printing_returns [of sample_io 0 sample_target "0x3000" 6 "0x1000" "[VaWord 42]"]
    printing_returns [of sample_io 0 sample_target "0x3000" 6 "0x1ffe" "[]"]
  by (simp add: sample_at)

subsection \<open>Departures\<close>

lemma lone_percent_directive:
  assumes "io_mem (snd s) format = Some 0"
  shows "directive tgt out format va s =
    bindP (Some (send out 0 s)) (\<lambda>s. Some (Inr (format + 1, va, s)))"
  using assms by (subst directive_plain [of s format 0], simp_all add: is_specifier_def flag_of_def is_digit_def)
    (cases "send out 0 s"; simp add: convert_def)

text \<open>
  A format that ends in a percent sign is read past its end: the default branch sends the
  terminator as a character and steps over it. When the next page is not mapped \<open>printf\<close> faults there.
\<close>

theorem lone_percent_runs_on:
  assumes "io_mem st format = Some ch_percent" and "io_mem st (format + 1) = Some 0" and "io_mem st (format + 2) = None"
  shows "printf tgt format va st = Some (Inl (VMFault (format + 2)))"
proof -
  have "vsnprintf_loop tgt out_char (format + 1 + 1) va (1, st) = Some (Inl (VMFault (format + 2)))"
    using assms(3) by (subst vsnprintf_loop.simps) (simp add: load_byte_def add.assoc)
  then have "vsnprintf_loop tgt out_char format va (0, st) = Some (Inl (VMFault (format + 2)))"
    using assms(1,2) by (simp add: loop_directive lone_percent_directive send_def out_char_def)
  then show ?thesis by (simp add: printf_def vsnprintf_internal_def)
qed

theorem lone_percent_runs_on_example:
  "printf sample_target 0x1ffe [] sample_io = Some (Inl (VMFault 0x2000))"
  using lone_percent_runs_on [of sample_io "0x1ffe" sample_target "[]"] by (simp add: sample_at)

text \<open>Left-justified numbers ignore their precision.\<close>

lemma left_ignores_precision:
  assumes "flag_set flags FLAGS_LEFT" and "\<not> flag_set flags FLAGS_HASH"
  shows "ntoa_format out buf negative base precision width flags s = ntoa_format out buf negative base 0 width flags s"
  using assms by (simp add: ntoa_format_def ntoa_leading_zeros_def ntoa_hash_def)

text \<open>The smallest value of a signed type cannot be negated.\<close>

lemma smallest_overflows:
  "convert_int char_signed out ch_d 0 width precision (VaWord 0x80000000 # va) s = Inl ArithFault"
  "convert_int char_signed out ch_d FLAGS_LONG width precision (VaWord 0x8000000000000000 # va) s = Inl ArithFault"
proof -
  have "int_flags ch_d 0 = 0" and "flag_set (int_flags ch_d FLAGS_LONG) FLAGS_LONG"
    by (simp_all add: int_flags_def int_base_def flag_set_def flag_clear_def flags_defs)
  then show "convert_int char_signed out ch_d 0 width precision (VaWord 0x80000000 # va) s = Inl ArithFault"
    and "convert_int char_signed out ch_d FLAGS_LONG width precision (VaWord 0x8000000000000000 # va) s = Inl ArithFault"
    by (simp_all add: convert_int_def magnitude_def int_argument_def Let_def)
qed

end
