(* ===== verification/Spec2Isabelle.thy ===== *)
theory Spec2Isabelle
  imports CoContracts CoSafety ContextTurns Amd64Switch CodisRuns SimpleClient PrintfClaims
begin

text \<open>
  A verification of \<open>libmicrokitco\<close>: cooperative threads inside one protection domain (PD) of
  the seL4 Microkit, with the coroutine primitives it rests on and the example programs
  that use it.

  \<^bold>\<open>The program and its parts.\<close> A PD has one kernel thread. The library multiplexes it: \<open>spawn\<close>
  takes a free handle, clears its stack and prepares a context (\<open>co_derive\<close>); \<open>yield\<close>, \<open>wait\<close>,
  \<open>signal\<close> and \<open>destroy\<close> decide who runs next and end in \<open>co_switch\<close>, which exchanges the
  registers. Handle 0 is the root thread, in which the Microkit calls \<open>init\<close> and \<open>notified\<close>.
  Two ring buffers (\<open>libhostedqueue\<close>) hold the free handles and the ready cothreads; a semaphore
  is a flag and a list of cothreads linked through their control blocks; channels are a table
  of semaphores.

  \<^bold>\<open>Theories, in the order of the code.\<close>
  \<^item> \<open>Prelude\<close>: faults (panic codes of \<open>libmicrokitco.c\<close>, memory faults, undefined accesses), the
    sequencing of fallible steps \<open>bindR\<close> and of steps that may not return \<open>bindP\<close>, lemmas on lists
    and words. \<open>PdMemory\<close>: byte memory with unmapped addresses, ranges, \<open>memzero\<close>, word access.
  \<^item> \<open>HostedQueue\<close>: \<open>libhostedqueue.h\<close>, 32-bit indices, the storage as a list; invariant, and the
    list a queue stands for; the locale of a bounded queue, interpreted on the operations.
  \<^item> \<open>LibcoAmd64\<close>, \<open>LibcoAarch64\<close>, \<open>LibcoRiscv64\<close>, \<open>Libco\<close>: \<open>co_derive\<close> of each architecture, store by
    store, and what it prepares. \<open>RegMachine\<close>: registers, byte memory, and the execution of
    decoded instructions. \<open>ContextSwitch\<close>: the contract of a context switch as a locale (saving
    parks the caller, switching back restores it). \<open>RiscvSwitch\<close>, \<open>Aarch64Switch\<close>, \<open>Amd64Switch\<close>,
    \<open>ArmSwitch\<close>: the code arrays of \<open>co_swap\<close>, word for word, a decoder for the instructions that
    occur in them, and the interpretation of the contract on their execution. \<open>ContextTurns\<close>: many
    contexts that switch to each other, and the invariant of their memory.
  \<^item> \<open>CoTypes\<close> (records of \<open>libmicrokitco.h\<close>, state of a PD), \<open>CoScheduler\<close> (\<open>internal_schedule\<close>,
    \<open>internal_go_next\<close>), \<open>CoSemaphore\<close>, \<open>CoInit\<close> (\<open>microkit_cothread_init\<close>), \<open>CoApi\<close> (all other public
    operations): the library, one definition per C function, each check and panic included.
  \<^item> \<open>CoSpec\<close>: what the README promises, as a running handle, a ready list, a free list and waiting
    lists. \<open>CoView\<close>, \<open>CoRefine\<close>, \<open>CoSimulation\<close>, \<open>CoOps\<close>, \<open>CoLife\<close>, \<open>CoBoot\<close>: the relation \<open>refines\<close> between
    the two and one simulation lemma per operation. \<open>CoSystem\<close>: sequences of calls, the rules for
    callers, the locale \<open>forward_simulation\<close> with its interpretation, reachable states.
  \<^item> \<open>CoGuarantees\<close>, \<open>CoFrame\<close>, \<open>CoFindings\<close>, \<open>CoContracts\<close>: turn taking, order of waking, frames, what
    the code does against its documentation, and the contract of each operation. \<open>CoSafety\<close>: what
    holds for callers that follow no rule. \<open>CoDemo\<close>: a concrete PD for the examples.
  \<^item> \<open>CoClient\<close>: programs on the library (contexts that run in turn, \<open>run_until_root\<close>; the locale
    \<open>event_loop\<close>). \<open>CString\<close>: \<open>string.h\<close> of Codis. \<open>CodisServer\<close>, \<open>CodisSystem\<close>: \<open>server.c\<close> with
    \<open>protocol.h\<close>, request handler and whole program. \<open>CodisClients\<close>: \<open>client1.c\<close>, \<open>client2.c\<close>,
    \<open>client3.c\<close>. \<open>Codis\<close>, \<open>CodisRuns\<close>: server and clients with the pages they share and the channels of
    \<open>codis.system\<close>, the invariant of the four protection domains, and their runs.
    \<open>SimpleClient\<close>: \<open>example/simple/client.c\<close>.
  \<^item> \<open>PrintfCore\<close> (output functions, integers), \<open>PrintfFloat\<close> (\<open>_ftoa\<close>, \<open>_etoa\<close>), \<open>Printf\<close> (parser, conversions,
    \<open>_vsnprintf\<close>, the \<open>printf\<close> family): \<open>printf.c\<close>, the same file in both examples. \<open>PrintfOutput\<close>: the locale
    \<open>output_simulation\<close>, nothing depends on the output function but what that does with its characters;
    \<open>PrintfText\<close> interprets it for the console, buffers and functions of the caller. \<open>PrintfNumbers\<close>,
    \<open>PrintfFormats\<close>, \<open>PrintfPieces\<close>: integers against positional notation, formats as lists of pieces.
    \<open>PrintfReturns\<close>: invariants and termination. \<open>PrintfFloatText\<close>: fixed-point texts. \<open>PrintfClaims\<close>: the
    theorems for callers.

  \<^bold>\<open>How the model corresponds to the code.\<close> \<open>co_controller\<close>, \<open>co_active_handle\<close>, the semaphores in client
  memory and the memory of the PD are the fields of the record \<open>pd\<close>. The byte memory holds the
  stacks with what \<open>spawn\<close> writes there. The controller and the semaphores of the client are
  fields of their own: the controller's memory is cleared through the byte memory by \<open>init\<close>,
  whose size check is that write, and both are taken to be disjoint from everything else. So
  no statement about \<open>pd_mem\<close> speaks of them, or of the contexts that \<open>co_swap\<close> saves (below). Indices are kept as the code computes them: an
  access outside an array is the fault \<open>OutOfBounds\<close>, a use of the controller before \<open>init\<close> is
  \<open>NullController\<close>, a write to unmapped memory \<open>VMFault\<close>, overflow of a signed counter or a
  division by zero \<open>ArithFault\<close>. 32-bit and 64-bit arithmetic wraps on words. In every library
  function that switches, \<open>co_switch\<close> is the last thing done, so that the model of the function
  ends with the handle it switches to, and leaves the rest of \<open>co_switch\<close> to the \<open>Switch\<close> theories
  and \<open>ContextTurns\<close>: \<open>co_swap\<close> saves the caller's registers in its context and writes nothing else,
  and a parked context goes on where it called. A client program is a state with a \<open>pd\<close> and the points at
  which its cothreads go on.

  \<^bold>\<open>What the theorems show.\<close> This theory: from a valid \<open>init\<close> every sequence of calls that follows the
  rules succeeds and refines the specification, any sequence of calls at all, on semaphores
  whose links are handles, indexes no array outside its bounds and faults at most where \<open>spawn\<close>
  clears the null pointer as a stack, exactly one cothread runs, ready cothreads get their turn,
  waiting ones wake in order, signals are not lost. The rules (\<open>allowed\<close> in \<open>CoSystem\<close>) are stricter than the
  README: a cothread may destroy itself only, since the destruction of a ready one, which the
  README permits, can end in a panic (\<open>respawn_overflows\<close>). \<open>CoContracts\<close>: each operation on every branch.
  The \<open>Switch\<close> theories: the round trip of a context switch, the first switch to a new context, and any
  number of contexts in turn.
  The Codis theories: the server implements a table of strings under every sequence of requests,
  the clients send their requests in order, a new one only after an answer, and end; together, in
  any order of starts and deliveries, they come to the end with all texts in the database. The \<open>Printf\<close>
  theories: each function delivers the text of its format, within the class of formats and
  numbers of \<open>PrintfPieces\<close>, \<open>snprintf\<close> stays in its buffer, calls
  return, numbers can be read back, and \<open>%f\<close> prints the nearest decimal unless halfway. Several
  theorems state defects: see the findings of the manifest.

  \<^bold>\<open>Bounds, fuel, termination.\<close> No fuel is used. Loops that end are functions with a measure (the
  scheduler takes an item off its queue each turn, \<open>memzero\<close> and the string searches count up);
  loops that need not end (\<open>strcpy\<close> without a terminator, the alternation of cothreads) are partial
  functions, and the theorems about them say that they return. \<open>LIBMICROKITCO_MAX_COTHREADS\<close> and
  \<open>MICROKIT_MAX_CHANNELS\<close> are arbitrary within \<open>valid_config\<close>.

  \<^bold>\<open>Parameters.\<close> The Microkit and the loader are not part of the repository: notifications are
  events of the model. The arithmetic of \<open>double\<close> is a record of operations (\<open>fp\<close>), of which only that
  comparison of integers is exact is assumed, in one theorem. Addresses and the memory map
  are arguments with the conditions stated in \<open>init_env\<close>, \<open>stacks_given\<close>, \<open>codis_layout\<close>,
  \<open>server_setup\<close>, \<open>client_setup\<close>, \<open>system_setup\<close> and \<open>simple_setup\<close>, each with a concrete instance. The signedness of \<open>char\<close> is a parameter.

  \<^bold>\<open>Not modelled.\<close> The benchmarks (measuring harness for real hardware), \<open>settings.h\<close> (compiler
  attributes), \<open>printf.h\<close> (declarations), the thread sanitizer and shadow call stack options of the C
  compiler, and preemption inside a handler: a PD is sequential, other PDs act between its events,
  also in \<open>Codis\<close>, where a shared page is exchanged when a handler ends.
  The models of the example programs leave out their messages; that formatting one returns and
  changes no memory is the subject of the \<open>Printf\<close> theories. In these, variable arguments are a list
  of typed values, \<open>long\<close> has 64 bits, and no bound on the accuracy of \<open>%e\<close> and \<open>%g\<close> is shown, whose
  exponent is estimated in floating point.
\<close>

section \<open>The life of a protection domain\<close>

text \<open>
  C1: From a valid call of \<open>microkit_cothread_init\<close>, every sequence of calls that follows
  the rules returns without a panic, a fault or undefined behaviour, in a state that refines
  the one the specification computes. The rules are those of \<open>allowed\<close>: the README's, and that a
  cothread destroys nobody but itself.
\<close>

theorem boot_and_run:
  assumes "init_env cfg cmem s" and "0x1000 \<le> sz" and "unat sz \<le> INT_MAX"
    and "stacks_given cfg sz sts (pd_mem s)" and "0 \<notin> set sts" and "stacks_disjoint sz sts"
    and "\<forall>st \<in> set sts. \<not> inside (root_handle cfg) st (unat sz)"
    and "co_allowed cfg calls (spec_initial cfg)"
  shows "\<exists>s0 s1. microkit_cothread_init cfg cmem sz sts s = Inr s0 \<and> co_run cfg calls s0 = Inr s1 \<and>
    refines cfg (spec_run calls (spec_initial cfg)) s1"
  using init_refines [OF assms(1-7)] co.run_sim [OF _ assms(8)] by blast

theorem boot_and_run_witness:
  "\<exists>s0 s1. microkit_cothread_init demo_cfg 0x8000 0x1000 demo_stacks demo_pd0 = Inr s0 \<and>
    co_run demo_cfg demo_calls s0 = Inr s1 \<and> refines demo_cfg demo_sched s1"
  unfolding demo_sched_def
  by (rule boot_and_run [OF demo_env _ _ demo_given demo_nonnull demo_disjoint demo_root
        demo_calls_allowed]) simp_all



text \<open>
  C3: In every reachable state exactly one handle is in the state running, it is the one
  \<open>my_handle\<close> returns, and the context that executes is the one of its control block.
\<close>

theorem one_runs:
  assumes "co_reachable cfg (a, s)"
  shows "\<exists>h. microkit_cothread_my_handle s = Inr h \<and> 0 \<le> h \<and> h < int (max_cothreads cfg) \<and>
    co_active_handle s = co_handle (pd_tcb s h) \<and>
    (\<forall>k. 0 \<le> k \<and> k < int (max_cothreads cfg) \<longrightarrow>
       (microkit_cothread_query_state cfg k s = Inr cothread_running \<longleftrightarrow> k = h))"
proof -
  have r: "refines cfg a s" using co_reachable_refines [OF assms] by simp
  obtain c where c: "spec_ok (max_cothreads cfg) a" "co_controller s = Some c" "ctl_rel cfg a c"
    "co_active_handle s = co_handle (tcb c (running c))" using refinesE [OF r] by blast
  have "0 \<le> sp_running a \<and> sp_running a < int (max_cothreads cfg)"
    using spec_ok_range(1) [OF c(1)] by (simp add: placed_def)
  then show ?thesis
    using my_handle_refines [OF r] query_state_refines [OF r] c ctl_relD(2) [OF c(3)]
    by (intro exI [of _ "sp_running a"]) (auto simp: pd_tcb_def spec_state_def)
qed

theorem one_runs_witness:
  "\<exists>h. microkit_cothread_my_handle demo_pd = Inr h \<and> 0 \<le> h \<and> h < 3 \<and>
    co_active_handle demo_pd = co_handle (pd_tcb demo_pd h) \<and>
    (\<forall>k. 0 \<le> k \<and> k < 3 \<longrightarrow>
       (microkit_cothread_query_state demo_cfg k demo_pd = Inr cothread_running \<longleftrightarrow> k = h))"
  using one_runs [OF demo_reachable] by simp

text \<open>
  C4: A ready cothread gets its turn: the one behind \<open>n\<close> others in the queue runs at the
  scheduler's decision number \<open>n + 1\<close>, whatever calls that follow the rules are made in between.
  The rules (\<open>allowed\<close>) exclude that a cothread ahead of it is destroyed by another one, after
  which it would run earlier.
\<close>

theorem ready_runs:
  assumes "refines cfg a s" and "sp_ready a = pre @ h # post" and "co_allowed cfg (calls @ [call]) a"
    and "decisions a calls = length pre" and "decides (spec_run calls a) call"
  shows "\<exists>s'. co_run cfg (calls @ [call]) s = Inr s' \<and> microkit_cothread_my_handle s' = Inr h"
  using co.run_sim [OF assms(1,3)] my_handle_refines turn_comes [OF assms(2,4,5)] by metis

theorem ready_runs_witness:
  "\<exists>s'. co_run demo_cfg ([Call_wait_on_channel 0] @ [Call_yield]) demo_pd2 = Inr s' \<and>
    microkit_cothread_my_handle s' = Inr 0"
  by (rule ready_runs [OF demo_refines2, where pre = "[2]" and post = "[]"])
    (simp_all add: demo_sched2_simps demo_steps demo_sched2_def demo_calls2_def)

text \<open>
  C5: Cothreads that wait on one semaphore are woken first come, first served: with
  \<open>ws\<close> in front of the queue, the next signals make exactly the cothreads of \<open>ws\<close> run, in
  this order, whatever else, by the rules, the cothreads call between the signals.
\<close>

theorem woken_first_come:
  assumes "refines cfg a s" and "sp_sems a p = Some (False, ws @ vs)" and "length gaps = length ws"
    and "\<forall>between \<in> set gaps. \<forall>call \<in> set between. \<not> touches p call"
    and "co_allowed cfg (signalled p gaps) a"
  shows "co_woken cfg p gaps s = Inr ws"
  using co_woken_refines [OF assms(1,5)] woken_in_order [OF assms(2-4)] by simp

theorem woken_first_come_witness:
  "co_woken demo_cfg (ChannelSem 0) [[], [Call_yield]] demo_pd1 = Inr [1, 2]"
  by (rule woken_first_come [OF demo_refines1, where ws = "[1, 2]" and vs = "[]"])
    (simp_all add: demo_sched_simps signalled_def demo_steps demo_sched_def demo_calls_def)

text \<open>
  C6: A signal that finds nobody waiting is kept: after any calls that leave the semaphore
  alone the next wait on it returns to its caller at once and clears it.
\<close>

theorem signal_kept:
  assumes "refines cfg a s" and "sp_sems a p = Some (False, [])"
    and "\<forall>call \<in> set calls. \<not> touches p call" and "co_allowed cfg calls (spec_signal p a)"
  shows "\<exists>s1 s2. co_run cfg (Call_semaphore_signal p # calls) s = Inr s1 \<and>
    pd_semaphore_wait p s1 = Inr s2 \<and>
    microkit_cothread_my_handle s2 = microkit_cothread_my_handle s1 \<and>
    refines cfg ((spec_run calls (spec_signal p a))
      \<lparr>sp_sems := (sp_sems (spec_run calls (spec_signal p a)))(p \<mapsto> (False, []))\<rparr>) s2"
  using assms by (rule signal_then_wait)

theorem signal_kept_witness:
  "\<exists>s1 s2. co_run demo_cfg (Call_semaphore_signal (ChannelSem 1) # [Call_spawn 0x401000 5, Call_yield]) demo_pd
      = Inr s1 \<and> pd_semaphore_wait (ChannelSem 1) s1 = Inr s2 \<and>
    microkit_cothread_my_handle s2 = microkit_cothread_my_handle s1"
proof -
  have al: "co_allowed demo_cfg [Call_spawn 0x401000 5, Call_yield]
      (spec_signal (ChannelSem 1) (spec_initial demo_cfg))" by simp
  have p: "sp_sems (spec_initial demo_cfg) (ChannelSem 1) = Some (False, [])"
    by (simp add: demo_initial(2))
  have "\<forall>call \<in> set [Call_spawn 0x401000 5, Call_yield]. \<not> touches (ChannelSem 1) call" by simp
  from signal_kept [OF demo_refines p this al] show ?thesis by blast
qed

end
